(* ===== verification/Prelude.thy ===== *)
theory Prelude
  imports Main "HOL-Library.AList" "HOL-Library.Sublist"
begin

section \<open>Shared vocabulary of the development\<close>

text \<open>
  This theory holds what every component shares: the theorem collections, the ordered
  dictionary (a Python \<^verbatim>\<open>dict\<close> keeps insertion order, so it is an association list
  updated with \<open>AList.update\<close>), the exceptions of the program as a datatype, and the
  chaining of fallible computations as values of a sum type (\<open>Inl\<close> is the raised
  exception). Byte strings and the Latin-1 text of the HTTP layer are both lists of \<open>char\<close>:
  the code decodes header bytes with \<^verbatim>\<open>iso-8859-1\<close>, which maps byte \<open>n\<close> to code point \<open>n\<close>.
  Text that can hold other code points is \<open>ustr\<close>, a list of code points.
\<close>

named_theorems evals \<open>equations that evaluate a model of a Python builtin\<close>
named_theorems dict_simps \<open>lookups in ordered dictionaries\<close>

type_synonym bytes = "char list"
type_synonym str = "char list"
type_synonym ustr = "nat list"
type_synonym ('k, 'v) dict = "('k \<times> 'v) list"

abbreviation CR :: char where "CR \<equiv> CHR 0x0D"
abbreviation LF :: char where "LF \<equiv> CHR 0x0A"
abbreviation CRLF :: bytes where "CRLF \<equiv> [CR, LF]"
abbreviation DQUOTE :: char where "DQUOTE \<equiv> CHR 0x22"
abbreviation BACKSLASH :: char where "BACKSLASH \<equiv> CHR 0x5C"

subsection \<open>Ordered dictionaries\<close>

text \<open>
  \<open>d_get\<close> is \<^verbatim>\<open>d.get(k)\<close>, \<open>d_set\<close> is \<^verbatim>\<open>d[k] = v\<close> (an existing key keeps its place, a new
  one goes last), \<open>d_setdefault\<close> is \<^verbatim>\<open>d.setdefault(k, v)\<close>, \<open>d_update\<close> is \<^verbatim>\<open>d.update(e)\<close> and
  \<open>d_pop\<close> is \<^verbatim>\<open>d.pop(k, None)\<close>.
\<close>

definition d_get :: "('k, 'v) dict \<Rightarrow> 'k \<Rightarrow> 'v option" where
  "d_get d k = map_of d k"

definition d_set :: "'k \<Rightarrow> 'v \<Rightarrow> ('k, 'v) dict \<Rightarrow> ('k, 'v) dict" where
  "d_set k v d = AList.update k v d"

definition d_setdefault :: "'k \<Rightarrow> 'v \<Rightarrow> ('k, 'v) dict \<Rightarrow> ('k, 'v) dict" where
  "d_setdefault k v d = (case d_get d k of None \<Rightarrow> d_set k v d | Some _ \<Rightarrow> d)"

fun d_update :: "('k, 'v) dict \<Rightarrow> ('k, 'v) dict \<Rightarrow> ('k, 'v) dict" where
  "d_update d [] = d"
| "d_update d ((k, v) # es) = d_update (d_set k v d) es"

definition d_pop :: "'k \<Rightarrow> ('k, 'v) dict \<Rightarrow> ('k, 'v) dict" where
  "d_pop k d = AList.delete k d"

definition d_keys :: "('k, 'v) dict \<Rightarrow> 'k list" where
  "d_keys d = map fst d"

definition d_ok :: "('k, 'v) dict \<Rightarrow> bool" where
  "d_ok d = distinct (map fst d)"

lemma d_get_Nil [simp]: "d_get [] k = None"
  by (simp add: d_get_def)

lemma d_get_Cons [simp]: "d_get ((k', v) # d) k = (if k = k' then Some v else d_get d k)"
  by (simp add: d_get_def)

lemma d_get_append: "d_get (d @ e) k = (case d_get d k of None \<Rightarrow> d_get e k | Some v \<Rightarrow> Some v)"
  by (simp add: d_get_def map_add_def split: option.split)

lemma d_set_Nil [simp]: "d_set k v [] = [(k, v)]"
  by (simp add: d_set_def)

lemma d_set_Cons [simp]:
  "d_set k v ((k', v') # d) = (if k' = k then (k, v) # d else (k', v') # d_set k v d)"
  by (simp add: d_set_def)

lemma d_get_set [simp, dict_simps]: "d_get (d_set k v d) k' = (if k' = k then Some v else d_get d k')"
  by (simp add: d_get_def d_set_def update_conv)

lemma d_get_setdefault [simp, dict_simps]:
  "d_get (d_setdefault k v d) k' =
     (if k' = k then Some (case d_get d k of None \<Rightarrow> v | Some w \<Rightarrow> w) else d_get d k')"
  by (auto simp: d_setdefault_def split: option.splits)

lemma d_get_pop [simp, dict_simps]: "d_get (d_pop k d) k' = (if k' = k then None else d_get d k')"
  by (simp add: d_get_def d_pop_def delete_conv')

lemma d_get_update [dict_simps]:
  "d_ok e \<Longrightarrow> d_get (d_update d e) k = (case d_get e k of None \<Rightarrow> d_get d k | Some v \<Rightarrow> Some v)"
proof (induction d e rule: d_update.induct)
  case (2 d k' v es)
  then have "d_get es k' = None"
    by (simp add: d_ok_def d_get_def map_of_eq_None_iff)
  with 2 show ?case
    by (auto simp: d_ok_def split: option.splits)
qed simp

lemma d_get_None_iff: "d_get d k = None \<longleftrightarrow> k \<notin> set (map fst d)"
  by (simp add: d_get_def map_of_eq_None_iff)

lemma d_get_SomeD: "d_get d k = Some v \<Longrightarrow> (k, v) \<in> set d"
  by (simp add: d_get_def map_of_SomeD)

lemma d_set_keys: "set (map fst (d_set k v d)) = insert k (set (map fst d))"
  by (auto simp: d_set_def update_keys)

lemma d_ok_Nil [simp]: "d_ok []"
  by (simp add: d_ok_def)

lemma d_ok_set [simp, intro]: "d_ok d \<Longrightarrow> d_ok (d_set k v d)"
  by (simp add: d_ok_def d_set_def distinct_update)

lemma d_ok_setdefault [simp, intro]: "d_ok d \<Longrightarrow> d_ok (d_setdefault k v d)"
  by (simp add: d_setdefault_def split: option.split)

lemma d_ok_update [simp, intro]: "d_ok d \<Longrightarrow> d_ok (d_update d e)"
  by (induction d e rule: d_update.induct) auto

lemma d_set_set: "set (d_set k v d) \<subseteq> insert (k, v) (set d)"
  by (induction d) (auto split: if_splits)

lemma d_update_set: "set (d_update d e) \<subseteq> set d \<union> set e"
proof (induction d e rule: d_update.induct)
  case (2 d k v es)
  then show ?case
    using d_set_set [of k v d] by fastforce
qed simp

lemma d_set_new: "d_get d k = None \<Longrightarrow> d_set k v d = d @ [(k, v)]"
  by (induction d) (auto split: if_splits)

subsection \<open>Exceptions and fallible results\<close>

text \<open>
  \<open>HTTPError status message headers\<close> and the two closing signals are the classes of
  \<^verbatim>\<open>errors.py\<close>; \<open>PyError name\<close> is any other Python exception, which the servers turn into a
  500 answer.
\<close>

datatype exn =
    HTTPError int str "(str, str) dict"
  | ClientClosed
  | WebSocketClosed
  | PyError str

type_synonym 'a result = "exn + 'a"

definition rbind :: "'e + 'a \<Rightarrow> ('a \<Rightarrow> 'e + 'b) \<Rightarrow> 'e + 'b" where
  "rbind r f = (case r of Inl e \<Rightarrow> Inl e | Inr a \<Rightarrow> f a)"

lemma rbind_simps [simp]: "rbind (Inl e) f = Inl e" "rbind (Inr a) f = f a"
  by (simp_all add: rbind_def)

lemma rbind_Inr_iff: "rbind r f = Inr b \<longleftrightarrow> (\<exists>a. r = Inr a \<and> f a = Inr b)"
  by (cases r) auto

lemma rbind_Inl_iff: "rbind r f = Inl e \<longleftrightarrow> r = Inl e \<or> (\<exists>a. r = Inr a \<and> f a = Inl e)"
  by (cases r) auto

lemma rbind_cong [fundef_cong]:
  "r = r' \<Longrightarrow> (\<And>a. r' = Inr a \<Longrightarrow> f a = g a) \<Longrightarrow> rbind r f = rbind r' g"
  by (cases r') auto

text \<open>The same for computations that also pass a state along.\<close>

definition sbind :: "'a result \<times> 's \<Rightarrow> ('a \<Rightarrow> 's \<Rightarrow> 'b result \<times> 's) \<Rightarrow> 'b result \<times> 's" where
  "sbind m f = (case m of (Inl e, s) \<Rightarrow> (Inl e, s) | (Inr a, s) \<Rightarrow> f a s)"

lemma sbind_simps [simp]: "sbind (Inl e, s) f = (Inl e, s)" "sbind (Inr a, s) f = f a s"
  by (simp_all add: sbind_def)

lemma sbind_Inr_iff:
  "sbind m f = (Inr b, s') \<longleftrightarrow> (\<exists>a s. m = (Inr a, s) \<and> f a s = (Inr b, s'))"
  by (cases m; cases "fst m") (auto simp: sbind_def)

lemma sbind_cong [fundef_cong]:
  "m = m' \<Longrightarrow> (\<And>a s. m' = (Inr a, s) \<Longrightarrow> f a s = g a s) \<Longrightarrow> sbind m f = sbind m' g"
  by (auto simp: sbind_def split: prod.split sum.split)

end
