(* ===== verification/PyStr.thy ===== *)
theory PyStr
  imports Prelude
begin

section \<open>Python strings, bytes and integer literals\<close>

text \<open>
  The string and bytes methods the source calls: \<^verbatim>\<open>lower\<close>, \<^verbatim>\<open>strip\<close>, \<^verbatim>\<open>split\<close>, \<^verbatim>\<open>isdigit\<close>,
  \<^verbatim>\<open>int(text, base)\<close>, decimal and hexadecimal formatting. Text is Latin-1 here, so the
  character classes are those of Python's \<^verbatim>\<open>str\<close> below code point 256.
\<close>

subsection \<open>Character classes\<close>

definition code :: "char \<Rightarrow> nat" where
  "code c = of_char c"

definition lower_char :: "char \<Rightarrow> char" where
  "lower_char c = (let n = code c in
     if (65 \<le> n \<and> n \<le> 90) \<or> (192 \<le> n \<and> n \<le> 222 \<and> n \<noteq> 215) then char_of (n + 32) else c)"

definition lower :: "str \<Rightarrow> str" where
  "lower s = map lower_char s"

text \<open>\<^verbatim>\<open>upper\<close> is used on ASCII tokens only; other characters are left alone.\<close>

definition upper_char :: "char \<Rightarrow> char" where
  "upper_char c = (let n = code c in if 97 \<le> n \<and> n \<le> 122 then char_of (n - 32) else c)"

definition upper :: "str \<Rightarrow> str" where
  "upper s = map upper_char s"

definition is_space :: "char \<Rightarrow> bool" where
  "is_space c = (let n = code c in (9 \<le> n \<and> n \<le> 13) \<or> (28 \<le> n \<and> n \<le> 32) \<or> n = 133 \<or> n = 160)"

definition is_bspace :: "char \<Rightarrow> bool" where
  "is_bspace c = (let n = code c in (9 \<le> n \<and> n \<le> 13) \<or> n = 32)"

definition is_digit_char :: "char \<Rightarrow> bool" where
  "is_digit_char c = (let n = code c in (48 \<le> n \<and> n \<le> 57) \<or> n = 178 \<or> n = 179 \<or> n = 185)"

definition isdigit :: "str \<Rightarrow> bool" where
  "isdigit s = (s \<noteq> [] \<and> list_all is_digit_char s)"

definition strip_by :: "('a \<Rightarrow> bool) \<Rightarrow> 'a list \<Rightarrow> 'a list" where
  "strip_by P s = rev (dropWhile P (rev (dropWhile P s)))"

definition strip :: "str \<Rightarrow> str" where
  "strip s = strip_by is_space s"

definition bstrip :: "bytes \<Rightarrow> bytes" where
  "bstrip s = strip_by is_bspace s"

definition rstrip_by :: "('a \<Rightarrow> bool) \<Rightarrow> 'a list \<Rightarrow> 'a list" where
  "rstrip_by P s = rev (dropWhile P (rev s))"

lemma code_less: "code c < 256"
  by (simp add: code_def)

lemma char_of_code [simp]: "char_of (code c) = c"
  by (simp add: code_def)

lemma code_char_of [simp]: "n < 256 \<Longrightarrow> code (char_of n) = n"
  by (simp add: code_def)

lemma code_eq_iff: "code c = code d \<longleftrightarrow> c = d"
  by (simp add: code_def)

lemma strip_by_id: "list_all (\<lambda>x. \<not> P x) s \<Longrightarrow> strip_by P s = s"
proof -
  assume a: "list_all (\<lambda>x. \<not> P x) s"
  have d: "dropWhile P xs = xs" if "list_all (\<lambda>x. \<not> P x) xs" for xs
    using that by (cases xs) auto
  have "list_all (\<lambda>x. \<not> P x) (rev s)"
    using a by (simp add: list_all_iff)
  with a show ?thesis
    by (simp add: strip_by_def d)
qed

lemma strip_by_set: "set (strip_by P s) \<subseteq> set s"
proof -
  have "set (dropWhile P xs) \<subseteq> set xs" for xs
    by (auto dest: set_dropWhileD)
  from this [of "rev (dropWhile P s)"] this [of s] show ?thesis
    by (auto simp: strip_by_def)
qed

lemma strip_by_ends:
  "strip_by P s \<noteq> [] \<Longrightarrow> \<not> P (hd (strip_by P s)) \<and> \<not> P (last (strip_by P s))"
proof -
  let ?t = "dropWhile P s" let ?u = "dropWhile P (rev ?t)"
  assume "strip_by P s \<noteq> []"
  then have u: "?u \<noteq> []" by (simp add: strip_by_def)
  have hd: "\<not> P (hd (dropWhile P xs))" if "dropWhile P xs \<noteq> []" for xs
    using that by (meson dropWhile_eq_Nil_conv hd_dropWhile)
  obtain p where p: "rev ?t = p @ ?u"
    by (metis takeWhile_dropWhile_id)
  then have "?t = rev ?u @ rev p"
    by (metis rev_append rev_rev_ident)
  moreover have "hd (rev ?u @ rev p) = hd (rev ?u)"
    using u by simp
  ultimately have "hd (rev ?u) = hd ?t" "?t \<noteq> []"
    using u by (metis, metis append_is_Nil_conv rev_is_Nil_conv)
  with hd [OF u] hd [of s] u show ?thesis
    by (simp add: strip_by_def last_rev)
qed

subsection \<open>Searching and splitting\<close>

text \<open>
  \<open>split1 sep s\<close> is \<^verbatim>\<open>s.split(sep, 1)\<close> when \<open>sep\<close> occurs: the text before the first
  occurrence and the text after it. \<open>split_on\<close> is \<^verbatim>\<open>s.split(sep)\<close>.
\<close>

fun split1 :: "'a list \<Rightarrow> 'a list \<Rightarrow> ('a list \<times> 'a list) option" where
  "split1 sep [] = (if sep = [] then Some ([], []) else None)"
| "split1 sep (x # xs) =
     (if prefix sep (x # xs) then Some ([], drop (length sep) (x # xs))
      else (case split1 sep xs of None \<Rightarrow> None | Some (a, b) \<Rightarrow> Some (x # a, b)))"

text \<open>\<^verbatim>\<open>needle in hay\<close>.\<close>

definition in_text :: "str \<Rightarrow> str \<Rightarrow> bool" where
  "in_text needle hay = (needle = [] \<or> split1 needle hay \<noteq> None)"

lemma split1_append: "split1 sep s = Some (a, b) \<Longrightarrow> s = a @ sep @ b"
proof (induction sep s arbitrary: a b rule: split1.induct)
  case (2 sep x xs)
  then show ?case
    by (auto simp: prefix_def split: if_splits option.splits)
qed (auto split: if_splits)

lemma split1_length: "split1 sep s = Some (a, b) \<Longrightarrow> length s = length a + length sep + length b"
  using split1_append by fastforce

lemma split1_None_iff: "split1 sep s = None \<longleftrightarrow> \<not> sublist sep s"
proof (induction sep s rule: split1.induct)
  case (2 sep x xs)
  then show ?case
    by (auto simp: sublist_Cons_right split: option.splits)
qed auto

text \<open>The occurrence that \<open>split1\<close> takes is the first one: none ends before it.\<close>

lemma split1_first:
  "split1 sep s = Some (a, b) \<Longrightarrow> sep \<noteq> [] \<Longrightarrow> \<not> sublist sep (a @ butlast sep)"
proof (induction sep s arbitrary: a b rule: split1.induct)
  case (2 sep x xs)
  show ?case
  proof (cases "prefix sep (x # xs)")
    case True
    with 2 have "a = []" by simp
    then show ?thesis
      using "2.prems" by (metis append_Nil length_butlast length_greater_0_conv
          diff_less less_one linorder_not_less sublist_length_le zero_less_one)
  next
    case False
    with 2 obtain a' where a': "a = x # a'" "split1 sep xs = Some (a', b)"
      by (auto split: option.splits)
    with 2 False have ih: "\<not> sublist sep (a' @ butlast sep)" by blast
    have "\<not> prefix sep (x # a' @ butlast sep)"
    proof
      assume "prefix sep (x # a' @ butlast sep)"
      moreover have "prefix (x # a' @ butlast sep) (x # xs)"
        using split1_append [OF a'(2)] "2.prems"(2)
        by (metis append.assoc append_butlast_last_id prefixI append_Cons)
      ultimately show False using False prefix_order.trans by blast
    qed
    with ih a'(1) show ?thesis by (simp add: sublist_Cons_right)
  qed
qed (auto split: if_splits)

text \<open>The converse: an occurrence none of which starts earlier is the one found.\<close>

lemma split1_hd_notin:
  "sep \<noteq> [] \<Longrightarrow> hd sep \<notin> set a \<Longrightarrow> split1 sep (a @ sep @ b) = Some (a, b)"
proof (induction a)
  case Nil
  then obtain y ys where s: "sep = y # ys" by (cases sep) auto
  have "prefix (y # ys) (y # ys @ b)" by simp
  with s show ?case by simp
next
  case (Cons x a)
  then have "\<not> prefix sep (x # a @ sep @ b)"
    by (cases sep) auto
  with Cons show ?case by simp
qed

lemma split1_hd_notin_None: "sep \<noteq> [] \<Longrightarrow> hd sep \<notin> set a \<Longrightarrow> split1 sep a = None"
proof (induction a)
  case (Cons x a)
  then have "\<not> prefix sep (x # a)" by (cases sep) auto
  with Cons show ?case by simp
qed simp

text \<open>
  Extending the text to the right does not move the first occurrence.
\<close>

lemma split1_extend: "split1 sep s = Some (a, b) \<Longrightarrow> sep \<noteq> [] \<Longrightarrow> split1 sep (s @ t) = Some (a, b @ t)"
proof (induction sep s arbitrary: a b rule: split1.induct)
  case (2 sep x xs)
  show ?case
  proof (cases "prefix sep (x # xs)")
    case True
    then have "prefix sep ((x # xs) @ t)" "length sep \<le> length (x # xs)"
      by (rule prefix_prefix, rule prefix_length_le)
    then have "drop (length sep) ((x # xs) @ t) = drop (length sep) (x # xs) @ t"
      by (simp only: drop_append) simp
    with True 2 \<open>prefix sep ((x # xs) @ t)\<close> show ?thesis by auto
  next
    case False
    with 2 obtain a' where a': "a = x # a'" "split1 sep xs = Some (a', b)"
      by (auto split: option.splits)
    have "length sep \<le> length xs"
      using split1_length [OF a'(2)] by simp
    then have "\<not> prefix sep (x # xs @ t)"
      using False prefix_length_prefix [of sep "x # xs @ t" "x # xs"] by auto
    with 2 False a' show ?thesis by simp
  qed
qed (auto split: if_splits)

function split_on :: "'a list \<Rightarrow> 'a list \<Rightarrow> 'a list list" where
  "split_on sep s =
     (if sep = [] then [s]
      else (case split1 sep s of None \<Rightarrow> [s] | Some (a, b) \<Rightarrow> a # split_on sep b))"
  by pat_completeness auto
termination
  by (relation "measure (\<lambda>(sep, s). length s)") (auto dest!: split1_length)

declare split_on.simps [simp del]

fun join :: "'a list \<Rightarrow> 'a list list \<Rightarrow> 'a list" where
  "join sep [] = []"
| "join sep [p] = p"
| "join sep (p # q # ps) = p @ sep @ join sep (q # ps)"

lemma split_on_nonempty [simp]: "split_on sep s \<noteq> []"
  by (subst split_on.simps) (auto split: option.split)

lemma join_Cons: "ps \<noteq> [] \<Longrightarrow> join sep (p # ps) = p @ sep @ join sep ps"
  by (cases ps) auto

lemma join_split_on: "join sep (split_on sep s) = s"
proof (induction sep s rule: split_on.induct)
  case (1 sep s)
  show ?case
  proof (cases "split1 sep s")
    case None
    then show ?thesis by (simp add: split_on.simps [of sep s])
  next
    case (Some p)
    obtain a b where p: "p = (a, b)" by force
    with Some 1 show ?thesis
      by (auto simp: split_on.simps [of sep s] join_Cons dest: split1_append)
  qed
qed

lemma split_on_join:
  "sep \<noteq> [] \<Longrightarrow> ps \<noteq> [] \<Longrightarrow> (\<And>p. p \<in> set ps \<Longrightarrow> hd sep \<notin> set p) \<Longrightarrow>
   split_on sep (join sep ps) = ps"
proof (induction ps)
  case (Cons p ps)
  show ?case
  proof (cases "ps = []")
    case True
    with Cons show ?thesis
      by (simp add: split_on.simps [of sep p] split1_hd_notin_None)
  next
    case False
    with Cons have "split1 sep (p @ sep @ join sep ps) = Some (p, join sep ps)"
      by (intro split1_hd_notin) auto
    with Cons False show ?thesis
      by (simp add: join_Cons split_on.simps [of sep "p @ sep @ join sep ps"])
  qed
qed simp

lemma split_on_elem: "p \<in> set (split_on sep s) \<Longrightarrow> sep \<noteq> [] \<Longrightarrow> \<not> sublist sep p"
proof (induction sep s rule: split_on.induct)
  case (1 sep s)
  show ?case
  proof (cases "split1 sep s")
    case None
    with 1 show ?thesis by (simp add: split_on.simps [of sep s] split1_None_iff)
  next
    case (Some q)
    obtain a b where q: "q = (a, b)" by force
    have "\<not> sublist sep a"
      using split1_first [of sep s a b] Some q 1(3) sublist_append_rightI [of a "butlast sep"]
      by (meson sublist_order.order_trans)
    with Some q 1 show ?thesis
      by (auto simp: split_on.simps [of sep s])
  qed
qed

end
