(* ===== verification/PyInt.thy ===== *)
theory PyInt
  imports PyStr
begin

section \<open>Integer literals: \<^verbatim>\<open>int(text, base)\<close> and number formatting\<close>

text \<open>
  Python's \<^verbatim>\<open>int(text, base)\<close> accepts surrounding white space, one sign, single underscores
  between digits and, in base 16, a \<^verbatim>\<open>0x\<close> prefix. In base 10 it refuses more than 4300
  digits (\<^verbatim>\<open>sys.int_info.default_max_str_digits\<close>). \<open>None\<close> is the \<^verbatim>\<open>ValueError\<close>.
\<close>

definition digit_val :: "char \<Rightarrow> nat option" where
  "digit_val c = (let n = code c in
     if 48 \<le> n \<and> n \<le> 57 then Some (n - 48)
     else if 65 \<le> n \<and> n \<le> 70 then Some (n - 55)
     else if 97 \<le> n \<and> n \<le> 102 then Some (n - 87) else None)"

fun digits_from :: "nat \<Rightarrow> nat \<Rightarrow> bool \<Rightarrow> str \<Rightarrow> nat option" where
  "digits_from base acc ok [] = (if ok then Some acc else None)"
| "digits_from base acc ok (c # cs) =
     (if c = CHR ''_'' then (if ok then digits_from base acc False cs else None)
      else (case digit_val c of None \<Rightarrow> None
            | Some d \<Rightarrow> if d < base then digits_from base (acc * base + d) True cs else None))"

definition max_str_digits :: nat where
  "max_str_digits = 4300"

definition drop_prefix16 :: "str \<Rightarrow> str" where
  "drop_prefix16 s =
     (if take 2 s = ''0x'' \<or> take 2 s = ''0X''
      then (if take 1 (drop 2 s) = ''_'' then drop 3 s else drop 2 s) else s)"

definition parse_nat :: "nat \<Rightarrow> str \<Rightarrow> nat option" where
  "parse_nat base s =
     (if base = 10 \<and> max_str_digits < length (filter (\<lambda>c. c \<noteq> CHR ''_'') s) then None
      else digits_from base 0 False (if base = 16 then drop_prefix16 s else s))"

definition parse_int :: "nat \<Rightarrow> str \<Rightarrow> int option" where
  "parse_int base s =
     (case s of
        [] \<Rightarrow> None
      | c # cs \<Rightarrow>
          if c = CHR ''-'' then map_option (\<lambda>n. - int n) (parse_nat base cs)
          else if c = CHR ''+'' then map_option int (parse_nat base cs)
          else map_option int (parse_nat base s))"

text \<open>\<open>py_int\<close> is \<^verbatim>\<open>int(s)\<close> on a \<^verbatim>\<open>str\<close>, \<open>bytes_int16\<close> is \<^verbatim>\<open>int(b, 16)\<close> on \<^verbatim>\<open>bytes\<close>.\<close>

definition py_int :: "str \<Rightarrow> int option" where
  "py_int s = parse_int 10 (strip s)"

definition bytes_int16 :: "bytes \<Rightarrow> int option" where
  "bytes_int16 b = parse_int 16 (bstrip b)"

subsection \<open>Formatting\<close>

definition digit_char :: "nat \<Rightarrow> char" where
  "digit_char d = char_of (if d < 10 then d + 48 else d + 55)"

function show_base :: "nat \<Rightarrow> nat \<Rightarrow> str" where
  "show_base base n =
     (if base < 2 \<or> n < base then [digit_char n]
      else show_base base (n div base) @ [digit_char (n mod base)])"
  by pat_completeness auto
termination
  by (relation "measure (\<lambda>(b, n). n)") auto

declare show_base.simps [simp del]

text \<open>\<open>show_nat\<close> and \<open>show_int\<close> are \<^verbatim>\<open>str(n)\<close>, \<open>show_hex\<close> is \<^verbatim>\<open>f"{n:X}"\<close>.\<close>

definition show_nat :: "nat \<Rightarrow> str" where
  "show_nat n = show_base 10 n"

definition show_hex :: "nat \<Rightarrow> str" where
  "show_hex n = show_base 16 n"

definition show_int :: "int \<Rightarrow> str" where
  "show_int i = (if i < 0 then ''-'' @ show_nat (nat (- i)) else show_nat (nat i))"

subsection \<open>Formatting and parsing agree\<close>

lemma digit_val_char: "d < 16 \<Longrightarrow> digit_val (digit_char d) = Some d"
  by (auto simp: digit_val_def digit_char_def Let_def)

lemma digit_char_neq:
  assumes "d < 16"
  shows "digit_char d \<noteq> CHR ''_''" "digit_char d \<noteq> CHR ''-''" "digit_char d \<noteq> CHR ''+''"
    "digit_char d \<noteq> CHR ''x''" "digit_char d \<noteq> CHR ''X''" "digit_char d \<noteq> CHR '';''"
    "\<not> is_bspace (digit_char d)" "digit_char d \<noteq> CR" "digit_char d \<noteq> LF"
proof -
  have c: "code (digit_char d) = (if d < 10 then d + 48 else d + 55)"
    using assms by (simp add: digit_char_def)
  show "digit_char d \<noteq> CHR ''_''" "digit_char d \<noteq> CHR ''-''" "digit_char d \<noteq> CHR ''+''"
    "digit_char d \<noteq> CHR ''x''" "digit_char d \<noteq> CHR ''X''" "digit_char d \<noteq> CHR '';''"
    "digit_char d \<noteq> CR" "digit_char d \<noteq> LF"
    using c assms by (auto simp: code_def split: if_splits)
  show "\<not> is_bspace (digit_char d)"
    using c assms by (simp add: is_bspace_def Let_def split: if_splits)
qed


lemma digits_from_snoc:
  "d < b \<Longrightarrow> b \<le> 16 \<Longrightarrow> digits_from b acc ok xs = Some m \<Longrightarrow>
   digits_from b acc ok (xs @ [digit_char d]) = Some (m * b + d)"
proof (induction b acc ok xs rule: digits_from.induct)
  case (1 base acc ok)
  then show ?case
    by (auto simp: digit_val_char digit_char_neq split: if_splits)
next
  case (2 base acc ok c cs)
  then show ?case
    by (auto split: if_splits option.splits)
qed

lemma digits_from_show:
  "2 \<le> b \<Longrightarrow> b \<le> 16 \<Longrightarrow> digits_from b 0 ok (show_base b n) = Some n"
proof (induction n rule: less_induct)
  case (less n)
  show ?case
  proof (cases "n < b")
    case True
    with less show ?thesis
      by (simp add: show_base.simps [of b n] digit_val_char digit_char_neq)
  next
    case False
    with less have "digits_from b 0 ok (show_base b (n div b)) = Some (n div b)" by simp
    with less.prems False show ?thesis
      by (simp add: show_base.simps [of b n] digits_from_snoc)
  qed
qed

lemma show_base_digits: "2 \<le> b \<Longrightarrow> c \<in> set (show_base b n) \<Longrightarrow> \<exists>d < b. c = digit_char d"
proof (induction n rule: less_induct)
  case (less n)
  show ?case
  proof (cases "n < b \<or> c = digit_char (n mod b)")
    case True
    with less.prems show ?thesis
      by (auto simp: show_base.simps [of b n] split: if_splits) (metis mod_less_divisor gr0I not_numeral_le_zero)+
  next
    case False
    with less.prems have "n div b < n" "c \<in> set (show_base b (n div b))"
      by (simp_all add: show_base.simps [of b n])
    with less show ?thesis by blast
  qed
qed

lemma show_base_nonempty [simp]: "show_base b n \<noteq> []"
  by (subst show_base.simps) simp

lemma show_base_length:
  "2 \<le> b \<Longrightarrow> n < b ^ k \<Longrightarrow> 0 < k \<Longrightarrow> length (show_base b n) \<le> k"
proof (induction k arbitrary: n)
  case (Suc k)
  show ?case
  proof (cases "n < b")
    case True
    then show ?thesis by (simp add: show_base.simps [of b n])
  next
    case False
    with Suc.prems have "0 < k" by (cases k) auto
    have "n div b < b ^ k"
      using Suc.prems by (simp add: less_mult_imp_div_less mult.commute)
    with Suc \<open>0 < k\<close> False show ?thesis
      by (simp add: show_base.simps [of b n])
  qed
qed simp

lemma show_hex_chars:
  assumes "c \<in> set (show_hex n)"
  shows "c \<noteq> CHR ''_''" "c \<noteq> CHR ''-''" "c \<noteq> CHR ''+''" "c \<noteq> CHR ''x''" "c \<noteq> CHR ''X''"
    "c \<noteq> CHR '';''" "\<not> is_bspace c" "c \<noteq> CR" "c \<noteq> LF"
proof -
  from assms obtain d where "d < 16" "c = digit_char d"
    using show_base_digits [of 16 c n] by (auto simp: show_hex_def)
  then show "c \<noteq> CHR ''_''" "c \<noteq> CHR ''-''" "c \<noteq> CHR ''+''" "c \<noteq> CHR ''x''" "c \<noteq> CHR ''X''"
    "c \<noteq> CHR '';''" "\<not> is_bspace c" "c \<noteq> CR" "c \<noteq> LF"
    using digit_char_neq by auto
qed

lemma show_hex_no_prefix: "drop_prefix16 (show_hex n) = show_hex n"
proof -
  have "CHR ''x'' \<notin> set (show_hex n)" "CHR ''X'' \<notin> set (show_hex n)"
    using show_hex_chars(4,5) by blast+
  then have "CHR ''x'' \<notin> set (take 2 (show_hex n))" "CHR ''X'' \<notin> set (take 2 (show_hex n))"
    by (meson in_set_takeD)+
  then have "take 2 (show_hex n) \<noteq> ''0x''" "take 2 (show_hex n) \<noteq> ''0X''" by auto
  then show ?thesis by (simp add: drop_prefix16_def)
qed

lemma parse_int_plain:
  "s \<noteq> [] \<Longrightarrow> hd s \<noteq> CHR ''-'' \<Longrightarrow> hd s \<noteq> CHR ''+'' \<Longrightarrow>
   parse_int b s = map_option int (parse_nat b s)"
  by (cases s) (auto simp: parse_int_def)

text \<open>A size written with \<^verbatim>\<open>f"{n:X}"\<close> is read back by \<^verbatim>\<open>int(_, 16)\<close>.\<close>

lemma bytes_int16_show_hex: "bytes_int16 (show_hex n) = Some (int n)"
proof -
  have "list_all (\<lambda>c. \<not> is_bspace c) (show_hex n)"
    using show_hex_chars(7) by (auto simp: list_all_iff)
  then have "bstrip (show_hex n) = show_hex n"
    by (simp add: bstrip_def strip_by_id)
  moreover have "show_hex n \<noteq> []" by (simp add: show_hex_def)
  moreover have "parse_nat 16 (show_hex n) = Some n"
    by (simp add: parse_nat_def show_hex_no_prefix) (simp add: show_hex_def digits_from_show)
  ultimately show ?thesis
    using show_hex_chars(2,3) [of "hd (show_hex n)" n]
    by (simp add: bytes_int16_def parse_int_plain)
qed

lemma show_nat_chars:
  assumes "c \<in> set (show_nat n)"
  shows "48 \<le> code c" "code c \<le> 57"
proof -
  from assms obtain d where "d < 10" "c = digit_char d"
    using show_base_digits [of 10 c n] by (auto simp: show_nat_def)
  then show "48 \<le> code c" "code c \<le> 57"
    by (simp_all add: digit_char_def)
qed

lemma show_nat_isdigit: "isdigit (show_nat n)"
  using show_nat_chars [of _ n]
  by (auto simp: isdigit_def list_all_iff is_digit_char_def show_nat_def Let_def)

lemma show_nat_chars_neq:
  assumes "c \<in> set (show_nat n)"
  shows "\<not> is_space c" "c \<noteq> CHR ''-''" "c \<noteq> CHR ''+''" "c \<noteq> CHR ''_''" "c \<noteq> CR" "c \<noteq> LF"
    "c \<noteq> CHR '' ''"
  using show_nat_chars [OF assms] by (auto simp: is_space_def code_def Let_def)

text \<open>Any number of at most 4300 digits survives \<^verbatim>\<open>int(str(n))\<close>.\<close>

lemma py_int_show_nat:
  assumes "n < 10 ^ max_str_digits"
  shows "py_int (show_nat n) = Some (int n)"
proof -
  have "list_all (\<lambda>c. \<not> is_space c) (show_nat n)"
    using show_nat_chars_neq(1) by (auto simp: list_all_iff)
  then have s: "strip (show_nat n) = show_nat n"
    by (simp add: strip_def strip_by_id)
  have ne: "show_nat n \<noteq> []" by (simp add: show_nat_def)
  have "length (filter (\<lambda>c. c \<noteq> CHR ''_'') (show_nat n)) \<le> length (show_nat n)"
    by simp
  also have "\<dots> \<le> max_str_digits"
    unfolding show_nat_def
    by (rule show_base_length [OF _ assms]) (simp_all add: max_str_digits_def)
  finally have "parse_nat 10 (show_nat n) = Some n"
    by (simp add: parse_nat_def) (simp add: show_nat_def digits_from_show)
  with ne s show ?thesis
    using show_nat_chars_neq(2,3) [of "hd (show_nat n)" n]
    by (simp add: py_int_def parse_int_plain)
qed

end
