(* ===== verification/Utf8.thy ===== *)
theory Utf8
  imports PyInt
begin

section \<open>UTF-8 and percent decoding\<close>

text \<open>
  \<^verbatim>\<open>str.encode("utf-8")\<close>, \<^verbatim>\<open>bytes.decode("utf-8")\<close> with \<^verbatim>\<open>errors="strict"\<close> and
  \<^verbatim>\<open>errors="replace"\<close>, and \<^verbatim>\<open>urllib.parse.unquote\<close>. Bytes are numbers below 256 here and text
  is a list of code points. A broken sequence is replaced by U+FFFD once per maximal prefix
  of a valid sequence, as CPython does.
\<close>

definition uni :: "str \<Rightarrow> ustr" where
  "uni s = map code s"

definition is_scalar :: "nat \<Rightarrow> bool" where
  "is_scalar n = (n < 0xD800 \<or> (0xE000 \<le> n \<and> n < 0x110000))"

definition u8_char :: "nat \<Rightarrow> nat list" where
  "u8_char n =
     (if n < 0x80 then [n]
      else if n < 0x800 then [0xC0 + n div 64, 0x80 + n mod 64]
      else if n < 0x10000 then [0xE0 + n div 4096, 0x80 + n div 64 mod 64, 0x80 + n mod 64]
      else [0xF0 + n div 262144, 0x80 + n div 4096 mod 64, 0x80 + n div 64 mod 64, 0x80 + n mod 64])"

text \<open>Encoding fails on a lone surrogate (\<^verbatim>\<open>UnicodeEncodeError\<close>): the result is then \<open>None\<close>.\<close>

definition u8_encode :: "ustr \<Rightarrow> nat list option" where
  "u8_encode s = (if list_all is_scalar s then Some (concat (map u8_char s)) else None)"

definition cont :: "nat \<Rightarrow> bool" where
  "cont b = (0x80 \<le> b \<and> b \<le> 0xBF)"

text \<open>The range the second byte must lie in, given the first; \<open>None\<close> for a byte that starts no sequence.\<close>

definition second_range :: "nat \<Rightarrow> (nat \<times> nat) option" where
  "second_range b =
     (if b < 0xC2 \<or> 0xF4 < b then None
      else if b = 0xE0 then Some (0xA0, 0xBF)
      else if b = 0xED then Some (0x80, 0x9F)
      else if b = 0xF0 then Some (0x90, 0xBF)
      else if b = 0xF4 then Some (0x80, 0x8F)
      else Some (0x80, 0xBF))"

definition second_ok :: "nat \<Rightarrow> nat \<Rightarrow> bool" where
  "second_ok b c = (case second_range b of None \<Rightarrow> False | Some (lo, hi) \<Rightarrow> lo \<le> c \<and> c \<le> hi)"

text \<open>
  \<open>u8_next bs\<close> reads one code point: the code point (\<open>None\<close> for a broken sequence) and the
  number of bytes consumed.
\<close>

fun u8_next :: "nat list \<Rightarrow> nat option \<times> nat" where
  "u8_next [] = (None, 0)"
| "u8_next (b # bs) =
     (if b < 0x80 then (Some b, 1)
      else (case bs of
          [] \<Rightarrow> (None, 1)
        | c # cs \<Rightarrow>
            if \<not> second_ok b c then (None, 1)
            else if b < 0xE0 then (Some ((b - 0xC0) * 64 + (c - 0x80)), 2)
            else (case cs of
                [] \<Rightarrow> (None, 2)
              | d # ds \<Rightarrow>
                  if \<not> cont d then (None, 2)
                  else if b < 0xF0 then
                    (Some ((b - 0xE0) * 4096 + (c - 0x80) * 64 + (d - 0x80)), 3)
                  else (case ds of
                      [] \<Rightarrow> (None, 3)
                    | e # es \<Rightarrow>
                        if \<not> cont e then (None, 3)
                        else (Some ((b - 0xF0) * 262144 + (c - 0x80) * 4096
                                + (d - 0x80) * 64 + (e - 0x80)), 4)))))"

lemma u8_next_pos: "bs \<noteq> [] \<Longrightarrow> 0 < snd (u8_next bs)"
  by (cases bs) (auto split: list.split)

lemma u8_next_progress: "(r, k) = u8_next bs \<Longrightarrow> bs \<noteq> [] \<Longrightarrow> 0 < k"
  using u8_next_pos [of bs] by (metis snd_conv)

function u8_replace :: "nat list \<Rightarrow> ustr" where
  "u8_replace bs =
     (if bs = [] then []
      else (case u8_next bs of (r, k) \<Rightarrow>
        (case r of None \<Rightarrow> 0xFFFD | Some n \<Rightarrow> n) # u8_replace (drop k bs)))"
  by pat_completeness auto
termination
  by (relation "measure length") (auto dest: u8_next_progress)

declare u8_replace.simps [simp del]

function u8_strict :: "nat list \<Rightarrow> ustr option" where
  "u8_strict bs =
     (if bs = [] then Some []
      else (case u8_next bs of
          (None, k) \<Rightarrow> None
        | (Some n, k) \<Rightarrow> map_option ((#) n) (u8_strict (drop k bs))))"
  by pat_completeness auto
termination
  by (relation "measure length") (auto dest: u8_next_progress)

declare u8_strict.simps [simp del]

subsection \<open>Round trip\<close>

lemma u8_next_two:
  "2 \<le> q \<Longrightarrow> q < 32 \<Longrightarrow> r < 64 \<Longrightarrow> u8_next ([0xC0 + q, 0x80 + r] @ rest) = (Some (q * 64 + r), 2)"
  by (simp add: second_ok_def second_range_def)

lemma u8_next_three:
  "q < 16 \<Longrightarrow> r < 64 \<Longrightarrow> t < 64 \<Longrightarrow> (q = 0 \<Longrightarrow> 32 \<le> r) \<Longrightarrow> (q = 13 \<Longrightarrow> r < 32) \<Longrightarrow>
   u8_next ([0xE0 + q, 0x80 + r, 0x80 + t] @ rest) = (Some (q * 4096 + r * 64 + t), 3)"
  by (auto simp: second_ok_def second_range_def cont_def)

lemma u8_next_four:
  "q \<le> 4 \<Longrightarrow> r < 64 \<Longrightarrow> t < 64 \<Longrightarrow> v < 64 \<Longrightarrow> (q = 0 \<Longrightarrow> 16 \<le> r) \<Longrightarrow> (q = 4 \<Longrightarrow> r < 16) \<Longrightarrow>
   u8_next ([0xF0 + q, 0x80 + r, 0x80 + t, 0x80 + v] @ rest) =
     (Some (q * 262144 + r * 4096 + t * 64 + v), 4)"
  by (auto simp: second_ok_def second_range_def cont_def)

lemma u8_next_char:
  assumes "is_scalar n"
  shows "u8_next (u8_char n @ rest) = (Some n, length (u8_char n))"
proof -
  consider "n < 0x80" | "0x80 \<le> n" "n < 0x800" | "0x800 \<le> n" "n < 0x10000" | "0x10000 \<le> n" "n < 0x110000"
    using assms by (auto simp: is_scalar_def) linarith+
  then show ?thesis
  proof cases
    case 1 then show ?thesis by (simp add: u8_char_def)
  next
    case 2
    have "n div 64 < 32" "2 \<le> n div 64" using 2 by auto
    then have "u8_next ([0xC0 + n div 64, 0x80 + n mod 64] @ rest) = (Some (n div 64 * 64 + n mod 64), 2)"
      by (intro u8_next_two) auto
    then show ?thesis using 2 by (simp add: u8_char_def)
  next
    case 3
    define q r t where "q = n div 4096" and "r = n div 64 mod 64" and "t = n mod 64"
    have "q = n div 64 div 64" by (simp add: q_def div_mult2_eq [symmetric])
    then have "q * 64 + r = n div 64" by (simp add: r_def)
    then have n: "q * 4096 + r * 64 + t = n"
      using div_mult_mod_eq [of n 64] unfolding t_def by linarith
    have b: "q < 16" "r < 64" "t < 64" using 3 by (auto simp: q_def r_def t_def)
    have e0: "q = 0 \<Longrightarrow> 32 \<le> r" using 3(1) n b by linarith
    have ed: "q = 13 \<Longrightarrow> r < 32" using assms 3 n b unfolding is_scalar_def by linarith
    from u8_next_three [OF b e0 ed, of rest] 3 n show ?thesis
      by (simp add: u8_char_def q_def [symmetric] r_def [symmetric] t_def [symmetric])
  next
    case 4
    define q r t v where "q = n div 262144" and "r = n div 4096 mod 64" and "t = n div 64 mod 64"
      and "v = n mod 64"
    have "q = n div 4096 div 64" by (simp add: q_def div_mult2_eq [symmetric])
    then have "q * 64 + r = n div 4096" by (simp add: r_def)
    moreover have "n div 4096 = n div 64 div 64" by (simp add: div_mult2_eq [symmetric])
    ultimately have "(q * 64 + r) * 64 + t = n div 64" by (simp add: t_def)
    then have "((q * 64 + r) * 64 + t) * 64 + v = n" by (simp only: v_def div_mult_mod_eq)
    then have n: "q * 262144 + r * 4096 + t * 64 + v = n" by (simp add: algebra_simps)
    have b: "q \<le> 4" "r < 64" "t < 64" "v < 64" using 4 by (auto simp: q_def r_def t_def v_def)
    have e0: "q = 0 \<Longrightarrow> 16 \<le> r" using 4(1) n b by linarith
    have ed: "q = 4 \<Longrightarrow> r < 16" using 4(2) n b by linarith
    from u8_next_four [OF b e0 ed, of rest] 4 n show ?thesis
      by (simp add: u8_char_def q_def [symmetric] r_def [symmetric] t_def [symmetric] v_def [symmetric])
  qed
qed

lemma u8_char_nonempty [simp]: "u8_char n \<noteq> []"
  by (simp add: u8_char_def)

lemma u8_strict_concat:
  "list_all is_scalar s \<Longrightarrow> u8_strict (concat (map u8_char s)) = Some s"
proof (induction s)
  case (Cons n s)
  then have "u8_next (u8_char n @ concat (map u8_char s)) = (Some n, length (u8_char n))"
    by (intro u8_next_char) simp
  with Cons show ?case
    by (simp add: u8_strict.simps [of "u8_char n @ concat (map u8_char s)"])
qed (simp add: u8_strict.simps)

lemma u8_strict_encode: "u8_encode s = Some bs \<Longrightarrow> u8_strict bs = Some s"
  by (auto simp: u8_encode_def u8_strict_concat split: if_splits)

lemma u8_replace_ascii: "list_all (\<lambda>b. b < 0x80) bs \<Longrightarrow> u8_replace bs = bs"
proof (induction bs)
  case Nil
  show ?case by (simp add: u8_replace.simps)
next
  case (Cons b bs)
  then show ?case by (simp add: u8_replace.simps [of "b # bs"])
qed

subsection \<open>Percent decoding\<close>

definition hexval :: "nat \<Rightarrow> nat option" where
  "hexval n = (if n < 256 then digit_val (char_of n) else None)"

text \<open>\<^verbatim>\<open>unquote_to_bytes\<close>: a \<^verbatim>\<open>%\<close> followed by two hex digits is one byte, any other \<^verbatim>\<open>%\<close> stays.\<close>

fun pct_bytes :: "nat list \<Rightarrow> nat list" where
  "pct_bytes (p # a # b # rest) =
     (if p = 37 then
        (case (hexval a, hexval b) of
           (Some x, Some y) \<Rightarrow> (x * 16 + y) # pct_bytes rest
         | _ \<Rightarrow> p # pct_bytes (a # b # rest))
      else p # pct_bytes (a # b # rest))"
| "pct_bytes s = s"

text \<open>\<^verbatim>\<open>unquote\<close> decodes each maximal run of ASCII characters and keeps the others.\<close>

function unquote :: "ustr \<Rightarrow> ustr" where
  "unquote s =
     (case s of
        [] \<Rightarrow> []
      | c # cs \<Rightarrow>
          if c < 0x80 then
            u8_replace (pct_bytes (takeWhile (\<lambda>n. n < 0x80) s)) @ unquote (dropWhile (\<lambda>n. n < 0x80) s)
          else c # unquote cs)"
  by pat_completeness auto
termination
  by (relation "measure length") (auto intro: le_less_trans [OF length_dropWhile_le])

declare unquote.simps [simp del]

lemma pct_bytes_no_pct: "37 \<notin> set s \<Longrightarrow> pct_bytes s = s"
  by (induction s rule: pct_bytes.induct) auto

text \<open>Text without a percent sign is unchanged.\<close>

lemma unquote_no_pct: "37 \<notin> set s \<Longrightarrow> unquote s = s"
proof (induction s rule: unquote.induct)
  case (1 s)
  show ?case
  proof (cases s)
    case Nil
    then show ?thesis by (simp add: unquote.simps)
  next
    case (Cons c cs)
    define t where "t = takeWhile (\<lambda>n. n < 0x80) s"
    define d where "d = dropWhile (\<lambda>n. n < 0x80) s"
    have td: "t @ d = s" by (simp add: t_def d_def)
    show ?thesis
    proof (cases "c < 0x80")
      case True
      have pct: "37 \<notin> set t" "37 \<notin> set d"
        using "1.prems" by (simp_all add: td [symmetric])
      have "list_all (\<lambda>b. b < 0x80) t"
        unfolding list_all_iff t_def by (blast dest: set_takeWhileD)
      with pct have "u8_replace (pct_bytes t) = t"
        by (simp add: pct_bytes_no_pct u8_replace_ascii)
      moreover have "unquote d = d"
        using "1.IH"(1) [OF Cons True] pct(2) by (simp add: d_def)
      moreover have "unquote s = u8_replace (pct_bytes t) @ unquote d"
        unfolding t_def d_def by (subst unquote.simps) (simp add: Cons True)
      ultimately show ?thesis by (simp add: td)
    next
      case False
      with 1 Cons have "unquote cs = cs" by simp
      then show ?thesis by (subst unquote.simps) (simp add: Cons False)
    qed
  qed
qed

lemma u8_encode_ascii: "list_all (\<lambda>c. c < 128) t \<Longrightarrow> u8_encode t = Some t"
proof -
  assume a: "list_all (\<lambda>c. c < 128) t"
  then have "list_all is_scalar t" by (auto simp: list_all_iff is_scalar_def)
  moreover have "concat (map u8_char t) = t" using a by (induction t) (auto simp: u8_char_def)
  ultimately show ?thesis by (simp add: u8_encode_def)
qed

end
