(* ===== verification/Http.thy ===== *)
theory Http
  imports Complex_Main Utf8
begin

section \<open>Requests, responses, configuration and status codes\<close>

text \<open>
  The data of \<^verbatim>\<open>errors.py\<close>, \<^verbatim>\<open>config.py\<close>, \<^verbatim>\<open>request.py\<close> and \<^verbatim>\<open>responses.py\<close>: the status
  table, the server configuration, the request record with its derived attributes (path,
  query, cookies) and the two kinds of response. Seconds are rational numbers.
\<close>

text \<open>\<^verbatim>\<open>int(x)\<close> of a float truncates.\<close>

definition trunc :: "rat \<Rightarrow> int" where
  "trunc x = (if 0 \<le> x then \<lfloor>x\<rfloor> else - \<lfloor>- x\<rfloor>)"

subsection \<open>errors.py\<close>

definition STATUS_REASONS :: "(int, str) dict" where
  "STATUS_REASONS =
    [(101, ''Switching Protocols''), (200, ''OK''), (201, ''Created''), (204, ''No Content''),
     (304, ''Not Modified''), (400, ''Bad Request''), (401, ''Unauthorized''), (403, ''Forbidden''),
     (404, ''Not Found''), (405, ''Method Not Allowed''), (408, ''Request Timeout''),
     (411, ''Length Required''), (413, ''Payload Too Large''), (414, ''URI Too Long''),
     (415, ''Unsupported Media Type''), (417, ''Expectation Failed''), (429, ''Too Many Requests''),
     (431, ''Request Header Fields Too Large''), (500, ''Internal Server Error''),
     (501, ''Not Implemented''), (503, ''Service Unavailable''), (505, ''HTTP Version Not Supported'')]"

text \<open>\<open>http_error status message headers\<close> is the constructor of the class \<^verbatim>\<open>HTTPError\<close>.\<close>

definition http_error :: "int \<Rightarrow> str \<Rightarrow> (str, str) dict \<Rightarrow> exn" where
  "http_error status msg hs =
     HTTPError status
       (if msg \<noteq> [] then msg
        else (case d_get STATUS_REASONS status of Some r \<Rightarrow> r | None \<Rightarrow> ''HTTP Error'')) hs"

abbreviation err :: "int \<Rightarrow> str \<Rightarrow> exn" where
  "err status msg \<equiv> http_error status msg []"

lemma http_error_msg: "msg \<noteq> [] \<Longrightarrow> http_error s msg hs = HTTPError s msg hs"
  by (simp add: http_error_def)

lemma http_error_inject:
  "http_error s m hs = HTTPError s' m' hs' \<Longrightarrow> s = s' \<and> hs = hs'"
  by (simp add: http_error_def)

lemma http_error_not [simp]:
  "http_error s m hs \<noteq> ClientClosed" "http_error s m hs \<noteq> WebSocketClosed"
  "http_error s m hs \<noteq> PyError e" "ClientClosed \<noteq> http_error s m hs"
  "WebSocketClosed \<noteq> http_error s m hs" "PyError e \<noteq> http_error s m hs"
  by (simp_all add: http_error_def)

fun status_of :: "exn \<Rightarrow> int option" where
  "status_of (HTTPError s m hs) = Some s"
| "status_of _ = None"

lemma status_of_http_error [simp]: "status_of (http_error s m hs) = Some s"
  by (simp add: http_error_def)

subsection \<open>config.py\<close>

record server_config =
  host :: str
  port :: int
  server_name :: str
  static_dir :: str
  upload_dir :: str
  task_db :: str
  max_request_line :: int
  max_header_bytes :: int
  max_headers :: int
  max_header_name :: int
  max_header_value :: int
  max_body_bytes :: int
  max_memory_body :: int
  header_idle_timeout :: rat
  body_idle_timeout :: rat
  absolute_request_timeout :: rat
  keepalive_timeout :: rat
  tls_handshake_timeout :: rat
  max_keepalive_requests :: int
  listen_backlog :: int
  workers :: int
  max_concurrent_connections :: int
  graceful_shutdown_timeout :: rat
  websocket_queue_size :: int
  websocket_send_timeout :: rat
  websocket_max_payload :: int
  cors_allow_origins :: "str list"
  cors_allow_methods :: "str list"
  cors_allow_headers :: "str list"
  csrf_cookie_name :: str
  csrf_header_name :: str
  tls_cert :: "str option"
  tls_key :: "str option"
  json_logs :: bool

definition DEFAULT_CONFIG :: server_config where
  "DEFAULT_CONFIG = \<lparr>
    host = ''127.0.0.1'', port = 8080, server_name = ''Sovereign/7.0'',
    static_dir = ''static'', upload_dir = ''uploads'', task_db = ''sovereign_tasks.sqlite3'',
    max_request_line = 4096, max_header_bytes = 16 * 1024, max_headers = 96,
    max_header_name = 96, max_header_value = 8192,
    max_body_bytes = 50 * 1024 * 1024, max_memory_body = 512 * 1024,
    header_idle_timeout = 3, body_idle_timeout = 10, absolute_request_timeout = 30,
    keepalive_timeout = 5, tls_handshake_timeout = 2, max_keepalive_requests = 50,
    listen_backlog = 256, workers = 32, max_concurrent_connections = 512,
    graceful_shutdown_timeout = 20,
    websocket_queue_size = 256, websocket_send_timeout = 3,
    websocket_max_payload = 2 * 1024 * 1024,
    cors_allow_origins = [''*''],
    cors_allow_methods = [''GET'', ''POST'', ''PUT'', ''PATCH'', ''DELETE'', ''OPTIONS''],
    cors_allow_headers = [''Content-Type'', ''Authorization'', ''X-Request-Id'', ''X-CSRF-Token''],
    csrf_cookie_name = ''sovereign_csrf'', csrf_header_name = ''x-csrf-token'',
    tls_cert = None, tls_key = None, json_logs = False \<rparr>"

subsection \<open>responses.py\<close>

text \<open>
  A \<^verbatim>\<open>Response\<close> carries its whole body, a \<^verbatim>\<open>StreamResponse\<close> the chunks its generator yields
  (a finite list of byte strings) and the exception that ends the generator, if one does.
\<close>

datatype rbody = Full bytes | Stream "bytes list" "exn option"

record response =
  r_body :: rbody
  r_status :: int
  r_headers :: "(str, str) dict"
  r_ctype :: str

definition Response :: "bytes \<Rightarrow> int \<Rightarrow> (str, str) dict \<Rightarrow> str \<Rightarrow> response" where
  "Response b status hs ctype =
     \<lparr>r_body = Full b, r_status = status, r_headers = d_update [] hs, r_ctype = ctype\<rparr>"

definition StreamResponse :: "bytes list \<Rightarrow> exn option \<Rightarrow> int \<Rightarrow> (str, str) dict \<Rightarrow> str \<Rightarrow> response" where
  "StreamResponse chunks fail status hs ctype =
     \<lparr>r_body = Stream chunks fail, r_status = status, r_headers = d_update [] hs, r_ctype = ctype\<rparr>"

abbreviation HTML :: str where "HTML \<equiv> ''text/html; charset=utf-8''"

text \<open>\<^verbatim>\<open>SSEResponse\<close>: each event is one chunk; event names and payloads are UTF-8 text here.\<close>

definition sse_chunk :: "bytes \<Rightarrow> bytes \<Rightarrow> bytes" where
  "sse_chunk event payload = ''event: '' @ event @ [LF] @ ''data: '' @ payload @ [LF, LF]"

definition SSEResponse :: "(bytes \<times> bytes) list \<Rightarrow> exn option \<Rightarrow> int \<Rightarrow> (str, str) dict \<Rightarrow> response" where
  "SSEResponse events fail status hs =
     StreamResponse (map (\<lambda>(e, p). sse_chunk e p) events) fail status
       (d_update [(''Cache-Control'', ''no-cache''), (''X-Accel-Buffering'', ''no'')] hs)
       ''text/event-stream; charset=utf-8''"

subsection \<open>request.py\<close>

text \<open>
  \<open>InMemory\<close> is a \<^verbatim>\<open>bytes\<close> body, \<open>Spooled\<close> a temporary file: every reader of the latter
  seeks to 0 first, so its content is all that matters.
\<close>

datatype body = InMemory bytes | Spooled bytes

fun body_bytes_of :: "body \<Rightarrow> bytes" where
  "body_bytes_of (InMemory b) = b"
| "body_bytes_of (Spooled b) = b"

datatype scalar = SNone | SBool bool | SInt int | SStr str

text \<open>Truth value and \<^verbatim>\<open>str()\<close> of a scalar.\<close>

fun truthy :: "scalar option \<Rightarrow> bool" where
  "truthy None = False"
| "truthy (Some SNone) = False"
| "truthy (Some (SBool b)) = b"
| "truthy (Some (SInt i)) = (i \<noteq> 0)"
| "truthy (Some (SStr s)) = (s \<noteq> [])"

fun str_of :: "scalar \<Rightarrow> str" where
  "str_of SNone = ''None''"
| "str_of (SBool b) = (if b then ''True'' else ''False'')"
| "str_of (SInt i) = show_int i"
| "str_of (SStr s) = s"

datatype qval = One ustr | Many "ustr list"

type_synonym obj = nat

record bg_task =
  bg_func :: str
  bg_args :: str
  bg_kwargs :: str
  bg_persistent :: bool

record request =
  q_method :: str
  target :: str
  version :: str
  headers :: "(str, str) dict"
  raw_headers :: "(str \<times> str) list"
  q_body :: body
  body_size :: int
  client_addr :: "str \<times> int"
  config :: server_config
  route_params :: "(str, ustr) dict"
  request_id :: str
  user :: "(str, scalar) dict option"
  background_tasks :: "bg_task list"
  di_cache :: "(str, obj) dict"
  path :: str
  query_string :: str
  query :: "(ustr, qval) dict"
  remote_addr :: str
  cookies :: "(str, str) dict"

definition header_of :: "(str, str) dict \<Rightarrow> str \<Rightarrow> str" where
  "header_of hs name = (case d_get hs (lower name) of None \<Rightarrow> [] | Some v \<Rightarrow> v)"

definition header :: "request \<Rightarrow> str \<Rightarrow> str" where
  "header req name = header_of (headers req) name"

definition body_bytes :: "request \<Rightarrow> bytes" where
  "body_bytes req = body_bytes_of (q_body req)"

text \<open>
  \<^verbatim>\<open>_parse_cookies\<close>: parts without an equals sign are skipped, a later cookie of the same
  name wins.
\<close>

fun cookie_parts :: "str list \<Rightarrow> (str, str) dict \<Rightarrow> (str, str) dict" where
  "cookie_parts [] out = out"
| "cookie_parts (part # parts) out =
     (case split1 ''='' part of
        None \<Rightarrow> cookie_parts parts out
      | Some (k, v) \<Rightarrow> cookie_parts parts (d_set (strip k) (strip v) out))"

definition parse_cookies :: "(str, str) dict \<Rightarrow> (str, str) dict" where
  "parse_cookies hs = cookie_parts (split_on '';'' (header_of hs ''cookie'')) []"

text \<open>
  \<^verbatim>\<open>urllib.parse.urlsplit\<close> on a target that starts with a slash: tabs and line breaks are
  removed; after a double slash a network location follows, up to the next slash, question
  mark or hash; the fragment and the query are cut off. \<open>netloc_ok\<close> is the library's check of
  that network location (a failed check raises \<^verbatim>\<open>ValueError\<close>).
\<close>

definition url_clean :: "str \<Rightarrow> str" where
  "url_clean s = filter (\<lambda>c. c \<noteq> CHR 0x09 \<and> c \<noteq> CR \<and> c \<noteq> LF) s"

definition is_netloc_end :: "char \<Rightarrow> bool" where
  "is_netloc_end c = (c = CHR ''/'' \<or> c = CHR ''?'' \<or> c = CHR ''#'')"

definition before :: "'a list \<Rightarrow> 'a list \<Rightarrow> 'a list" where
  "before sep s = (case split1 sep s of None \<Rightarrow> s | Some (a, b) \<Rightarrow> a)"

definition after :: "'a list \<Rightarrow> 'a list \<Rightarrow> 'a list" where
  "after sep s = (case split1 sep s of None \<Rightarrow> [] | Some (a, b) \<Rightarrow> b)"

definition url_split :: "(str \<Rightarrow> bool) \<Rightarrow> str \<Rightarrow> (str \<times> str) result" where
  "url_split netloc_ok url =
     (let u = url_clean url;
          netloc = (if take 2 u = ''//'' then takeWhile (\<lambda>c. \<not> is_netloc_end c) (drop 2 u) else []);
          rest = (if take 2 u = ''//'' then dropWhile (\<lambda>c. \<not> is_netloc_end c) (drop 2 u) else u);
          nofrag = before ''#'' rest
      in if take 2 u = ''//'' \<and> \<not> netloc_ok netloc then Inl (PyError ''ValueError'')
         else Inr (before ''?'' nofrag, after ''?'' nofrag))"

text \<open>\<^verbatim>\<open>parse_qs(query, keep_blank_values=True)\<close> and the dictionary \<^verbatim>\<open>Request.query\<close>.\<close>

definition unplus :: "str \<Rightarrow> ustr" where
  "unplus s = unquote (uni (map (\<lambda>c. if c = CHR ''+'' then CHR '' '' else c) s))"

fun qs_add :: "str list \<Rightarrow> (ustr, ustr list) dict \<Rightarrow> (ustr, ustr list) dict" where
  "qs_add [] d = d"
| "qs_add (nv # nvs) d =
     (if nv = [] then qs_add nvs d
      else (let name = unplus (before ''='' nv); value = unplus (after ''='' nv);
                old = (case d_get d name of None \<Rightarrow> [] | Some vs \<Rightarrow> vs)
            in qs_add nvs (d_set name (old @ [value]) d)))"

definition parse_qs :: "str \<Rightarrow> (ustr, ustr list) dict" where
  "parse_qs qs = qs_add (split_on ''&'' qs) []"

definition query_of :: "str \<Rightarrow> (ustr, qval) dict" where
  "query_of qs = map (\<lambda>(k, v). (k, if length v = 1 then One (hd v) else Many v)) (parse_qs qs)"

text \<open>\<open>Request\<close> is the dataclass constructor followed by \<^verbatim>\<open>__post_init__\<close>.\<close>

definition Request ::
  "(str \<Rightarrow> bool) \<Rightarrow> str \<Rightarrow> str \<Rightarrow> str \<Rightarrow> (str, str) dict \<Rightarrow> (str \<times> str) list \<Rightarrow> body \<Rightarrow> int
   \<Rightarrow> str \<times> int \<Rightarrow> server_config \<Rightarrow> request result" where
  "Request netloc_ok meth tgt ver hs raws bdy bsize addr cfg =
     rbind (url_split netloc_ok tgt) (\<lambda>(p, qs). Inr \<lparr>
       q_method = meth, target = tgt, version = ver, headers = hs, raw_headers = raws,
       q_body = bdy, body_size = bsize, client_addr = addr, config = cfg,
       route_params = [], request_id = ''-'', user = None, background_tasks = [], di_cache = [],
       path = (if p = [] then ''/'' else p), query_string = qs, query = query_of qs,
       remote_addr = fst addr, cookies = parse_cookies hs \<rparr>)"

definition add_background_task :: "bg_task \<Rightarrow> request \<Rightarrow> request" where
  "add_background_task t req = req\<lparr>background_tasks := background_tasks req @ [t]\<rparr>"

text \<open>A request without a body, for examples.\<close>

definition sample_request :: "str \<Rightarrow> str \<Rightarrow> (str, str) dict \<Rightarrow> request" where
  "sample_request m p hs = \<lparr>
     q_method = m, target = p, version = ''HTTP/1.1'', headers = hs, raw_headers = hs,
     q_body = InMemory [], body_size = 0, client_addr = (''10.0.0.1'', 4000), config = DEFAULT_CONFIG,
     route_params = [], request_id = ''r1'', user = None, background_tasks = [], di_cache = [],
     path = p, query_string = [], query = [], remote_addr = ''10.0.0.1'', cookies = parse_cookies hs \<rparr>"

subsection \<open>Facts about requests\<close>

lemma Request_fields:
  assumes "Request ok m t v hs raws b n a c = Inr r"
  shows "q_method r = m" "target r = t" "version r = v" "headers r = hs" "raw_headers r = raws"
    "q_body r = b" "body_size r = n" "config r = c" "client_addr r = a" "remote_addr r = fst a"
    "cookies r = parse_cookies hs" "path r \<noteq> []"
  using assms by (auto simp: Request_def rbind_Inr_iff split: if_splits)

lemma url_split_plain:
  "set s \<inter> {CHR 0x09, CR, LF, CHR ''?'', CHR ''#''} = {} \<Longrightarrow> take 2 s \<noteq> ''//'' \<Longrightarrow>
   url_split ok s = Inr (s, [])"
proof -
  assume a: "set s \<inter> {CHR 0x09, CR, LF, CHR ''?'', CHR ''#''} = {}" "take 2 s \<noteq> ''//''"
  have "url_clean s = s"
    unfolding url_clean_def by (rule filter_True) (use a(1) in auto)
  moreover have "split1 ''#'' s = None" "split1 ''?'' s = None"
    using a(1) by (auto intro!: split1_hd_notin_None)
  ultimately show ?thesis
    using a(2) by (simp add: url_split_def before_def after_def)
qed

end
