(* ===== verification/Parser.thy ===== *)
theory Parser
  imports Http
begin

section \<open>The request parser (\<^verbatim>\<open>parser.py\<close>)\<close>

text \<open>
  The socket is the list of what arrives on it, each arrival with the seconds it takes after
  the previous one, and the monotonic clock. \<open>reader\<close> is \<^verbatim>\<open>SocketReader\<close>: the socket, the
  unread \<^verbatim>\<open>buffer\<close>, the absolute deadline and the configuration. Every reading operation
  returns its result, or the exception it raises, with the reader it leaves behind.
\<close>

subsection \<open>The socket\<close>

datatype arrival = Data bytes | Reset

record conn =
  arrivals :: "(rat \<times> arrival) list"
  now :: rat

record reader = conn +
  buffer :: bytes
  deadline :: rat
  cfg :: server_config

datatype received = Got bytes | TimedOut | Broken

text \<open>
  \<^verbatim>\<open>sock.recv(n)\<close> under a timeout: an arrival larger than \<open>n\<close> is delivered in part, a peer that
  has sent everything and closed gives the empty byte string.
\<close>

fun recv :: "rat \<Rightarrow> nat \<Rightarrow> 'a conn_scheme \<Rightarrow> received \<times> 'a conn_scheme" where
  "recv timeout n s =
     (case arrivals s of
        [] \<Rightarrow> (Got [], s)
      | (d, ev) # rest \<Rightarrow>
          if timeout < d then (TimedOut, s\<lparr>arrivals := (d - timeout, ev) # rest, now := now s + timeout\<rparr>)
          else (case ev of
              Reset \<Rightarrow> (Broken, s\<lparr>arrivals := rest, now := now s + d\<rparr>)
            | Data b \<Rightarrow>
                if length b \<le> n then (Got b, s\<lparr>arrivals := rest, now := now s + d\<rparr>)
                else (Got (take n b), s\<lparr>arrivals := (0, Data (drop n b)) # rest, now := now s + d\<rparr>)))"

declare recv.simps [simp del]

fun data_of :: "arrival \<Rightarrow> bytes" where
  "data_of (Data b) = b"
| "data_of Reset = []"

text \<open>The bytes still to come, and with \<open>pending\<close> also those already buffered.\<close>

definition incoming :: "'a conn_scheme \<Rightarrow> bytes" where
  "incoming s = concat (map (data_of \<circ> snd) (arrivals s))"

definition pending :: "'a reader_scheme \<Rightarrow> bytes" where
  "pending rd = buffer rd @ incoming rd"

subsection \<open>\<^verbatim>\<open>SocketReader\<close>\<close>

definition SocketReader :: "conn \<Rightarrow> server_config \<Rightarrow> reader" where
  "SocketReader s c =
     \<lparr>arrivals = arrivals s, now = now s, buffer = [],
      deadline = now s + absolute_request_timeout c, cfg = c\<rparr>"

definition recv_some :: "rat \<Rightarrow> reader \<Rightarrow> bytes result \<times> reader" where
  "recv_some timeout rd =
     (let remaining = deadline rd - now rd in
      if remaining \<le> 0 then (Inl (err 408 ''Absolute request timeout exceeded''), rd)
      else (case recv (max (1 / 1000) (min timeout remaining)) 4096 rd of
          (TimedOut, rd') \<Rightarrow> (Inl (err 408 ''Request Timeout''), rd')
        | (Broken, rd') \<Rightarrow> (Inl (PyError ''ConnectionResetError''), rd')
        | (Got data, rd') \<Rightarrow> if data = [] then (Inl ClientClosed, rd') else (Inr data, rd')))"

text \<open>Receiving moves bytes from the wire to the caller and loses none.\<close>

lemma recv_Got:
  assumes "recv t n s = (Got d, s')"
  shows "incoming s = d @ incoming s'"
  using assms by (auto simp: recv.simps incoming_def split: list.splits if_splits arrival.splits prod.splits)

lemma recv_frame:
  assumes "recv t n rd = (r, rd')"
  shows "buffer (rd' :: reader) = buffer rd" "deadline rd' = deadline rd" "cfg rd' = cfg rd"
  using assms by (auto simp: recv.simps split: list.splits if_splits arrival.splits prod.splits)

lemma recv_some_Inr:
  assumes "recv_some t rd = (Inr d, rd')"
  shows "d \<noteq> []" "incoming rd = d @ incoming rd'" "buffer rd' = buffer rd"
    "deadline rd' = deadline rd" "cfg rd' = cfg rd" "length d \<le> 4096"
proof -
  from assms obtain u where u: "recv u 4096 rd = (Got d, rd')" and d: "d \<noteq> []"
    by (auto simp: recv_some_def Let_def split: if_splits prod.splits received.splits)
  show "d \<noteq> []" by (fact d)
  show "incoming rd = d @ incoming rd'" using u by (rule recv_Got)
  show "buffer rd' = buffer rd" "deadline rd' = deadline rd" "cfg rd' = cfg rd"
    using recv_frame [OF u] by simp_all
  show "length d \<le> 4096"
    using u by (auto simp: recv.simps split: list.splits if_splits arrival.splits)
qed

lemma recv_some_frame:
  assumes "recv_some t rd = (r, rd')"
  shows "buffer rd' = buffer rd" "deadline rd' = deadline rd" "cfg rd' = cfg rd"
proof -
  obtain u r0 rd0 where u: "recv u 4096 rd = (r0, rd0)" "rd' = rd \<or> rd' = rd0"
    using assms unfolding recv_some_def Let_def
    by (cases "recv (max (1 / 1000) (min t (deadline rd - now rd))) 4096 rd")
      (auto split: if_splits received.splits)
  show "buffer rd' = buffer rd" "deadline rd' = deadline rd" "cfg rd' = cfg rd"
    using recv_frame [OF u(1)] u(2) by auto
qed

lemma recv_some_shrinks:
  "(Inr d, rd') = recv_some t rd \<Longrightarrow> length (incoming rd') < length (incoming rd)"
  using recv_some_Inr(1,2) [of t rd d rd'] by (metis length_append length_greater_0_conv less_add_same_cancel2)

text \<open>\<^verbatim>\<open>_read_until(marker, limit, idle_timeout)\<close>\<close>

function read_until :: "bytes \<Rightarrow> int \<Rightarrow> rat \<Rightarrow> reader \<Rightarrow> bytes result \<times> reader" where
  "read_until marker limit idle rd =
     (case split1 marker (buffer rd) of
        Some (a, b) \<Rightarrow> (Inr (a @ marker), rd\<lparr>buffer := b\<rparr>)
      | None \<Rightarrow>
          if limit < int (length (buffer rd)) then (Inl (err 431 ''Read limit exceeded''), rd)
          else (case recv_some idle rd of
              (Inl e, rd') \<Rightarrow> (Inl e, rd')
            | (Inr data, rd') \<Rightarrow>
                read_until marker limit idle (rd'\<lparr>buffer := buffer rd' @ data\<rparr>)))"
  by pat_completeness auto
termination
  by (relation "measure (\<lambda>(m, l, i, rd). length (incoming rd))")
    (auto simp: incoming_def dest: recv_some_shrinks)

declare read_until.simps [simp del]

definition read_headers :: "reader \<Rightarrow> bytes result \<times> reader" where
  "read_headers rd =
     read_until (CRLF @ CRLF) (max_header_bytes (cfg rd) + 4) (header_idle_timeout (cfg rd)) rd"

text \<open>
  Python slices \<^verbatim>\<open>xs[:k]\<close> and \<^verbatim>\<open>xs[k:]\<close>: a negative bound counts from the end.
\<close>

definition upto_idx :: "int \<Rightarrow> 'a list \<Rightarrow> 'a list" where
  "upto_idx k xs = (if 0 \<le> k then take (nat k) xs else take (length xs - nat (- k)) xs)"

definition from_idx :: "int \<Rightarrow> 'a list \<Rightarrow> 'a list" where
  "from_idx k xs = (if 0 \<le> k then drop (nat k) xs else drop (length xs - nat (- k)) xs)"

text \<open>The receiving loop of \<^verbatim>\<open>read_exact(n)\<close>, and \<^verbatim>\<open>read_exact\<close> itself.\<close>

function read_more :: "int \<Rightarrow> bytes \<Rightarrow> reader \<Rightarrow> bytes result \<times> reader" where
  "read_more n out rd =
     (if int (length out) < n then
        (case recv_some (body_idle_timeout (cfg rd)) rd of
           (Inl e, rd') \<Rightarrow> (Inl e, rd')
         | (Inr chunk, rd') \<Rightarrow>
             (let need = nat (n - int (length out)) in
              read_more n (out @ take need chunk)
                (if need < length chunk then rd'\<lparr>buffer := buffer rd' @ drop need chunk\<rparr> else rd')))
      else (Inr out, rd))"
  by pat_completeness auto
termination
  by (relation "measure (\<lambda>(n, out, rd). length (incoming rd))")
    (auto simp: incoming_def dest: recv_some_shrinks)

declare read_more.simps [simp del]

definition read_exact :: "int \<Rightarrow> reader \<Rightarrow> bytes result \<times> reader" where
  "read_exact n rd =
     (let k = min n (int (length (buffer rd))) in
      read_more n (upto_idx k (buffer rd)) (rd\<lparr>buffer := from_idx k (buffer rd)\<rparr>))"

subsection \<open>Conservation: no byte is lost or invented\<close>

lemma read_until_sound:
  "read_until m l i rd = (Inr d, rd') \<Longrightarrow> m \<noteq> [] \<Longrightarrow>
   \<exists>a. d = a @ m \<and> split1 m (pending rd) = Some (a, pending rd') \<and>
       cfg rd' = cfg rd \<and> deadline rd' = deadline rd"
proof (induction m l i rd rule: read_until.induct)
  case (1 m l i rd)
  show ?case
  proof (cases "split1 m (buffer rd)")
    case None
    with "1.prems" obtain data rd1 where r: "recv_some i rd = (Inr data, rd1)"
      and rec: "read_until m l i (rd1\<lparr>buffer := buffer rd1 @ data\<rparr>) = (Inr d, rd')"
      and l: "\<not> l < int (length (buffer rd))"
      by (auto simp: read_until.simps [of m l i rd] split: if_splits prod.splits sum.splits)
    have "pending (rd1\<lparr>buffer := buffer rd1 @ data\<rparr>) = pending rd"
      using recv_some_Inr [OF r] by (simp add: pending_def incoming_def)
    moreover have "cfg rd1 = cfg rd" "deadline rd1 = deadline rd"
      using recv_some_Inr [OF r] by simp_all
    ultimately show ?thesis
      using "1.IH" [OF None l r [symmetric] refl rec "1.prems"(2)] by simp
  next
    case (Some p)
    obtain a b where p: "p = (a, b)" by force
    with Some "1.prems" have "d = a @ m" "rd' = rd\<lparr>buffer := b\<rparr>"
      by (auto simp: read_until.simps [of m l i rd])
    with Some p "1.prems"(2) show ?thesis
      by (simp add: pending_def incoming_def split1_extend)
  qed
qed

lemma read_until_pending:
  assumes "read_until m l i rd = (Inr d, rd')" "m \<noteq> []"
  shows "pending rd = d @ pending rd'" "suffix m d" "length m \<le> length d"
    "cfg rd' = cfg rd" "deadline rd' = deadline rd"
  using read_until_sound [OF assms] by (auto dest: split1_append simp: suffix_def)

lemma read_more_sound:
  "read_more n out rd = (Inr d, rd') \<Longrightarrow> (int (length out) < n \<Longrightarrow> buffer rd = []) \<Longrightarrow>
   out @ pending rd = d @ pending rd' \<and> (int (length out) \<le> n \<longrightarrow> int (length d) = n) \<and>
   cfg rd' = cfg rd \<and> deadline rd' = deadline rd"
proof (induction n out rd rule: read_more.induct)
  case (1 n out rd)
  show ?case
  proof (cases "int (length out) < n")
    case True
    with "1.prems" obtain chunk rd1 where
      r: "recv_some (body_idle_timeout (cfg rd)) rd = (Inr chunk, rd1)"
      by (auto simp: read_more.simps [of n out rd] split: prod.splits sum.splits)
    let ?need = "nat (n - int (length out))"
    let ?rd = "if ?need < length chunk then rd1\<lparr>buffer := buffer rd1 @ drop ?need chunk\<rparr> else rd1"
    have rec: "read_more n (out @ take ?need chunk) ?rd = (Inr d, rd')"
      using "1.prems"(1) True r by (simp add: read_more.simps [of n out rd] Let_def)
    have b: "buffer rd1 = []" "cfg ?rd = cfg rd" "deadline ?rd = deadline rd"
      using recv_some_Inr [OF r] "1.prems"(2) True by simp_all
    have e: "int (length (out @ take ?need chunk)) < n \<Longrightarrow> buffer ?rd = []"
      using b True by (auto split: if_splits)
    have "(out @ take ?need chunk) @ pending ?rd = out @ pending rd"
      using recv_some_Inr [OF r] "1.prems"(2) True b by (auto simp: pending_def incoming_def)
    moreover have "int (length (out @ take ?need chunk)) \<le> n"
      using True by auto
    ultimately show ?thesis
      using "1.IH" [OF True r [symmetric] refl refl rec e] b by auto
  next
    case False
    with "1.prems" show ?thesis by (auto simp: read_more.simps [of n out rd])
  qed
qed

lemma upto_from_idx: "upto_idx k xs @ from_idx k xs = xs"
  by (simp add: upto_idx_def from_idx_def)

lemma read_exact_sound:
  assumes "read_exact n rd = (Inr d, rd')"
  shows "pending rd = d @ pending rd'" "0 \<le> n \<Longrightarrow> int (length d) = n"
    "cfg rd' = cfg rd" "deadline rd' = deadline rd"
proof -
  let ?k = "min n (int (length (buffer rd)))"
  let ?out = "upto_idx ?k (buffer rd)" let ?rd = "rd\<lparr>buffer := from_idx ?k (buffer rd)\<rparr>"
  have r: "read_more n ?out ?rd = (Inr d, rd')"
    using assms by (simp add: read_exact_def Let_def)
  have e: "int (length ?out) < n \<Longrightarrow> buffer ?rd = []"
    by (auto simp: upto_idx_def from_idx_def split: if_splits)
  have "?out @ pending ?rd = pending rd"
    by (simp add: pending_def incoming_def upto_from_idx flip: append_assoc)
  with read_more_sound [OF r e]
  show "pending rd = d @ pending rd'" "cfg rd' = cfg rd" "deadline rd' = deadline rd" by auto
  assume "0 \<le> n"
  then have "int (length ?out) \<le> n" by (auto simp: upto_idx_def)
  with read_more_sound [OF r e] show "int (length d) = n" by blast
qed

lemma read_exact_progress:
  "(Inr d, rd') = read_exact (min 65536 n) rd \<Longrightarrow> \<not> n \<le> 0 \<Longrightarrow> d \<noteq> []"
  using read_exact_sound(2) [of "min 65536 n" rd d rd'] by auto

lemma chunk_progress:
  assumes "(Inr raw, rd1) = read_until CRLF l i rd" "(Inr part, rd2) = read_exact n rd1"
    "(Inr crlf, rd3) = read_exact 2 rd2"
  shows "length (pending rd3) < length (pending rd)"
proof -
  have "length CRLF \<le> length raw" "pending rd = raw @ pending rd1"
    using read_until_pending [OF assms(1) [symmetric]] by simp_all
  moreover have "pending rd1 = part @ crlf @ pending rd3"
    using read_exact_sound(1) [OF assms(2) [symmetric]] read_exact_sound(1) [OF assms(3) [symmetric]]
    by simp
  ultimately show ?thesis by auto
qed

subsection \<open>Bodies\<close>

text \<open>The spooling loop of \<^verbatim>\<open>read_exact_body\<close>: 64 KiB at a time.\<close>

function spool_loop :: "int \<Rightarrow> bytes \<Rightarrow> reader \<Rightarrow> bytes result \<times> reader" where
  "spool_loop remaining spool rd =
     (if remaining \<le> 0 then (Inr spool, rd)
      else (case read_exact (min 65536 remaining) rd of
          (Inl e, rd') \<Rightarrow> (Inl e, rd')
        | (Inr part, rd') \<Rightarrow> spool_loop (remaining - int (length part)) (spool @ part) rd'))"
  by pat_completeness auto
termination
  by (relation "measure (\<lambda>(n, s, rd). nat n)") (auto dest: read_exact_progress)

declare spool_loop.simps [simp del]

definition read_exact_body :: "int \<Rightarrow> reader \<Rightarrow> body result \<times> reader" where
  "read_exact_body len rd =
     (if max_body_bytes (cfg rd) < len then (Inl (err 413 ''Payload Too Large''), rd)
      else if len \<le> max_memory_body (cfg rd) then
        (case read_exact len rd of (Inl e, rd') \<Rightarrow> (Inl e, rd') | (Inr b, rd') \<Rightarrow> (Inr (InMemory b), rd'))
      else
        (case spool_loop len [] rd of (Inl e, rd') \<Rightarrow> (Inl e, rd') | (Inr b, rd') \<Rightarrow> (Inr (Spooled b), rd')))"

text \<open>
  \<^verbatim>\<open>read_chunked_body\<close>: the size line without its extension, \<^verbatim>\<open>int(line.strip(), 16)\<close>, the
  running total \<open>tot\<close>, the chunk and its terminator; a zero size ends the body after one more line.
\<close>

definition chunk_size :: "bytes \<Rightarrow> int option" where
  "chunk_size line = bytes_int16 (before '';'' line)"

function chunk_loop :: "bytes \<Rightarrow> int \<Rightarrow> reader \<Rightarrow> (bytes \<times> int) result \<times> reader" where
  "chunk_loop spool tot rd =
     (case read_until CRLF 8192 (body_idle_timeout (cfg rd)) rd of
        (Inl e, rd1) \<Rightarrow> (Inl e, rd1)
      | (Inr raw, rd1) \<Rightarrow>
          (case chunk_size (upto_idx (-2) raw) of
             None \<Rightarrow> (Inl (err 400 ''Invalid chunk size''), rd1)
           | Some n \<Rightarrow>
               if n = 0 then
                 (case read_until CRLF 8192 (body_idle_timeout (cfg rd1)) rd1 of
                    (Inl e, rd2) \<Rightarrow> (Inl e, rd2)
                  | (Inr _, rd2) \<Rightarrow> (Inr (spool, tot), rd2))
               else if max_body_bytes (cfg rd1) < tot + n then
                 (Inl (err 413 ''Payload Too Large''), rd1)
               else
                 (case read_exact n rd1 of
                    (Inl e, rd2) \<Rightarrow> (Inl e, rd2)
                  | (Inr part, rd2) \<Rightarrow>
                      (case read_exact 2 rd2 of
                         (Inl e, rd3) \<Rightarrow> (Inl e, rd3)
                       | (Inr crlf, rd3) \<Rightarrow>
                           if crlf \<noteq> CRLF then (Inl (err 400 ''Malformed chunk terminator''), rd3)
                           else chunk_loop (spool @ part) (tot + n) rd3))))"
  by pat_completeness auto
termination
  by (relation "measure (\<lambda>(s, t, rd). length (pending rd))") (auto dest: chunk_progress)

declare chunk_loop.simps [simp del]

definition read_chunked_body :: "reader \<Rightarrow> (body \<times> int) result \<times> reader" where
  "read_chunked_body rd =
     (case chunk_loop [] 0 rd of
        (Inl e, rd') \<Rightarrow> (Inl e, rd')
      | (Inr (b, tot), rd') \<Rightarrow>
          (Inr (if tot \<le> max_memory_body (cfg rd) then InMemory b else Spooled b, tot), rd'))"

subsection \<open>The header block\<close>

text \<open>
  The token expression of \<^verbatim>\<open>utils.py\<close>, \<^verbatim>\<open>^[!#$%&'*+.^_`|~0-9A-Za-z-]+$\<close>. In Python \<^verbatim>\<open>$\<close> also
  matches before a line feed that ends the text, so a token may carry one trailing \<open>LF\<close>.
\<close>

definition tchar :: "char \<Rightarrow> bool" where
  "tchar c = (let n = code c in
     (48 \<le> n \<and> n \<le> 57) \<or> (65 \<le> n \<and> n \<le> 90) \<or> (97 \<le> n \<and> n \<le> 122) \<or>
     c \<in> set (''!#$%&*+.^_`|~-'' @ [CHR 0x27]))"

definition token_match :: "str \<Rightarrow> bool" where
  "token_match s =
     (let t = (if s \<noteq> [] \<and> last s = LF then butlast s else s) in t \<noteq> [] \<and> list_all tchar t)"

definition single_headers :: "str list" where
  "single_headers = [''host'', ''content-length'', ''transfer-encoding'']"

text \<open>The loop over the header lines: the dictionary and the raw pairs collected so far.\<close>

fun header_lines ::
  "server_config \<Rightarrow> str list \<Rightarrow> (str, str) dict \<Rightarrow> (str \<times> str) list \<Rightarrow>
   ((str, str) dict \<times> (str \<times> str) list) result" where
  "header_lines c [] hs raws = Inr (hs, raws)"
| "header_lines c (line # lines) hs raws =
     (if line = [] then header_lines c lines hs raws
      else if hd line = CHR '' '' \<or> hd line = CHR 0x09 then Inl (err 400 ''Folded headers rejected'')
      else (case split1 '':'' line of
          None \<Rightarrow> Inl (err 400 ''Malformed header'')
        | Some (n, v) \<Rightarrow>
            (let name = lower (strip n); value = strip v in
             if name = [] \<or> \<not> token_match name then Inl (err 400 ''Invalid header name'')
             else if max_header_name c < int (length name) \<or> max_header_value c < int (length value)
             then Inl (err 431 ''Header field too large'')
             else if d_get hs name \<noteq> None \<and> name \<in> set single_headers
             then Inl (err 400 (''Duplicate '' @ name @ '' rejected''))
             else header_lines c lines
                    (d_set name (case d_get hs name of None \<Rightarrow> value | Some old \<Rightarrow> old @ '', '' @ value) hs)
                    (raws @ [(name, value)]))))"

type_synonym head = "str \<times> str \<times> str \<times> (str, str) dict \<times> (str \<times> str) list"

definition parse_header_block :: "bytes \<Rightarrow> server_config \<Rightarrow> head result" where
  "parse_header_block raw c =
     (if \<not> sublist (CRLF @ CRLF) raw then Inl (err 400 ''Malformed headers'')
      else
        (let lines = split_on CRLF (upto_idx (-4) raw) in
         if hd lines = [] then Inl (err 400 ''Missing request line'')
         else if max_request_line c < int (length (hd lines)) then Inl (err 414 ''Request line too long'')
         else (case split_on '' '' (hd lines) of
             [meth, tgt, ver] \<Rightarrow>
               if \<not> token_match meth then Inl (err 400 ''Invalid method'')
               else if ver \<noteq> ''HTTP/1.1'' then Inl (err 505 ''Only HTTP/1.1 supported'')
               else if \<not> prefix ''/'' tgt then Inl (err 400 ''Only origin-form request target supported'')
               else if max_headers c < int (length lines) - 1 then Inl (err 431 ''Too many headers'')
               else rbind (header_lines c (tl lines) [] []) (\<lambda>(hs, raws).
                 if d_get hs ''host'' = None then Inl (err 400 ''Host header required'')
                 else if d_get hs ''content-length'' \<noteq> None \<and> d_get hs ''transfer-encoding'' \<noteq> None
                 then Inl (err 400 ''Content-Length with Transfer-Encoding rejected'')
                 else Inr (upper meth, tgt, ver, hs, raws))
           | _ \<Rightarrow> Inl (err 400 ''Invalid request line''))))"

text \<open>
  \<^verbatim>\<open>parse_request\<close>. \<^verbatim>\<open>isdigit\<close> accepts superscript digits and \<^verbatim>\<open>int\<close> refuses more than 4300
  digits, so \<^verbatim>\<open>int(cl)\<close> can still raise \<^verbatim>\<open>ValueError\<close>.
\<close>

definition content_length :: "(str, str) dict \<Rightarrow> int result" where
  "content_length hs =
     (let cl = (case d_get hs ''content-length'' of None \<Rightarrow> ''0'' | Some v \<Rightarrow> v) in
      if \<not> isdigit cl then Inl (err 400 ''Invalid Content-Length'')
      else (case py_int cl of None \<Rightarrow> Inl (PyError ''ValueError'') | Some n \<Rightarrow> Inr n))"

definition is_chunked :: "(str, str) dict \<Rightarrow> bool" where
  "is_chunked hs =
     (lower (case d_get hs ''transfer-encoding'' of None \<Rightarrow> [] | Some v \<Rightarrow> v) = ''chunked'')"

definition read_body :: "(str, str) dict \<Rightarrow> reader \<Rightarrow> (body \<times> int) result \<times> reader" where
  "read_body hs rd =
     (if is_chunked hs then read_chunked_body rd
      else (case content_length hs of
          Inl e \<Rightarrow> (Inl e, rd)
        | Inr n \<Rightarrow>
            if n = 0 then (Inr (InMemory [], 0), rd)
            else (case read_exact_body n rd of
                (Inl e, rd') \<Rightarrow> (Inl e, rd')
              | (Inr b, rd') \<Rightarrow> (Inr (b, n), rd'))))"

definition parse_request ::
  "(str \<Rightarrow> bool) \<Rightarrow> reader \<Rightarrow> str \<times> int \<Rightarrow> server_config \<Rightarrow> request result \<times> reader" where
  "parse_request netloc_ok rd addr c =
     (case read_headers rd of
        (Inl e, rd1) \<Rightarrow> (Inl e, rd1)
      | (Inr raw, rd1) \<Rightarrow>
          (case parse_header_block raw c of
             Inl e \<Rightarrow> (Inl e, rd1)
           | Inr (meth, tgt, ver, hs, raws) \<Rightarrow>
               (case read_body hs rd1 of
                  (Inl e, rd2) \<Rightarrow> (Inl e, rd2)
                | (Inr (b, n), rd2) \<Rightarrow> (Request netloc_ok meth tgt ver hs raws b n addr c, rd2))))"

end
