(* ===== verification/Parser_Net.thy ===== *)
theory Parser_Net
  imports Parser
begin

section \<open>The reader does not depend on how the network cuts the stream\<close>

text \<open>
  A reader is \<open>prompt\<close> when what arrives is data, each arrival within \<open>idle\<close> seconds and all
  of it before the absolute deadline. For a prompt reader every reading operation is a
  function of the pending byte stream alone: these are the total-correctness counterparts of
  the conservation lemmas of theory Parser.
\<close>

definition prompt :: "rat \<Rightarrow> reader \<Rightarrow> bool" where
  "prompt idle rd =
     (list_all (\<lambda>(d, ev). 0 \<le> d \<and> d \<le> idle \<and> data_of ev \<noteq> []) (arrivals rd) \<and>
      sum_list (map fst (arrivals rd)) < deadline rd - now rd)"

lemma prompt_buffer [simp]: "prompt idle (rd\<lparr>buffer := b\<rparr>) = prompt idle rd"
  by (simp add: prompt_def)

lemma incoming_buffer [simp]: "incoming (rd\<lparr>buffer := b\<rparr>) = incoming (rd :: reader)"
  by (simp add: incoming_def)

lemma sum_list_nonneg_fst:
  "list_all (\<lambda>(d, ev). 0 \<le> (d :: rat) \<and> d \<le> idle \<and> data_of ev \<noteq> []) xs \<Longrightarrow> 0 \<le> sum_list (map fst xs)"
  by (induction xs) auto

lemma recv_some_prompt:
  assumes p: "prompt i rd" and t: "i \<le> t" and ne: "incoming rd \<noteq> []"
  obtains d rd' where "recv_some t rd = (Inr d, rd')" "prompt i rd'"
proof -
  from ne obtain x rest where x: "arrivals rd = x # rest"
    by (cases "arrivals rd") (auto simp: incoming_def)
  obtain dl ev where dl: "x = (dl, ev)" by force
  with p x obtain b where b: "ev = Data b" "b \<noteq> []"
    by (cases ev) (auto simp: prompt_def)
  have d: "0 \<le> dl" "dl \<le> i" and r: "list_all (\<lambda>(d, ev). 0 \<le> d \<and> d \<le> i \<and> data_of ev \<noteq> []) rest"
    and s: "dl + sum_list (map fst rest) < deadline rd - now rd"
    using p x dl by (auto simp: prompt_def)
  have "0 \<le> sum_list (map fst rest)" using r by (rule sum_list_nonneg_fst)
  with s d t have rem: "\<not> deadline rd - now rd \<le> 0" "dl \<le> min t (deadline rd - now rd)" by auto
  let ?u = "max (1 / 1000) (min t (deadline rd - now rd))"
  have u: "\<not> ?u < dl" using rem by auto
  show thesis
  proof (cases "length b \<le> 4096")
    case True
    have "recv ?u 4096 rd = (Got b, rd\<lparr>arrivals := rest, now := now rd + dl\<rparr>)"
      using u x dl b True by (simp add: recv.simps)
    moreover have "prompt i (rd\<lparr>arrivals := rest, now := now rd + dl\<rparr>)"
      using r s by (simp add: prompt_def)
    ultimately show thesis
      using rem(1) b(2) by (intro that) (simp_all add: recv_some_def Let_def)
  next
    case False
    let ?rd = "rd\<lparr>arrivals := (0, Data (drop 4096 b)) # rest, now := now rd + dl\<rparr>"
    have "recv ?u 4096 rd = (Got (take 4096 b), ?rd)"
      using u x dl b False by (simp add: recv.simps)
    moreover have "prompt i ?rd"
      using r s d False by (auto simp: prompt_def)
    moreover have "take 4096 b \<noteq> []" using b(2) by simp
    ultimately show thesis
      using rem(1) by (intro that) (simp_all add: recv_some_def Let_def)
  qed
qed

subsection \<open>Reading up to a marker\<close>

lemma split1_short:
  "split1 m (p @ q) = Some (a, b) \<Longrightarrow> split1 m p = None \<Longrightarrow> m \<noteq> [] \<Longrightarrow>
   length p < length a + length m"
proof (rule ccontr)
  assume s: "split1 m (p @ q) = Some (a, b)" and n: "split1 m p = None"
    and "\<not> length p < length a + length m"
  then have "prefix (a @ m) p"
    using split1_append [OF s] by (metis append.assoc length_append linorder_not_less
        prefixI prefix_length_prefix append.right_neutral)
  then have "sublist m p"
    by (metis append.assoc prefix_def sublist_appendI)
  with n show False by (simp add: split1_None_iff)
qed

lemma read_until_complete:
  "\<lbrakk>prompt i rd; i \<le> idle; m \<noteq> []; split1 m (pending rd) = Some (a, b);
    int (length a + length m) \<le> l + 1\<rbrakk> \<Longrightarrow>
   \<exists>rd'. read_until m l idle rd = (Inr (a @ m), rd') \<and> pending rd' = b \<and> prompt i rd' \<and>
         cfg rd' = cfg rd"
proof (induction m l idle rd rule: read_until.induct)
  case (1 m l idle rd)
  show ?case
  proof (cases "split1 m (buffer rd)")
    case None
    have len: "length (buffer rd) < length a + length m"
      using split1_short [of m "buffer rd" "incoming rd"] 1 None by (simp add: pending_def)
    have "incoming rd \<noteq> []"
      using 1 None by (auto simp: pending_def)
    then obtain d rd1 where r: "recv_some idle rd = (Inr d, rd1)" and p: "prompt i rd1"
      using recv_some_prompt "1.prems"(1,2) by metis
    have lim: "\<not> l < int (length (buffer rd))" using len "1.prems"(5) by linarith
    have pd: "pending (rd1\<lparr>buffer := buffer rd1 @ d\<rparr>) = pending rd"
      using recv_some_Inr [OF r] by (simp add: pending_def)
    have "\<exists>rd'. read_until m l idle (rd1\<lparr>buffer := buffer rd1 @ d\<rparr>) = (Inr (a @ m), rd') \<and>
        pending rd' = b \<and> prompt i rd' \<and> cfg rd' = cfg (rd1\<lparr>buffer := buffer rd1 @ d\<rparr>)"
      by (rule "1.IH" [OF None lim r [symmetric] refl]) (use 1 p pd in simp_all)
    then show ?thesis
      using None lim r recv_some_Inr(5) [OF r] by (simp add: read_until.simps [of m l idle rd])
  next
    case (Some q)
    obtain a' b' where q: "q = (a', b')" by force
    with Some 1 have "split1 m (pending rd) = Some (a', b' @ incoming rd)"
      by (simp add: pending_def split1_extend)
    with 1 Some q show ?thesis
      by (simp add: read_until.simps [of m l idle rd]) (simp add: pending_def)
  qed
qed

subsection \<open>Reading a given number of bytes\<close>

lemma read_more_complete:
  "\<lbrakk>prompt i rd; i \<le> body_idle_timeout (cfg rd); int (length out) < n \<Longrightarrow> buffer rd = [];
    int (length out) \<le> n; n \<le> int (length (out @ pending rd))\<rbrakk> \<Longrightarrow>
   \<exists>d rd'. read_more n out rd = (Inr d, rd') \<and> prompt i rd'"
proof (induction n out rd rule: read_more.induct)
  case (1 n out rd)
  show ?case
  proof (cases "int (length out) < n")
    case True
    then have "buffer rd = []" "incoming rd \<noteq> []"
      using 1 by (auto simp: pending_def)
    then obtain chunk rd1 where
      r: "recv_some (body_idle_timeout (cfg rd)) rd = (Inr chunk, rd1)" and p: "prompt i rd1"
      using recv_some_prompt "1.prems"(1,2) by metis
    let ?need = "nat (n - int (length out))"
    let ?rd = "if ?need < length chunk then rd1\<lparr>buffer := buffer rd1 @ drop ?need chunk\<rparr> else rd1"
    have b: "buffer rd1 = []" "cfg ?rd = cfg rd" "prompt i ?rd"
      using recv_some_Inr [OF r] \<open>buffer rd = []\<close> p by simp_all
    have "\<exists>d rd'. read_more n (out @ take ?need chunk) ?rd = (Inr d, rd') \<and> prompt i rd'"
    proof (rule "1.IH" [OF True r [symmetric] refl refl])
      show "int (length (out @ take ?need chunk)) < n \<Longrightarrow> buffer ?rd = []"
        using b True by (auto split: if_splits)
      have "(out @ take ?need chunk) @ pending ?rd = out @ pending rd"
        using recv_some_Inr [OF r] \<open>buffer rd = []\<close> b by (auto simp: pending_def)
      then show "n \<le> int (length ((out @ take ?need chunk) @ pending ?rd))"
        using "1.prems"(5) by simp
    qed (use b True "1.prems"(2) in auto)
    then show ?thesis
      using True r by (simp add: read_more.simps [of n out rd] Let_def)
  next
    case False
    with 1 show ?thesis by (simp add: read_more.simps [of n out rd])
  qed
qed

lemma read_exact_complete:
  assumes p: "prompt i rd" and t: "i \<le> body_idle_timeout (cfg rd)"
    and pd: "pending rd = d @ rest" and n: "n = int (length d)"
  shows "\<exists>rd'. read_exact n rd = (Inr d, rd') \<and> pending rd' = rest \<and> prompt i rd' \<and> cfg rd' = cfg rd"
proof -
  let ?k = "min n (int (length (buffer rd)))"
  let ?out = "upto_idx ?k (buffer rd)" let ?rd = "rd\<lparr>buffer := from_idx ?k (buffer rd)\<rparr>"
  have "?out @ pending ?rd = pending rd"
    by (simp add: pending_def upto_from_idx flip: append_assoc)
  then have len: "n \<le> int (length (?out @ pending ?rd))" using pd n by simp
  have "\<exists>d' rd'. read_more n ?out ?rd = (Inr d', rd') \<and> prompt i rd'"
    by (rule read_more_complete) (use p t n len in \<open>auto simp: upto_idx_def from_idx_def\<close>)
  then obtain d' rd' where r: "read_exact n rd = (Inr d', rd')" and p': "prompt i rd'"
    by (auto simp: read_exact_def Let_def)
  have "pending rd = d' @ pending rd'" "int (length d') = n"
    using read_exact_sound [OF r] n by simp_all
  with pd n have "d' = d" "pending rd' = rest"
    by (auto simp: append_eq_append_conv)
  with r p' read_exact_sound(3) [OF r] show ?thesis by auto
qed

lemma spool_loop_complete:
  "\<lbrakk>prompt i rd; i \<le> body_idle_timeout (cfg rd); pending rd = d @ rest; n = int (length d)\<rbrakk> \<Longrightarrow>
   \<exists>rd'. spool_loop n sp rd = (Inr (sp @ d), rd') \<and> pending rd' = rest \<and> prompt i rd' \<and> cfg rd' = cfg rd"
proof (induction n sp rd arbitrary: d rule: spool_loop.induct)
  case (1 n sp rd)
  show ?case
  proof (cases "n \<le> 0")
    case True
    with 1 show ?thesis by (auto simp: spool_loop.simps [of 0 sp rd])
  next
    case False
    let ?m = "min 65536 n" let ?d1 = "take (nat ?m) d" let ?d2 = "drop (nat ?m) d"
    have "pending rd = ?d1 @ ?d2 @ rest" using 1 by (simp flip: append_assoc)
    moreover have m: "?m = int (length ?d1)" using 1 False by auto
    ultimately obtain rd1 where r: "read_exact ?m rd = (Inr ?d1, rd1)" and
      p: "pending rd1 = ?d2 @ rest" "prompt i rd1" "cfg rd1 = cfg rd"
      using read_exact_complete [OF "1.prems"(1,2)] by blast
    have "\<exists>rd'. spool_loop (n - int (length ?d1)) (sp @ ?d1) rd1 = (Inr ((sp @ ?d1) @ ?d2), rd') \<and>
        pending rd' = rest \<and> prompt i rd' \<and> cfg rd' = cfg rd1"
      by (rule "1.IH" [OF False r [symmetric] refl]) (use 1 p False in auto)
    then show ?thesis
      using False r p by (simp add: spool_loop.simps [of n sp rd])
  qed
qed

lemma read_exact_body_complete:
  assumes "prompt i rd" "i \<le> body_idle_timeout (cfg rd)" "pending rd = d @ rest"
    "int (length d) \<le> max_body_bytes (cfg rd)"
  shows "\<exists>b rd'. read_exact_body (int (length d)) rd = (Inr b, rd') \<and> body_bytes_of b = d \<and>
     pending rd' = rest \<and> prompt i rd' \<and> cfg rd' = cfg rd"
  using read_exact_complete [OF assms(1-3) refl] spool_loop_complete [OF assms(1-3) refl, of "[]"] assms(4)
  by (auto simp: read_exact_body_def)

subsection \<open>Chunks\<close>

lemma show_hex_length: "n < 16 ^ k \<Longrightarrow> 0 < k \<Longrightarrow> length (show_hex n) \<le> k"
  using show_base_length [of 16 n k] by (simp add: show_hex_def)

lemma split1_CRLF: "CR \<notin> set a \<Longrightarrow> split1 CRLF (a @ CRLF @ b) = Some (a, b)"
  by (rule split1_hd_notin) simp_all

lemma upto_idx_marker [simp]: "upto_idx (-2) (a @ [x, y]) = a"
  by (simp add: upto_idx_def)

lemma chunk_size_show_hex: "chunk_size (show_hex n) = Some (int n)"
proof -
  have "CHR '';'' \<notin> set (show_hex n)" using show_hex_chars(6) by blast
  then have "before '';'' (show_hex n) = show_hex n"
    by (simp add: before_def split1_hd_notin_None)
  then show ?thesis by (simp add: chunk_size_def bytes_int16_show_hex)
qed

lemma chunk_line_complete:
  assumes p: "prompt i rd" and t: "i \<le> body_idle_timeout (cfg rd)" and n: "n < 16 ^ 16"
    and pd: "pending rd = show_hex n @ CRLF @ rest"
  shows "\<exists>rd'. read_until CRLF 8192 (body_idle_timeout (cfg rd)) rd = (Inr (show_hex n @ CRLF), rd') \<and>
     pending rd' = rest \<and> prompt i rd' \<and> cfg rd' = cfg rd"
proof (rule read_until_complete [OF p t])
  have "CR \<notin> set (show_hex n)" using show_hex_chars(8) by blast
  then show "split1 CRLF (pending rd) = Some (show_hex n, rest)"
    by (simp add: pd split1_CRLF [simplified])
  have "length (show_hex n) \<le> 16" by (rule show_hex_length [OF n]) simp
  then show "int (length (show_hex n) + length CRLF) \<le> 8192 + 1" by simp
qed simp

text \<open>One chunk of the encoding is one turn of the decoding loop.\<close>

lemma chunk_loop_chunk:
  assumes p: "prompt i rd" and t: "i \<le> body_idle_timeout (cfg rd)" and c: "c \<noteq> []"
    and m: "max_body_bytes (cfg rd) < 2 ^ 64" and b: "tot + int (length c) \<le> max_body_bytes (cfg rd)"
    and tot: "0 \<le> tot" and pd: "pending rd = show_hex (length c) @ CRLF @ c @ CRLF @ rest"
  shows "\<exists>rd'. chunk_loop sp tot rd = chunk_loop (sp @ c) (tot + int (length c)) rd' \<and>
     pending rd' = rest \<and> prompt i rd' \<and> cfg rd' = cfg rd"
proof -
  have n: "length c < 16 ^ 16" using m b tot by simp
  obtain rd1 where r1: "read_until CRLF 8192 (body_idle_timeout (cfg rd)) rd =
      (Inr (show_hex (length c) @ CRLF), rd1)"
    "pending rd1 = c @ CRLF @ rest" "prompt i rd1" "cfg rd1 = cfg rd"
    using chunk_line_complete [OF p t n pd] by auto
  obtain rd2 where r2: "read_exact (int (length c)) rd1 = (Inr c, rd2)"
    "pending rd2 = CRLF @ rest" "prompt i rd2" "cfg rd2 = cfg rd"
    using read_exact_complete [OF r1(3) _ r1(2) refl] r1(4) t by auto
  obtain rd3 where r3: "read_exact 2 rd2 = (Inr CRLF, rd3)"
    "pending rd3 = rest" "prompt i rd3" "cfg rd3 = cfg rd"
    using read_exact_complete [OF r2(3) _ r2(2), of 2] r2(4) t by auto
  have "chunk_loop sp tot rd = chunk_loop (sp @ c) (tot + int (length c)) rd3"
    using c b r1 r2 r3 by (simp add: chunk_loop.simps [of sp tot rd] chunk_size_show_hex)
  with r3 show ?thesis by auto
qed

lemma chunk_loop_end:
  assumes p: "prompt i rd" and t: "i \<le> body_idle_timeout (cfg rd)"
    and pd: "pending rd = ''0'' @ CRLF @ CRLF @ rest"
  shows "\<exists>rd'. chunk_loop sp tot rd = (Inr (sp, tot), rd') \<and> pending rd' = rest \<and> prompt i rd' \<and>
     cfg rd' = cfg rd"
proof -
  have z: "show_hex 0 = ''0''" by code_simp
  obtain rd1 where r1: "read_until CRLF 8192 (body_idle_timeout (cfg rd)) rd = (Inr (''0'' @ CRLF), rd1)"
    "pending rd1 = CRLF @ rest" "prompt i rd1" "cfg rd1 = cfg rd"
    using chunk_line_complete [OF p t, of 0 "CRLF @ rest"] pd z by auto
  have "\<exists>rd'. read_until CRLF 8192 (body_idle_timeout (cfg rd1)) rd1 = (Inr ([] @ CRLF), rd') \<and>
     pending rd' = rest \<and> prompt i rd' \<and> cfg rd' = cfg rd1"
    by (rule read_until_complete [OF r1(3)]) (use r1 t split1_CRLF [of "[]" rest] in simp_all)
  then obtain rd2 where r2: "read_until CRLF 8192 (body_idle_timeout (cfg rd1)) rd1 = (Inr CRLF, rd2)"
    "pending rd2 = rest" "prompt i rd2" "cfg rd2 = cfg rd1" by auto
  have "chunk_size ''0'' = Some 0" using chunk_size_show_hex [of 0] z by simp
  then have "chunk_size (upto_idx (-2) (''0'' @ CRLF)) = Some 0" by (simp only: upto_idx_marker)
  with r1 r2 show ?thesis by (simp add: chunk_loop.simps [of sp tot rd])
qed

end
