(* ===== verification/Parser_Head.thy ===== *)
theory Parser_Head
  imports Parser_Net
begin

section \<open>The header block: what is accepted, and the way back from the wire\<close>

text \<open>
  Two groups of facts about \<^verbatim>\<open>parse_header_block\<close> and \<^verbatim>\<open>parse_request\<close>: the guarantees of an
  accepted head (the guards against request smuggling, the size limits, the header
  dictionary as a view of the raw pairs), and completeness: a well-formed request is parsed
  to itself however the network cuts it, and the bytes after it stay on the stream.
\<close>

subsection \<open>The header dictionary is a view of the raw pairs\<close>

definition vals :: "str \<Rightarrow> (str \<times> str) list \<Rightarrow> str list" where
  "vals n raws = map snd (filter (\<lambda>p. fst p = n) raws)"

definition merged :: "str \<Rightarrow> (str \<times> str) list \<Rightarrow> str option" where
  "merged n raws = (if vals n raws = [] then None else Some (join '', '' (vals n raws)))"

lemma vals_snoc [simp]: "vals n (raws @ [(m, v)]) = vals n raws @ (if m = n then [v] else [])"
  by (simp add: vals_def)

lemma join_snoc: "xs \<noteq> [] \<Longrightarrow> join sep (xs @ [x]) = join sep xs @ sep @ x"
proof (induction xs)
  case (Cons a xs)
  then show ?case by (cases xs) (auto simp: join_Cons)
qed simp

lemma merged_snoc:
  "merged n (raws @ [(m, v)]) =
     (if m = n then Some (case merged n raws of None \<Rightarrow> v | Some old \<Rightarrow> old @ '', '' @ v)
      else merged n raws)"
  by (auto simp: merged_def join_snoc)

definition field_ok :: "server_config \<Rightarrow> str \<times> str \<Rightarrow> bool" where
  "field_ok c p =
     (fst p \<noteq> [] \<and> list_all tchar (fst p) \<and> strip (snd p) = snd p \<and>
      int (length (fst p)) \<le> max_header_name c \<and> int (length (snd p)) \<le> max_header_value c)"

definition head_inv :: "server_config \<Rightarrow> (str, str) dict \<Rightarrow> (str \<times> str) list \<Rightarrow> bool" where
  "head_inv c hs raws =
     (d_ok hs \<and> (\<forall>n. d_get hs n = merged n raws) \<and> list_all (field_ok c) raws \<and>
      list_all (\<lambda>n. length (vals n raws) \<le> 1) single_headers)"

lemma strip_strip [simp]: "strip (strip s) = strip s"
proof (cases "strip s = []")
  case True
  show ?thesis by (simp only: True) (simp add: strip_def strip_by_def)
next
  case False
  let ?t = "strip s"
  from False have "\<not> is_space (hd ?t)" "\<not> is_space (last ?t)"
    using strip_by_ends [of is_space s] by (simp_all add: strip_def)
  then have "dropWhile is_space ?t = ?t" "dropWhile is_space (rev ?t) = rev ?t"
    using False by (simp_all add: dropWhile_eq_self_iff hd_rev)
  then show ?thesis by (simp add: strip_def strip_by_def)
qed

lemma lower_char_LF: "lower_char c = LF \<longleftrightarrow> c = LF"
proof
  assume "lower_char c = LF"
  moreover have "code LF = 10" by (simp add: code_def)
  ultimately show "c = LF"
    using code_less [of c] by (auto simp: lower_char_def Let_def code_eq_iff [symmetric] split: if_splits)
qed (simp add: lower_char_def code_def)

lemma name_token:
  assumes "n = lower (strip s)" "n \<noteq> []" "token_match n"
  shows "list_all tchar n"
proof -
  have "strip s \<noteq> []" using assms(1,2) by (auto simp: lower_def)
  then have "\<not> is_space (last (strip s))"
    using strip_by_ends [of is_space s] by (simp add: strip_def)
  moreover have "is_space LF" by (simp add: is_space_def code_def)
  ultimately have "last (strip s) \<noteq> LF" by auto
  then have "last n \<noteq> LF"
    using assms(1) \<open>strip s \<noteq> []\<close> by (simp add: lower_def last_map lower_char_LF)
  with assms(2,3) show ?thesis by (simp add: token_match_def)
qed

lemma head_inv_step:
  assumes "head_inv c hs raws" "field_ok c (n, v)" "\<not> (d_get hs n \<noteq> None \<and> n \<in> set single_headers)"
  shows "head_inv c (d_set n (case d_get hs n of None \<Rightarrow> v | Some old \<Rightarrow> old @ '', '' @ v) hs) (raws @ [(n, v)])"
proof -
  have g: "d_get hs m = merged m raws" for m using assms(1) by (simp add: head_inv_def)
  have "vals n raws = []" if "n \<in> set single_headers"
    using that assms(3) g by (auto simp: merged_def split: if_splits)
  then show ?thesis
    using assms by (auto simp: head_inv_def g merged_snoc list_all_iff split: option.splits)
qed

lemma header_lines_inv:
  "header_lines c lines hs raws = Inr (hs', raws') \<Longrightarrow> head_inv c hs raws \<Longrightarrow> head_inv c hs' raws'"
proof (induction c lines hs raws rule: header_lines.induct)
  case (2 c line lines hs raws)
  show ?case
  proof (cases "line = []")
    case False
    from "2.prems" False obtain n v where s: "split1 '':'' line = Some (n, v)"
      by (auto simp: Let_def split: if_splits option.splits)
    let ?n = "lower (strip n)" let ?v = "strip v"
    have g: "\<not> (hd line = CHR '' '' \<or> hd line = CHR 0x09)" "?n \<noteq> []" "token_match ?n"
      "int (length ?n) \<le> max_header_name c" "int (length ?v) \<le> max_header_value c"
      "\<not> (d_get hs ?n \<noteq> None \<and> ?n \<in> set single_headers)"
      using "2.prems"(1) False s by (auto simp: Let_def split: if_splits)
    have "field_ok c (?n, ?v)"
      using g name_token [OF refl g(2,3)] by (simp add: field_ok_def)
    note step = head_inv_step [OF "2.prems"(2) this g(6)]
    have rec: "header_lines c lines
        (d_set ?n (case d_get hs ?n of None \<Rightarrow> ?v | Some old \<Rightarrow> old @ '', '' @ ?v) hs)
        (raws @ [(?n, ?v)]) = Inr (hs', raws')"
      using "2.prems"(1) False g s by (auto simp: Let_def)
    show ?thesis
      by (rule "2.IH"(2) [OF False g(1) s refl refl refl _ _ _ rec step]) (use g in auto)
  qed (use 2 in simp)
qed simp

lemma header_lines_count:
  "header_lines c lines hs raws = Inr (hs', raws') \<Longrightarrow> length raws' \<le> length raws + length lines"
proof (induction c lines hs raws rule: header_lines.induct)
  case (2 c line lines hs raws)
  show ?case
  proof (cases "line = []")
    case False
    from "2.prems" False obtain n v where s: "split1 '':'' line = Some (n, v)"
      by (auto simp: Let_def split: if_splits option.splits)
    with 2 False show ?thesis by (fastforce simp: Let_def split: if_splits)
  qed (use 2 in fastforce)
qed simp

lemma parse_header_block_Inr:
  assumes "parse_header_block raw c = Inr (m, t, v, hs, raws)"
  obtains m0 lines where "m = upper m0" "token_match m0" "v = ''HTTP/1.1''" "prefix ''/'' t"
    "header_lines c lines [] [] = Inr (hs, raws)" "int (length lines) \<le> max_headers c"
    "d_get hs ''host'' \<noteq> None"
    "\<not> (d_get hs ''content-length'' \<noteq> None \<and> d_get hs ''transfer-encoding'' \<noteq> None)"
proof -
  let ?lines = "split_on CRLF (upto_idx (-4) raw)"
  from assms obtain m0 where "split_on '' '' (hd ?lines) = [m0, t, v]" "m = upper m0"
    "token_match m0" "v = ''HTTP/1.1''" "prefix ''/'' t"
    "header_lines c (tl ?lines) [] [] = Inr (hs, raws)" "\<not> max_headers c < int (length ?lines) - 1"
    "d_get hs ''host'' \<noteq> None"
    "\<not> (d_get hs ''content-length'' \<noteq> None \<and> d_get hs ''transfer-encoding'' \<noteq> None)"
    by (auto simp: parse_header_block_def Let_def rbind_Inr_iff simp del: split_on_nonempty
        split: if_splits list.splits)
  moreover have "int (length (tl ?lines)) = int (length ?lines) - 1"
    using split_on_nonempty [of CRLF "upto_idx (-4) raw"] by (cases ?lines) auto
  ultimately show thesis
    by (intro that [of m0 "tl ?lines"]) auto
qed

lemma head_inv_Nil [simp]: "head_inv c [] []"
  by (simp add: head_inv_def merged_def vals_def list_all_iff)

lemma parse_header_block_inv:
  "parse_header_block raw c = Inr (m, t, v, hs, raws) \<Longrightarrow> head_inv c hs raws"
  by (erule parse_header_block_Inr) (auto dest: header_lines_inv)

subsection \<open>A well-formed head is parsed to itself\<close>

definition header_line :: "str \<times> str \<Rightarrow> str" where
  "header_line p = fst p @ '': '' @ snd p"

definition request_line :: "str \<Rightarrow> str \<Rightarrow> str" where
  "request_line m t = m @ '' '' @ t @ '' HTTP/1.1''"

definition request_head :: "str \<Rightarrow> str \<Rightarrow> (str, str) dict \<Rightarrow> bytes" where
  "request_head m t hs = join CRLF (request_line m t # map header_line hs)"

text \<open>
  What a well-behaved client sends: a token method, an origin-form target without blanks,
  distinct lower-case token names, stripped values without carriage returns, a host, not
  both length headers, and sizes within the configured limits.
\<close>

definition clean_field :: "str \<times> str \<Rightarrow> bool" where
  "clean_field p =
     (fst p \<noteq> [] \<and> list_all tchar (fst p) \<and> lower (fst p) = fst p \<and>
      strip (snd p) = snd p \<and> CR \<notin> set (snd p))"

definition clean_head :: "server_config \<Rightarrow> str \<Rightarrow> str \<Rightarrow> (str, str) dict \<Rightarrow> bool" where
  "clean_head c m t hs =
     (m \<noteq> [] \<and> list_all tchar m \<and> prefix ''/'' t \<and> CHR '' '' \<notin> set t \<and> CR \<notin> set t \<and>
      d_ok hs \<and> list_all clean_field hs \<and> d_get hs ''host'' \<noteq> None \<and>
      \<not> (d_get hs ''content-length'' \<noteq> None \<and> d_get hs ''transfer-encoding'' \<noteq> None) \<and>
      int (length (request_line m t)) \<le> max_request_line c \<and> int (length hs) \<le> max_headers c \<and>
      list_all (\<lambda>p. int (length (fst p)) \<le> max_header_name c \<and> int (length (snd p)) \<le> max_header_value c) hs \<and>
      int (length (request_head m t hs)) \<le> max_header_bytes c)"

lemma tchar_not: "tchar c \<Longrightarrow> c \<noteq> CHR '':'' \<and> c \<noteq> CHR '' '' \<and> c \<noteq> CR \<and> c \<noteq> LF \<and> c \<noteq> CHR 0x09 \<and> \<not> is_space c"
  by (auto simp: tchar_def is_space_def Let_def code_def)

lemma tchars_not: "list_all tchar s \<Longrightarrow> CHR '':'' \<notin> set s \<and> CHR '' '' \<notin> set s \<and> CR \<notin> set s \<and> LF \<notin> set s"
  using tchar_not by (auto simp: list_all_iff)

lemma strip_tchars: "list_all tchar s \<Longrightarrow> strip s = s"
  unfolding strip_def by (rule strip_by_id) (use tchar_not in \<open>auto simp: list_all_iff\<close>)

lemma strip_space: "strip (CHR '' '' # s) = strip s"
  by (simp add: strip_def strip_by_def is_space_def code_def)

lemma token_match_tchars: "list_all tchar s \<Longrightarrow> s \<noteq> [] \<Longrightarrow> token_match s"
proof -
  assume s: "list_all tchar s" "s \<noteq> []"
  then have "last s \<noteq> LF" using tchars_not last_in_set by metis
  with s show ?thesis by (simp add: token_match_def)
qed

lemma header_lines_render:
  assumes "list_all clean_field hs" "d_ok (acc @ hs)"
    "list_all (\<lambda>p. int (length (fst p)) \<le> max_header_name c \<and> int (length (snd p)) \<le> max_header_value c) hs"
  shows "header_lines c (map header_line hs) acc raws = Inr (acc @ hs, raws @ hs)"
  using assms
proof (induction hs arbitrary: acc raws)
  case (Cons p hs)
  obtain n v where p: "p = (n, v)" by force
  with Cons.prems have n: "n \<noteq> []" "list_all tchar n" "lower n = n" "strip v = v"
    by (simp_all add: clean_field_def)
  have "split1 '':'' (n @ '':'' @ ('' '' @ v)) = Some (n, '' '' @ v)"
    by (rule split1_hd_notin) (use tchars_not [OF n(2)] in simp_all)
  then have s: "split1 '':'' (header_line p) = Some (n, '' '' @ v)"
    by (simp add: header_line_def p)
  have h: "header_line p \<noteq> []" "hd (header_line p) = hd n" "tchar (hd n)"
    using n by (simp_all add: header_line_def p) (cases n; simp)
  have new: "d_get acc n = None"
    using Cons.prems(2) p by (auto simp: d_ok_def d_get_None_iff)
  have "header_lines c (map header_line (p # hs)) acc raws =
      header_lines c (map header_line hs) (acc @ [(n, v)]) (raws @ [(n, v)])"
    using s h tchar_not [OF h(3)] n new Cons.prems(3) p
    by (simp add: strip_tchars strip_space token_match_tchars d_set_new)
  also have "\<dots> = Inr ((acc @ [(n, v)]) @ hs, (raws @ [(n, v)]) @ hs)"
    by (rule Cons.IH) (use Cons.prems p in simp_all)
  finally show ?case by (simp add: p)
qed simp

lemma header_line_no_CR: "clean_field p \<Longrightarrow> CR \<notin> set (header_line p)"
  using tchars_not [of "fst p"] by (auto simp: header_line_def clean_field_def)

lemma request_line_no_CR: "list_all tchar m \<Longrightarrow> CR \<notin> set t \<Longrightarrow> CR \<notin> set (request_line m t)"
  using tchars_not [of m] by (auto simp: request_line_def)

lemma split_on_space3:
  assumes "CHR '' '' \<notin> set a" "CHR '' '' \<notin> set b" "CHR '' '' \<notin> set c"
  shows "split_on '' '' (a @ '' '' @ b @ '' '' @ c) = [a, b, c]"
  using split_on_join [of "'' ''" "[a, b, c]"] assms by auto

lemma parse_header_block_complete:
  assumes "clean_head c m t hs"
  shows "parse_header_block (request_head m t hs @ CRLF @ CRLF) c = Inr (upper m, t, ''HTTP/1.1'', hs, hs)"
proof -
  let ?raw = "request_head m t hs @ CRLF @ CRLF"
  note w = assms [unfolded clean_head_def]
  have cr: "CR \<notin> set l" if "l \<in> set (request_line m t # map header_line hs)" for l
    using that w header_line_no_CR request_line_no_CR by (auto simp: list_all_iff)
  have "upto_idx (-4) ?raw = request_head m t hs" by (simp add: upto_idx_def)
  moreover have "split_on CRLF (request_head m t hs) = request_line m t # map header_line hs"
    unfolding request_head_def by (rule split_on_join) (use cr in auto)
  ultimately have lines: "split_on CRLF (upto_idx (-4) ?raw) = request_line m t # map header_line hs"
    by simp
  have req: "split_on '' '' (request_line m t) = [m, t, ''HTTP/1.1'']"
    using split_on_space3 [of m t "''HTTP/1.1''"] w tchars_not [of m] by (simp add: request_line_def)
  have "header_lines c (map header_line hs) [] [] = Inr (hs, hs)"
    using header_lines_render [of hs "[]" c "[]"] w by simp
  moreover have "sublist (CRLF @ CRLF) ?raw" by (simp del: append_Cons append_Nil)
  moreover have "request_line m t \<noteq> []" using w by (simp add: request_line_def)
  ultimately show ?thesis
    using lines req w token_match_tchars [of m]
    by (auto simp: parse_header_block_def Let_def)
qed

text \<open>The end of the head is the first blank line of the stream.\<close>

lemma split1_skip:
  "sep \<noteq> [] \<Longrightarrow> hd sep \<notin> set a \<Longrightarrow>
   split1 sep (a @ s) = map_option (\<lambda>(x, y). (a @ x, y)) (split1 sep s)"
proof (induction a)
  case Nil
  then show ?case by (cases "split1 sep s") auto
next
  case (Cons x a)
  then have "\<not> prefix sep (x # a @ s)" by (cases sep) auto
  with Cons show ?case by (cases "split1 sep s") auto
qed

lemma split1_blank_line:
  assumes "ls \<noteq> []" "\<And>l. l \<in> set ls \<Longrightarrow> CR \<notin> set l \<and> l \<noteq> []"
  shows "split1 (CRLF @ CRLF) (join CRLF ls @ CRLF @ CRLF @ rest) = Some (join CRLF ls, rest)"
  using assms
proof (induction ls)
  case (Cons l ls)
  show ?case
  proof (cases "ls = []")
    case True
    have "split1 (CRLF @ CRLF) (l @ (CRLF @ CRLF) @ rest) = Some (l, rest)"
      by (rule split1_hd_notin) (use Cons in auto)
    with True show ?thesis by simp
  next
    case False
    then obtain x q ps where ls: "ls = (x # q) # ps" using Cons.prems by (cases ls; cases "hd ls") auto
    with Cons.prems(2) [of "x # q"] have x: "x \<noteq> CR" by auto
    let ?s = "join CRLF ls @ CRLF @ CRLF @ rest"
    have "hd ?s = x" "?s \<noteq> []" using ls by (cases ps; simp)+
    then obtain s' where s': "?s = x # s'" by (cases ?s) auto
    have "split1 (CRLF @ CRLF) (l @ CRLF @ ?s) =
        map_option (\<lambda>(a, b). (l @ a, b)) (split1 (CRLF @ CRLF) (CRLF @ ?s))"
      by (rule split1_skip) (use Cons in auto)
    moreover have "split1 (CRLF @ CRLF) (CRLF @ ?s) =
        map_option (\<lambda>(a, b). (CRLF @ a, b)) (split1 (CRLF @ CRLF) ?s)"
      using x s' by (cases "split1 (CRLF @ CRLF) ?s") auto
    moreover have "split1 (CRLF @ CRLF) ?s = Some (join CRLF ls, rest)"
      by (rule Cons.IH) (use False Cons.prems in auto)
    ultimately show ?thesis using False by (simp add: join_Cons)
  qed
qed simp

lemma split1_request_head:
  assumes w: "clean_head c m t hs"
  shows "split1 (CRLF @ CRLF) (request_head m t hs @ CRLF @ CRLF @ rest) = Some (request_head m t hs, rest)"
  unfolding request_head_def
proof (rule split1_blank_line)
  fix l assume "l \<in> set (request_line m t # map header_line hs)"
  then show "CR \<notin> set l \<and> l \<noteq> []"
    using w header_line_no_CR request_line_no_CR
    by (auto simp: list_all_iff clean_head_def request_line_def header_line_def)
qed simp

lemma read_headers_complete:
  assumes p: "prompt i rd" and i: "i \<le> header_idle_timeout (cfg rd)"
    and w: "clean_head (cfg rd) m t hs" and pd: "pending rd = request_head m t hs @ CRLF @ CRLF @ rest"
  shows "\<exists>rd'. read_headers rd = (Inr (request_head m t hs @ CRLF @ CRLF), rd') \<and>
     pending rd' = rest \<and> prompt i rd' \<and> cfg rd' = cfg rd"
  unfolding read_headers_def
proof (rule read_until_complete [OF p i])
  show "split1 (CRLF @ CRLF) (pending rd) = Some (request_head m t hs, rest)"
    unfolding pd by (rule split1_request_head [OF w])
  show "int (length (request_head m t hs) + length (CRLF @ CRLF)) \<le> max_header_bytes (cfg rd) + 4 + 1"
    using w by (simp add: clean_head_def)
qed simp

subsection \<open>Whole requests\<close>

lemma digits_from_Some:
  "digits_from b acc ok s = Some n \<Longrightarrow> acc \<le> n \<or> b = 0"
proof (induction b acc ok s rule: digits_from.induct)
  case (2 base acc ok c cs)
  then show ?case
    by (cases base) (auto split: if_splits option.splits)
qed (auto split: if_splits)

lemma py_int_isdigit_nonneg:
  assumes "isdigit s" "py_int s = Some n"
  shows "0 \<le> n"
proof -
  have "CHR ''-'' \<notin> set s"
    using assms(1) by (auto simp: isdigit_def list_all_iff is_digit_char_def code_def)
  then have "CHR ''-'' \<notin> set (strip s)"
    using strip_by_set [of is_space s] by (auto simp: strip_def)
  with assms(2) show ?thesis
    by (auto simp: py_int_def parse_int_def split: list.splits if_splits)
qed

lemma content_length_nonneg: "content_length hs = Inr n \<Longrightarrow> 0 \<le> n"
  by (auto simp: content_length_def Let_def py_int_isdigit_nonneg split: if_splits option.splits)

lemma spool_loop_sound:
  "spool_loop n sp rd = (Inr d, rd') \<Longrightarrow>
   \<exists>e. d = sp @ e \<and> pending rd = e @ pending rd' \<and> int (length e) = max 0 n"
proof (induction n sp rd rule: spool_loop.induct)
  case (1 n sp rd)
  show ?case
  proof (cases "n \<le> 0")
    case True
    with 1 show ?thesis by (auto simp: spool_loop.simps [of n sp rd])
  next
    case False
    with "1.prems" obtain part rd1 where r: "read_exact (min 65536 n) rd = (Inr part, rd1)"
      and rec: "spool_loop (n - int (length part)) (sp @ part) rd1 = (Inr d, rd')"
      by (auto simp: spool_loop.simps [of n sp rd] split: prod.splits sum.splits)
    from "1.IH" [OF False r [symmetric] refl rec] obtain e where
      e: "d = (sp @ part) @ e" "pending rd1 = e @ pending rd'"
        "int (length e) = max 0 (n - int (length part))" by blast
    moreover have "pending rd = part @ pending rd1" "int (length part) = min 65536 n"
      using read_exact_sound [OF r] False by simp_all
    ultimately show ?thesis using False by (intro exI [of _ "part @ e"]) auto
  qed
qed

lemma read_exact_body_sound:
  assumes "read_exact_body n rd = (Inr b, rd')" "0 \<le> n"
  shows "pending rd = body_bytes_of b @ pending rd'" "int (length (body_bytes_of b)) = n"
    "n \<le> max_body_bytes (cfg rd)"
proof -
  note a = assms(1) [unfolded read_exact_body_def]
  show "n \<le> max_body_bytes (cfg rd)" using a by (auto split: if_splits)
  show "pending rd = body_bytes_of b @ pending rd'" "int (length (body_bytes_of b)) = n"
    using a assms(2)
    by (auto split: if_splits prod.splits sum.splits dest: read_exact_sound spool_loop_sound)
qed

lemma chunk_loop_sound:
  "chunk_loop sp tot rd = (Inr (b, n), rd') \<Longrightarrow>
   (\<exists>used. pending rd = used @ pending rd') \<and> (\<exists>e. b = sp @ e \<and> n - tot \<le> int (length e)) \<and>
   n \<le> max tot (max_body_bytes (cfg rd))"
proof (induction sp tot rd rule: chunk_loop.induct)
  case (1 sp tot rd)
  obtain raw rd1 where r1: "read_until CRLF 8192 (body_idle_timeout (cfg rd)) rd = (Inr raw, rd1)"
    using "1.prems" by (auto simp: chunk_loop.simps [of sp tot rd] split: prod.splits sum.splits)
  then obtain k where k: "chunk_size (upto_idx (-2) raw) = Some k"
    using "1.prems" by (auto simp: chunk_loop.simps [of sp tot rd] split: option.splits)
  have p1: "pending rd = raw @ pending rd1" "cfg rd1 = cfg rd"
    using read_until_pending [OF r1] by simp_all
  show ?case
  proof (cases "k = 0")
    case True
    with "1.prems" r1 k obtain x where
      "read_until CRLF 8192 (body_idle_timeout (cfg rd1)) rd1 = (Inr x, rd')" "b = sp" "n = tot"
      by (auto simp: chunk_loop.simps [of sp tot rd] split: prod.splits sum.splits)
    with p1 show ?thesis using read_until_pending by fastforce
  next
    case False
    have lim: "\<not> max_body_bytes (cfg rd1) < tot + k"
      using "1.prems" r1 k False by (auto simp: chunk_loop.simps [of sp tot rd] split: if_splits)
    from "1.prems" r1 k False lim obtain part rd2 where r2: "read_exact k rd1 = (Inr part, rd2)"
      by (auto simp: chunk_loop.simps [of sp tot rd] split: prod.splits sum.splits)
    with "1.prems" r1 k False lim obtain rd3 where r3: "read_exact 2 rd2 = (Inr CRLF, rd3)"
      and rec: "chunk_loop (sp @ part) (tot + k) rd3 = (Inr (b, n), rd')"
      by (auto simp: chunk_loop.simps [of sp tot rd] split: prod.splits sum.splits if_splits)
    have p: "pending rd = (raw @ part @ CRLF) @ pending rd3" "cfg rd3 = cfg rd" "0 \<le> k \<Longrightarrow> int (length part) = k"
      using p1 read_exact_sound [OF r2] read_exact_sound [OF r3] by simp_all
    from "1.IH" [OF r1 [symmetric] refl k False lim r2 [symmetric] refl r3 [symmetric] refl _ rec]
    obtain used e where "pending rd3 = used @ pending rd'" "b = (sp @ part) @ e" "n - (tot + k) \<le> int (length e)"
      "n \<le> max (tot + k) (max_body_bytes (cfg rd3))" by blast
    with p lim p1(2) have "pending rd = ((raw @ part @ CRLF) @ used) @ pending rd'"
      "b = sp @ (part @ e)" "n - tot \<le> int (length (part @ e))"
      "n \<le> max tot (max_body_bytes (cfg rd))" by (auto, cases "0 \<le> k") auto
    then show ?thesis by blast
  qed
qed

definition declared_body :: "(str, str) dict \<Rightarrow> bytes \<Rightarrow> bool" where
  "declared_body hs body =
     (d_get hs ''transfer-encoding'' = None \<and>
      (case d_get hs ''content-length'' of None \<Rightarrow> body = [] | Some v \<Rightarrow> v = show_nat (length body)))"

lemma content_length_declared:
  assumes "declared_body hs body" "int (length body) < 2 ^ 64"
  shows "content_length hs = Inr (int (length body))"
proof -
  have "py_int (show_nat (length body)) = Some (int (length body))"
  proof (rule py_int_show_nat)
    have "length body < 2 ^ 64" using assms(2) by simp
    also have "\<dots> \<le> 10 ^ 20" by simp
    also have "\<dots> \<le> 10 ^ max_str_digits" by (rule power_increasing) (simp_all add: max_str_digits_def)
    finally show "length body < 10 ^ max_str_digits" .
  qed
  moreover have "isdigit ''0''" "py_int ''0'' = Some 0" by code_simp+
  ultimately show ?thesis
    using assms(1) show_nat_isdigit
    by (auto simp: content_length_def declared_body_def Let_def split: option.splits)
qed

lemma parse_request_clean:
  assumes "clean_head c m t hs" and "declared_body hs body"
    and "int (length body) \<le> max_body_bytes c" and "max_body_bytes c < 2 ^ 64"
    and "prompt i rd" and "i \<le> header_idle_timeout c" and "i \<le> body_idle_timeout c" and "cfg rd = c"
    and "pending rd = request_head m t hs @ CRLF @ CRLF @ body @ rest"
  shows "\<exists>b rd'. parse_request ok rd addr c =
      (Request ok (upper m) t ''HTTP/1.1'' hs hs b (int (length body)) addr c, rd') \<and>
      body_bytes_of b = body \<and> pending rd' = rest \<and> prompt i rd'"
proof -
  obtain rd1 where r1: "read_headers rd = (Inr (request_head m t hs @ CRLF @ CRLF), rd1)"
    "pending rd1 = body @ rest" "prompt i rd1" "cfg rd1 = c"
    using read_headers_complete [OF assms(5), of m t hs "body @ rest"] assms by auto
  have cl: "content_length hs = Inr (int (length body))"
    using content_length_declared [OF assms(2)] assms(3,4) by simp
  have nc: "\<not> is_chunked hs"
    using assms(2) by (simp add: declared_body_def is_chunked_def lower_def)
  have "\<exists>b rd'. read_body hs rd1 = (Inr (b, int (length body)), rd') \<and> body_bytes_of b = body \<and>
      pending rd' = rest \<and> prompt i rd'"
  proof (cases "body = []")
    case True
    with cl nc r1 show ?thesis by (simp add: read_body_def)
  next
    case False
    with cl nc r1 assms(3,7) read_exact_body_complete [OF r1(3) _ r1(2)] show ?thesis
      by (fastforce simp: read_body_def)
  qed
  then show ?thesis
    using r1 parse_header_block_complete [OF assms(1)] by (auto simp: parse_request_def)
qed

text \<open>
  C4. Whatever the way the network cuts and delays it, a well-formed request with a declared
  body is parsed to exactly the request that was sent, and the bytes after it are left for
  the next read.
\<close>

theorem parse_request_complete:
  assumes "clean_head c m t hs" and "declared_body hs body"
    and "int (length body) \<le> max_body_bytes c" and "max_body_bytes c < 2 ^ 64"
    and "prompt i rd" and "i \<le> header_idle_timeout c" and "i \<le> body_idle_timeout c" and "cfg rd = c"
    and "pending rd = request_head m t hs @ CRLF @ CRLF @ body @ rest"
  shows "\<exists>b rd'. parse_request ok rd addr c =
      (Request ok (upper m) t ''HTTP/1.1'' hs hs b (int (length body)) addr c, rd') \<and>
      body_bytes_of b = body \<and> pending rd' = rest \<and> prompt i rd'"
  by (rule parse_request_clean [OF assms])

definition get_reader :: reader where
  "get_reader = \<lparr>arrivals = [(1/2, Data ''POST /a HTTP/1.''), (1, Data (''1'' @ CRLF @ ''host: h'' @ [CR])),
      (1/4, Data (LF # ''content-length: 2'' @ CRLF @ CRLF @ ''h'')), (1/8, Data ''iGET'')],
     now = 0, buffer = [], deadline = 30, cfg = DEFAULT_CONFIG\<rparr>"

theorem parse_request_complete_witness:
  "\<exists>b rd'. parse_request (\<lambda>_. True) get_reader (''1.2.3.4'', 5) DEFAULT_CONFIG =
      (Request (\<lambda>_. True) (upper ''POST'') ''/a'' ''HTTP/1.1'' [(''host'', ''h''), (''content-length'', ''2'')]
        [(''host'', ''h''), (''content-length'', ''2'')] b (int (length ''hi'')) (''1.2.3.4'', 5) DEFAULT_CONFIG, rd') \<and>
      body_bytes_of b = ''hi'' \<and> pending rd' = ''GET'' \<and> prompt 1 rd'"
proof (rule parse_request_complete)
  show "clean_head DEFAULT_CONFIG ''POST'' ''/a'' [(''host'', ''h''), (''content-length'', ''2'')]" by code_simp
  show "declared_body [(''host'', ''h''), (''content-length'', ''2'')] ''hi''" by code_simp
  show "prompt 1 get_reader" by code_simp
  show "pending get_reader = request_head ''POST'' ''/a'' [(''host'', ''h''), (''content-length'', ''2'')] @
      CRLF @ CRLF @ ''hi'' @ ''GET''" by code_simp
qed (simp_all add: DEFAULT_CONFIG_def get_reader_def)


definition sample_head :: bytes where
  "sample_head = ''GET /x HTTP/1.1'' @ CRLF @ ''Host: a'' @ CRLF @ ''Accept: b'' @ CRLF @ ''accept:c'' @ CRLF @ CRLF"


end
