(* ===== verification/Parser_Time.thy ===== *)
theory Parser_Time
  imports Parser_Head
begin

section \<open>Every reading operation ends in time\<close>

text \<open>
  The contract shared by all operations of \<^verbatim>\<open>SocketReader\<close>, stated as a locale: the
  configuration and the absolute deadline are left alone and the clock never passes the
  deadline by more than the one millisecond that \<^verbatim>\<open>max(0.001, ...)\<close> grants the last \<^verbatim>\<open>recv\<close>.
  Whatever the peer does, a request is read or refused by then.
\<close>

definition in_time :: "reader \<Rightarrow> reader \<Rightarrow> bool" where
  "in_time rd rd' =
     (cfg rd' = cfg rd \<and> deadline rd' = deadline rd \<and> now rd' \<le> max (now rd) (deadline rd + 1 / 1000))"

lemma in_time_refl [simp]: "in_time rd rd"
  by (simp add: in_time_def)

lemma in_time_trans: "in_time a b \<Longrightarrow> in_time b c \<Longrightarrow> in_time a c"
  by (auto simp: in_time_def)

lemma in_time_buffer [simp]:
  "in_time rd (rd'\<lparr>buffer := b\<rparr>) = in_time rd rd'" "in_time (rd\<lparr>buffer := b\<rparr>) rd' = in_time rd rd'"
  by (simp_all add: in_time_def)

locale timed_op =
  fixes op :: "reader \<Rightarrow> 'r result \<times> reader"
  assumes timed: "op rd = (r, rd') \<Longrightarrow> in_time rd rd'"
begin

lemma timed_snd: "in_time rd (snd (op rd))"
  using timed by (cases "op rd") auto

lemma after_timed: "in_time rd0 rd \<Longrightarrow> op rd = (r, rd') \<Longrightarrow> in_time rd0 rd'"
  using timed in_time_trans by blast

lemma within_timeout:
  assumes "op (SocketReader s c) = (r, rd')" "0 \<le> absolute_request_timeout c"
  shows "now rd' \<le> now s + absolute_request_timeout c + 1 / 1000"
  using timed [OF assms(1)] assms(2) by (simp add: SocketReader_def in_time_def max_def split: if_splits)

end

lemma recv_clock:
  "recv u n rd = (r, rd') \<Longrightarrow> 0 \<le> u \<Longrightarrow> now rd' \<le> now (rd :: reader) + u"
  by (auto simp: recv.simps split: list.splits if_splits arrival.splits prod.splits)

lemma recv_some_clock:
  assumes "recv_some t rd = (r, rd')"
  shows "now rd' \<le> max (now rd) (deadline rd + 1 / 1000)"
proof (cases "deadline rd - now rd \<le> 0")
  case True
  with assms show ?thesis by (simp add: recv_some_def Let_def)
next
  case False
  define u where "u = max (1 / 1000) (min t (deadline rd - now rd))"
  obtain r0 rd0 where u: "recv u 4096 rd = (r0, rd0)" by force
  with assms False have "rd' = rd0"
    by (auto simp: recv_some_def Let_def u_def split: if_splits received.splits)
  moreover have "u \<le> deadline rd - now rd + 1 / 1000" "0 \<le> u" using False by (auto simp: u_def)
  ultimately have "now rd' \<le> deadline rd + 1 / 1000"
    using recv_clock [OF u] by simp
  then show ?thesis by simp
qed

interpretation recv_op: timed_op "recv_some t" for t
  by unfold_locales (simp add: in_time_def recv_some_frame recv_some_clock)

subsection \<open>The contract for each operation\<close>

lemma read_until_timed: "read_until m l i rd = (r, rd') \<Longrightarrow> in_time rd rd'"
proof (induction m l i rd rule: read_until.induct)
  case (1 m l i rd)
  show ?case
  proof (cases "split1 m (buffer rd) = None \<and> \<not> l < int (length (buffer rd))")
    case True
    obtain r1 rd1 where r1: "recv_some i rd = (r1, rd1)" by force
    show ?thesis
    proof (cases r1)
      case (Inl e)
      with "1.prems" True r1 recv_op.timed [OF r1] show ?thesis
        by (simp add: read_until.simps [of m l i rd])
    next
      case (Inr d)
      with "1.prems" True r1 have "read_until m l i (rd1\<lparr>buffer := buffer rd1 @ d\<rparr>) = (r, rd')"
        by (simp add: read_until.simps [of m l i rd])
      with "1.IH" True r1 Inr have "in_time rd1 rd'" by fastforce
      with recv_op.timed [OF r1] show ?thesis by (rule in_time_trans)
    qed
  next
    case False
    with "1.prems" show ?thesis
      by (auto simp: read_until.simps [of m l i rd] split: option.splits if_splits)
  qed
qed

interpretation until_op: timed_op "read_until m l i" for m l i
  by unfold_locales (rule read_until_timed)

interpretation headers_op: timed_op read_headers
  by unfold_locales (auto simp: read_headers_def dest: until_op.timed)

lemma read_more_timed: "read_more n out rd = (r, rd') \<Longrightarrow> in_time rd rd'"
proof (induction n out rd rule: read_more.induct)
  case (1 n out rd)
  show ?case
  proof (cases "int (length out) < n")
    case True
    obtain r1 rd1 where r1: "recv_some (body_idle_timeout (cfg rd)) rd = (r1, rd1)" by force
    show ?thesis
    proof (cases r1)
      case (Inl e)
      with "1.prems" True r1 recv_op.timed [OF r1] show ?thesis
        by (simp add: read_more.simps [of n out rd])
    next
      case (Inr d)
      let ?need = "nat (n - int (length out))"
      let ?rd = "if ?need < length d then rd1\<lparr>buffer := buffer rd1 @ drop ?need d\<rparr> else rd1"
      from Inr "1.prems" True r1 have "read_more n (out @ take ?need d) ?rd = (r, rd')"
        by (simp add: read_more.simps [of n out rd] Let_def)
      with "1.IH" True r1 Inr have "in_time ?rd rd'" by fastforce
      then have "in_time rd1 rd'" by (simp split: if_splits)
      with recv_op.timed [OF r1] show ?thesis by (rule in_time_trans)
    qed
  next
    case False
    with "1.prems" show ?thesis by (auto simp: read_more.simps [of n out rd])
  qed
qed

interpretation exact_op: timed_op "read_exact n" for n
  by unfold_locales (auto simp: read_exact_def Let_def dest!: read_more_timed)

lemma spool_loop_timed: "spool_loop n sp rd = (r, rd') \<Longrightarrow> in_time rd rd'"
proof (induction n sp rd rule: spool_loop.induct)
  case (1 n sp rd)
  show ?case
  proof (cases "n \<le> 0")
    case False
    obtain r1 rd1 where r1: "read_exact (min 65536 n) rd = (r1, rd1)" by force
    show ?thesis
    proof (cases r1)
      case (Inl e)
      with "1.prems" False r1 exact_op.timed [OF r1] show ?thesis
        by (simp add: spool_loop.simps [of n sp rd])
    next
      case (Inr d)
      with "1.prems" False r1 have "spool_loop (n - int (length d)) (sp @ d) rd1 = (r, rd')"
        by (simp add: spool_loop.simps [of n sp rd])
      with "1.IH" False r1 Inr have "in_time rd1 rd'" by fastforce
      with exact_op.timed [OF r1] show ?thesis by (rule in_time_trans)
    qed
  qed (use 1 in \<open>simp add: spool_loop.simps [of n sp rd]\<close>)
qed

interpretation spool_op: timed_op "spool_loop n sp" for n sp
  by unfold_locales (rule spool_loop_timed)

interpretation body_op: timed_op "read_exact_body n" for n
  by unfold_locales
    (auto simp: read_exact_body_def split: if_splits prod.splits sum.splits
      dest: exact_op.timed spool_op.timed)

lemma chunk_loop_timed: "chunk_loop sp tot rd = (r, rd') \<Longrightarrow> in_time rd rd'"
proof (induction sp tot rd rule: chunk_loop.induct)
  case (1 sp tot rd)
  obtain r1 rd1 where r1: "read_until CRLF 8192 (body_idle_timeout (cfg rd)) rd = (r1, rd1)" by force
  note t1 = until_op.timed [OF r1]
  show ?case
  proof (cases "\<exists>raw k. r1 = Inr raw \<and> chunk_size (upto_idx (-2) raw) = Some k \<and> k \<noteq> 0 \<and>
      \<not> max_body_bytes (cfg rd1) < tot + k")
    case True
    then obtain raw k where k: "r1 = Inr raw" "chunk_size (upto_idx (-2) raw) = Some k" "k \<noteq> 0"
      "\<not> max_body_bytes (cfg rd1) < tot + k" by blast
    obtain r2 rd2 where r2: "read_exact k rd1 = (r2, rd2)" by force
    obtain r3 rd3 where r3: "read_exact 2 rd2 = (r3, rd3)" by force
    have t3: "in_time rd rd2" "in_time rd rd3"
      using exact_op.after_timed r1 r2 r3 t1 by blast+
    show ?thesis
    proof (cases "\<exists>part. r2 = Inr part \<and> r3 = Inr CRLF")
      case True
      then obtain part where p: "r2 = Inr part" "r3 = Inr CRLF" by blast
      then have "chunk_loop (sp @ part) (tot + k) rd3 = (r, rd')"
        using "1.prems" r1 k r2 r3 by (simp add: chunk_loop.simps [of sp tot rd])
      with "1.IH" r1 k r2 r3 p have "in_time rd3 rd'" by fastforce
      with t3(2) show ?thesis by (rule in_time_trans)
    next
      case False
      with "1.prems" r1 k r2 r3 t1 t3 show ?thesis
        by (auto simp: chunk_loop.simps [of sp tot rd] split: sum.splits if_splits)
    qed
  next
    case False
    with "1.prems" r1 t1 show ?thesis
      by (auto simp: chunk_loop.simps [of sp tot rd] split: sum.splits option.splits if_splits prod.splits
          dest: until_op.after_timed)
  qed
qed

interpretation chunked_op: timed_op read_chunked_body
  by unfold_locales
    (auto simp: read_chunked_body_def split: prod.splits sum.splits dest: chunk_loop_timed)

interpretation read_body_op: timed_op "read_body hs" for hs
  by unfold_locales
    (auto simp: read_body_def split: if_splits prod.splits sum.splits
      dest: chunked_op.timed body_op.timed)

interpretation parse_op: timed_op "\<lambda>rd. parse_request ok rd addr c" for ok addr c
proof unfold_locales
  fix rd r rd'
  assume p: "parse_request ok rd addr c = (r, rd')"
  obtain r1 rd1 where r1: "read_headers rd = (r1, rd1)" by force
  note t1 = headers_op.timed [OF r1]
  with p r1 show "in_time rd rd'"
    by (auto simp: parse_request_def split: sum.splits prod.splits dest: read_body_op.after_timed)
qed

text \<open>
  C10. However slowly or maliciously the peer sends, \<^verbatim>\<open>parse_request\<close> on a fresh reader ends,
  with a request or an exception, at most one millisecond after the absolute request timeout.
\<close>

theorem parse_request_on_time:
  assumes "parse_request ok (SocketReader s c) addr c = (r, rd')" and "0 \<le> absolute_request_timeout c"
  shows "now rd' \<le> now s + absolute_request_timeout c + 1 / 1000"
  by (rule parse_op.within_timeout [OF assms])

definition slow_conn :: conn where
  "slow_conn = \<lparr>arrivals = map (\<lambda>b. (29/10, Data [b])) ''GET / HTTP/1.1'', now = 7\<rparr>"

theorem parse_request_on_time_witness:
  "now (snd (parse_request (\<lambda>_. True) (SocketReader slow_conn DEFAULT_CONFIG) (''c'', 1) DEFAULT_CONFIG))
     \<le> 7 + 30 + 1 / 1000"
proof -
  obtain r rd' where p: "parse_request (\<lambda>_. True) (SocketReader slow_conn DEFAULT_CONFIG) (''c'', 1) DEFAULT_CONFIG
      = (r, rd')" by force
  have "0 \<le> absolute_request_timeout DEFAULT_CONFIG" by (simp add: DEFAULT_CONFIG_def)
  from parse_request_on_time [OF p this] p show ?thesis
    by (simp add: slow_conn_def DEFAULT_CONFIG_def)
qed

text \<open>
  An accepted request accounts for every byte: what was read is a prefix of the stream,
  a declared body has exactly the declared length and that length is within the configured
  limit.
\<close>

theorem parse_request_accounts:
  assumes "parse_request ok rd addr c = (Inr q, rd')" and "cfg rd = c"
  shows "(\<exists>used. pending rd = used @ pending rd') \<and> body_size q \<le> max 0 (max_body_bytes c) \<and>
     body_size q \<le> int (length (body_bytes q)) \<and>
     (\<not> is_chunked (headers q) \<longrightarrow> int (length (body_bytes q)) = body_size q)"
proof -
  obtain raw rd1 m t v hs raws b n where r1: "read_headers rd = (Inr raw, rd1)"
    and h: "parse_header_block raw c = Inr (m, t, v, hs, raws)"
    and r2: "read_body hs rd1 = (Inr (b, n), rd')" and q: "Request ok m t v hs raws b n addr c = Inr q"
    using assms(1) by (auto simp: parse_request_def split: prod.splits sum.splits)
  have p1: "pending rd = raw @ pending rd1" "cfg rd1 = c"
    using read_until_pending r1 assms(2) by (fastforce simp: read_headers_def)+
  have qf: "body_bytes q = body_bytes_of b" "body_size q = n" "headers q = hs"
    using Request_fields [OF q] by (simp_all add: body_bytes_def)
  show ?thesis
  proof (cases "is_chunked hs")
    case True
    with r2 obtain sp where c: "chunk_loop [] 0 rd1 = (Inr (sp, n), rd')" "body_bytes_of b = sp"
      by (auto simp: read_body_def read_chunked_body_def split: prod.splits sum.splits)
    from chunk_loop_sound [OF c(1)] obtain used where
      "pending rd1 = used @ pending rd'" "n \<le> int (length sp)" "n \<le> max 0 (max_body_bytes c)"
      using p1(2) by auto
    moreover from this have "pending rd = (raw @ used) @ pending rd'" using p1 by simp
    ultimately show ?thesis using c(2) True qf by auto
  next
    case False
    with r2 consider "b = InMemory []" "n = 0" "rd' = rd1"
      | "content_length hs = Inr n" "read_exact_body n rd1 = (Inr b, rd')"
      by (auto simp: read_body_def split: if_splits prod.splits sum.splits)
    then show ?thesis
    proof cases
      case 2
      with read_exact_body_sound [OF 2(2) content_length_nonneg [OF 2(1)]] p1 qf show ?thesis by auto
    qed (use p1 qf in auto)
  qed
qed

theorem parse_request_accounts_witness:
  "case parse_request (\<lambda>_. True) get_reader (''c'', 1) DEFAULT_CONFIG of
     (Inr q, rd') \<Rightarrow> body_size q \<le> max 0 (max_body_bytes DEFAULT_CONFIG) \<and> int (length (body_bytes q)) = body_size q
   | _ \<Rightarrow> False"
proof -
  have "case parse_request (\<lambda>_. True) get_reader (''c'', 1) DEFAULT_CONFIG of
      (Inr q, rd') \<Rightarrow> \<not> is_chunked (headers q) | _ \<Rightarrow> False"
    by code_simp
  then obtain q rd' where p: "parse_request (\<lambda>_. True) get_reader (''c'', 1) DEFAULT_CONFIG = (Inr q, rd')"
    "\<not> is_chunked (headers q)" by (auto split: prod.splits sum.splits)
  from parse_request_accounts [OF p(1)] p show ?thesis by (simp add: get_reader_def)
qed

definition negative_chunks :: reader where
  "negative_chunks = \<lparr>arrivals = [(0, Data (''4'' @ CRLF @ ''abcd'' @ CRLF @ ''-63'' @ CRLF @ CRLF
       @ ''8'' @ CRLF @ ''12345678'' @ CRLF @ ''0'' @ CRLF @ CRLF))],
     now = 0, buffer = [], deadline = 30, cfg = DEFAULT_CONFIG\<lparr>max_body_bytes := 4\<rparr>\<rparr>"

text \<open>
  A negative chunk size is accepted: it lowers the running total, so a chunked request
  can deliver a body longer than \<^verbatim>\<open>max_body_bytes\<close>, with a negative body size.
\<close>

theorem chunked_limit_bypassed:
  "case read_chunked_body negative_chunks of
     (Inr (b, n), rd') \<Rightarrow> n < 0 \<and> max_body_bytes (cfg negative_chunks) < int (length (body_bytes_of b))
   | _ \<Rightarrow> False"
  by code_simp

text \<open>
  A content length of superscript digits passes \<^verbatim>\<open>isdigit\<close> and then makes \<^verbatim>\<open>int\<close> raise
  \<^verbatim>\<open>ValueError\<close>, which the server answers with 500 instead of 400.
\<close>

theorem content_length_superscript:
  assumes "d_get hs ''content-length'' = Some s" and "s \<noteq> []"
    and "set s \<subseteq> {CHR 0xB2, CHR 0xB3, CHR 0xB9}"
  shows "content_length hs = Inl (PyError ''ValueError'')"
proof -
  obtain x xs where s: "s = x # xs" using assms(2) by (cases s) auto
  have "isdigit s"
    using assms(2,3) by (auto simp: isdigit_def list_all_iff is_digit_char_def code_def)
  moreover have "strip s = s"
    unfolding strip_def
    by (rule strip_by_id) (use assms(3) in \<open>auto simp: list_all_iff is_space_def code_def\<close>)
  then have "py_int s = None"
    using assms(3) s
    by (auto simp: py_int_def parse_int_def parse_nat_def digit_val_def code_def split: if_splits)
  ultimately show ?thesis
    by (simp add: content_length_def assms(1))
qed

theorem content_length_superscript_witness:
  "content_length [(''content-length'', [CHR 0xB2, CHR 0xB3])] = Inl (PyError ''ValueError'')"
  by (rule content_length_superscript [of _ "[CHR 0xB2, CHR 0xB3]"]) simp_all

end
