(* ===== verification/Router.thy ===== *)
theory Router
  imports Http
begin

section \<open>Routing, middleware chains and dependency injection (\<^verbatim>\<open>router.py\<close>)\<close>

text \<open>
  Route patterns are compiled to regular expressions; the model compiles them to the list of
  items those expressions consist of and matches with the same greedy backtracking. A
  pattern that contains other regular expression syntax than a full stop is outside the
  modelled fragment (\<open>None\<close>). Handlers and middlewares are type parameters of routing and
  state-passing functions in \<open>execute\<close>.
\<close>

subsection \<open>Patterns\<close>

datatype ritem = Lit char | AnyChar | Seg str | Rest str

definition name_start :: "char \<Rightarrow> bool" where
  "name_start c = (let n = code c in (65 \<le> n \<and> n \<le> 90) \<or> (97 \<le> n \<and> n \<le> 122) \<or> n = 95)"

definition name_char :: "char \<Rightarrow> bool" where
  "name_char c = (name_start c \<or> (48 \<le> code c \<and> code c \<le> 57))"

text \<open>The longest parameter name at the head of a text, and what follows it.\<close>

definition take_name :: "str \<Rightarrow> (str \<times> str) option" where
  "take_name s =
     (if s \<noteq> [] \<and> name_start (hd s) then Some (takeWhile name_char s, dropWhile name_char s) else None)"

definition angle_param :: "str \<Rightarrow> (ritem \<times> str) option" where
  "angle_param s =
     (case take_name s of
        Some (n, c # rest) \<Rightarrow> if c = CHR ''>'' then Some (Seg n, rest) else None
      | _ \<Rightarrow> None)"

definition brace_param :: "str \<Rightarrow> (ritem \<times> str) option" where
  "brace_param s =
     (case take_name s of
        Some (n, rest) \<Rightarrow>
          if prefix ''}'' rest then Some (Seg n, drop 1 rest)
          else if prefix '':path}'' rest then Some (Rest n, drop 6 rest) else None
      | None \<Rightarrow> None)"

lemma take_name_length: "take_name s = Some (n, rest) \<Longrightarrow> length rest \<le> length s"
  by (auto simp: take_name_def length_dropWhile_le split: if_splits)

lemma angle_param_length: "angle_param s = Some (i, rest) \<Longrightarrow> length rest \<le> length s"
  by (auto simp: angle_param_def dest!: take_name_length split: option.splits list.splits if_splits)

lemma brace_param_length: "brace_param s = Some (i, rest) \<Longrightarrow> length rest \<le> length s"
  by (auto simp: brace_param_def dest!: take_name_length split: option.splits if_splits)

definition regex_syntax :: "char set" where
  "regex_syntax = set (BACKSLASH # ''^$*+?[(){|'')"

function parse_pattern :: "str \<Rightarrow> ritem list option" where
  "parse_pattern s =
     (case s of
        [] \<Rightarrow> Some []
      | c # cs \<Rightarrow>
          if c = CHR ''<'' then
            (case angle_param cs of
               Some (i, rest) \<Rightarrow> map_option ((#) i) (parse_pattern rest)
             | None \<Rightarrow> map_option ((#) (Lit c)) (parse_pattern cs))
          else if c = CHR ''{'' then
            (case brace_param cs of
               Some (i, rest) \<Rightarrow> map_option ((#) i) (parse_pattern rest)
             | None \<Rightarrow> None)
          else if c = CHR ''.'' then map_option ((#) AnyChar) (parse_pattern cs)
          else if c \<in> regex_syntax then None
          else map_option ((#) (Lit c)) (parse_pattern cs))"
  by pat_completeness auto
termination
  by (relation "measure length") (auto dest!: angle_param_length brace_param_length)

declare parse_pattern.simps [simp del]

fun item_names :: "ritem list \<Rightarrow> str list" where
  "item_names [] = []"
| "item_names (Seg n # is) = n # item_names is"
| "item_names (Rest n # is) = n # item_names is"
| "item_names (i # is) = item_names is"

definition rstrip_slash :: "str \<Rightarrow> str" where
  "rstrip_slash s = rstrip_by (\<lambda>c. c = CHR ''/'') s"

definition strip_slash :: "str \<Rightarrow> str" where
  "strip_slash s = strip_by (\<lambda>c. c = CHR ''/'') s"

definition norm_pattern :: "str \<Rightarrow> str" where
  "norm_pattern s = (if rstrip_slash s = [] then ''/'' else rstrip_slash s)"

text \<open>A repeated group name is a \<^verbatim>\<open>re.error\<close>.\<close>

definition compile_pattern :: "str \<Rightarrow> ritem list option" where
  "compile_pattern p =
     (case parse_pattern p of
        None \<Rightarrow> None
      | Some is \<Rightarrow> if distinct (item_names is) then Some is else None)"

subsection \<open>Matching\<close>

definition at_end :: "str \<Rightarrow> bool" where
  "at_end s = (s = [] \<or> s = [LF])"

definition tail_ok :: "str \<Rightarrow> bool" where
  "tail_ok s = (at_end s \<or> (prefix ''/'' s \<and> at_end (tl s)))"

fun first_some :: "('a \<Rightarrow> 'b option) \<Rightarrow> 'a list \<Rightarrow> 'b option" where
  "first_some f [] = None"
| "first_some f (x # xs) = (case f x of None \<Rightarrow> first_some f xs | Some y \<Rightarrow> Some y)"

text \<open>
  \<open>rmatch items s\<close> is \<^verbatim>\<open>re.match("^" + expr + "/?$", s)\<close>: the named groups, or \<open>None\<close>. A group
  tries its longest text first.
\<close>

primrec rmatch :: "ritem list \<Rightarrow> str \<Rightarrow> (str \<times> str) list option" where
  "rmatch [] s = (if tail_ok s then Some [] else None)"
| "rmatch (i # is) s =
     (case i of
        Lit c \<Rightarrow> if prefix [c] s then rmatch is (tl s) else None
      | AnyChar \<Rightarrow> if s \<noteq> [] \<and> hd s \<noteq> LF then rmatch is (tl s) else None
      | Seg n \<Rightarrow>
          first_some (\<lambda>k. map_option ((#) (n, take k s)) (rmatch is (drop k s)))
            (rev [1..<Suc (length (takeWhile (\<lambda>c. c \<noteq> CHR ''/'') s))])
      | Rest n \<Rightarrow>
          first_some (\<lambda>k. map_option ((#) (n, take k s)) (rmatch is (drop k s)))
            (rev [0..<Suc (length (takeWhile (\<lambda>c. c \<noteq> LF) s))]))"

subsection \<open>Routes\<close>

record ('h, 'm) route =
  rt_method :: str
  rt_pattern :: str
  rt_regex :: "ritem list"
  rt_handler :: 'h
  rt_mws :: "'m list"

record ('h, 'm) router =
  routes :: "('h, 'm) route list"
  middlewares :: "'m list"
  startup_handlers :: "'h list"
  shutdown_handlers :: "'h list"

definition Router :: "('h, 'm) router" where
  "Router = \<lparr>routes = [], middlewares = [], startup_handlers = [], shutdown_handlers = []\<rparr>"

definition add :: "str \<Rightarrow> str \<Rightarrow> 'h \<Rightarrow> 'm list \<Rightarrow> ('h, 'm) router \<Rightarrow> ('h, 'm) router option" where
  "add meth pattern h mws r =
     (let p = norm_pattern pattern in
      case compile_pattern p of
        None \<Rightarrow> None
      | Some rx \<Rightarrow> Some (r\<lparr>routes := routes r @
          [\<lparr>rt_method = upper meth, rt_pattern = p, rt_regex = rx, rt_handler = h, rt_mws = mws\<rparr>]\<rparr>))"

text \<open>\<open>route\<close> is the decorator \<^verbatim>\<open>Router.route\<close> applied to a handler.\<close>

fun add_methods :: "str list \<Rightarrow> str \<Rightarrow> 'h \<Rightarrow> 'm list \<Rightarrow> ('h, 'm) router \<Rightarrow> ('h, 'm) router option" where
  "add_methods [] pattern h mws r = Some r"
| "add_methods (m # ms) pattern h mws r =
     (case add m pattern h mws r of None \<Rightarrow> None | Some r' \<Rightarrow> add_methods ms pattern h mws r')"

record ('h, 'm) group =
  g_prefix :: str
  g_routes :: "(str list \<times> str \<times> 'h) list"
  g_mws :: "'m list"

definition RouterGroup :: "str \<Rightarrow> 'm list \<Rightarrow> ('h, 'm) group" where
  "RouterGroup pre mws =
     \<lparr>g_prefix = (if pre = [] then [] else ''/'' @ strip_slash pre), g_routes = [], g_mws = mws\<rparr>"

definition group_route :: "str \<Rightarrow> str list \<Rightarrow> 'h \<Rightarrow> ('h, 'm) group \<Rightarrow> ('h, 'm) group" where
  "group_route pattern methods h g =
     g\<lparr>g_routes := g_routes g @
        [(methods, g_prefix g @ (if prefix ''/'' pattern then pattern else ''/'' @ pattern), h)]\<rparr>"

fun include_routes :: "(str list \<times> str \<times> 'h) list \<Rightarrow> 'm list \<Rightarrow> ('h, 'm) router \<Rightarrow> ('h, 'm) router option" where
  "include_routes [] mws r = Some r"
| "include_routes ((ms, p, h) # gs) mws r =
     (case add_methods ms p h mws r of None \<Rightarrow> None | Some r' \<Rightarrow> include_routes gs mws r')"

definition include_group :: "('h, 'm) group \<Rightarrow> ('h, 'm) router \<Rightarrow> ('h, 'm) router option" where
  "include_group g r = include_routes (g_routes g) (g_mws g) r"

definition add_middleware :: "'m \<Rightarrow> ('h, 'm) router \<Rightarrow> ('h, 'm) router" where
  "add_middleware m r = r\<lparr>middlewares := middlewares r @ [m]\<rparr>"

definition on_startup :: "'h \<Rightarrow> ('h, 'm) router \<Rightarrow> ('h, 'm) router" where
  "on_startup h r = r\<lparr>startup_handlers := startup_handlers r @ [h]\<rparr>"

definition on_shutdown :: "'h \<Rightarrow> ('h, 'm) router \<Rightarrow> ('h, 'm) router" where
  "on_shutdown h r = r\<lparr>shutdown_handlers := shutdown_handlers r @ [h]\<rparr>"

subsection \<open>Resolution\<close>

text \<open>
  What \<^verbatim>\<open>resolve\<close> returns: the documentation handler, a route's handler bound to the decoded
  parameters, or the empty answer to an unmatched \<^verbatim>\<open>OPTIONS\<close>.
\<close>

datatype 'h target = Docs | Bound 'h "(str, ustr) dict" | Noop

definition docs_path :: "str \<Rightarrow> str \<Rightarrow> bool" where
  "docs_path meth p = (upper meth = ''GET'' \<and> rstrip_slash p \<in> {''/openapi.json'', ''/docs''})"

definition decode_params :: "(str \<times> str) list \<Rightarrow> (str, ustr) dict" where
  "decode_params bs = map (\<lambda>(k, v). (k, unquote (uni v))) bs"

fun resolve_loop ::
  "str \<Rightarrow> str \<Rightarrow> ('h, 'm) route list \<Rightarrow> str list \<Rightarrow> ('h target \<times> 'm list) result" where
  "resolve_loop meth p [] allowed =
     (if upper meth = ''OPTIONS'' then Inr (Noop, [])
      else if allowed \<noteq> [] then Inl (err 405 ''Method Not Allowed'')
      else Inl (err 404 ''Not Found''))"
| "resolve_loop meth p (rt # rts) allowed =
     (case rmatch (rt_regex rt) p of
        None \<Rightarrow> resolve_loop meth p rts allowed
      | Some bs \<Rightarrow>
          if rt_method rt = upper meth then Inr (Bound (rt_handler rt) (decode_params bs), rt_mws rt)
          else resolve_loop meth p rts (allowed @ [rt_method rt]))"

definition resolve :: "('h, 'm) router \<Rightarrow> str \<Rightarrow> str \<Rightarrow> ('h target \<times> 'm list) result" where
  "resolve r meth p =
     (if docs_path meth p then Inr (Docs, []) else resolve_loop meth p (routes r) [])"

subsection \<open>The middleware chain\<close>

text \<open>
  The request is a mutable object of the program, so a handler takes it together with the
  state of the world and returns a response or an exception with both as it leaves them; a
  middleware also takes the rest of the chain. \<open>build\<close> is the recursive closure of \<^verbatim>\<open>execute\<close>.
\<close>

type_synonym 'w ctx = "request \<times> 'w"
type_synonym 'w handler = "'w ctx \<Rightarrow> response result \<times> 'w ctx"
type_synonym 'w middleware = "'w ctx \<Rightarrow> 'w handler \<Rightarrow> response result \<times> 'w ctx"

function build :: "'w middleware list \<Rightarrow> 'w handler \<Rightarrow> nat \<Rightarrow> 'w handler" where
  "build chain h i =
     (if length chain \<le> i then h else (\<lambda>r. (chain ! i) r (build chain h (Suc i))))"
  by pat_completeness auto
termination
  by (relation "measure (\<lambda>(chain, h, i). length chain - i)") auto

declare build.simps [simp del]

definition execute :: "'w middleware list \<Rightarrow> 'w ctx \<Rightarrow> 'w handler \<Rightarrow> 'w middleware list \<Rightarrow> response result \<times> 'w ctx" where
  "execute global r h route_mws = build (global @ route_mws) h 0 r"

end
