(* ===== verification/Router_Props.thy ===== *)
theory Router_Props
  imports Router
begin

section \<open>Routing is correct\<close>

text \<open>
  The declarative reading of a compiled pattern is the inductive relation \<open>fits\<close>; the
  backtracking matcher agrees with it, resolution picks the first registered route that fits
  and has the method, and a URL rendered from a pattern leads back to the rendered values.
\<close>

inductive fits :: "ritem list \<Rightarrow> (str \<times> str) list \<Rightarrow> str \<Rightarrow> bool" where
  fits_end: "tail_ok s \<Longrightarrow> fits [] [] s"
| fits_lit: "fits is bs s \<Longrightarrow> fits (Lit c # is) bs (c # s)"
| fits_any: "c \<noteq> LF \<Longrightarrow> fits is bs s \<Longrightarrow> fits (AnyChar # is) bs (c # s)"
| fits_seg: "v \<noteq> [] \<Longrightarrow> CHR ''/'' \<notin> set v \<Longrightarrow> fits is bs s \<Longrightarrow> fits (Seg n # is) ((n, v) # bs) (v @ s)"
| fits_rest: "LF \<notin> set v \<Longrightarrow> fits is bs s \<Longrightarrow> fits (Rest n # is) ((n, v) # bs) (v @ s)"

inductive_cases fits_NilE: "fits [] bs s"
inductive_cases fits_LitE: "fits (Lit c # is) bs s"
inductive_cases fits_AnyE: "fits (AnyChar # is) bs s"
inductive_cases fits_SegE: "fits (Seg n # is) bs s"
inductive_cases fits_RestE: "fits (Rest n # is) bs s"

lemma first_some_SomeD: "first_some f xs = Some y \<Longrightarrow> \<exists>x \<in> set xs. f x = Some y"
  by (induction xs) (auto split: option.splits)

lemma first_some_someI: "x \<in> set xs \<Longrightarrow> f x \<noteq> None \<Longrightarrow> first_some f xs \<noteq> None"
  by (induction xs) (auto split: option.splits)

lemma group_Some:
  assumes "first_some (\<lambda>k. map_option ((#) (n, take k s)) (rmatch is (drop k s))) ks = Some bs"
  obtains k bs' where "k \<in> set ks" "rmatch is (drop k s) = Some bs'" "bs = (n, take k s) # bs'"
  using first_some_SomeD [OF assms] by auto

lemma group_someI:
  assumes "length v \<in> set ks" "rmatch is s \<noteq> None"
  shows "first_some (\<lambda>k. map_option ((#) (n, take k (v @ s))) (rmatch is (drop k (v @ s)))) ks \<noteq> None"
  by (rule first_some_someI [OF assms(1)]) (use assms(2) in simp)

lemma in_take_takeWhile: "k \<le> length (takeWhile P s) \<Longrightarrow> x \<in> set (take k s) \<Longrightarrow> P x"
  by (metis in_set_takeD set_takeWhileD takeWhile_eq_take take_take min.absorb1)

lemma le_length_takeWhile: "(\<And>x. x \<in> set v \<Longrightarrow> P x) \<Longrightarrow> length v \<le> length (takeWhile P (v @ s))"
  by (simp add: takeWhile_append)

lemma rmatch_sound: "rmatch is s = Some bs \<Longrightarrow> fits is bs s"
proof (induction "is" arbitrary: s bs)
  case Nil
  then show ?case by (auto intro: fits_end split: if_splits)
next
  case (Cons i "is")
  show ?case
  proof (cases i)
    case (Lit c)
    with Cons show ?thesis by (cases s) (auto intro: fits_lit split: if_splits)
  next
    case AnyChar
    with Cons show ?thesis by (cases s) (auto intro: fits_any split: if_splits)
  next
    case (Seg n)
    from Cons.prems [unfolded Seg rmatch.simps ritem.case] obtain k bs' where
      "k \<in> set (rev [1..<Suc (length (takeWhile (\<lambda>c. c \<noteq> CHR ''/'') s))])"
      and k34: "rmatch is (drop k s) = Some bs'" "bs = (n, take k s) # bs'"
      by (rule group_Some)
    then have k12: "1 \<le> k" "k \<le> length (takeWhile (\<lambda>c. c \<noteq> CHR ''/'') s)" by auto
    note k = k12 k34
    have "take k s \<noteq> []" using k(1,2) length_takeWhile_le [of "\<lambda>c. c \<noteq> CHR ''/''" s] by auto
    moreover have "CHR ''/'' \<notin> set (take k s)" using in_take_takeWhile [OF k(2)] by blast
    ultimately have "fits (Seg n # is) ((n, take k s) # bs') (take k s @ drop k s)"
      using Cons.IH [OF k(3)] by (rule fits_seg)
    with Seg k(4) show ?thesis by simp
  next
    case (Rest n)
    from Cons.prems [unfolded Rest rmatch.simps ritem.case] obtain k bs' where
      "k \<in> set (rev [0..<Suc (length (takeWhile (\<lambda>c. c \<noteq> LF) s))])"
      and k34: "rmatch is (drop k s) = Some bs'" "bs = (n, take k s) # bs'"
      by (rule group_Some)
    then have k12: "k \<le> length (takeWhile (\<lambda>c. c \<noteq> LF) s)" by auto
    note k = k12 k34
    have "LF \<notin> set (take k s)" using in_take_takeWhile [OF k(1)] by blast
    then have "fits (Rest n # is) ((n, take k s) # bs') (take k s @ drop k s)"
      using Cons.IH [OF k(2)] by (rule fits_rest)
    with Rest k(3) show ?thesis by simp
  qed
qed

lemma rmatch_complete: "fits is bs s \<Longrightarrow> rmatch is s \<noteq> None"
proof (induction rule: fits.induct)
  case (fits_seg v "is" bs s n)
  then have "length v \<le> length (takeWhile (\<lambda>c. c \<noteq> CHR ''/'') (v @ s))"
    by (intro le_length_takeWhile) auto
  with fits_seg have "length v \<in> set (rev [1..<Suc (length (takeWhile (\<lambda>c. c \<noteq> CHR ''/'') (v @ s)))])"
    by (cases v) auto
  from group_someI [OF this fits_seg(4)] show ?case
    unfolding rmatch.simps ritem.case .
next
  case (fits_rest v "is" bs s n)
  then have "length v \<le> length (takeWhile (\<lambda>c. c \<noteq> LF) (v @ s))"
    by (intro le_length_takeWhile) auto
  then have "length v \<in> set (rev [0..<Suc (length (takeWhile (\<lambda>c. c \<noteq> LF) (v @ s)))])"
    by auto
  from group_someI [OF this fits_rest(3)] show ?case
    unfolding rmatch.simps ritem.case .
qed simp_all



subsection \<open>Resolution\<close>

abbreviation matches :: "('h, 'm) route \<Rightarrow> str \<Rightarrow> bool" where
  "matches rt p \<equiv> (\<exists>bs. fits (rt_regex rt) bs p)"

lemma rmatch_None_iff: "rmatch is s = None \<longleftrightarrow> \<not> (\<exists>bs. fits is bs s)"
  using rmatch_sound rmatch_complete by (cases "rmatch is s") blast+

definition resolved_ok :: "str \<Rightarrow> str \<Rightarrow> ('h, 'm) route list \<Rightarrow> ('h target \<times> 'm list) result \<Rightarrow> bool" where
  "resolved_ok meth p rts res =
     (case res of
        Inr (Bound h ps, mws) \<Rightarrow>
          (\<exists>pre rt post bs. rts = pre @ rt # post \<and> rt_method rt = upper meth \<and>
             rmatch (rt_regex rt) p = Some bs \<and> h = rt_handler rt \<and> ps = decode_params bs \<and> mws = rt_mws rt \<and>
             (\<forall>q \<in> set pre. rt_method q = upper meth \<longrightarrow> \<not> matches q p))
      | Inr (Noop, mws) \<Rightarrow> upper meth = ''OPTIONS'' \<and> mws = [] \<and>
          (\<forall>q \<in> set rts. rt_method q = upper meth \<longrightarrow> \<not> matches q p)
      | Inr (Docs, mws) \<Rightarrow> False
      | Inl e \<Rightarrow> upper meth \<noteq> ''OPTIONS'' \<and> (\<forall>q \<in> set rts. rt_method q = upper meth \<longrightarrow> \<not> matches q p) \<and>
          status_of e = (if \<exists>q \<in> set rts. matches q p then Some 405 else Some 404))"

lemma resolved_ok_Cons:
  assumes "resolved_ok meth p rts (Inr x)" "rt_method rt = upper meth \<longrightarrow> \<not> matches rt p"
  shows "resolved_ok meth p (rt # rts) (Inr x)"
proof -
  obtain t mws where x: "x = (t, mws)" by force
  show ?thesis
  proof (cases t)
    case (Bound h ps)
    with assms(1) x obtain pre rt' post bs where "rts = pre @ rt' # post"
      "rt_method rt' = upper meth" "rmatch (rt_regex rt') p = Some bs" "h = rt_handler rt'"
      "ps = decode_params bs" "mws = rt_mws rt'"
      "\<forall>q \<in> set pre. rt_method q = upper meth \<longrightarrow> \<not> matches q p"
      by (auto simp: resolved_ok_def)
    with Bound x assms(2) show ?thesis
      by (auto simp: resolved_ok_def intro!: exI [of _ "rt # pre"])
  qed (use assms x in \<open>auto simp: resolved_ok_def\<close>)
qed

definition loop_ok :: "str \<Rightarrow> str \<Rightarrow> ('h, 'm) route list \<Rightarrow> bool \<Rightarrow> ('h target \<times> 'm list) result \<Rightarrow> bool" where
  "loop_ok meth p rts seen res =
     (case res of
        Inl e \<Rightarrow> upper meth \<noteq> ''OPTIONS'' \<and> (\<forall>q \<in> set rts. rt_method q = upper meth \<longrightarrow> \<not> matches q p) \<and>
          status_of e = (if seen \<or> (\<exists>q \<in> set rts. matches q p) then Some 405 else Some 404)
      | Inr x \<Rightarrow> resolved_ok meth p rts (Inr x))"

lemma loop_ok_Cons:
  "loop_ok meth p rts (seen \<or> matches rt p) res \<Longrightarrow> rt_method rt = upper meth \<longrightarrow> \<not> matches rt p \<Longrightarrow>
   loop_ok meth p (rt # rts) seen res"
  by (cases res) (auto simp: loop_ok_def intro: resolved_ok_Cons split: if_splits)

lemma resolve_loop_ok: "loop_ok meth p rts (allowed \<noteq> []) (resolve_loop meth p rts allowed)"
proof (induction meth p rts allowed rule: resolve_loop.induct)
  case (1 meth p allowed)
  then show ?case by (simp add: loop_ok_def resolved_ok_def)
next
  case (2 meth p rt rts allowed)
  show ?case
  proof (cases "rmatch (rt_regex rt) p")
    case None
    then have "\<not> matches rt p" by (simp add: rmatch_None_iff)
    with 2(1) [OF None] None show ?thesis by (simp add: loop_ok_Cons)
  next
    case (Some bs)
    then have m: "matches rt p" using rmatch_sound by blast
    show ?thesis
    proof (cases "rt_method rt = upper meth")
      case True
      with Some have "resolved_ok meth p ([] @ rt # rts) (Inr (Bound (rt_handler rt) (decode_params bs), rt_mws rt))"
        unfolding resolved_ok_def by fastforce
      with True Some show ?thesis by (simp add: loop_ok_def)
    next
      case False
      have "loop_ok meth p (rt # rts) (allowed \<noteq> []) (resolve_loop meth p rts (allowed @ [rt_method rt]))"
        by (rule loop_ok_Cons) (use 2(2) [OF Some False] m False in auto)
      with Some False show ?thesis by simp
    qed
  qed
qed

text \<open>
  Apart from the two documentation paths, resolution returns the first registered route
  whose pattern fits the path and whose method is the request's, with its decoded groups and
  its middlewares; without one it answers OPTIONS with the empty response, 405 when the path
  fits another method's route and 404 otherwise.
\<close>

theorem resolve_first_match:
  assumes "\<not> docs_path meth p"
  shows "resolved_ok meth p (routes r) (resolve r meth p)"
proof -
  have "loop_ok meth p (routes r) False (resolve r meth p)"
    using resolve_loop_ok [where meth = meth and p = p and rts = "routes r" and allowed = "[]"] assms
    by (simp add: resolve_def)
  then show ?thesis
    by (cases "resolve r meth p") (auto simp: loop_ok_def resolved_ok_def)
qed

definition sample_router :: "(str, unit) router" where
  "sample_router = (case add_methods [''GET'', ''post''] ''/u/{id}/'' ''user'' [] Router of
      None \<Rightarrow> Router
    | Some r \<Rightarrow> (case add ''GET'' ''/u/me'' ''me'' [] r of None \<Rightarrow> r | Some r' \<Rightarrow> r'))"

theorem resolve_first_match_witness:
  "resolve sample_router ''get'' ''/u/me'' = Inr (Bound ''user'' [(''id'', [109, 101])], []) \<and>
   resolved_ok ''get'' ''/u/me'' (routes sample_router) (resolve sample_router ''get'' ''/u/me'')"
proof
  show "resolve sample_router ''get'' ''/u/me'' = Inr (Bound ''user'' [(''id'', [109, 101])], [])" by code_simp
  show "resolved_ok ''get'' ''/u/me'' (routes sample_router) (resolve sample_router ''get'' ''/u/me'')"
    by (rule resolve_first_match) code_simp
qed

subsection \<open>The middleware chain\<close>

lemma build_foldr: "build chain h i = foldr (\<lambda>m next r. m r next) (drop i chain) h"
proof (induction chain h i rule: build.induct)
  case (1 chain h i)
  show ?case
  proof (cases "length chain \<le> i")
    case False
    then have "drop i chain = chain ! i # drop (Suc i) chain"
      by (simp add: Cons_nth_drop_Suc)
    with 1 False show ?thesis
      by (subst build.simps) auto
  qed (simp add: build.simps)
qed

text \<open>
  The index-driven chain is the onion of its middlewares: the global ones in the order of
  registration around those of the route around the handler, each handed exactly the rest.
\<close>

theorem execute_onion:
  "execute global r h route_mws =
     foldr (\<lambda>m next r. m r next) global (foldr (\<lambda>m next r. m r next) route_mws h) r"
  by (simp add: execute_def build_foldr)

end
