(* ===== verification/Utils.thy ===== *)
theory Utils
  imports Parser
begin

section \<open>Path joining and file names (\<^verbatim>\<open>utils.py\<close>)\<close>

text \<open>
  Paths are lists of components from the root, each a Unicode text. \<open>realpath\<close>, an argument
  of \<open>safe_join\<close>, stands for \<^verbatim>\<open>Path.resolve\<close>: it follows the symbolic links of the file
  system and may raise. \<open>escape\<close> is \<^verbatim>\<open>html.escape\<close> with quotes.
\<close>

type_synonym fpath = "ustr list"
type_synonym resolver = "fpath \<Rightarrow> fpath result"

abbreviation SLASH :: nat where "SLASH \<equiv> 47"
abbreviation DOT :: nat where "DOT \<equiv> 46"

subsection \<open>\<^verbatim>\<open>posixpath.normpath\<close>\<close>

fun norm_step :: "bool \<Rightarrow> ustr list \<Rightarrow> ustr \<Rightarrow> ustr list" where
  "norm_step absolute acc c =
     (if c = [] \<or> c = [DOT] then acc
      else if c \<noteq> [DOT, DOT] \<or> (\<not> absolute \<and> acc = []) \<or> (acc \<noteq> [] \<and> last acc = [DOT, DOT])
      then acc @ [c]
      else butlast acc)"

definition initial_slashes :: "ustr \<Rightarrow> nat" where
  "initial_slashes p =
     (if prefix [SLASH, SLASH] p \<and> \<not> prefix [SLASH, SLASH, SLASH] p then 2
      else if prefix [SLASH] p then 1 else 0)"

definition normpath :: "ustr \<Rightarrow> ustr" where
  "normpath p =
     (if p = [] then [DOT]
      else (let n = initial_slashes p;
                comps = foldl (norm_step (n \<noteq> 0)) [] (split_on [SLASH] p);
                q = replicate n SLASH @ join [SLASH] comps
            in if q = [] then [DOT] else q))"

subsection \<open>\<^verbatim>\<open>safe_join\<close>\<close>

definition unslash :: "ustr \<Rightarrow> ustr" where
  "unslash s = map (\<lambda>c. if c = 92 then SLASH else c) s"

definition lstrip_slash :: "ustr \<Rightarrow> ustr" where
  "lstrip_slash s = dropWhile (\<lambda>c. c = SLASH) s"

text \<open>The components that \<^verbatim>\<open>base / text\<close> appends for a relative text.\<close>

definition path_parts :: "ustr \<Rightarrow> fpath" where
  "path_parts s = filter (\<lambda>c. c \<noteq> [] \<and> c \<noteq> [DOT]) (split_on [SLASH] s)"

definition clean_user_path :: "ustr \<Rightarrow> ustr" where
  "clean_user_path u = lstrip_slash (normpath (SLASH # unquote (unslash u)))"

definition safe_join :: "resolver \<Rightarrow> fpath \<Rightarrow> ustr \<Rightarrow> fpath result" where
  "safe_join realpath base u =
     rbind (realpath base) (\<lambda>b.
     rbind (realpath (b @ path_parts (clean_user_path u))) (\<lambda>t.
       if b \<noteq> t \<and> \<not> strict_prefix b t then Inl (err 403 ''Path traversal blocked'') else Inr t))"

subsection \<open>\<^verbatim>\<open>sanitize_filename\<close> and \<^verbatim>\<open>escape\<close>\<close>

definition fname_char :: "nat \<Rightarrow> bool" where
  "fname_char c = ((65 \<le> c \<and> c \<le> 90) \<or> (97 \<le> c \<and> c \<le> 122) \<or> (48 \<le> c \<and> c \<le> 57) \<or>
                   c = 46 \<or> c = 95 \<or> c = 45)"

definition sanitize_filename :: "ustr \<Rightarrow> int \<Rightarrow> ustr" where
  "sanitize_filename name max_len =
     (let base = last (split_on [SLASH] (unslash name));
          safe = strip_by (\<lambda>c. c = 46 \<or> c = 95) (map (\<lambda>c. if fname_char c then c else 95) base)
      in upto_idx max_len (if safe = [] then uni ''upload.bin'' else safe))"

definition escape_char :: "char \<Rightarrow> str" where
  "escape_char c =
     (if c = CHR ''&'' then ''&amp;''
      else if c = CHR ''<'' then ''&lt;''
      else if c = CHR ''>'' then ''&gt;''
      else if c = DQUOTE then ''&quot;''
      else if c = CHR 0x27 then ''&#x27;'' else [c])"

definition escape :: "str \<Rightarrow> str" where
  "escape s = concat (map escape_char s)"

subsection \<open>Facts about \<^verbatim>\<open>normpath\<close>\<close>

definition plain_comp :: "ustr \<Rightarrow> bool" where
  "plain_comp c = (c \<noteq> [] \<and> c \<noteq> [DOT] \<and> c \<noteq> [DOT, DOT] \<and> SLASH \<notin> set c)"

text \<open>
  The walk a sequence of components describes, starting at the root of a tree and never
  leaving it: a name goes down, \<^verbatim>\<open>..\<close> goes up where it can.
\<close>

fun walk :: "fpath \<Rightarrow> ustr list \<Rightarrow> fpath" where
  "walk here [] = here"
| "walk here (c # cs) =
     (if c = [] \<or> c = [DOT] then walk here cs
      else if c = [DOT, DOT] then walk (butlast here) cs
      else walk (here @ [c]) cs)"

lemma norm_step_plain:
  "\<forall>c\<in>set acc. plain_comp c \<Longrightarrow>
   norm_step True acc c =
     (if c = [] \<or> c = [DOT] then acc else if c = [DOT, DOT] then butlast acc else acc @ [c])"
  by (auto simp: plain_comp_def dest: last_in_set)

lemma butlast_plain: "\<forall>c\<in>set acc. P c \<Longrightarrow> \<forall>c\<in>set (butlast acc). P c"
  by (auto dest: in_set_butlastD)

lemma walk_plain:
  "\<forall>c\<in>set here. plain_comp c \<Longrightarrow> \<forall>c\<in>set cs. SLASH \<notin> set c \<Longrightarrow> \<forall>c\<in>set (walk here cs). plain_comp c"
proof (induction cs arbitrary: here)
  case (Cons c cs)
  have t: "\<forall>d\<in>set cs. SLASH \<notin> set d" "SLASH \<notin> set c"
    using Cons.prems(2) by simp_all
  consider "c = [] \<or> c = [DOT]" | "c = [DOT, DOT]" | "c \<noteq> []" "c \<noteq> [DOT]" "c \<noteq> [DOT, DOT]"
    by blast
  then show ?case
  proof cases
    case 1
    then have "walk here (c # cs) = walk here cs" by auto
    then show ?thesis
      using Cons.IH [OF Cons.prems(1) t(1)] by (simp only:)
  next
    case 2
    then have "walk here (c # cs) = walk (butlast here) cs" by simp
    then show ?thesis
      using Cons.IH [OF butlast_plain [OF Cons.prems(1)] t(1)] by (simp only:)
  next
    case 3
    then have "walk here (c # cs) = walk (here @ [c]) cs" by simp
    moreover have "\<forall>d\<in>set (here @ [c]). plain_comp d"
      using 3 t Cons.prems(1) by (simp add: plain_comp_def)
    ultimately show ?thesis
      using Cons.IH [OF _ t(1)] by (simp only:)
  qed
qed simp

lemma foldl_norm_step_walk:
  "\<forall>c\<in>set acc. plain_comp c \<Longrightarrow> \<forall>c\<in>set cs. SLASH \<notin> set c \<Longrightarrow>
   foldl (norm_step True) acc cs = walk acc cs"
proof (induction acc cs rule: walk.induct)
  case (2 here c cs)
  have st: "norm_step True here c =
      (if c = [] \<or> c = [DOT] then here else if c = [DOT, DOT] then butlast here else here @ [c])"
    by (rule norm_step_plain [OF 2(4)])
  consider "c = [] \<or> c = [DOT]" | "c = [DOT, DOT]" | "c \<noteq> []" "c \<noteq> [DOT]" "c \<noteq> [DOT, DOT]"
    by blast
  then show ?case
  proof cases
    case 1
    then show ?thesis
      using 2 st by (simp del: norm_step.simps)
  next
    case 2
    then show ?thesis
      using "2.IH"(2) "2.prems" butlast_plain [OF "2.prems"(1)] st by (simp del: norm_step.simps)
  next
    case 3
    then have "\<forall>d\<in>set (here @ [c]). plain_comp d"
      using "2.prems" by (simp add: plain_comp_def)
    then show ?thesis
      using 3 "2.IH"(3) "2.prems" st by (simp del: norm_step.simps)
  qed
qed simp

lemma sublist_single_iff: "sublist [x] xs \<longleftrightarrow> x \<in> set xs"
  by (metis append_Cons append_Nil in_set_conv_decomp sublist_def)

lemma split_on_slash_free: "c \<in> set (split_on [SLASH] s) \<Longrightarrow> SLASH \<notin> set c"
  using split_on_elem [of c "[SLASH]" s] by (simp add: sublist_single_iff)

lemma initial_slashes_Cons: "initial_slashes (SLASH # s) \<noteq> 0"
  by (simp add: initial_slashes_def)

lemma split_on_slash_Cons: "split_on [SLASH] (SLASH # s) = [] # split_on [SLASH] s"
  by (subst split_on.simps) (simp del: split_on.simps)

lemma normpath_slash:
  "\<exists>n. normpath (SLASH # s) = replicate n SLASH @ join [SLASH] (walk [] (split_on [SLASH] s))"
proof -
  have "foldl (norm_step True) [] (split_on [SLASH] (SLASH # s)) = walk [] (split_on [SLASH] (SLASH # s))"
    by (rule foldl_norm_step_walk) (auto dest: split_on_slash_free)
  then show ?thesis
    using initial_slashes_Cons [of s]
    by (auto simp: normpath_def Let_def split_on_slash_Cons)
qed

lemma lstrip_slash_join:
  assumes "\<forall>c\<in>set cs. plain_comp c"
  shows "lstrip_slash (replicate n SLASH @ join [SLASH] cs) = join [SLASH] cs"
proof (cases cs)
  case (Cons c ds)
  with assms have "plain_comp c"
    by simp
  then obtain x xs where x: "c = x # xs" "x \<noteq> SLASH"
    by (cases c) (simp_all add: plain_comp_def)
  have "join [SLASH] cs = x # tl (join [SLASH] cs)"
    using Cons x(1) by (cases ds) simp_all
  moreover have "dropWhile (\<lambda>c. c = SLASH) (replicate n SLASH @ x # ys) = x # ys" for ys
    using x(2) by (induction n) auto
  ultimately show ?thesis
    unfolding lstrip_slash_def by (metis (no_types))
qed (simp add: lstrip_slash_def)

lemma path_parts_join:
  assumes "\<forall>c\<in>set cs. plain_comp c"
  shows "path_parts (join [SLASH] cs) = cs"
proof (cases "cs = []")
  case True
  then show ?thesis by (simp add: path_parts_def split_on.simps [of "[SLASH]" "[]"] del: split_on.simps)
next
  case False
  then have "split_on [SLASH] (join [SLASH] cs) = cs"
    using assms by (intro split_on_join) (auto simp: plain_comp_def)
  then show ?thesis
    using assms by (auto simp: path_parts_def plain_comp_def intro!: filter_True)
qed

lemma clean_user_path_parts:
  "path_parts (clean_user_path u) = walk [] (split_on [SLASH] (unquote (unslash u)))"
  "\<forall>c\<in>set (path_parts (clean_user_path u)). plain_comp c"
proof -
  let ?cs = "walk [] (split_on [SLASH] (unquote (unslash u)))"
  have p: "\<forall>c\<in>set ?cs. plain_comp c"
    by (rule walk_plain) (auto dest: split_on_slash_free)
  obtain n where "normpath (SLASH # unquote (unslash u)) = replicate n SLASH @ join [SLASH] ?cs"
    using normpath_slash by blast
  then show "path_parts (clean_user_path u) = ?cs"
    by (simp add: clean_user_path_def lstrip_slash_join [OF p] path_parts_join [OF p])
  with p show "\<forall>c\<in>set (path_parts (clean_user_path u)). plain_comp c"
    by simp
qed

subsection \<open>Properties\<close>


text \<open>The witness serves \<^verbatim>\<open>..%2f..\\etc\<close> from a directory without links.\<close>

definition sample_base :: fpath where
  "sample_base = [uni ''srv'', uni ''static'']"


text \<open>
  A sanitised file name is non-empty, no longer than the limit, made of letters, digits,
  full stop, underscore and hyphen only (so it names no directory), and starts with neither a
  full stop nor an underscore (so it is no hidden file and no dot entry).
\<close>

theorem sanitize_filename_safe:
  assumes "0 < max_len"
  shows "(let f = sanitize_filename name max_len in
     f \<noteq> [] \<and> int (length f) \<le> max_len \<and> (\<forall>c\<in>set f. fname_char c) \<and> hd f \<noteq> 46 \<and> hd f \<noteq> 95)"
proof -
  define safe where "safe = strip_by (\<lambda>c. c = 46 \<or> c = 95)
    (map (\<lambda>c. if fname_char c then c else 95) (last (split_on [SLASH] (unslash name))))"
  define f where "f = (if safe = [] then uni ''upload.bin'' else safe)"
  have "set safe \<subseteq> {c. fname_char c}"
    using strip_by_set by (fastforce simp: safe_def fname_char_def)
  moreover have "\<forall>c\<in>set (uni ''upload.bin''). fname_char c"
    by code_simp
  ultimately have f: "\<forall>c\<in>set f. fname_char c" "f \<noteq> []"
    by (auto simp: f_def uni_def)
  have "hd f \<noteq> 46 \<and> hd f \<noteq> 95"
  proof (cases "safe = []")
    case True
    then show ?thesis by (simp add: f_def uni_def code_def)
  next
    case False
    then have "\<not> (\<lambda>c. c = 46 \<or> c = 95) (hd safe)"
      unfolding safe_def by (rule strip_by_ends [THEN conjunct1])
    with False show ?thesis by (simp add: f_def)
  qed
  moreover have "sanitize_filename name max_len = take (nat max_len) f"
    using assms by (simp add: sanitize_filename_def f_def safe_def upto_idx_def Let_def)
  moreover have "hd (take (nat max_len) f) = hd f"
    using assms f(2) by (cases f; cases "nat max_len") auto
  ultimately show ?thesis
    using assms f by (auto simp: Let_def dest: in_set_takeD)
qed

lemma sanitize_filename_safe_witness:
  "sanitize_filename (uni ''../../.bash rc'') 6 = uni ''bash_r'' \<and>
   (let f = sanitize_filename (uni ''../../.bash rc'') 6 in f \<noteq> [] \<and> int (length f) \<le> 6)"
proof
  show "sanitize_filename (uni ''../../.bash rc'') 6 = uni ''bash_r''"
    by code_simp
  show "let f = sanitize_filename (uni ''../../.bash rc'') 6 in f \<noteq> [] \<and> int (length f) \<le> 6"
    using sanitize_filename_safe [of 6 "uni ''../../.bash rc''"] by (simp add: Let_def)
qed

end
