(* ===== verification/Base64.thy ===== *)
theory Base64
  imports Utils
begin

section \<open>Base64\<close>

text \<open>
  The standard library's \<^verbatim>\<open>base64\<close> as the program uses it: \<^verbatim>\<open>b64encode\<close>,
  \<^verbatim>\<open>b64decode(validate=True)\<close> and the URL-safe pair \<^verbatim>\<open>_b64e\<close>/\<^verbatim>\<open>_b64d\<close> of \<^verbatim>\<open>auth.py\<close>, which
  drops the padding and restores it. The last two characters of the alphabet are a parameter.
\<close>

subsection \<open>Sextets\<close>

definition sextet_char :: "char \<times> char \<Rightarrow> nat \<Rightarrow> char" where
  "sextet_char alt n =
     (if n < 26 then char_of (65 + n)
      else if n < 52 then char_of (71 + n)
      else if n < 62 then char_of (n - 4)
      else if n = 62 then fst alt else snd alt)"

definition sextet_val :: "char \<times> char \<Rightarrow> char \<Rightarrow> nat option" where
  "sextet_val alt c =
     (let n = code c in
      if c = fst alt then Some 62
      else if c = snd alt then Some 63
      else if 65 \<le> n \<and> n \<le> 90 then Some (n - 65)
      else if 97 \<le> n \<and> n \<le> 122 then Some (n - 71)
      else if 48 \<le> n \<and> n \<le> 57 then Some (n + 4)
      else None)"

fun to_sextets :: "bytes \<Rightarrow> nat list" where
  "to_sextets (a # b # c # r) =
     (code a div 4) # ((code a mod 4) * 16 + code b div 16) # ((code b mod 16) * 4 + code c div 64) #
     (code c mod 64) # to_sextets r"
| "to_sextets [a, b] = [code a div 4, (code a mod 4) * 16 + code b div 16, (code b mod 16) * 4]"
| "to_sextets [a] = [code a div 4, (code a mod 4) * 16]"
| "to_sextets [] = []"

fun of_sextets :: "nat list \<Rightarrow> bytes option" where
  "of_sextets (p # q # r # s # t) =
     map_option (\<lambda>bs. char_of (p * 4 + q div 16) # char_of (q mod 16 * 16 + r div 4) #
                      char_of (r mod 4 * 64 + s) # bs) (of_sextets t)"
| "of_sextets [p, q, r] = Some [char_of (p * 4 + q div 16), char_of (q mod 16 * 16 + r div 4)]"
| "of_sextets [p, q] = Some [char_of (p * 4 + q div 16)]"
| "of_sextets [p] = None"
| "of_sextets [] = Some []"

fun vals_of :: "char \<times> char \<Rightarrow> str \<Rightarrow> nat list option" where
  "vals_of alt [] = Some []"
| "vals_of alt (c # cs) =
     (case sextet_val alt c of None \<Rightarrow> None | Some v \<Rightarrow> map_option ((#) v) (vals_of alt cs))"

definition STD :: "char \<times> char" where "STD = (CHR ''+'', CHR ''/'')"
definition URL :: "char \<times> char" where "URL = (CHR ''-'', CHR ''_'')"

subsection \<open>The encoders and decoders\<close>

definition padding :: "nat \<Rightarrow> str" where
  "padding n = replicate ((4 - n mod 4) mod 4) (CHR ''='')"

definition b64encode :: "char \<times> char \<Rightarrow> bytes \<Rightarrow> str" where
  "b64encode alt b = (let s = map (sextet_char alt) (to_sextets b) in s @ padding (length s))"

text \<open>
  Strict decoding: characters of the alphabet, then padding that completes the last group of
  four (a complete group tolerates any padding after it).
\<close>

definition b64decode_strict :: "str \<Rightarrow> bytes option" where
  "b64decode_strict s =
     (let data = takeWhile (\<lambda>c. sextet_val STD c \<noteq> None) s; pads = drop (length data) s; m = length data in
      if list_all (\<lambda>c. c = CHR ''='') pads \<and>
         (if m = 0 then pads = []
          else if m mod 4 = 2 then length pads = 2
          else if m mod 4 = 3 then length pads = 1
          else m mod 4 = 0)
      then (case vals_of STD data of None \<Rightarrow> None | Some vs \<Rightarrow> of_sextets vs)
      else None)"

definition b64e :: "bytes \<Rightarrow> str" where
  "b64e b = rstrip_by (\<lambda>c. c = CHR ''='') (b64encode URL b)"

subsection \<open>Round trips\<close>

lemma to_sextets_lt: "v \<in> set (to_sextets b) \<Longrightarrow> v < 64"
proof (induction b rule: to_sextets.induct)
  case (1 a b c r)
  then show ?case using code_less [of a] code_less [of b] code_less [of c] by auto
next
  case (2 a b)
  then show ?case using code_less [of a] code_less [of b] by auto
next
  case (3 a)
  then show ?case using code_less [of a] by auto
qed simp

lemma of_to_sextets: "of_sextets (to_sextets b) = Some b"
proof -
  have lo: "(m * 16 + x) div 16 = m" "(m * 16 + x) mod 16 = x" if "x < 16" for m x :: nat
    using that by simp_all
  have lo4: "(m * 4 + x) div 4 = m" "(m * 4 + x) mod 4 = x" if "x < 4" for m x :: nat
    using that by simp_all
  have hi: "code b div 16 < 16" "code b div 64 < 4" for b
    using code_less [of b] by (simp_all add: less_mult_imp_div_less)
  have s1: "a div 4 * 4 + (a mod 4 * 16 + code b div 16) div 16 = a" for a b
    by (simp add: lo hi div_mult_mod_eq)
  have s2: "(a mod 4 * 16 + code b div 16) mod 16 * 16 + (code b mod 16 * 4 + code c div 64) div 4 = code b"
    for a :: nat and b c by (simp only: lo lo4 hi div_mult_mod_eq)
  have s3: "(b mod 16 * 4 + code c div 64) mod 4 * 64 + code c mod 64 = code c" for b :: nat and c
    by (simp only: lo4 hi div_mult_mod_eq)
  have s4: "a div 4 * 4 + (a mod 4 * 16) div 16 = a" for a :: nat
    by (simp add: div_mult_mod_eq)
  have s5: "(a mod 4 * 16 + code b div 16) mod 16 * 16 + (code b mod 16 * 4) div 4 = code b"
    for a :: nat and b by (simp only: lo hi) (simp add: div_mult_mod_eq)
  show ?thesis
    by (induction b rule: to_sextets.induct)
      (simp_all only: to_sextets.simps of_sextets.simps s1 s2 s3 s4 s5 char_of_code option.map)
qed

lemma char_eq_code: "c = d \<longleftrightarrow> code c = code d"
  by (simp add: code_def)

lemma code_alphabet:
  "code (CHR ''+'') = 43" "code (CHR ''/'') = 47" "code (CHR ''-'') = 45" "code (CHR ''_'') = 95"
  "code (CHR ''='') = 61"
  by (simp_all add: code_def)

lemma sextet_val_char:
  assumes "n < 64" "alt = STD \<or> alt = URL"
  shows "sextet_val alt (sextet_char alt n) = Some n"
proof -
  consider "n < 26" | "26 \<le> n" "n < 52" | "52 \<le> n" "n < 62" | "n = 62" | "n = 63"
    using assms(1) by linarith
  then show ?thesis
    using assms(2)
    by cases (auto simp: sextet_val_def sextet_char_def Let_def char_eq_code code_alphabet STD_def URL_def
        code_char_of)
qed

lemma vals_of_map:
  "\<forall>v\<in>set vs. v < 64 \<Longrightarrow> alt = STD \<or> alt = URL \<Longrightarrow> vals_of alt (map (sextet_char alt) vs) = Some vs"
  by (induction vs) (auto simp: sextet_val_char)

lemma to_sextets_mod: "length (to_sextets b) mod 4 \<noteq> 1"
  by (induction b rule: to_sextets.induct) auto

lemma to_sextets_Nil [simp]: "to_sextets b = [] \<longleftrightarrow> b = []"
  by (cases b rule: to_sextets.cases) auto

text \<open>Strict decoding inverts encoding.\<close>

theorem b64_round_trip: "b64decode_strict (b64encode STD b) = Some b"
proof -
  let ?vs = "to_sextets b"
  let ?s = "map (sextet_char STD) ?vs"
  have vs: "\<forall>v\<in>set ?vs. v < 64" using to_sextets_lt by blast
  have eq: "sextet_val STD (CHR ''='') = None"
    by (simp add: sextet_val_def STD_def Let_def char_eq_code code_alphabet)
  have t: "takeWhile (\<lambda>c. sextet_val STD c \<noteq> None) (?s @ padding (length ?s)) = ?s"
  proof -
    have "\<forall>c\<in>set ?s. sextet_val STD c \<noteq> None"
      using vs sextet_val_char [of _ STD] by auto
    then have "takeWhile (\<lambda>c. sextet_val STD c \<noteq> None) (?s @ padding (length ?s)) =
        ?s @ takeWhile (\<lambda>c. sextet_val STD c \<noteq> None) (padding (length ?s))"
      by (intro takeWhile_append2) blast
    also have "takeWhile (\<lambda>c. sextet_val STD c \<noteq> None) (padding (length ?s)) = []"
      using eq by (simp add: padding_def takeWhile_eq_Nil_iff)
    finally show ?thesis by simp
  qed
  have v: "vals_of STD ?s = Some ?vs"
    using vals_of_map vs by simp
  have m: "length ?vs mod 4 \<noteq> 1"
    by (rule to_sextets_mod)
  have p: "list_all (\<lambda>c. c = CHR ''='') (padding (length ?s))"
    by (simp add: padding_def list_all_iff)
  have len: "length (padding n) = (4 - n mod 4) mod 4" for n
    by (simp add: padding_def)
  have c: "if length ?s = 0 then padding (length ?s) = []
          else if length ?s mod 4 = 2 then length (padding (length ?s)) = 2
          else if length ?s mod 4 = 3 then length (padding (length ?s)) = 1
          else length ?s mod 4 = 0"
  proof -
    consider "length ?vs = 0" | "length ?vs mod 4 = 0" | "length ?vs mod 4 = 2" | "length ?vs mod 4 = 3"
      using m by linarith
    then show ?thesis
      by cases (simp_all only: length_map len, simp_all add: padding_def)
  qed
  have d: "drop (length ?s) (?s @ padding (length ?s)) = padding (length ?s)"
    by simp
  have "b64decode_strict (?s @ padding (length ?s)) = Some b"
    unfolding b64decode_strict_def Let_def t d
    by (subst if_P [OF conjI [OF p c]]) (simp add: v of_to_sextets)
  then show ?thesis
    by (simp only: b64encode_def Let_def)
qed

end
