(* ===== verification/WebSocket.thy ===== *)
theory WebSocket
  imports Base64 Parser_Net "HOL-Library.Word"
begin

section \<open>WebSocket sessions (\<^verbatim>\<open>websocket.py\<close>)\<close>

text \<open>
  A session is its socket (the timed arrivals of theory Parser), the bounded send queue, the
  frames the writer thread has put on the wire and the flags of the class. \<open>popped\<close> records
  what the writer has taken from the queue. A queue item is \<open>Some frame\<close> or the \<^verbatim>\<open>None\<close> that
  ends the writer. Each method is a state transformer; the threads of the class (writer,
  heartbeat, application) interleave in the step relation at the end of the theory.
\<close>

unbundle bit_operations_syntax

subsection \<open>Bytes and numbers\<close>

definition byte_of :: "char \<Rightarrow> 8 word" where
  "byte_of c = of_nat (code c)"

definition char_of_byte :: "8 word \<Rightarrow> char" where
  "char_of_byte w = char_of (unat w)"

definition xor_byte :: "char \<Rightarrow> char \<Rightarrow> char" where
  "xor_byte a b = char_of_byte (byte_of a XOR byte_of b)"

text \<open>\<^verbatim>\<open>int.from_bytes(b, "big")\<close> and \<^verbatim>\<open>n.to_bytes(k, "big")\<close> for a number that fits.\<close>

definition from_big :: "bytes \<Rightarrow> nat" where
  "from_big b = foldl (\<lambda>n c. n * 256 + code c) 0 b"

primrec to_big :: "nat \<Rightarrow> nat \<Rightarrow> bytes" where
  "to_big 0 n = []"
| "to_big (Suc k) n = to_big k (n div 256) @ [char_of (n mod 256)]"

subsection \<open>Masking\<close>

text \<open>The loop \<^verbatim>\<open>payload[i] ^= mask[i % 4]\<close>.\<close>

primrec mask_from :: "nat \<Rightarrow> bytes \<Rightarrow> bytes \<Rightarrow> bytes" where
  "mask_from i mkey [] = []"
| "mask_from i mkey (c # cs) = xor_byte c (mkey ! (i mod 4)) # mask_from (Suc i) mkey cs"

definition apply_mask :: "bytes \<Rightarrow> bytes \<Rightarrow> bytes" where
  "apply_mask mkey payload = mask_from 0 mkey payload"

subsection \<open>The session\<close>

record session = conn +
  ws_id :: str
  ws_user :: "str option"
  ws_config :: server_config
  ws_closed :: bool
  hb_interval :: rat
  hb_timeout :: rat
  last_pong :: rat
  pending_ping :: "bytes option"
  send_queue :: "bytes option list"
  popped :: "bytes option list"
  sent_frames :: "bytes list"
  writer_done :: bool
  sock_shut :: bool

definition infer_user_id :: "(str, scalar) dict option \<Rightarrow> str option" where
  "infer_user_id u =
     (case u of
        None \<Rightarrow> None
      | Some d \<Rightarrow>
          (case (if truthy (d_get d ''sub'') then d_get d ''sub'' else d_get d ''id'') of
             None \<Rightarrow> None
           | Some SNone \<Rightarrow> None
           | Some v \<Rightarrow> Some (str_of v)))"

definition WebSocketSession :: "conn \<Rightarrow> request \<Rightarrow> str option \<Rightarrow> rat \<Rightarrow> rat \<Rightarrow> session" where
  "WebSocketSession sock req uid interval timeout =
     \<lparr>arrivals = arrivals sock, now = now sock, ws_id = request_id req,
      ws_user = (case uid of Some (c # cs) \<Rightarrow> uid | _ \<Rightarrow> infer_user_id (user req)),
      ws_config = config req, ws_closed = False, hb_interval = interval, hb_timeout = timeout,
      last_pong = now sock, pending_ping = None, send_queue = [], popped = [], sent_frames = [],
      writer_done = False, sock_shut = False\<rparr>"

text \<open>\<^verbatim>\<open>put_nowait\<close> on the queue: \<open>None\<close> is \<^verbatim>\<open>queue.Full\<close>, a size that is not positive means unbounded.\<close>

definition put_nowait :: "bytes option \<Rightarrow> session \<Rightarrow> session option" where
  "put_nowait item s =
     (if 0 < websocket_queue_size (ws_config s) \<and>
         websocket_queue_size (ws_config s) \<le> int (length (send_queue s))
      then None else Some (s\<lparr>send_queue := send_queue s @ [item]\<rparr>))"

definition put_ignored :: "bytes option \<Rightarrow> session \<Rightarrow> session" where
  "put_ignored item s = (case put_nowait item s of None \<Rightarrow> s | Some s' \<Rightarrow> s')"

text \<open>The close frame; a code or a reason that cannot be encoded gives none.\<close>

definition close_frame :: "int \<Rightarrow> ustr \<Rightarrow> bytes option" where
  "close_frame status reason =
     (if 0 \<le> status \<and> status < 65536 then
        (case u8_encode reason of
           None \<Rightarrow> None
         | Some r \<Rightarrow>
             (let payload = to_big 2 (nat status) @ take 120 (map char_of r) in
              Some (char_of (0x88 :: nat) # char_of (length payload) # payload)))
      else None)"

definition close :: "int \<Rightarrow> ustr \<Rightarrow> session \<Rightarrow> session" where
  "close status reason s =
     (if ws_closed s then s
      else (let s1 = s\<lparr>ws_closed := True\<rparr>;
                s2 = (case close_frame status reason of None \<Rightarrow> s1 | Some f \<Rightarrow> put_ignored (Some f) s1);
                s3 = put_ignored None s2
            in s3\<lparr>sock_shut := True\<rparr>))"

definition enqueue_frame :: "bytes \<Rightarrow> session \<Rightarrow> unit result \<times> session" where
  "enqueue_frame frame s =
     (if ws_closed s then (Inl WebSocketClosed, s)
      else (case put_nowait (Some frame) s of
              None \<Rightarrow> (Inl WebSocketClosed, close 1008 (uni ''send queue full'') s)
            | Some s' \<Rightarrow> (Inr (), s')))"

subsection \<open>Sending\<close>

definition frame_header :: "nat \<Rightarrow> nat \<Rightarrow> bytes result" where
  "frame_header opcode n =
     (let first = (0x80 :: nat) OR opcode in
      if 256 \<le> first then Inl (PyError ''ValueError'')
      else if n < 126 then Inr [char_of first, char_of n]
      else if n \<le> 0xFFFF then Inr ([char_of first, char_of (126 :: nat)] @ to_big 2 n)
      else if n < 2 ^ 64 then Inr ([char_of first, char_of (127 :: nat)] @ to_big 8 n)
      else Inl (PyError ''OverflowError''))"

definition send_frame :: "nat \<Rightarrow> bytes \<Rightarrow> session \<Rightarrow> unit result \<times> session" where
  "send_frame opcode payload s =
     (case frame_header opcode (length payload) of
        Inl e \<Rightarrow> (Inl e, s)
      | Inr h \<Rightarrow> enqueue_frame (h @ payload) s)"

definition send_text :: "ustr \<Rightarrow> session \<Rightarrow> unit result \<times> session" where
  "send_text t s =
     (case u8_encode t of
        None \<Rightarrow> (Inl (PyError ''UnicodeEncodeError''), s)
      | Some b \<Rightarrow> send_frame 1 (map char_of b) s)"

definition send_binary :: "bytes \<Rightarrow> session \<Rightarrow> unit result \<times> session" where
  "send_binary d s = send_frame 2 d s"

definition ping :: "bytes \<Rightarrow> session \<Rightarrow> unit result \<times> session" where
  "ping payload s = send_frame 9 payload (s\<lparr>pending_ping := Some payload\<rparr>)"

subsection \<open>Receiving\<close>

function ws_read_more :: "nat \<Rightarrow> bytes \<Rightarrow> session \<Rightarrow> bytes result \<times> session" where
  "ws_read_more n buf s =
     (if length buf < n then
        (case recv (hb_interval s + hb_timeout s) (n - length buf) s of
           (TimedOut, s') \<Rightarrow> (Inl WebSocketClosed, s')
         | (Broken, s') \<Rightarrow> (Inl (PyError ''ConnectionResetError''), s')
         | (Got chunk, s') \<Rightarrow>
             if chunk = [] then (Inl WebSocketClosed, s') else ws_read_more n (buf @ chunk) s')
      else (Inr buf, s))"
  by pat_completeness auto
termination
  by (relation "measure (\<lambda>(n, buf, s). n - length buf)") (auto simp flip: length_greater_0_conv)

declare ws_read_more.simps [simp del]

definition ws_read_exact :: "nat \<Rightarrow> session \<Rightarrow> bytes result \<times> session" where
  "ws_read_exact n s = ws_read_more n [] s"

text \<open>The length field: 7 bits, or the 16 or 64 bits that follow.\<close>

definition read_length :: "nat \<Rightarrow> session \<Rightarrow> nat result \<times> session" where
  "read_length len7 s =
     (if len7 = 126 then sbind (ws_read_exact 2 s) (\<lambda>b s. (Inr (from_big b), s))
      else if len7 = 127 then sbind (ws_read_exact 8 s) (\<lambda>b s. (Inr (from_big b), s))
      else (Inr len7, s))"

text \<open>One frame from the wire: the checks and reads of \<^verbatim>\<open>recv\<close> before it looks at the opcode.\<close>

definition read_frame :: "session \<Rightarrow> (nat \<times> bytes) result \<times> session" where
  "read_frame s =
     sbind (ws_read_exact 2 s) (\<lambda>h s.
       (let opcode = code (h ! 0) AND 0x0F; masked = (code (h ! 1) AND 0x80 \<noteq> 0);
            len7 = code (h ! 1) AND 0x7F
        in if \<not> masked then (Inl WebSocketClosed, close 1002 (uni ''client frames must be masked'') s)
           else sbind (read_length len7 s) (\<lambda>n s.
             if websocket_max_payload (ws_config s) < int n
             then (Inl WebSocketClosed, close 1009 (uni ''message too large'') s)
             else sbind (ws_read_exact 4 s) (\<lambda>mkey s.
                  sbind (ws_read_exact n s) (\<lambda>payload s.
                    (Inr (opcode, apply_mask mkey payload), s))))))"

text \<open>
  \<open>ws_recv depth\<close> is \<^verbatim>\<open>recv\<close> with \<open>depth\<close> interpreter frames left: control frames are handled by
  a recursive call, and no frame left is Python's \<^verbatim>\<open>RecursionError\<close>.
\<close>

primrec ws_recv :: "nat \<Rightarrow> session \<Rightarrow> (nat \<times> bytes) result \<times> session" where
  "ws_recv 0 s = (Inl (PyError ''RecursionError''), s)"
| "ws_recv (Suc depth) s =
     sbind (read_frame s) (\<lambda>(opcode, data) s.
       if opcode = 8 then (Inl WebSocketClosed, close 1000 [] s)
       else if opcode = 9 then sbind (send_frame 10 data s) (\<lambda>_ s. ws_recv depth s)
       else if opcode = 10 then
         ws_recv depth
           (if pending_ping s = None \<or> pending_ping s = Some data
            then s\<lparr>last_pong := now s, pending_ping := None\<rparr> else s)
       else (Inr (opcode, data), s))"

definition receive_text :: "nat \<Rightarrow> session \<Rightarrow> ustr result \<times> session" where
  "receive_text depth s =
     sbind (ws_recv depth s) (\<lambda>(opcode, payload) s.
       if opcode \<noteq> 1 then (Inl WebSocketClosed, s)
       else (case u8_strict (map code payload) of
               None \<Rightarrow> (Inl (PyError ''UnicodeDecodeError''), s)
             | Some t \<Rightarrow> (Inr t, s)))"

subsection \<open>The writer and the heartbeat threads\<close>

text \<open>
  One turn of \<^verbatim>\<open>_writer_loop\<close>; \<open>ok\<close> says whether the kernel takes the whole frame, which it
  never does once the socket is shut down. An empty queue blocks.
\<close>

definition writer_step :: "bool \<Rightarrow> session \<Rightarrow> session" where
  "writer_step ok s =
     (if writer_done s then s
      else (case send_queue s of
          [] \<Rightarrow> s
        | None # q \<Rightarrow> s\<lparr>send_queue := q, popped := popped s @ [None], writer_done := True\<rparr>
        | Some f # q \<Rightarrow>
            (let s' = s\<lparr>send_queue := q, popped := popped s @ [Some f]\<rparr> in
             if ok \<and> \<not> sock_shut s then s'\<lparr>sent_frames := sent_frames s @ [f]\<rparr>
             else s'\<lparr>ws_closed := True, writer_done := True\<rparr>)))"

text \<open>One turn of \<^verbatim>\<open>heartbeat\<close> after its sleep, at the monotonic time \<open>t\<close>: whether the loop goes on.\<close>

definition heartbeat_turn :: "rat \<Rightarrow> bytes \<Rightarrow> session \<Rightarrow> bool \<times> session" where
  "heartbeat_turn t payload s =
     (if ws_closed s then (False, s)
      else if pending_ping s \<noteq> None \<and> hb_timeout s < t - last_pong s
      then (False, close 1002 (uni ''heartbeat timeout'') s)
      else (case ping payload s of
              (Inl e, s') \<Rightarrow> (False, close 1000 [] s')
            | (Inr _, s') \<Rightarrow> (\<not> ws_closed s', s')))"

subsection \<open>The handshake\<close>

definition WS_GUID :: str where
  "WS_GUID = ''258EAFA5-E914-47DA-95CA-C5AB0DC85B11''"

definition is_websocket_upgrade :: "request \<Rightarrow> bool" where
  "is_websocket_upgrade req =
     (lower (header req ''upgrade'') = ''websocket'' \<and>
      sublist ''upgrade'' (lower (header req ''connection'')))"

text \<open>The bytes \<^verbatim>\<open>handshake\<close> sends; \<open>sha1\<close> is \<^verbatim>\<open>hashlib.sha1(...).digest()\<close>.\<close>

definition handshake_reply :: "(bytes \<Rightarrow> bytes) \<Rightarrow> str \<Rightarrow> bytes" where
  "handshake_reply sha1 key =
     ''HTTP/1.1 101 Switching Protocols'' @ CRLF @ ''Upgrade: websocket'' @ CRLF @
     ''Connection: Upgrade'' @ CRLF @
     ''Sec-WebSocket-Accept: '' @ b64encode STD (sha1 (key @ WS_GUID)) @ CRLF @ CRLF"

definition handshake :: "(bytes \<Rightarrow> bytes) \<Rightarrow> request \<Rightarrow> bytes result" where
  "handshake sha1 req =
     (let key = header req ''sec-websocket-key'' in
      if q_method req \<noteq> ''GET'' \<or> header req ''sec-websocket-version'' \<noteq> ''13'' \<or> key = []
      then Inl (err 400 ''Invalid WebSocket handshake'')
      else (case b64decode_strict key of
              Some d \<Rightarrow> if length d = 16 then Inr (handshake_reply sha1 key)
                        else Inl (err 400 ''Invalid WebSocket key'')
            | None \<Rightarrow> Inl (err 400 ''Invalid WebSocket key'')))"

end
