(* ===== verification/WebSocket_Props.thy ===== *)
theory WebSocket_Props
  imports WebSocket
begin

section \<open>Frames on the wire and the life of a session\<close>

text \<open>
  The peer's side of the protocol (\<open>client_frame\<close> encodes a masked frame, \<open>rfc_decode\<close> reads
  an unmasked one, both as RFC 6455 lays them out), the round trips with \<^verbatim>\<open>recv\<close> and
  \<^verbatim>\<open>_send_frame\<close>, and the invariant of the interleaved threads.
\<close>

subsection \<open>Numbers and bits\<close>

lemma from_big_snoc [simp]: "from_big (b @ [c]) = from_big b * 256 + code c"
  by (simp add: from_big_def)

lemma from_big_Nil [simp]: "from_big [] = 0"
  by (simp add: from_big_def)

lemma length_to_big [simp]: "length (to_big k n) = k"
  by (induction k arbitrary: n) auto

lemma code_char_of_mod: "code (char_of (n :: nat)) = n mod 256"
  by (simp add: code_def)

lemma from_to_big: "n < 256 ^ k \<Longrightarrow> from_big (to_big k n) = n"
proof (induction k arbitrary: n)
  case (Suc k)
  then have "n div 256 < 256 ^ k"
    by (simp add: less_mult_imp_div_less mult.commute)
  with Suc show ?case
    by (simp add: code_char_of_mod div_mult_mod_eq)
qed simp

lemma and_15: "(m :: nat) AND 15 = m mod 16"
proof -
  have "m AND 15 = m AND Bit_Operations.mask 4"
    by (simp add: mask_eq_exp_minus_1)
  then show ?thesis
    by (simp add: take_bit_eq_mod flip: take_bit_eq_mask)
qed

lemma and_127: "(m :: nat) AND 127 = m mod 128"
proof -
  have "m AND 127 = m AND Bit_Operations.mask 7"
    by (simp add: mask_eq_exp_minus_1)
  then show ?thesis
    by (simp add: take_bit_eq_mod flip: take_bit_eq_mask)
qed

lemma and_128: "(m :: nat) AND 128 \<noteq> 0 \<longleftrightarrow> odd (m div 128)"
proof -
  have "m AND 128 = m AND 2 ^ 7" by simp
  then show ?thesis
    by (simp only: and_exp_eq_0_iff_not_bit bit_iff_odd) simp
qed

lemma or_128: "op < 16 \<Longrightarrow> (128 :: nat) OR op = 128 + op"
proof -
  have "list_all (\<lambda>op. (128 :: nat) OR op = 128 + op) [0..<16]"
    by code_simp
  then show "op < 16 \<Longrightarrow> (128 :: nat) OR op = 128 + op"
    by (simp add: list_all_iff)
qed

subsection \<open>Masking is an involution\<close>

lemma byte_of_char [simp]: "byte_of (char_of_byte w) = w"
proof -
  have "unat w < 256" using unsigned_less [of w, where ?'a = nat] by simp
  then show ?thesis
    by (simp add: byte_of_def char_of_byte_def code_char_of)
qed

lemma char_of_byte_of [simp]: "char_of_byte (byte_of c) = c"
  using code_less [of c] by (simp add: byte_of_def char_of_byte_def unat_of_nat)

lemma xor_byte_twice [simp]: "xor_byte (xor_byte a b) b = a"
  by (simp add: xor_byte_def xor.assoc)

lemma mask_from_twice: "mask_from i m (mask_from i m p) = p"
  by (induction p arbitrary: i) simp_all

lemma apply_mask_twice [simp]: "apply_mask m (apply_mask m p) = p"
  by (simp add: apply_mask_def mask_from_twice)

lemma length_mask_from [simp]: "length (mask_from i m p) = length p"
  by (induction p arbitrary: i) simp_all

lemma length_apply_mask [simp]: "length (apply_mask m p) = length p"
  by (simp add: apply_mask_def)

subsection \<open>The peer's frames\<close>

definition length_field :: "nat \<Rightarrow> nat \<Rightarrow> bytes" where
  "length_field flag n =
     (if n < 126 then [char_of (flag + n)]
      else if n < 2 ^ 16 then char_of (flag + 126) # to_big 2 n
      else char_of (flag + 127) # to_big 8 n)"

text \<open>A masked frame; \<open>h\<close> is the high nibble of its first byte (the FIN and reserved bits).\<close>

definition client_frame :: "nat \<Rightarrow> nat \<Rightarrow> bytes \<Rightarrow> bytes \<Rightarrow> bytes" where
  "client_frame h opcode key payload =
     char_of (16 * h + opcode) # length_field 128 (length payload) @ key @ apply_mask key payload"

definition rfc_decode :: "bytes \<Rightarrow> (nat \<times> bytes \<times> bytes) option" where
  "rfc_decode b =
     (if length b < 2 \<or> code (b ! 0) div 16 \<noteq> 8 \<or> 128 \<le> code (b ! 1) then None
      else (let opcode = code (b ! 0) mod 16; n7 = code (b ! 1); r = drop 2 b;
                (n, r) = (if n7 = 126 then (from_big (take 2 r), drop 2 r)
                          else if n7 = 127 then (from_big (take 8 r), drop 8 r) else (n7, r))
            in if length r < n then None else Some (opcode, take n r, drop n r)))"

subsection \<open>Reading from a peer that keeps up\<close>

definition timely :: "session \<Rightarrow> bool" where
  "timely s = list_all (\<lambda>(d, ev). 0 \<le> d \<and> d \<le> hb_interval s + hb_timeout s \<and> data_of ev \<noteq> []) (arrivals s)"

text \<open>\<open>net s s' rest\<close>: only the socket has moved on, and \<open>rest\<close> is still to come.\<close>

definition net :: "session \<Rightarrow> session \<Rightarrow> bytes \<Rightarrow> bool" where
  "net s s' rest = ((\<exists>a t. s' = s\<lparr>arrivals := a, now := t\<rparr>) \<and> incoming s' = rest \<and> timely s')"

lemma net_trans: "net s s' r \<Longrightarrow> net s' s'' r' \<Longrightarrow> net s s'' r'"
  unfolding net_def by (elim conjE exE) (hypsubst, simp, metis)

lemma net_fields:
  assumes "net s s' r"
  shows "ws_config s' = ws_config s" "send_queue s' = send_queue s" "ws_closed s' = ws_closed s"
    "timely s'" "incoming s' = r" "hb_interval s' = hb_interval s" "hb_timeout s' = hb_timeout s"
    "pending_ping s' = pending_ping s" "sock_shut s' = sock_shut s" "popped s' = popped s"
  using assms by (auto simp: net_def)

lemma recv_timely:
  assumes t: "timely s" and ne: "incoming s \<noteq> []" and n: "0 < n"
  obtains d s' where "recv (hb_interval s + hb_timeout s) n s = (Got d, s')" "d \<noteq> []" "length d \<le> n"
    "incoming s = d @ incoming s'" "net s s' (incoming s')"
proof -
  from ne obtain x xs where x: "arrivals s = x # xs"
    by (cases "arrivals s") (auto simp: incoming_def)
  obtain dl ev where dl: "x = (dl, ev)" by force
  from t x dl obtain b where b: "ev = Data b" "b \<noteq> []"
    by (cases ev) (auto simp: timely_def)
  have le: "0 \<le> dl" "dl \<le> hb_interval s + hb_timeout s" "\<not> hb_interval s + hb_timeout s < dl"
    using t x dl by (auto simp: timely_def)
  show thesis
  proof (cases "length b \<le> n")
    case True
    then have r: "recv (hb_interval s + hb_timeout s) n s = (Got b, s\<lparr>arrivals := xs, now := now s + dl\<rparr>)"
      using x dl b le(3) by (simp add: recv.simps)
    show thesis
      by (rule that [OF r b(2) True])
        (use x dl b t in \<open>auto simp: incoming_def net_def timely_def\<close>)
  next
    case False
    then have r: "recv (hb_interval s + hb_timeout s) n s =
        (Got (take n b), s\<lparr>arrivals := (0, Data (drop n b)) # xs, now := now s + dl\<rparr>)"
      using x dl b le(3) by (simp add: recv.simps)
    have "0 \<le> hb_interval s + hb_timeout s" using le by linarith
    then show thesis
      using x dl b t n False by (intro that [OF r]) (auto simp: incoming_def net_def timely_def)
  qed
qed

lemma ws_read_more_complete:
  "\<lbrakk>timely s; length buf \<le> n; n \<le> length buf + length (incoming s)\<rbrakk> \<Longrightarrow>
   \<exists>s'. ws_read_more n buf s = (Inr (buf @ take (n - length buf) (incoming s)), s') \<and>
        net s s' (drop (n - length buf) (incoming s))"
proof (induction n buf s rule: ws_read_more.induct)
  case (1 n buf s)
  show ?case
  proof (cases "length buf < n")
    case False
    have "s = s\<lparr>arrivals := arrivals s, now := now s\<rparr>" by simp
    then have "net s s (incoming s)"
      unfolding net_def using "1.prems"(1) by blast
    with False "1.prems" show ?thesis
      by (simp add: ws_read_more.simps)
  next
    case True
    with "1.prems" have "incoming s \<noteq> []" by auto
    from recv_timely [OF "1.prems"(1) this, of "n - length buf"] True
    obtain d s1 where r: "recv (hb_interval s + hb_timeout s) (n - length buf) s = (Got d, s1)"
      and d: "d \<noteq> []" "length d \<le> n - length buf" "incoming s = d @ incoming s1"
      and nt: "net s s1 (incoming s1)" by auto
    have "\<exists>s'. ws_read_more n (buf @ d) s1 =
          (Inr ((buf @ d) @ take (n - length (buf @ d)) (incoming s1)), s') \<and>
        net s1 s' (drop (n - length (buf @ d)) (incoming s1))"
      by (rule "1.IH" [OF True r [symmetric] refl d(1)])
        (use "1.prems" True d nt in \<open>auto simp: net_fields(4) [OF nt]\<close>)
    then show ?thesis
      using True r d nt by (auto simp: ws_read_more.simps [of n buf s] dest: net_trans)
  qed
qed

lemma ws_read_exact_complete:
  assumes "timely s" "incoming s = d @ rest"
  shows "\<exists>s'. ws_read_exact (length d) s = (Inr d, s') \<and> net s s' rest"
  using ws_read_more_complete [of s "[]" "length d"] assms by (simp add: ws_read_exact_def)

lemma read_length_complete:
  assumes t: "timely s" and n: "n < 2 ^ 64" and i: "incoming s = tl (length_field flag n) @ rest"
  shows "\<exists>s'. read_length (if n < 126 then n else if n < 2 ^ 16 then 126 else 127) s = (Inr n, s') \<and>
    net s s' rest"
proof -
  consider "n < 126" | "126 \<le> n" "n < 2 ^ 16" | "2 ^ 16 \<le> n" by linarith
  then show ?thesis
  proof cases
    case 1
    have "s = s\<lparr>arrivals := arrivals s, now := now s\<rparr>" by simp
    then have "net s s (incoming s)"
      unfolding net_def using t by blast
    with 1 i show ?thesis by (auto simp: read_length_def length_field_def)
  next
    case 2
    with i have "incoming s = to_big 2 n @ rest" by (simp add: length_field_def)
    from ws_read_exact_complete [OF t this] 2 show ?thesis
      by (auto simp: read_length_def from_to_big)
  next
    case 3
    with i have "incoming s = to_big 8 n @ rest" by (simp add: length_field_def)
    from ws_read_exact_complete [OF t this] 3 n show ?thesis
      by (auto simp: read_length_def from_to_big)
  qed
qed

lemma read_frame_complete:
  assumes t: "timely s" and i: "incoming s = client_frame h opcode key payload @ rest"
    and h: "h < 16" "opcode < 16" "length key = 4"
    and n: "length payload < 2 ^ 64" "int (length payload) \<le> websocket_max_payload (ws_config s)"
  shows "\<exists>s'. read_frame s = (Inr (opcode, payload), s') \<and> net s s' rest"
proof -
  let ?n = "length payload"
  let ?l = "if ?n < 126 then ?n else if ?n < 2 ^ 16 then 126 else 127"
  obtain lf where lf: "length_field 128 ?n = char_of (128 + ?l) # lf"
    by (cases "?n < 126"; cases "?n < 2 ^ 16") (simp_all add: length_field_def)
  have l: "?l < 128" by auto
  let ?b = "[char_of (16 * h + opcode), char_of (128 + ?l)] :: bytes"
  have "incoming s = ?b @ (lf @ key @ apply_mask key payload @ rest)"
    using i lf by (simp add: client_frame_def)
  from ws_read_exact_complete [OF t this] obtain s1 where
    r1: "ws_read_exact 2 s = (Inr ?b, s1)" and n1: "net s s1 (lf @ key @ apply_mask key payload @ rest)"
    by (auto simp: numeral_2_eq_2)
  have "incoming s1 = tl (length_field 128 ?n) @ (key @ apply_mask key payload @ rest)"
    using net_fields(5) [OF n1] lf by simp
  from read_length_complete [OF net_fields(4) [OF n1] n(1) this] obtain s2 where
    r2: "read_length ?l s1 = (Inr ?n, s2)" and n2: "net s1 s2 (key @ apply_mask key payload @ rest)"
    by blast
  from ws_read_exact_complete [OF net_fields(4,5) [OF n2]] obtain s3 where
    r3: "ws_read_exact 4 s2 = (Inr key, s3)" and n3: "net s2 s3 (apply_mask key payload @ rest)"
    using h(3) by auto
  from ws_read_exact_complete [OF net_fields(4,5) [OF n3]] obtain s4 where
    r4: "ws_read_exact ?n s3 = (Inr (apply_mask key payload), s4)" and n4: "net s3 s4 rest"
    by auto
  have c1: "code (char_of (16 * h + opcode)) AND 15 = opcode"
    using h by (simp add: and_15 code_char_of)
  have c2: "code (char_of (128 + ?l)) AND 127 = ?l" "code (char_of (128 + ?l)) AND 128 \<noteq> 0"
    using l by (simp_all only: and_127 and_128 code_char_of) auto
  have cfg: "ws_config s2 = ws_config s"
    using net_fields(1) [OF n1] net_fields(1) [OF n2] by simp
  have "read_frame s = (Inr (opcode, payload), s4)"
    unfolding read_frame_def r1 sbind_simps Let_def nth_Cons_0 nth_Cons_Suc One_nat_def c1
    using c2 n(2) by (simp add: r2 r3 r4 cfg)
  with net_trans [OF net_trans [OF net_trans [OF n1 n2] n3] n4] show ?thesis by blast
qed

subsection \<open>Writing frames\<close>

definition server_frame :: "nat \<Rightarrow> bytes \<Rightarrow> bytes" where
  "server_frame opcode payload = char_of (128 + opcode) # length_field 0 (length payload) @ payload"

lemma frame_header_eq:
  "opcode < 16 \<Longrightarrow> n < 2 ^ 64 \<Longrightarrow> frame_header opcode n = Inr (char_of (128 + opcode) # length_field 0 n)"
  by (simp add: frame_header_def or_128 length_field_def Let_def)

lemma frame_header_big: "2 ^ 64 \<le> n \<Longrightarrow> \<exists>e. frame_header opcode n = Inl e"
  by (simp add: frame_header_def Let_def)

text \<open>\<open>room k s\<close>: the queue takes \<open>k\<close> more items.\<close>

definition room :: "nat \<Rightarrow> session \<Rightarrow> bool" where
  "room k s = (websocket_queue_size (ws_config s) \<le> 0 \<or>
               int (length (send_queue s) + k) \<le> websocket_queue_size (ws_config s))"

lemma send_frame_room:
  assumes "opcode < 16" "length p < 2 ^ 64" "\<not> ws_closed s" "room (Suc k) s"
  shows "send_frame opcode p s = (Inr (), s\<lparr>send_queue := send_queue s @ [Some (server_frame opcode p)]\<rparr>)"
  using assms
  by (auto simp: send_frame_def frame_header_eq enqueue_frame_def put_nowait_def room_def server_frame_def)

lemma drop_length_field: "n < 2 ^ 64 \<Longrightarrow> length_field 0 n =
   (if n < 126 then [char_of n] else if n < 2 ^ 16 then char_of (126 :: nat) # to_big 2 n
    else char_of (127 :: nat) # to_big 8 n)"
  by (simp add: length_field_def)

lemma rfc_decode_server_frame:
  assumes "opcode < 16" "length p < 2 ^ 64"
  shows "rfc_decode (server_frame opcode p @ rest) = Some (opcode, p, rest)"
proof -
  let ?n = "length p"
  have c: "code (char_of (128 + opcode)) = 128 + opcode"
    using assms(1) by (intro code_char_of) simp
  have m: "(128 + opcode) div 16 = 8" "(128 + opcode) mod 16 = opcode"
    using assms(1) mod_mult_self1 [of opcode 8 16] div_mult_self1 [of 16 opcode 8] by (simp_all add: add.commute)
  consider "?n < 126" | "126 \<le> ?n" "?n < 2 ^ 16" | "2 ^ 16 \<le> ?n" by linarith
  then show ?thesis
  proof cases
    case 1
    then show ?thesis
      by (simp add: rfc_decode_def server_frame_def length_field_def c m code_char_of)
  next
    case 2
    then have "from_big (to_big 2 ?n) = ?n" by (intro from_to_big) simp
    with 2 show ?thesis
      by (simp add: rfc_decode_def server_frame_def length_field_def c m code_char_of)
  next
    case 3
    have "from_big (to_big 8 ?n) = ?n" using assms(2) by (intro from_to_big) simp
    with 3 show ?thesis
      by (simp add: rfc_decode_def server_frame_def length_field_def c m code_char_of)
  qed
qed

text \<open>
  C22. Whatever \<^verbatim>\<open>_send_frame\<close> accepts is queued as one frame that any RFC 6455 reader splits
  off the stream again, with its opcode and exact payload, at every payload length encoding.
\<close>

theorem send_frame_decodes:
  assumes "opcode < 16" "send_frame opcode payload s = (Inr (), s')"
  shows "\<exists>f. send_queue s' = send_queue s @ [Some f] \<and>
             rfc_decode (f @ rest) = Some (opcode, payload, rest)"
proof -
  have n: "length payload < 2 ^ 64"
    using assms(2) frame_header_big [of "length payload" opcode]
    by (cases "length payload < 2 ^ 64") (auto simp: send_frame_def)
  have "send_queue s' = send_queue s @ [Some (server_frame opcode payload)]"
    using assms(2)
    by (auto simp: send_frame_def frame_header_eq [OF assms(1) n] enqueue_frame_def put_nowait_def
        server_frame_def split: if_splits)
  then show ?thesis
    using rfc_decode_server_frame [OF assms(1) n] by blast
qed

text \<open>The sample session serves a client whose ping and greeting arrive in two pieces.\<close>

definition sample_key :: bytes where
  "sample_key = [CHR 0x37, CHR 0xFA, CHR 0x21, CHR 0x3D]"

definition sample_stream :: bytes where
  "sample_stream = client_frame 8 9 sample_key ''p1'' @ client_frame 8 1 sample_key ''Hello''"

definition sample_session :: session where
  "sample_session =
     \<lparr>arrivals = [(1, Data (take 5 sample_stream)), (2, Data (drop 5 sample_stream))], now = 100,
      ws_id = ''r1'', ws_user = None, ws_config = DEFAULT_CONFIG, ws_closed = False,
      hb_interval = 25, hb_timeout = 10, last_pong = 100, pending_ping = None, send_queue = [],
      popped = [], sent_frames = [], writer_done = False, sock_shut = False\<rparr>"

lemma send_frame_decodes_witness:
  "rfc_decode ((case send_queue (snd (send_frame 1 ''Hi'' sample_session)) of [Some f] \<Rightarrow> f) @ ''xy'') =
     Some (1, ''Hi'', ''xy'')"
proof -
  have s: "send_frame 1 ''Hi'' sample_session =
      (Inr (), sample_session\<lparr>send_queue := [Some [CHR 0x81, CHR 0x02, CHR ''H'', CHR ''i'']]\<rparr>)"
    by code_simp
  have "send_queue sample_session = []"
    by (simp add: sample_session_def)
  then show ?thesis
    using send_frame_decodes [OF _ s, of "''xy''"] s by auto
qed

subsection \<open>Receiving through control frames\<close>

abbreviation pings_of :: "(bytes \<times> bytes) list \<Rightarrow> bytes" where
  "pings_of ps \<equiv> concat (map (\<lambda>(key, p). client_frame 8 9 key p) ps)"

definition ping_ok :: "session \<Rightarrow> bytes \<times> bytes \<Rightarrow> bool" where
  "ping_ok s kp = (length (fst kp) = 4 \<and> length (snd kp) < 2 ^ 64 \<and>
                   int (length (snd kp)) \<le> websocket_max_payload (ws_config s))"

lemma ws_recv_pings:
  "\<lbrakk>timely s; incoming s = pings_of ps @ rest; \<forall>kp\<in>set ps. ping_ok s kp; \<not> ws_closed s; room (length ps) s\<rbrakk> \<Longrightarrow>
   \<exists>s'. ws_recv (length ps + depth) s = ws_recv depth s' \<and> timely s' \<and> incoming s' = rest \<and>
        ws_config s' = ws_config s \<and> \<not> ws_closed s' \<and>
        send_queue s' = send_queue s @ map (\<lambda>(key, p). Some (server_frame 10 p)) ps"
proof (induction ps arbitrary: s)
  case (Cons kp ps)
  obtain key p where kp: "kp = (key, p)" by force
  have ok: "length key = 4" "length p < 2 ^ 64" "int (length p) \<le> websocket_max_payload (ws_config s)"
    using Cons.prems(3) kp by (simp_all add: ping_ok_def)
  have "incoming s = client_frame 8 9 key p @ (pings_of ps @ rest)"
    using Cons.prems(2) kp by simp
  from read_frame_complete [OF Cons.prems(1) this _ _ ok] obtain s1 where
    r: "read_frame s = (Inr (9, p), s1)" and n: "net s s1 (pings_of ps @ rest)" by auto
  note nf = net_fields [OF n]
  have rm: "room (Suc (length ps)) s1"
    using Cons.prems(5) nf(1,2) by (simp add: room_def)
  let ?s2 = "s1\<lparr>send_queue := send_queue s1 @ [Some (server_frame 10 p)]\<rparr>"
  have sf: "send_frame 10 p s1 = (Inr (), ?s2)"
    using send_frame_room [OF _ ok(2) _ rm, of 10] Cons.prems(4) nf(3) by simp
  have "\<exists>s'. ws_recv (length ps + depth) ?s2 = ws_recv depth s' \<and> timely s' \<and> incoming s' = rest \<and>
        ws_config s' = ws_config ?s2 \<and> \<not> ws_closed s' \<and>
        send_queue s' = send_queue ?s2 @ map (\<lambda>(key, p). Some (server_frame 10 p)) ps"
    by (rule Cons.IH) (use Cons.prems nf rm in \<open>auto simp: timely_def incoming_def room_def ping_ok_def\<close>)
  then show ?case
    using r sf kp nf by (auto simp del: sbind_def)
qed (auto)

text \<open>
  C13. A data frame of the peer, of any length encoding and any masking key, behind any number
  of pings and cut by the network in any way, is delivered by \<^verbatim>\<open>recv\<close> with its exact payload;
  every ping is answered by a pong with the same payload, in order.
\<close>

theorem recv_delivers:
  assumes "timely s" and "\<not> ws_closed s" and "room (length ps) s"
    and "incoming s = pings_of ps @ client_frame h opcode key payload @ rest"
    and "\<forall>kp\<in>set ps. ping_ok s kp" and "ping_ok s (key, payload)"
    and "h < 16" and "opcode < 8" and "length ps < depth"
  shows "\<exists>s'. ws_recv depth s = (Inr (opcode, payload), s') \<and> incoming s' = rest \<and>
    send_queue s' = send_queue s @ map (\<lambda>(key, p). Some (server_frame 10 p)) ps"
proof -
  obtain d where d: "depth = length ps + Suc d"
    using assms(9) by (metis add_Suc_right less_iff_Suc_add)
  from ws_recv_pings [OF assms(1,4,5,2,3), of "Suc d"] obtain s1 where
    s1: "ws_recv depth s = ws_recv (Suc d) s1" "timely s1"
      "incoming s1 = client_frame h opcode key payload @ rest" "ws_config s1 = ws_config s"
      "send_queue s1 = send_queue s @ map (\<lambda>(key, p). Some (server_frame 10 p)) ps"
    using d by auto
  have "\<exists>s'. read_frame s1 = (Inr (opcode, payload), s') \<and> net s1 s' rest"
    by (rule read_frame_complete [OF s1(2,3)]) (use assms s1(4) in \<open>auto simp: ping_ok_def\<close>)
  then obtain s2 where s2: "read_frame s1 = (Inr (opcode, payload), s2)" "net s1 s2 rest" by blast
  then have "ws_recv depth s = (Inr (opcode, payload), s2)"
    using s1(1) assms(8) by simp
  then show ?thesis
    using s1(5) net_fields [OF s2(2)] by auto
qed

lemma sample_session_facts:
  "timely sample_session" "\<not> ws_closed sample_session" "room 1 sample_session"
  "incoming sample_session = sample_stream"
  "ping_ok sample_session (sample_key, ''p1'')" "ping_ok sample_session (sample_key, ''Hello'')"
  by (simp_all add: sample_session_def timely_def room_def incoming_def ping_ok_def sample_key_def
      DEFAULT_CONFIG_def sample_stream_def client_frame_def length_field_def apply_mask_def)

lemma recv_delivers_witness:
  "(case ws_recv 2 sample_session of
      (Inr (opcode, payload), s') \<Rightarrow> opcode = 1 \<and> payload = ''Hello'' \<and> incoming s' = [] \<and>
        send_queue s' = [Some (server_frame 10 ''p1'')]
    | _ \<Rightarrow> False)"
proof -
  have "incoming sample_session = pings_of [(sample_key, ''p1'')] @ client_frame 8 1 sample_key ''Hello'' @ []"
    by (simp add: sample_session_facts sample_stream_def)
  moreover have "send_queue sample_session = []"
    by (simp add: sample_session_def)
  ultimately show ?thesis
    using recv_delivers [of sample_session "[(sample_key, ''p1'')]" 8 1 sample_key "''Hello''" "[]" 2]
      sample_session_facts by auto
qed

text \<open>
  A peer that sends as many pings in a row as the interpreter has stack frames left makes
  \<^verbatim>\<open>recv\<close> raise \<^verbatim>\<open>RecursionError\<close>: neither a message nor a \<^verbatim>\<open>WebSocketClosed\<close>, and the
  session stays open.
\<close>

theorem recv_ping_flood:
  assumes "timely s" and "\<not> ws_closed s" and "room (length ps) s"
    and "incoming s = pings_of ps @ rest" and "\<forall>kp\<in>set ps. ping_ok s kp"
  shows "\<exists>s'. ws_recv (length ps) s = (Inl (PyError ''RecursionError''), s') \<and> \<not> ws_closed s'"
  using ws_recv_pings [OF assms(1,4,5,2,3), of 0] by auto

lemma recv_ping_flood_witness:
  "(case ws_recv 1 sample_session of
      (Inl e, s') \<Rightarrow> e = PyError ''RecursionError'' \<and> \<not> ws_closed s' | _ \<Rightarrow> False)"
proof -
  have "incoming sample_session = pings_of [(sample_key, ''p1'')] @ client_frame 8 1 sample_key ''Hello''"
    by (simp add: sample_session_facts sample_stream_def)
  then show ?thesis
    using recv_ping_flood [of sample_session "[(sample_key, ''p1'')]" "client_frame 8 1 sample_key ''Hello''"]
      sample_session_facts by auto
qed

subsection \<open>Interleaved threads\<close>

text \<open>
  A step of one thread: the application sends, receives or closes, the writer or the
  heartbeat takes a turn, or the network moves.
\<close>

inductive ws_step :: "session \<Rightarrow> session \<Rightarrow> bool" where
  step_send: "ws_step s (snd (send_frame opcode payload s))"
| step_ping: "ws_step s (snd (ping payload s))"
| step_recv: "ws_step s (snd (ws_recv depth s))"
| step_close: "ws_step s (close status reason s)"
| step_writer: "ws_step s (writer_step ok s)"
| step_heartbeat: "ws_step s (snd (heartbeat_turn t payload s))"
| step_net: "ws_step s (s\<lparr>arrivals := a, now := t\<rparr>)"

inductive_cases ws_stepE: "ws_step s s'"

inductive ws_reach :: "session \<Rightarrow> session \<Rightarrow> bool" for s0 :: session where
  reach_init: "ws_reach s0 s0"
| reach_step: "ws_reach s0 s \<Longrightarrow> ws_step s s' \<Longrightarrow> ws_reach s0 s'"

text \<open>
  The log of a session is everything ever put on its queue. \<open>ws_inv\<close>: the queue is within its
  bound, frames leave in the order they were put and none twice, an open session has put no
  end marker and its writer lives, a shut socket is closed.
\<close>

definition ws_log :: "session \<Rightarrow> bytes option list" where
  "ws_log s = popped s @ send_queue s"

definition frames_of :: "bytes option list \<Rightarrow> bytes list" where
  "frames_of xs = map the (filter (\<lambda>x. x \<noteq> None) xs)"

definition ws_inv :: "session \<Rightarrow> bool" where
  "ws_inv s =
     ((0 < websocket_queue_size (ws_config s) \<longrightarrow>
         int (length (send_queue s)) \<le> websocket_queue_size (ws_config s)) \<and>
      prefix (sent_frames s) (frames_of (popped s)) \<and>
      (\<not> writer_done s \<longrightarrow> sent_frames s = frames_of (popped s)) \<and>
      (\<not> ws_closed s \<longrightarrow> None \<notin> set (ws_log s) \<and> \<not> writer_done s) \<and>
      (sock_shut s \<longrightarrow> ws_closed s))"

text \<open>What one step may do: extend the log, and only while the session is open.\<close>

definition ws_grows :: "session \<Rightarrow> session \<Rightarrow> bool" where
  "ws_grows s s' =
     (ws_config s' = ws_config s \<and> prefix (ws_log s) (ws_log s') \<and>
      (ws_closed s \<longrightarrow> ws_closed s' \<and> ws_log s' = ws_log s))"

lemma ws_grows_refl [simp]: "ws_grows s s"
  by (simp add: ws_grows_def)

lemma ws_grows_trans: "ws_grows s s' \<Longrightarrow> ws_grows s' s'' \<Longrightarrow> ws_grows s s''"
  by (auto simp: ws_grows_def intro: prefix_order.trans)

text \<open>An operation is safe when it keeps the invariant and only extends the log of an open session.\<close>

definition ws_safe :: "session \<Rightarrow> session \<Rightarrow> bool" where
  "ws_safe s s' = (ws_grows s s' \<and> (ws_inv s \<longrightarrow> ws_inv s'))"

lemma ws_safe_refl [simp]: "ws_safe s s"
  by (simp add: ws_safe_def)

lemma ws_safe_trans: "ws_safe s s' \<Longrightarrow> ws_safe s' s'' \<Longrightarrow> ws_safe s s''"
  using ws_grows_trans by (auto simp: ws_safe_def)

lemma ws_safe_net: "ws_safe s (s\<lparr>arrivals := a, now := t\<rparr>)"
  by (simp add: ws_safe_def ws_grows_def ws_inv_def ws_log_def)

lemma ws_safe_pong: "ws_safe s (s\<lparr>last_pong := t, pending_ping := p\<rparr>)" "ws_safe s (s\<lparr>pending_ping := p\<rparr>)"
  by (simp_all add: ws_safe_def ws_grows_def ws_inv_def ws_log_def)

lemma frames_of_append [simp]: "frames_of (xs @ ys) = frames_of xs @ frames_of ys"
  by (simp add: frames_of_def)

lemma put_ignored_cases:
  "put_ignored item s = s \<or>
   (put_ignored item s = s\<lparr>send_queue := send_queue s @ [item]\<rparr> \<and>
    (0 < websocket_queue_size (ws_config s) \<longrightarrow>
       int (length (send_queue s)) < websocket_queue_size (ws_config s)))"
  by (auto simp: put_ignored_def put_nowait_def)

lemma ws_safe_close: "ws_safe s (close status reason s)"
proof (cases "ws_closed s")
  case True
  then show ?thesis by (simp add: close_def)
next
  case False
  let ?q = "websocket_queue_size (ws_config s)"
  have put: "\<exists>xs. put_ignored item t = t\<lparr>send_queue := send_queue t @ xs\<rparr> \<and>
      (0 < websocket_queue_size (ws_config t) \<longrightarrow>
       int (length (send_queue t)) \<le> websocket_queue_size (ws_config t) \<longrightarrow>
       int (length (send_queue t @ xs)) \<le> websocket_queue_size (ws_config t))" for item t
  proof (cases "put_ignored item t = t")
    case True
    then have "put_ignored item t = t\<lparr>send_queue := send_queue t @ []\<rparr>" by simp
    then show ?thesis by (intro exI [of _ "[]"]) simp
  next
    case F: False
    have c: "put_ignored item t = t\<lparr>send_queue := send_queue t @ [item]\<rparr>"
      "0 < websocket_queue_size (ws_config t) \<Longrightarrow>
       int (length (send_queue t)) < websocket_queue_size (ws_config t)"
      using put_ignored_cases [of item t] F by blast+
    show ?thesis
      by (intro exI [of _ "[item]"] conjI impI, rule c(1)) (use c(2) in simp)
  qed
  let ?s1 = "s\<lparr>ws_closed := True\<rparr>"
  define s2 where "s2 = (case close_frame status reason of None \<Rightarrow> ?s1 | Some f \<Rightarrow> put_ignored (Some f) ?s1)"
  have "\<exists>xs. s2 = ?s1\<lparr>send_queue := send_queue s @ xs\<rparr> \<and>
      (0 < ?q \<longrightarrow> int (length (send_queue s)) \<le> ?q \<longrightarrow> int (length (send_queue s @ xs)) \<le> ?q)"
  proof (cases "close_frame status reason")
    case None
    then show ?thesis by (intro exI [of _ "[]"]) (simp add: s2_def)
  next
    case (Some f)
    then show ?thesis using put [of "Some f" ?s1] by (simp add: s2_def)
  qed
  then obtain xs where xs: "s2 = ?s1\<lparr>send_queue := send_queue s @ xs\<rparr>"
      "0 < ?q \<longrightarrow> int (length (send_queue s)) \<le> ?q \<longrightarrow> int (length (send_queue s @ xs)) \<le> ?q"
    by blast
  from put [of None s2] obtain ys where
    ys: "put_ignored None s2 = s2\<lparr>send_queue := send_queue s2 @ ys\<rparr>"
      "0 < ?q \<longrightarrow> int (length (send_queue s2)) \<le> ?q \<longrightarrow> int (length (send_queue s2 @ ys)) \<le> ?q"
    using xs(1) by auto
  have c: "close status reason s = s\<lparr>ws_closed := True, send_queue := send_queue s @ xs @ ys, sock_shut := True\<rparr>"
    using False xs(1) ys(1) by (simp add: close_def Let_def flip: s2_def)
  have "0 < ?q \<longrightarrow> int (length (send_queue s)) \<le> ?q \<longrightarrow> int (length (send_queue s @ xs @ ys)) \<le> ?q"
    using xs ys(2) by simp
  then show ?thesis
    using False unfolding c ws_safe_def ws_grows_def ws_inv_def ws_log_def by simp
qed

lemma ws_safe_put:
  assumes "\<not> ws_closed s" "put_nowait (Some f) s = Some s'"
  shows "ws_safe s s'"
proof -
  have s': "s' = s\<lparr>send_queue := send_queue s @ [Some f]\<rparr>"
    and room: "0 < websocket_queue_size (ws_config s) \<longrightarrow>
      int (length (send_queue s)) + 1 \<le> websocket_queue_size (ws_config s)"
    using assms(2) by (auto simp: put_nowait_def split: if_splits)
  show ?thesis
    using assms(1) room by (auto simp: s' ws_safe_def ws_grows_def ws_inv_def ws_log_def)
qed

lemma ws_safe_enqueue: "ws_safe s (snd (enqueue_frame f s))"
  by (simp add: enqueue_frame_def ws_safe_close ws_safe_put split: option.split)

lemma ws_safe_send_frame: "ws_safe s (snd (send_frame opcode p s))"
  using ws_safe_enqueue by (auto simp: send_frame_def split: sum.split)

lemma ws_safe_ping: "ws_safe s (snd (ping p s))"
  using ws_safe_trans [OF ws_safe_pong(2) ws_safe_send_frame] by (simp add: ping_def)

lemma ws_safe_sbind:
  "ws_safe s (snd m) \<Longrightarrow> (\<And>a t. ws_safe t (snd (f a t))) \<Longrightarrow> ws_safe s (snd (sbind m f))"
  by (cases m; cases "fst m") (auto simp: sbind_def intro: ws_safe_trans)

lemma recv_net: "recv u n (s :: session) = (r, s') \<Longrightarrow> \<exists>a t. s' = s\<lparr>arrivals := a, now := t\<rparr>"
proof -
  have "\<exists>a t. s = s\<lparr>arrivals := a, now := t\<rparr>"
    by (intro exI [of _ "arrivals s"] exI [of _ "now s"]) simp
  then show "recv u n s = (r, s') \<Longrightarrow> \<exists>a t. s' = s\<lparr>arrivals := a, now := t\<rparr>"
    unfolding recv.simps [of u n s]
    by (auto split: list.splits if_splits arrival.splits prod.splits)
qed

lemma ws_safe_recv: "recv u n s = (r, s') \<Longrightarrow> ws_safe s s'"
  using recv_net ws_safe_net by metis

lemma ws_safe_read_more: "ws_safe s (snd (ws_read_more n buf s))"
proof (induction n buf s rule: ws_read_more.induct)
  case (1 n buf s)
  obtain r s1 where r: "recv (hb_interval s + hb_timeout s) (n - length buf) s = (r, s1)" by force
  note safe = ws_safe_recv [OF r]
  show ?case
  proof (cases "length buf < n")
    case True
    have "ws_safe s1 (snd (ws_read_more n (buf @ c) s1))" if "r = Got c" "c \<noteq> []" for c
      by (rule "1.IH" [OF True r [symmetric] that(1,2)])
    with True r safe show ?thesis
      by (cases r) (auto simp: ws_read_more.simps [of n buf s] intro: ws_safe_trans)
  qed (simp add: ws_read_more.simps [of n buf s])
qed

lemma ws_safe_read_exact: "ws_safe s (snd (ws_read_exact n s))"
  by (simp add: ws_read_exact_def ws_safe_read_more)

lemma ws_safe_read_length: "ws_safe s (snd (read_length n s))"
  by (auto simp: read_length_def intro!: ws_safe_sbind ws_safe_read_exact)

lemma ws_safe_read_frame: "ws_safe s (snd (read_frame s))"
  by (auto simp: read_frame_def Let_def intro!: ws_safe_sbind ws_safe_read_exact ws_safe_read_length ws_safe_close)

lemma ws_safe_ws_recv: "ws_safe s (snd (ws_recv depth s))"
proof (induction depth arbitrary: s)
  case (Suc depth)
  have pong: "ws_safe t (snd (ws_recv depth (t\<lparr>last_pong := u, pending_ping := p\<rparr>)))" for t u p
    by (rule ws_safe_trans [OF ws_safe_pong(1) Suc.IH])
  show ?case
    unfolding ws_recv.simps
    by (rule ws_safe_sbind [OF ws_safe_read_frame])
      (auto simp: pong Suc.IH ws_safe_close intro!: ws_safe_sbind ws_safe_send_frame split: prod.split)
qed simp

lemma ws_safe_writer: "ws_safe s (writer_step ok s)"
proof (cases "send_queue s")
  case (Cons x q)
  then show ?thesis
    by (cases x; cases "writer_done s")
      (auto simp: writer_step_def ws_safe_def ws_grows_def ws_inv_def ws_log_def frames_of_def Let_def
        intro: prefix_order.trans)
qed (simp add: writer_step_def)

lemma ws_safe_heartbeat: "ws_safe s (snd (heartbeat_turn t payload s))"
  using ws_safe_ping [of s payload] ws_safe_close [of s]
  by (auto simp: heartbeat_turn_def split: prod.split sum.split intro: ws_safe_trans [OF _ ws_safe_close])

lemma ws_step_safe: "ws_step s s' \<Longrightarrow> ws_safe s s'"
  by (elim ws_stepE)
    (simp_all add: ws_safe_send_frame ws_safe_ping ws_safe_ws_recv ws_safe_close ws_safe_writer
      ws_safe_heartbeat ws_safe_net)

lemma ws_reach_safe: "ws_reach s0 s \<Longrightarrow> ws_safe s0 s"
  by (induction rule: ws_reach.induct) (auto intro: ws_safe_trans ws_step_safe)

lemma ws_inv_fresh: "ws_inv (WebSocketSession sock req uid i t)"
  by (simp add: ws_inv_def WebSocketSession_def ws_log_def frames_of_def)


definition fresh_session :: session where
  "fresh_session = WebSocketSession \<lparr>arrivals = [], now = 5\<rparr> (sample_request ''GET'' ''/ws'' []) None 25 10"


text \<open>
  Closing is final: from a closed session no thread reopens it or queues another frame,
  and in any session what has been queued is never reordered or withdrawn.
\<close>

theorem close_is_final:
  assumes "ws_reach s s'"
  shows "prefix (ws_log s) (ws_log s') \<and>
    (ws_closed s \<longrightarrow> ws_closed s' \<and> ws_log s' = ws_log s)"
  using ws_reach_safe [OF assms] by (simp add: ws_safe_def ws_grows_def)

lemma close_is_final_witness:
  "(let s' = writer_step True (close 1000 [] sample_session) in
      prefix (ws_log sample_session) (ws_log s')) \<and>
   \<not> ws_closed sample_session"
proof
  have "ws_reach sample_session (writer_step True (close 1000 [] sample_session))"
    by (rule reach_step [OF reach_step [OF reach_init step_close] step_writer])
  from close_is_final [OF this] show "let s' = writer_step True (close 1000 [] sample_session) in
      prefix (ws_log sample_session) (ws_log s')"
    by (simp add: Let_def)
  show "\<not> ws_closed sample_session"
    by (rule sample_session_facts)
qed

end
