(* ===== verification/Static.thy ===== *)
theory Static
  imports Utils Router
begin

section \<open>Static files (\<^verbatim>\<open>static.py\<close>) and the environment of the program\<close>

text \<open>
  \<open>env\<close> collects what the code takes from outside the repository: the file system (path
  resolution and the node at a resolved path), the digests, the MIME table, the clock
  formatting, the host check of \<^verbatim>\<open>urlsplit\<close>, and fresh request ids.
\<close>

datatype fnode = Dir | File bytes int

record env =
  realpath :: resolver
  node :: "fpath \<Rightarrow> fnode option"
  sha256_hex :: "bytes \<Rightarrow> str"
  sha1 :: "bytes \<Rightarrow> bytes"
  guess_mime :: "ustr \<Rightarrow> str option"
  file_date :: "int \<Rightarrow> str"
  http_date :: "rat \<Rightarrow> str"
  netloc_ok :: "str \<Rightarrow> bool"
  new_id :: "nat \<Rightarrow> str"
  task_ok :: "bg_task \<Rightarrow> bool"

definition etag_of :: "env \<Rightarrow> bytes \<Rightarrow> int \<Rightarrow> str" where
  "etag_of E content mtime =
     [DQUOTE] @ take 32 (sha256_hex E (show_int mtime @ '':'' @ show_nat (length content))) @ [DQUOTE]"

definition static_headers :: "env \<Rightarrow> bytes \<Rightarrow> int \<Rightarrow> (str, str) dict" where
  "static_headers E content mtime =
     [(''Cache-Control'', ''public, max-age=3600''), (''ETag'', etag_of E content mtime),
      (''Last-Modified'', file_date E mtime)]"

definition static_response :: "env \<Rightarrow> request \<Rightarrow> str \<Rightarrow> response result" where
  "static_response E req pre =
     rbind (safe_join (realpath E) (path_parts (uni (static_dir (config req))))
              (uni (drop (length pre) (path req)))) (\<lambda>p.
     (case node E p of
        Some (File content mtime) \<Rightarrow>
          if header req ''if-none-match'' = etag_of E content mtime
          then Inr (Response [] 304 (static_headers E content mtime) HTML)
          else Inr (Response content 200 (static_headers E content mtime)
             (case guess_mime E (last p) of Some (c # m) \<Rightarrow> c # m | _ \<Rightarrow> ''application/octet-stream''))
      | _ \<Rightarrow> Inl (err 404 ''Static file not found'')))"

text \<open>
  A static answer is the content of a regular file below the resolved static directory,
  or 304 exactly when the client presented the tag of that file; anything else is a 403 or
  404 error or the file system's own exception.
\<close>

theorem static_serves_base:
  assumes "realpath E (path_parts (uni (static_dir (config req)))) = Inr b"
    and "static_response E req pre = Inr resp"
  shows "\<exists>p content mtime. prefix b p \<and> node E p = Some (File content mtime) \<and>
    d_get (r_headers resp) ''ETag'' = Some (etag_of E content mtime) \<and>
    (if header req ''if-none-match'' = etag_of E content mtime
     then r_status resp = 304 \<and> r_body resp = Full []
     else r_status resp = 200 \<and> r_body resp = Full content)"
proof -
  obtain p where p: "safe_join (realpath E) (path_parts (uni (static_dir (config req))))
              (uni (drop (length pre) (path req))) = Inr p"
    using assms(2) by (auto simp: static_response_def rbind_Inr_iff)
  then have "prefix b p"
    using assms(1) by (auto simp: safe_join_def rbind_Inr_iff strict_prefix_def split: if_splits)
  moreover from assms(2) p obtain content mtime where n: "node E p = Some (File content mtime)"
    by (auto simp: static_response_def split: option.splits fnode.splits)
  moreover have "d_get (r_headers resp) ''ETag'' = Some (etag_of E content mtime) \<and>
    (if header req ''if-none-match'' = etag_of E content mtime
     then r_status resp = 304 \<and> r_body resp = Full []
     else r_status resp = 200 \<and> r_body resp = Full content)"
    using assms(2) p n
    by (auto simp: static_response_def Response_def static_headers_def split: if_splits)
  ultimately show ?thesis by blast
qed

definition sample_env :: env where
  "sample_env = \<lparr>realpath = \<lambda>p. Inr p,
     node = \<lambda>p. if p = [uni ''static'', uni ''a.css''] then Some (File ''body {}'' 7)
               else if p = [uni ''static''] then Some Dir else None,
     sha256_hex = \<lambda>b. replicate 64 (CHR ''0''), sha1 = \<lambda>b. replicate 20 (CHR ''s''),
     guess_mime = \<lambda>n. Some ''text/css'', file_date = \<lambda>t. ''date'', http_date = \<lambda>t. ''now'',
     netloc_ok = \<lambda>n. True, new_id = \<lambda>n. ''id'' @ show_nat n, task_ok = \<lambda>t. True\<rparr>"

lemma static_serves_base_witness:
  "\<exists>resp. static_response sample_env (sample_request ''GET'' ''/static/a.css'' []) ''/static/'' = Inr resp \<and>
     d_get (r_headers resp) ''ETag'' \<noteq> None"
proof -
  have "static_response sample_env (sample_request ''GET'' ''/static/a.css'' []) ''/static/'' =
      Inr (Response ''body {}'' 200 (static_headers sample_env ''body {}'' 7) ''text/css'')"
    by code_simp
  moreover have "realpath sample_env (path_parts (uni (static_dir (config (sample_request ''GET'' ''/static/a.css'' [])))))
      = Inr [uni ''static'']"
    by code_simp
  ultimately show ?thesis
    using static_serves_base by blast
qed

end
