(* ===== verification/Server.thy ===== *)
theory Server
  imports Static WebSocket Parser
begin

section \<open>The connection loop and the response writer (\<^verbatim>\<open>server.py\<close>)\<close>

text \<open>
  \<open>link\<close> is a client connection with what the server keeps beside it: the arrivals and clock
  of theory Parser, the bytes written so far, how many more the peer will take before the
  socket breaks (\<open>None\<close>: all), the id supply, the background tasks handed over, and the
  application's own state. Log lines and the logging context are left out.
\<close>

record 'w link = conn +
  wire :: bytes
  takes :: "nat option"
  next_id :: nat
  submitted :: "bg_task list"
  enqueued :: "bg_task list"
  app :: 'w

definition sendall :: "bytes \<Rightarrow> 'w link \<Rightarrow> unit result \<times> 'w link" where
  "sendall data s =
     (case takes s of
        None \<Rightarrow> (Inr (), s\<lparr>wire := wire s @ data\<rparr>)
      | Some k \<Rightarrow>
          if length data \<le> k then (Inr (), s\<lparr>wire := wire s @ data, takes := Some (k - length data)\<rparr>)
          else (Inl (PyError ''BrokenPipeError''), s\<lparr>wire := wire s @ take k data, takes := Some 0\<rparr>))"

subsection \<open>Writing a response\<close>

definition security_headers :: "(str, str) dict" where
  "security_headers =
     [(''X-Content-Type-Options'', ''nosniff''), (''X-Frame-Options'', ''DENY''),
      (''Referrer-Policy'', ''no-referrer''),
      (''Content-Security-Policy'',
       ''default-src '' @ [CHR 0x27] @ ''self'' @ [CHR 0x27] @ ''; base-uri '' @ [CHR 0x27] @ ''none'' @
       [CHR 0x27] @ ''; frame-ancestors '' @ [CHR 0x27] @ ''none'' @ [CHR 0x27])]"

definition merged_headers :: "str \<Rightarrow> server_config \<Rightarrow> int \<Rightarrow> (str, str) dict \<Rightarrow> bool \<Rightarrow> (str, str) dict" where
  "merged_headers date c status hs keep =
     (let base = [(''Date'', date), (''Server'', server_name c),
                  (''Connection'', if keep then ''keep-alive'' else ''close'')];
          m = (if status \<noteq> 101 then d_update base security_headers else base)
      in d_update m hs)"

definition reason_of :: "int \<Rightarrow> str" where
  "reason_of status = (case d_get STATUS_REASONS status of Some r \<Rightarrow> r | None \<Rightarrow> ''OK'')"

definition status_line :: "int \<Rightarrow> str" where
  "status_line status = ''HTTP/1.1 '' @ show_int status @ '' '' @ reason_of status"

definition has_break :: "str \<Rightarrow> bool" where
  "has_break s = (CR \<in> set s \<or> LF \<in> set s)"

definition field_line :: "str \<times> str \<Rightarrow> str" where
  "field_line = (\<lambda>(k, v). k @ '': '' @ v)"

fun header_block :: "(str, str) dict \<Rightarrow> bytes result" where
  "header_block [] = Inr []"
| "header_block ((k, v) # hs) =
     (if has_break k \<or> has_break v then Inl (err 500 ''Invalid characters in response headers'')
      else rbind (header_block hs) (\<lambda>b. Inr (field_line (k, v) @ CRLF @ b)))"

definition response_head :: "str \<Rightarrow> server_config \<Rightarrow> int \<Rightarrow> (str, str) dict \<Rightarrow> bool \<Rightarrow> bytes result" where
  "response_head date c status hs keep =
     rbind (header_block (merged_headers date c status hs keep)) (\<lambda>b.
       Inr (status_line status @ CRLF @ b @ CRLF))"

definition send_headers ::
  "env \<Rightarrow> server_config \<Rightarrow> int \<Rightarrow> (str, str) dict \<Rightarrow> bool \<Rightarrow> 'w link \<Rightarrow> unit result \<times> 'w link" where
  "send_headers E c status hs keep s =
     (case response_head (http_date E (now s)) c status hs keep of
        Inl e \<Rightarrow> (Inl e, s)
      | Inr raw \<Rightarrow> sendall raw s)"

definition chunk_frame :: "bytes \<Rightarrow> bytes" where
  "chunk_frame c = show_hex (length c) @ CRLF @ c @ CRLF"

fun send_chunks :: "bytes list \<Rightarrow> 'w link \<Rightarrow> unit result \<times> 'w link" where
  "send_chunks [] s = (Inr (), s)"
| "send_chunks (c # cs) s =
     (if c \<noteq> [] then sbind (sendall (chunk_frame c) s) (\<lambda>_ s. send_chunks cs s) else send_chunks cs s)"

definition write_response ::
  "env \<Rightarrow> request \<Rightarrow> server_config \<Rightarrow> response \<Rightarrow> bool \<Rightarrow> 'w link \<Rightarrow> unit result \<times> 'w link" where
  "write_response E req c resp keep s =
     (let hs = d_setdefault ''X-Request-Id'' (request_id req) (r_headers resp) in
      case r_body resp of
        Stream chunks fail \<Rightarrow>
          sbind (send_headers E c (r_status resp)
                   (d_update [(''Content-Type'', r_ctype resp), (''Transfer-Encoding'', ''chunked'')] hs) keep s)
            (\<lambda>_ s. sbind (send_chunks chunks s)
            (\<lambda>_ s. case fail of Some e \<Rightarrow> (Inl e, s) | None \<Rightarrow> sendall (''0'' @ CRLF @ CRLF) s))
      | Full b \<Rightarrow>
          sbind (send_headers E c (r_status resp)
                   (d_update [(''Content-Type'', r_ctype resp), (''Content-Length'', show_nat (length b))] hs) keep s)
            (\<lambda>_ s. if b \<noteq> [] \<and> q_method req \<noteq> ''HEAD'' then sendall b s else (Inr (), s)))"

text \<open>\<open>utf8\<close> is \<^verbatim>\<open>str.encode("utf-8")\<close> on Latin-1 text.\<close>

definition utf8 :: "str \<Rightarrow> bytes" where
  "utf8 s = map char_of (concat (map (u8_char \<circ> code) s))"

definition error_response :: "int \<Rightarrow> str \<Rightarrow> response" where
  "error_response status msg =
     Response (utf8 (''<!doctype html><h1>'' @ show_int status @ '' '' @
       (case d_get STATUS_REASONS status of Some r \<Rightarrow> r | None \<Rightarrow> ''Error'') @
       ''</h1><p>'' @ msg @ ''</p>'')) status [] HTML"

subsection \<open>Dispatch\<close>

text \<open>
  \<open>endpoint\<close> is what the application registered: its router, the documentation handler and
  the WebSocket handler it may have stored in the application state.
\<close>

record 'w endpoint =
  ep_router :: "('w handler, 'w middleware) router"
  ep_docs :: "'w handler"
  ep_ws :: "(request \<Rightarrow> 'w \<Rightarrow> unit result \<times> 'w) option"

fun target_handler :: "'w endpoint \<Rightarrow> 'w handler target \<Rightarrow> 'w handler" where
  "target_handler ep Docs r = ep_docs ep r"
| "target_handler ep (Bound h params) r = h ((fst r)\<lparr>route_params := params\<rparr>, snd r)"
| "target_handler ep Noop r = (Inr (Response [] 204 [] HTML), r)"

definition dispatch :: "env \<Rightarrow> 'w endpoint \<Rightarrow> 'w handler" where
  "dispatch E ep r =
     (let req = fst r; ms = middlewares (ep_router ep) in
      if prefix ''/static/'' (path req) \<and> q_method req \<in> {''GET'', ''HEAD''}
      then execute ms r (\<lambda>r. (static_response E (fst r) ''/static/'', r)) []
      else (case resolve (ep_router ep) (q_method req) (path req) of
              Inl e \<Rightarrow> (Inl e, r)
            | Inr (t, route_mws) \<Rightarrow> execute ms r (target_handler ep t) route_mws))"

text \<open>
  \<^verbatim>\<open>_run_background_tasks\<close>: a persistent task goes to the task queue, which raises when its
  arguments cannot be written as JSON; any other goes to the thread pool.
\<close>

fun run_background_tasks :: "env \<Rightarrow> bg_task list \<Rightarrow> 'w link \<Rightarrow> unit result \<times> 'w link" where
  "run_background_tasks E [] s = (Inr (), s)"
| "run_background_tasks E (t # ts) s =
     (if bg_persistent t then
        (if task_ok E t then run_background_tasks E ts (s\<lparr>enqueued := enqueued s @ [t]\<rparr>)
         else (Inl (PyError ''TypeError''), s))
      else run_background_tasks E ts (s\<lparr>submitted := submitted s @ [t]\<rparr>))"

subsection \<open>One request\<close>

datatype turn = Keep | Done

text \<open>
  The body of the \<^verbatim>\<open>try\<close> after parsing. The result is the exception it raises or whether the
  loop goes on, with the request as the handlers left it.
\<close>

definition assign_id :: "env \<Rightarrow> request \<Rightarrow> 'w link \<Rightarrow> request \<times> 'w link" where
  "assign_id E req s =
     (if header req ''x-request-id'' \<noteq> [] then (req\<lparr>request_id := header req ''x-request-id''\<rparr>, s)
      else if header req ''traceparent'' \<noteq> [] then (req\<lparr>request_id := header req ''traceparent''\<rparr>, s)
      else (req\<lparr>request_id := new_id E (next_id s)\<rparr>, s\<lparr>next_id := Suc (next_id s)\<rparr>))"

definition keeps_alive :: "server_config \<Rightarrow> request \<Rightarrow> nat \<Rightarrow> bool" where
  "keeps_alive c req seen =
     (lower (header req ''connection'') \<noteq> ''close'' \<and> int seen < max_keepalive_requests c)"

definition upgrade :: "env \<Rightarrow> 'w endpoint \<Rightarrow> request \<Rightarrow> 'w link \<Rightarrow> turn result \<times> 'w link" where
  "upgrade E ep req s =
     (case handshake (sha1 E) req of
        Inl e \<Rightarrow> (Inl e, s)
      | Inr raw \<Rightarrow>
          sbind (sendall raw s) (\<lambda>_ s.
            case ep_ws ep of
              None \<Rightarrow> (Inr Done, s)
            | Some h \<Rightarrow> (case h req (app s) of
                  (Inl e, w) \<Rightarrow> (Inl e, s\<lparr>app := w\<rparr>)
                | (Inr _, w) \<Rightarrow> (Inr Done, s\<lparr>app := w\<rparr>))))"

definition answer :: "env \<Rightarrow> 'w endpoint \<Rightarrow> server_config \<Rightarrow> nat \<Rightarrow> request \<Rightarrow> 'w link
    \<Rightarrow> turn result \<times> request \<times> 'w link" where
  "answer E ep c seen req s =
     (let keep = keeps_alive c req seen in
      if is_websocket_upgrade req then
        (let (r, s') = upgrade E ep req s in (r, req, s'))
      else (case dispatch E ep (req, app s) of
          (Inl e, req', w) \<Rightarrow> (Inl e, req', s\<lparr>app := w\<rparr>)
        | (Inr resp, req', w) \<Rightarrow>
            (let (r, s') =
               sbind (write_response E req' c resp keep (s\<lparr>app := w\<rparr>)) (\<lambda>_ s.
               sbind (run_background_tasks E (background_tasks req') s) (\<lambda>_ s.
                 (Inr (if keep then Keep else Done), s)))
             in (r, req', s'))))"

text \<open>The \<^verbatim>\<open>except\<close> clauses; an exception they raise themselves leaves \<^verbatim>\<open>handle_connection\<close>.\<close>

definition dummy_request :: "env \<Rightarrow> server_config \<Rightarrow> str \<times> int \<Rightarrow> request option \<Rightarrow> 'w link \<Rightarrow> request \<times> 'w link" where
  "dummy_request E c addr req s =
     (case req of
        Some r \<Rightarrow> (r, s)
      | None \<Rightarrow>
          (case Request (netloc_ok E) ''GET'' ''/'' ''HTTP/1.1'' [] [] (InMemory []) 0 addr c of
             Inr r \<Rightarrow> (r\<lparr>request_id := new_id E (next_id s)\<rparr>, s\<lparr>next_id := Suc (next_id s)\<rparr>)
           | Inl e \<Rightarrow> (sample_request ''GET'' ''/'' [], s)))"

definition on_error ::
  "env \<Rightarrow> server_config \<Rightarrow> str \<times> int \<Rightarrow> request option \<Rightarrow> exn \<Rightarrow> 'w link \<Rightarrow> unit result \<times> 'w link" where
  "on_error E c addr req e s =
     (case e of
        ClientClosed \<Rightarrow> (Inr (), s)
      | HTTPError status msg hs \<Rightarrow>
          (let (dummy, s') = dummy_request E c addr req s;
               resp = error_response status msg
           in write_response E dummy c (resp\<lparr>r_headers := d_update (r_headers resp) hs\<rparr>) False s')
      | _ \<Rightarrow>
          (let (dummy, s') = dummy_request E c addr req s
           in write_response E dummy c (error_response 500 ''Internal Server Error'') False s'))"

subsection \<open>The loop\<close>

definition of_reader :: "reader \<Rightarrow> 'w link \<Rightarrow> 'w link" where
  "of_reader rd s = s\<lparr>arrivals := arrivals rd, now := now rd\<rparr>"

text \<open>Each turn starts a new reader: what the last one had buffered beyond its request is gone.\<close>

definition serve_turn ::
  "env \<Rightarrow> 'w endpoint \<Rightarrow> server_config \<Rightarrow> str \<times> int \<Rightarrow> nat \<Rightarrow> 'w link \<Rightarrow> (turn \<times> unit result) \<times> 'w link" where
  "serve_turn E ep c addr seen s =
     (case parse_request (netloc_ok E) (SocketReader \<lparr>arrivals = arrivals s, now = now s\<rparr> c) addr c of
        (Inl e, rd) \<Rightarrow> (let (r, s') = on_error E c addr None e (of_reader rd s) in ((Done, r), s'))
      | (Inr req, rd) \<Rightarrow>
          (let (req', s1) = assign_id E req (of_reader rd s) in
           case answer E ep c (Suc seen) req' s1 of
             (Inl e, req'', s2) \<Rightarrow> (let (r, s') = on_error E c addr (Some req'') e s2 in ((Done, r), s'))
           | (Inr t, req'', s2) \<Rightarrow> ((t, Inr ()), s2)))"

text \<open>\<open>stopping k\<close> is the stop flag as the loop reads it before its \<open>k\<close>-th request.\<close>

function handle_connection ::
  "env \<Rightarrow> 'w endpoint \<Rightarrow> server_config \<Rightarrow> str \<times> int \<Rightarrow> (nat \<Rightarrow> bool) \<Rightarrow> nat \<Rightarrow> 'w link \<Rightarrow> unit result \<times> 'w link" where
  "handle_connection E ep c addr stopping seen s =
     (if int seen < max_keepalive_requests c \<and> \<not> stopping seen then
        (case serve_turn E ep c addr seen s of
           ((Keep, _), s') \<Rightarrow> handle_connection E ep c addr stopping (Suc seen) s'
         | ((Done, r), s') \<Rightarrow> (r, s'))
      else (Inr (), s))"
  by pat_completeness auto
termination
  by (relation "measure (\<lambda>(E, ep, c, addr, st, seen, s). nat (max_keepalive_requests c - int seen))") auto

declare handle_connection.simps [simp del]

end
