(* ===== verification/Server_Props.thy ===== *)
theory Server_Props
  imports Server Parser_Head
begin

section \<open>What the server puts on the wire\<close>

text \<open>
  The head a response writes and how a client splits it, the framing of full and streamed
  bodies (the streamed form is decoded by the request parser's own chunk reader), what each
  error of a turn leads to, and the cases in which the loop answers wrongly or not at all.
\<close>

subsection \<open>Sockets that take everything\<close>

lemma sendall_all: "takes s = None \<Longrightarrow> sendall d s = (Inr (), s\<lparr>wire := wire s @ d\<rparr>)"
  by (simp add: sendall_def)

lemma sendall_ok: "sendall d s = (Inr (), s') \<Longrightarrow> wire s' = wire s @ d"
  by (auto simp: sendall_def split: option.splits if_splits)

subsection \<open>The head\<close>

definition clean_headers :: "(str, str) dict \<Rightarrow> bool" where
  "clean_headers hs = list_all (\<lambda>(k, v). \<not> has_break k \<and> \<not> has_break v) hs"

lemma header_block_eq:
  "header_block hs =
     (if clean_headers hs then Inr (concat (map (\<lambda>h. field_line h @ CRLF) hs))
      else Inl (err 500 ''Invalid characters in response headers''))"
  by (induction hs rule: header_block.induct) (auto simp: clean_headers_def)

lemma no_break_reason: "\<not> has_break (reason_of status)"
proof -
  have "list_all (\<lambda>(s, r). \<not> has_break r) STATUS_REASONS" "\<not> has_break ''OK''"
    by code_simp+
  then show ?thesis
    by (cases "d_get STATUS_REASONS status") (auto simp: reason_of_def list_all_iff dest!: d_get_SomeD)
qed

lemma concat_lines: "concat (map (\<lambda>l. l @ CRLF) ls) @ CRLF = join CRLF (ls @ [[], []])"
  by (induction ls) (auto simp: join_Cons)

lemma response_head_join:
  assumes "response_head date c status hs keep = Inr h"
  defines "ls \<equiv> status_line status # map field_line (merged_headers date c status hs keep)"
  shows "h = join CRLF (ls @ [[], []])"
  using assms(1)
  by (auto simp: response_head_def rbind_Inr_iff header_block_eq ls_def join_Cons comp_def
      simp flip: concat_lines [of "map field_line (merged_headers date c status hs keep)", simplified]
      split: if_splits)

lemma no_break_show_int: "\<not> has_break (show_int n)"
  using show_nat_chars_neq(5,6) by (auto simp: show_int_def has_break_def)

lemma no_break_status: "\<not> has_break (status_line s)"
  using no_break_reason [of s] no_break_show_int [of s] by (simp add: status_line_def has_break_def)

lemma response_head_split:
  assumes "response_head date c status hs keep = Inr h"
  shows "split_on CRLF h = status_line status # map field_line (merged_headers date c status hs keep) @ [[], []]"
    and "\<And>l. l \<in> set (split_on CRLF h) \<Longrightarrow> \<not> has_break l"
proof -
  let ?m = "merged_headers date c status hs keep"
  let ?ls = "(status_line status # map field_line ?m) @ [[], []]"
  have "clean_headers ?m"
    using assms by (auto simp: response_head_def rbind_Inr_iff header_block_eq split: if_splits)
  then have nb: "\<not> has_break l" if "l \<in> set ?ls" for l
    using that no_break_status [of status]
    by (auto simp: clean_headers_def list_all_iff field_line_def has_break_def)
  have "split_on CRLF h = split_on CRLF (join CRLF ?ls)"
    using response_head_join [OF assms] by simp
  also have "\<dots> = ?ls"
    by (rule split_on_join) (use nb in \<open>auto simp: has_break_def\<close>)
  finally show "split_on CRLF h = status_line status # map field_line ?m @ [[], []]"
    by simp
  with nb show "\<And>l. l \<in> set (split_on CRLF h) \<Longrightarrow> \<not> has_break l"
    by simp
qed

lemma merged_get:
  "d_ok hs \<Longrightarrow> d_get hs k = Some v \<Longrightarrow> d_get (merged_headers date c status hs keep) k = Some v"
  by (simp add: merged_headers_def Let_def d_get_update)

text \<open>
  C7. No header can inject a line: \<^verbatim>\<open>send_headers\<close> either raises and writes nothing, or writes
  one head that a client splits at CRLF into exactly the status line, one line per merged
  header in order, and the empty line, none of them holding a CR or LF; every header the
  response sets is among them with its own value.
\<close>

theorem send_headers_no_injection:
  assumes "takes s = None" and "d_ok hs"
  shows "(case send_headers E c status hs keep s of
     (Inl e, s') \<Rightarrow> wire s' = wire s \<and> status_of e = Some 500 \<and>
        (\<exists>(k, v) \<in> set (merged_headers (http_date E (now s)) c status hs keep). has_break k \<or> has_break v)
   | (Inr _, s') \<Rightarrow> (\<exists>h m. m = merged_headers (http_date E (now s)) c status hs keep \<and> wire s' = wire s @ h \<and>
        split_on CRLF h = status_line status # map field_line m @ [[], []] \<and>
        (\<forall>l \<in> set (split_on CRLF h). \<not> has_break l) \<and>
        (\<forall>k v. d_get hs k = Some v \<longrightarrow> d_get m k = Some v)))"
proof (cases "response_head (http_date E (now s)) c status hs keep")
  case (Inl e)
  then show ?thesis
    by (auto simp: send_headers_def response_head_def rbind_Inl_iff header_block_eq clean_headers_def
        list_all_iff split: if_splits)
next
  case (Inr h)
  then show ?thesis
    using response_head_split [OF Inr] merged_get [OF assms(2)] assms(1)
    by (auto simp: send_headers_def sendall_all)
qed

definition sample_link :: "unit link" where
  "sample_link = \<lparr>arrivals = [], now = 0, wire = [], takes = None, next_id = 0, submitted = [],
                  enqueued = [], app = ()\<rparr>"

lemma send_headers_no_injection_witness:
  "(case send_headers sample_env DEFAULT_CONFIG 200 [(''X-A'', ''b'' @ CRLF @ ''Set-Cookie: x'')] True sample_link of
     (Inl e, s') \<Rightarrow> wire s' = wire sample_link \<and> status_of e = Some 500
   | (Inr _, s') \<Rightarrow> \<not> has_break (''b'' @ CRLF))"
proof -
  have "(case send_headers sample_env DEFAULT_CONFIG 200 [(''X-A'', ''b'' @ CRLF @ ''Set-Cookie: x'')] True sample_link of
     (Inl e, s') \<Rightarrow> True | (Inr _, s') \<Rightarrow> False)"
    by code_simp
  then show ?thesis
    using send_headers_no_injection [of sample_link "[(''X-A'', ''b'' @ CRLF @ ''Set-Cookie: x'')]"
        sample_env DEFAULT_CONFIG 200 True]
    by (auto simp: sample_link_def d_ok_def split: sum.splits prod.splits)
qed

subsection \<open>Full bodies\<close>

text \<open>The headers a response is sent with before the server's own are merged in.\<close>

definition sent_headers :: "request \<Rightarrow> response \<Rightarrow> (str, str) dict" where
  "sent_headers req resp =
     d_update (case r_body resp of
                 Stream cs e \<Rightarrow> [(''Content-Type'', r_ctype resp), (''Transfer-Encoding'', ''chunked'')]
               | Full b \<Rightarrow> [(''Content-Type'', r_ctype resp), (''Content-Length'', show_nat (length b))])
       (d_setdefault ''X-Request-Id'' (request_id req) (r_headers resp))"

abbreviation head_of :: "env \<Rightarrow> server_config \<Rightarrow> request \<Rightarrow> response \<Rightarrow> bool \<Rightarrow> rat \<Rightarrow> bytes result" where
  "head_of E c req resp keep t \<equiv> response_head (http_date E t) c (r_status resp) (sent_headers req resp) keep"

lemma write_full:
  assumes "takes s = None" "r_body resp = Full b"
  shows "write_response E req c resp keep s =
    (case head_of E c req resp keep (now s) of
       Inl e \<Rightarrow> (Inl e, s)
     | Inr h \<Rightarrow> (Inr (), s\<lparr>wire := wire s @ h @ (if q_method req = ''HEAD'' then [] else b)\<rparr>))"
  using assms
  by (auto simp: write_response_def Let_def send_headers_def sendall_all sent_headers_def split: sum.split)

lemma sent_headers_ok: "d_ok (sent_headers req resp)"
  by (auto simp: sent_headers_def d_ok_def split: rbody.split intro!: d_ok_update [unfolded d_ok_def])

lemma sent_headers_get:
  assumes "d_ok (r_headers resp)"
  shows "d_get (sent_headers req resp) k =
    (case d_get (d_setdefault ''X-Request-Id'' (request_id req) (r_headers resp)) k of
       Some v \<Rightarrow> Some v
     | None \<Rightarrow> d_get (case r_body resp of
                 Stream cs e \<Rightarrow> [(''Content-Type'', r_ctype resp), (''Transfer-Encoding'', ''chunked'')]
               | Full b \<Rightarrow> [(''Content-Type'', r_ctype resp), (''Content-Length'', show_nat (length b))]) k)"
  unfolding sent_headers_def by (rule d_get_update) (simp add: assms)

text \<open>
  A full response is framed by its length: after the head, whose \<^verbatim>\<open>Content-Length\<close> is the
  decimal length of the body unless the handler set its own, come exactly the bytes of the
  body, and none at all for a \<^verbatim>\<open>HEAD\<close> request.
\<close>

theorem full_response_framed:
  assumes "takes s = None" and "r_body resp = Full b" and "d_ok (r_headers resp)"
    and "d_get (r_headers resp) ''Content-Length'' = None"
    and "write_response E req c resp keep s = (Inr (), s')"
  shows "\<exists>h m. wire s' = wire s @ h @ (if q_method req = ''HEAD'' then [] else b) \<and>
    split_on CRLF h = status_line (r_status resp) # map field_line m @ [[], []] \<and>
    d_get m ''Content-Length'' = Some (show_nat (length b))"
proof -
  obtain h where h: "head_of E c req resp keep (now s) = Inr h"
    "wire s' = wire s @ h @ (if q_method req = ''HEAD'' then [] else b)"
    using assms(5) write_full [OF assms(1,2), of E req c keep] by (auto split: sum.splits)
  have "d_get (sent_headers req resp) ''Content-Length'' = Some (show_nat (length b))"
    using assms(2,4) by (simp add: sent_headers_get [OF assms(3)])
  then have "d_get (merged_headers (http_date E (now s)) c (r_status resp) (sent_headers req resp) keep)
      ''Content-Length'' = Some (show_nat (length b))"
    by (rule merged_get [OF sent_headers_ok])
  then show ?thesis
    using h response_head_split(1) [OF h(1)] by blast
qed

lemma full_response_framed_witness:
  "(case write_response sample_env (sample_request ''GET'' ''/'' []) DEFAULT_CONFIG
           (Response ''hello'' 200 [] HTML) True sample_link of
      (Inr _, s') \<Rightarrow> \<exists>h. wire s' = wire sample_link @ h @ ''hello'' | (Inl e, _) \<Rightarrow> False)"
proof -
  let ?w = "write_response sample_env (sample_request ''GET'' ''/'' []) DEFAULT_CONFIG
           (Response ''hello'' 200 [] HTML) True sample_link"
  have "(case ?w of (Inr _, s') \<Rightarrow> True | (Inl e, _) \<Rightarrow> False)"
    by code_simp
  then obtain s' where s': "?w = (Inr (), s')"
    by (auto split: prod.splits sum.splits)
  have r: "r_body (Response ''hello'' 200 [] HTML) = Full ''hello''"
    "d_ok (r_headers (Response ''hello'' 200 [] HTML))"
    "d_get (r_headers (Response ''hello'' 200 [] HTML)) ''Content-Length'' = None"
    "takes sample_link = None" "q_method (sample_request ''GET'' ''/'' []) \<noteq> ''HEAD''"
    by (simp_all add: Response_def sample_link_def sample_request_def)
  show ?thesis
    using full_response_framed [OF r(4,1,2,3) s'] s' r(5) by auto
qed

subsection \<open>Streamed bodies\<close>

definition chunk_body :: "bytes list \<Rightarrow> bytes" where
  "chunk_body cs = concat (map chunk_frame (filter (\<lambda>c. c \<noteq> []) cs))"

lemma send_chunks_all:
  "takes s = None \<Longrightarrow> send_chunks cs s = (Inr (), s\<lparr>wire := wire s @ chunk_body cs\<rparr>)"
  by (induction cs arbitrary: s) (simp_all add: sendall_all chunk_body_def)

lemma write_stream:
  assumes "takes s = None" "r_body resp = Stream cs fail"
  shows "write_response E req c resp keep s =
    (case head_of E c req resp keep (now s) of
       Inl e \<Rightarrow> (Inl e, s)
     | Inr h \<Rightarrow>
         (case fail of
            Some e \<Rightarrow> (Inl e, s\<lparr>wire := wire s @ h @ chunk_body cs\<rparr>)
          | None \<Rightarrow> (Inr (), s\<lparr>wire := wire s @ h @ chunk_body cs @ ''0'' @ CRLF @ CRLF\<rparr>)))"
  using assms
  by (auto simp: write_response_def Let_def send_headers_def sendall_all send_chunks_all sent_headers_def
      split: sum.split option.split)

lemma chunk_loop_body:
  "\<lbrakk>prompt i rd; i \<le> body_idle_timeout (cfg rd); max_body_bytes (cfg rd) < 2 ^ 64; 0 \<le> tot;
    tot + int (length (concat cs)) \<le> max_body_bytes (cfg rd);
    pending rd = chunk_body cs @ ''0'' @ CRLF @ CRLF @ rest\<rbrakk> \<Longrightarrow>
   \<exists>rd'. chunk_loop sp tot rd = (Inr (sp @ concat cs, tot + int (length (concat cs))), rd') \<and>
     pending rd' = rest \<and> prompt i rd' \<and> cfg rd' = cfg rd"
proof (induction cs arbitrary: sp tot rd)
  case Nil
  then show ?case
    using chunk_loop_end [OF Nil(1,2), of rest sp tot] by (simp add: chunk_body_def)
next
  case (Cons c cs)
  show ?case
  proof (cases "c = []")
    case True
    with Cons show ?thesis by (simp add: chunk_body_def)
  next
    case False
    have pd: "pending rd = show_hex (length c) @ CRLF @ c @ CRLF @ (chunk_body cs @ ''0'' @ CRLF @ CRLF @ rest)"
      using Cons.prems(6) False by (simp add: chunk_body_def chunk_frame_def)
    obtain rd1 where rd1: "chunk_loop sp tot rd = chunk_loop (sp @ c) (tot + int (length c)) rd1"
      "pending rd1 = chunk_body cs @ ''0'' @ CRLF @ CRLF @ rest" "prompt i rd1" "cfg rd1 = cfg rd"
      using chunk_loop_chunk [OF Cons.prems(1,2) False Cons.prems(3) _ Cons.prems(4) pd] Cons.prems(5) by auto
    show ?thesis
      using Cons.IH [OF rd1(3), of "tot + int (length c)" "sp @ c"] Cons.prems rd1 by auto
  qed
qed

definition stream_body :: "bytes list \<Rightarrow> bytes" where
  "stream_body cs = chunk_body cs @ ''0'' @ CRLF @ CRLF"

text \<open>
  C6. Streaming loses and adds nothing: what \<^verbatim>\<open>write_response\<close> sends after the head of a
  \<^verbatim>\<open>StreamResponse\<close> is decoded by \<^verbatim>\<open>read_chunked_body\<close> to exactly the concatenation of the
  yielded chunks, empty ones included, however the network cuts it, and the bytes after it are
  left alone.
\<close>

theorem stream_round_trip:
  assumes "takes s = None" and "r_body resp = Stream cs None"
    and "write_response E req c resp keep s = (Inr (), s')"
    and "prompt i rd" and "i \<le> body_idle_timeout (cfg rd)" and "max_body_bytes (cfg rd) < 2 ^ 64"
    and "int (length (concat cs)) \<le> max_body_bytes (cfg rd)"
    and "pending rd = stream_body cs @ rest"
  shows "\<exists>h b rd'. wire s' = wire s @ h @ stream_body cs \<and>
    hd (split_on CRLF h) = status_line (r_status resp) \<and>
    read_chunked_body rd = (Inr (b, int (length (concat cs))), rd') \<and>
    body_bytes_of b = concat cs \<and> pending rd' = rest"
proof -
  obtain h where h: "head_of E c req resp keep (now s) = Inr h" "wire s' = wire s @ h @ stream_body cs"
    using assms(3) write_stream [OF assms(1,2), of E req c keep] by (auto simp: stream_body_def split: sum.splits)
  have "\<exists>b rd'. read_chunked_body rd = (Inr (b, int (length (concat cs))), rd') \<and>
               body_bytes_of b = concat cs \<and> pending rd' = rest"
    using chunk_loop_body [OF assms(4-6), of 0 cs rest "[]"] assms(7,8)
    by (auto simp: read_chunked_body_def stream_body_def)
  then show ?thesis
    using h response_head_split(1) [OF h(1)] by auto
qed

definition sample_chunks :: "bytes list" where
  "sample_chunks = [''ab'', [], ''cde'']"

definition chunk_reader :: reader where
  "chunk_reader = \<lparr>arrivals = [(1, Data (''2'' @ CRLF @ ''a'')), (1, Data (''b'' @ CRLF @ ''3'' @ [CR])),
      (1, Data (LF # ''cde'' @ CRLF @ ''0'' @ CRLF @ CRLF @ ''GET''))],
     now = 0, buffer = [], deadline = 30, cfg = DEFAULT_CONFIG\<rparr>"

lemma stream_round_trip_witness:
  "\<exists>b rd'. read_chunked_body chunk_reader = (Inr (b, 5), rd') \<and> body_bytes_of b = ''abcde'' \<and>
     pending rd' = ''GET''"
proof -
  let ?resp = "StreamResponse sample_chunks None 200 [] HTML"
  let ?w = "write_response sample_env (sample_request ''GET'' ''/'' []) DEFAULT_CONFIG ?resp True sample_link"
  have "(case ?w of (Inr _, s') \<Rightarrow> True | (Inl e, _) \<Rightarrow> False)"
    by code_simp
  then obtain s' where s': "?w = (Inr (), s')"
    by (auto split: prod.splits sum.splits)
  have r: "takes sample_link = None" "r_body ?resp = Stream sample_chunks None"
    by (simp_all add: StreamResponse_def sample_link_def)
  have p: "prompt 1 chunk_reader" "pending chunk_reader = stream_body sample_chunks @ ''GET''"
    by code_simp+
  have c: "1 \<le> body_idle_timeout (cfg chunk_reader)" "max_body_bytes (cfg chunk_reader) < 2 ^ 64"
    "int (length (concat sample_chunks)) \<le> max_body_bytes (cfg chunk_reader)" "concat sample_chunks = ''abcde''"
    by (simp_all add: chunk_reader_def DEFAULT_CONFIG_def sample_chunks_def)
  show ?thesis
    using stream_round_trip [OF r s' p(1) c(1-3) p(2)] c(4) by auto
qed

subsection \<open>Turns that end in an error\<close>

text \<open>
  What the code relies on of the formatting functions: dates and fresh ids hold no line break;
  and the configured server name holds none.
\<close>

definition plain_env :: "env \<Rightarrow> server_config \<Rightarrow> bool" where
  "plain_env E c = ((\<forall>t. \<not> has_break (http_date E t)) \<and> (\<forall>n. \<not> has_break (new_id E n)) \<and>
                    \<not> has_break (server_name c))"

lemma clean_headers_update:
  "clean_headers a \<Longrightarrow> clean_headers b \<Longrightarrow> clean_headers (d_update a b)"
  using d_update_set [of a b] by (auto simp: clean_headers_def list_all_iff)

lemma clean_headers_setdefault:
  "clean_headers a \<Longrightarrow> \<not> has_break k \<Longrightarrow> \<not> has_break v \<Longrightarrow> clean_headers (d_setdefault k v a)"
  using d_set_set [of k v a] by (fastforce simp: d_setdefault_def clean_headers_def list_all_iff split: option.split)

lemma clean_security: "clean_headers security_headers"
  by code_simp

lemma head_of_clean:
  assumes "plain_env E c" "\<not> has_break (request_id req)" "clean_headers (r_headers resp)" "\<not> has_break (r_ctype resp)"
  shows "\<exists>h. head_of E c req resp keep t = Inr h"
proof -
  have k: "\<not> has_break ''X-Request-Id''" "\<not> has_break ''Content-Type''" "\<not> has_break ''Transfer-Encoding''"
    "\<not> has_break ''chunked''" "\<not> has_break ''Content-Length''" "\<not> has_break ''Date''" "\<not> has_break ''Server''"
    "\<not> has_break ''Connection''" "\<not> has_break ''keep-alive''" "\<not> has_break ''close''"
    by code_simp+
  have "\<not> has_break (show_nat n)" for n
    using show_nat_chars_neq(5,6) by (auto simp: has_break_def)
  then have "clean_headers (sent_headers req resp)"
    unfolding sent_headers_def using assms k
    by (intro clean_headers_update clean_headers_setdefault)
      (auto simp: clean_headers_def split: rbody.split)
  then have "clean_headers (merged_headers (http_date E t) c (r_status resp) (sent_headers req resp) keep)"
    using assms(1) k clean_security
    by (auto simp: merged_headers_def Let_def plain_env_def clean_headers_def [of "(_, _) # _"]
        intro!: clean_headers_update)
  then show ?thesis
    by (simp add: response_head_def header_block_eq)
qed

lemma response_head_first: "response_head d c st hs keep = Inr h \<Longrightarrow> prefix (status_line st) h"
  by (auto simp: response_head_def rbind_Inr_iff)

lemma error_response_fields [simp]:
  "r_headers (error_response st msg) = []" "r_status (error_response st msg) = st"
  "r_ctype (error_response st msg) = HTML"
  by (simp_all add: error_response_def Response_def)

lemma error_response_no_headers [simp]: "(error_response st msg)\<lparr>r_headers := []\<rparr> = error_response st msg"
  by (simp add: error_response_def Response_def)

lemma error_response_body: "\<exists>b. r_body (error_response st msg) = Full b"
  by (simp add: error_response_def Response_def)

lemma dummy_request_None:
  "\<exists>r. dummy_request E c addr None s =
     (r\<lparr>request_id := new_id E (next_id s)\<rparr>, s\<lparr>next_id := Suc (next_id s)\<rparr>) \<and> q_method r = ''GET''"
proof -
  have "url_split (netloc_ok E) ''/'' = Inr (''/'', [])"
    by (rule url_split_plain) auto
  then have "\<exists>r. Request (netloc_ok E) ''GET'' ''/'' ''HTTP/1.1'' [] [] (InMemory []) 0 addr c = Inr r \<and> q_method r = ''GET''"
    by (simp add: Request_def)
  then show ?thesis by (auto simp: dummy_request_def)
qed

text \<open>
  C21. A request that fails to parse is answered once and the connection is given up: the
  answer carries the error's status, says \<^verbatim>\<open>Connection: close\<close>, is a well-formed head and a
  body, and the application's state is untouched.
\<close>

theorem parse_error_answered:
  assumes "plain_env E c" and "takes s = None" and "int seen < max_keepalive_requests c" and "\<not> stopping seen"
    and "parse_request (netloc_ok E) (SocketReader \<lparr>arrivals = arrivals s, now = now s\<rparr> c) addr c =
           (Inl (HTTPError st msg []), rd)"
  shows "\<exists>s' h b m. handle_connection E ep c addr stopping seen s = (Inr (), s') \<and>
    wire s' = wire s @ h @ b \<and> r_body (error_response st msg) = Full b \<and> app s' = app s \<and>
    split_on CRLF h = status_line st # map field_line m @ [[], []] \<and> d_get m ''Connection'' = Some ''close''"
proof -
  let ?s1 = "of_reader rd s"
  obtain r where r: "dummy_request E c addr None ?s1 =
     (r\<lparr>request_id := new_id E (next_id ?s1)\<rparr>, ?s1\<lparr>next_id := Suc (next_id ?s1)\<rparr>)" "q_method r = ''GET''"
    using dummy_request_None by blast
  let ?req = "r\<lparr>request_id := new_id E (next_id ?s1)\<rparr>" let ?s2 = "?s1\<lparr>next_id := Suc (next_id ?s1)\<rparr>"
  let ?resp = "error_response st msg"
  obtain b where b: "r_body ?resp = Full b" using error_response_body by blast
  have html: "\<not> has_break HTML" by code_simp
  obtain h where h: "head_of E c ?req ?resp False (now ?s2) = Inr h"
    using head_of_clean [OF assms(1), where req = ?req and resp = ?resp and keep = False and t = "now ?s2"] assms(1) html
    by (auto simp: plain_env_def clean_headers_def)
  have tk: "takes ?s2 = None" using assms(2) by (simp add: of_reader_def)
  have w: "write_response E ?req c ?resp False ?s2 = (Inr (), ?s2\<lparr>wire := wire ?s2 @ h @ b\<rparr>)"
    using write_full [OF tk b, of E ?req c False] h r(2) by simp
  have "serve_turn E ep c addr seen s = ((Done, Inr ()), ?s2\<lparr>wire := wire ?s2 @ h @ b\<rparr>)"
    using assms(5) r(1) w by (simp add: serve_turn_def on_error_def Let_def)
  then have "handle_connection E ep c addr stopping seen s = (Inr (), ?s2\<lparr>wire := wire ?s2 @ h @ b\<rparr>)"
    using assms(3,4) by (subst handle_connection.simps) simp
  moreover have "d_get (merged_headers d c st (sent_headers ?req ?resp) False) ''Connection'' = Some ''close''" for d
    unfolding merged_headers_def Let_def d_get_update [OF sent_headers_ok]
    using b by (simp add: sent_headers_get d_get_update d_ok_def security_headers_def)
  moreover have "wire (?s2\<lparr>wire := wire ?s2 @ h @ b\<rparr>) = wire s @ h @ b"
    "app (?s2\<lparr>wire := wire ?s2 @ h @ b\<rparr>) = app s"
    by (simp_all add: of_reader_def)
  moreover note response_head_split(1) [OF h, unfolded error_response_fields]
  ultimately show ?thesis
    using b by blast
qed

text \<open>
  The sample application answers \<^verbatim>\<open>/hi\<close>, streams and fails under \<^verbatim>\<open>/bad\<close>, and its WebSocket
  handler ends with the peer's close.
\<close>

definition sample_route :: "str \<Rightarrow> (unit handler) \<Rightarrow> (unit handler, unit middleware) route" where
  "sample_route p h = \<lparr>rt_method = ''GET'', rt_pattern = p,
     rt_regex = (case compile_pattern p of Some rx \<Rightarrow> rx | None \<Rightarrow> []), rt_handler = h, rt_mws = []\<rparr>"

definition sample_ep :: "unit endpoint" where
  "sample_ep = \<lparr>
     ep_router = \<lparr>routes =
         [sample_route ''/hi'' (\<lambda>r. (Inr (Response ''hi'' 200 [] HTML), r)),
          sample_route ''/bad'' (\<lambda>r. (Inr (StreamResponse [''ab''] (Some (PyError ''KeyError'')) 200 [] HTML), r))],
       middlewares = [], startup_handlers = [], shutdown_handlers = []\<rparr>,
     ep_docs = (\<lambda>r. (Inr (Response [] 200 [] HTML), r)),
     ep_ws = Some (\<lambda>req w. (Inl WebSocketClosed, w))\<rparr>"

definition link_with :: "bytes \<Rightarrow> unit link" where
  "link_with b = sample_link\<lparr>arrivals := [(1, Data b)]\<rparr>"

lemma sample_plain: "plain_env sample_env DEFAULT_CONFIG"
proof -
  have "\<not> has_break ''now''" "\<not> has_break ''id''" "\<not> has_break (server_name DEFAULT_CONFIG)"
    by code_simp+
  moreover have "\<not> has_break (show_nat n)" for n
    using show_nat_chars_neq(5,6) by (auto simp: has_break_def)
  ultimately show ?thesis
    by (auto simp: plain_env_def sample_env_def has_break_def)
qed

lemma parse_error_answered_witness:
  "\<exists>s' h b. handle_connection sample_env sample_ep DEFAULT_CONFIG (''10.0.0.9'', 1) (\<lambda>k. False) 0
      (link_with (''BAD'' @ CRLF @ CRLF)) = (Inr (), s') \<and>
    wire s' = h @ b \<and> hd (split_on CRLF h) = ''HTTP/1.1 400 Bad Request''"
proof -
  let ?s = "link_with (''BAD'' @ CRLF @ CRLF)"
  have "(case parse_request (netloc_ok sample_env) (SocketReader \<lparr>arrivals = arrivals ?s, now = now ?s\<rparr> DEFAULT_CONFIG)
      (''10.0.0.9'', 1) DEFAULT_CONFIG of
      (Inl e, rd) \<Rightarrow> e = HTTPError 400 ''Invalid request line'' [] | _ \<Rightarrow> False)"
    by code_simp
  then obtain rd where p: "parse_request (netloc_ok sample_env)
      (SocketReader \<lparr>arrivals = arrivals ?s, now = now ?s\<rparr> DEFAULT_CONFIG) (''10.0.0.9'', 1) DEFAULT_CONFIG =
      (Inl (HTTPError 400 ''Invalid request line'' []), rd)"
    by (auto split: prod.splits sum.splits)
  have t: "takes ?s = None" "wire ?s = []" "int 0 < max_keepalive_requests DEFAULT_CONFIG"
    by (simp_all add: link_with_def sample_link_def DEFAULT_CONFIG_def)
  have "status_line 400 = ''HTTP/1.1 400 Bad Request''" by code_simp
  then show ?thesis
    using parse_error_answered [OF sample_plain t(1,3) _ p, of "\<lambda>k. False" sample_ep] t(2) by force
qed

subsection \<open>Turns that go wrong\<close>

lemma on_error_500:
  assumes "plain_env E c" "takes s = None" "\<not> has_break (request_id req)" "e = WebSocketClosed \<or> (\<exists>n. e = PyError n)"
  shows "\<exists>h b. on_error E c addr (Some req) e s = (Inr (), s\<lparr>wire := wire s @ h @ b\<rparr>) \<and>
    prefix ''HTTP/1.1 500 Internal Server Error'' h"
proof -
  let ?resp = "error_response 500 ''Internal Server Error''"
  obtain b where b: "r_body ?resp = Full b" using error_response_body by blast
  have html: "\<not> has_break HTML" by code_simp
  obtain h where h: "head_of E c req ?resp False (now s) = Inr h"
    using head_of_clean [OF assms(1,3), where resp = ?resp and keep = False and t = "now s"] html by (auto simp: clean_headers_def)
  have "status_line 500 = ''HTTP/1.1 500 Internal Server Error''" by code_simp
  with response_head_first [OF h] have "prefix ''HTTP/1.1 500 Internal Server Error'' h" by simp
  moreover have "on_error E c addr (Some req) e s =
      (Inr (), s\<lparr>wire := wire s @ h @ (if q_method req = ''HEAD'' then [] else b)\<rparr>)"
    using assms(4) write_full [OF assms(2) b, of E req c False] h
    by (auto simp: on_error_def dummy_request_def)
  ultimately show ?thesis by blast
qed

lemma assign_id_frame:
  "assign_id E req s = (req', s') \<Longrightarrow>
   takes s' = takes s \<and> wire s' = wire s \<and> app s' = app s \<and> (\<exists>i. req' = req\<lparr>request_id := i\<rparr>)"
  by (auto simp: assign_id_def split: if_splits)

lemma handle_Done:
  "\<lbrakk>int seen < max_keepalive_requests c; \<not> stopping seen; serve_turn E ep c addr seen s = ((Done, r), s')\<rbrakk> \<Longrightarrow>
   handle_connection E ep c addr stopping seen s = (r, s')"
  by (subst handle_connection.simps) simp

text \<open>
  When the generator of a streamed answer fails, the server does not cut the stream: it
  writes a second complete response, a 500 head and body, into the middle of the chunked body.
\<close>

theorem stream_failure_second_head:
  assumes "plain_env E c" and "takes s = None" and "int seen < max_keepalive_requests c" and "\<not> stopping seen"
    and "parse_request (netloc_ok E) (SocketReader \<lparr>arrivals = arrivals s, now = now s\<rparr> c) addr c = (Inr req, rd)"
    and "assign_id E req (of_reader rd s) = (req1, s1)" and "\<not> is_websocket_upgrade req1"
    and "dispatch E ep (req1, app s) = (Inr resp, req2, w)"
    and "r_body resp = Stream cs (Some (PyError n))" and "clean_headers (r_headers resp)"
    and "\<not> has_break (r_ctype resp)" and "\<not> has_break (request_id req2)"
  shows "\<exists>s' h h2 b2. handle_connection E ep c addr stopping seen s = (Inr (), s') \<and>
    wire s' = wire s @ h @ chunk_body cs @ h2 @ b2 \<and>
    prefix (status_line (r_status resp)) h \<and> prefix ''HTTP/1.1 500 Internal Server Error'' h2"
proof -
  have s1: "takes s1 = None" "wire s1 = wire s" "app s1 = app s"
    using assign_id_frame [OF assms(6)] assms(2) by (simp_all add: of_reader_def)
  let ?keep = "keeps_alive c req1 (Suc seen)" let ?s2 = "s1\<lparr>app := w\<rparr>"
  obtain h where h: "head_of E c req2 resp ?keep (now ?s2) = Inr h"
    using head_of_clean [OF assms(1,12,10,11)] by blast
  have tk: "takes ?s2 = None" using s1 by simp
  let ?s3 = "?s2\<lparr>wire := wire ?s2 @ h @ chunk_body cs\<rparr>"
  have w: "write_response E req2 c resp ?keep ?s2 = (Inl (PyError n), ?s3)"
    using write_stream [OF tk assms(9), of E req2 c ?keep] h by simp
  have a: "answer E ep c (Suc seen) req1 s1 = (Inl (PyError n), req2, ?s3)"
    using assms(7,8) w s1(3) by (simp add: answer_def Let_def)
  have "takes ?s3 = None" using s1 by simp
  from on_error_500 [OF assms(1) this assms(12), of "PyError n" addr] obtain h2 b2 where
    e: "on_error E c addr (Some req2) (PyError n) ?s3 = (Inr (), ?s3\<lparr>wire := wire ?s3 @ h2 @ b2\<rparr>)"
      "prefix ''HTTP/1.1 500 Internal Server Error'' h2" by blast
  have "serve_turn E ep c addr seen s = ((Done, Inr ()), ?s3\<lparr>wire := wire ?s3 @ h2 @ b2\<rparr>)"
    using assms(5,6) a e(1) by (simp add: serve_turn_def)
  from handle_Done [where stopping = stopping and seen = seen, OF assms(3,4) this] show ?thesis
    using response_head_first [OF h] e(2) s1(2) by auto
qed

definition bad_request :: "unit link" where
  "bad_request = link_with (''GET /bad HTTP/1.1'' @ CRLF @ ''Host: h'' @ CRLF @ CRLF)"

abbreviation turn_of :: "unit link \<Rightarrow> request result \<times> reader" where
  "turn_of s \<equiv> parse_request (netloc_ok sample_env)
     (SocketReader \<lparr>arrivals = arrivals s, now = now s\<rparr> DEFAULT_CONFIG) (''10.0.0.9'', 1) DEFAULT_CONFIG"

definition turn_facts :: "unit link \<Rightarrow> (request \<Rightarrow> unit link \<Rightarrow> bool) \<Rightarrow> bool" where
  "turn_facts s P =
     (case turn_of s of
        (Inr req, rd) \<Rightarrow> (case assign_id sample_env req (of_reader rd s) of (req1, s1) \<Rightarrow> P req1 s1)
      | _ \<Rightarrow> False)"

lemma turn_facts_obtain:
  assumes "turn_facts s P"
  obtains req rd req1 s1 where "turn_of s = (Inr req, rd)"
    "assign_id sample_env req (of_reader rd s) = (req1, s1)" "P req1 s1"
proof -
  obtain r rd where t: "turn_of s = (r, rd)" by force
  with assms obtain req where r: "r = Inr req"
    by (cases r) (auto simp: turn_facts_def)
  obtain req1 s1 where a: "assign_id sample_env req (of_reader rd s) = (req1, s1)" by force
  show thesis
    by (rule that [OF t [unfolded r] a]) (use assms t r a in \<open>simp add: turn_facts_def\<close>)
qed

lemma stream_failure_second_head_witness:
  "\<exists>s' h h2 b2. handle_connection sample_env sample_ep DEFAULT_CONFIG (''10.0.0.9'', 1) (\<lambda>k. False) 0 bad_request
      = (Inr (), s') \<and>
    wire s' = h @ chunk_body [''ab''] @ h2 @ b2 \<and> prefix ''HTTP/1.1 500 Internal Server Error'' h2"
proof -
  let ?resp = "StreamResponse [''ab''] (Some (PyError ''KeyError'')) 200 [] HTML"
  have "turn_facts bad_request (\<lambda>req1 s1. \<not> is_websocket_upgrade req1 \<and>
          dispatch sample_env sample_ep (req1, app bad_request) = (Inr ?resp, req1\<lparr>route_params := []\<rparr>, ()) \<and>
          \<not> has_break (request_id (req1\<lparr>route_params := []\<rparr>)))"
    by code_simp
  then obtain req rd req1 s1 where p: "turn_of bad_request = (Inr req, rd)"
    "assign_id sample_env req (of_reader rd bad_request) = (req1, s1)" "\<not> is_websocket_upgrade req1"
    "dispatch sample_env sample_ep (req1, app bad_request) = (Inr ?resp, req1\<lparr>route_params := []\<rparr>, ())"
    "\<not> has_break (request_id (req1\<lparr>route_params := []\<rparr>))"
    by (rule turn_facts_obtain) blast
  have t: "takes bad_request = None" "wire bad_request = []" "int 0 < max_keepalive_requests DEFAULT_CONFIG"
    by (simp_all add: bad_request_def link_with_def sample_link_def DEFAULT_CONFIG_def)
  have r: "r_body ?resp = Stream [''ab''] (Some (PyError ''KeyError''))" "clean_headers (r_headers ?resp)"
    "\<not> has_break (r_ctype ?resp)"
    by (simp_all add: StreamResponse_def clean_headers_def has_break_def)
  show ?thesis
    using stream_failure_second_head [where stopping = "\<lambda>k. False" and seen = 0, OF sample_plain t(1,3) _ p(1-4) r p(5)]
      t(2) by force
qed

text \<open>
  An upgraded connection whose peer closes ends in an HTTP answer: \<^verbatim>\<open>WebSocketClosed\<close>, the
  normal end of a session, is caught as any other exception and a 500 response follows the
  101 on the WebSocket.
\<close>

theorem websocket_close_answered_500:
  assumes "plain_env E c" and "takes s = None" and "int seen < max_keepalive_requests c" and "\<not> stopping seen"
    and "parse_request (netloc_ok E) (SocketReader \<lparr>arrivals = arrivals s, now = now s\<rparr> c) addr c = (Inr req, rd)"
    and "assign_id E req (of_reader rd s) = (req1, s1)" and "is_websocket_upgrade req1"
    and "handshake (sha1 E) req1 = Inr raw" and "ep_ws ep = Some h" and "h req1 (app s) = (Inl WebSocketClosed, w)"
    and "\<not> has_break (request_id req1)"
  shows "\<exists>s' h2 b2. handle_connection E ep c addr stopping seen s = (Inr (), s') \<and>
    wire s' = wire s @ raw @ h2 @ b2 \<and> prefix ''HTTP/1.1 500 Internal Server Error'' h2"
proof -
  have s1: "takes s1 = None" "wire s1 = wire s" "app s1 = app s"
    using assign_id_frame [OF assms(6)] assms(2) by (simp_all add: of_reader_def)
  let ?s3 = "s1\<lparr>wire := wire s1 @ raw, app := w\<rparr>"
  have a: "answer E ep c (Suc seen) req1 s1 = (Inl WebSocketClosed, req1, ?s3)"
    using assms(7-10) s1 by (simp add: answer_def upgrade_def sendall_all Let_def)
  have "takes ?s3 = None" using s1 by simp
  from on_error_500 [OF assms(1) this assms(11), of WebSocketClosed addr] obtain h2 b2 where
    e: "on_error E c addr (Some req1) WebSocketClosed ?s3 = (Inr (), ?s3\<lparr>wire := wire ?s3 @ h2 @ b2\<rparr>)"
      "prefix ''HTTP/1.1 500 Internal Server Error'' h2" by blast
  have "serve_turn E ep c addr seen s = ((Done, Inr ()), ?s3\<lparr>wire := wire ?s3 @ h2 @ b2\<rparr>)"
    using assms(5,6) a e(1) by (simp add: serve_turn_def)
  from handle_Done [where stopping = stopping and seen = seen, OF assms(3,4) this] show ?thesis
    using e(2) s1(2) by auto
qed

definition ws_request :: "unit link" where
  "ws_request = link_with (''GET /ws HTTP/1.1'' @ CRLF @ ''Host: h'' @ CRLF @ ''Upgrade: websocket'' @ CRLF @
     ''Connection: Upgrade'' @ CRLF @ ''Sec-WebSocket-Version: 13'' @ CRLF @
     ''Sec-WebSocket-Key: dGhlIHNhbXBsZSBub25jZQ=='' @ CRLF @ CRLF)"

lemma websocket_close_answered_500_witness:
  "\<exists>s' h2 b2. handle_connection sample_env sample_ep DEFAULT_CONFIG (''10.0.0.9'', 1) (\<lambda>k. False) 0 ws_request
      = (Inr (), s') \<and>
    wire s' = handshake_reply (sha1 sample_env) ''dGhlIHNhbXBsZSBub25jZQ=='' @ h2 @ b2 \<and>
    prefix ''HTTP/1.1 500 Internal Server Error'' h2"
proof -
  have "turn_facts ws_request (\<lambda>req1 s1. is_websocket_upgrade req1 \<and>
          handshake (sha1 sample_env) req1 = Inr (handshake_reply (sha1 sample_env) ''dGhlIHNhbXBsZSBub25jZQ=='') \<and>
          \<not> has_break (request_id req1))"
    by code_simp
  then obtain req rd req1 s1 where p: "turn_of ws_request = (Inr req, rd)"
    "assign_id sample_env req (of_reader rd ws_request) = (req1, s1)" "is_websocket_upgrade req1"
    "handshake (sha1 sample_env) req1 = Inr (handshake_reply (sha1 sample_env) ''dGhlIHNhbXBsZSBub25jZQ=='')"
    "\<not> has_break (request_id req1)"
    by (rule turn_facts_obtain) blast
  have t: "takes ws_request = None" "wire ws_request = []" "int 0 < max_keepalive_requests DEFAULT_CONFIG"
    by (simp_all add: ws_request_def link_with_def sample_link_def DEFAULT_CONFIG_def)
  have h: "ep_ws sample_ep = Some (\<lambda>req w. (Inl WebSocketClosed, w))"
    by (simp add: sample_ep_def)
  show ?thesis
    using websocket_close_answered_500 [where stopping = "\<lambda>k. False" and seen = 0,
        OF sample_plain t(1,3) _ p(1-4) h refl p(5)] t(2) by force
qed

lemma head_of_broken:
  assumes "has_break (request_id req)" "d_ok (r_headers resp)" "d_get (r_headers resp) ''X-Request-Id'' = None"
  shows "head_of E c req resp keep t = Inl (err 500 ''Invalid characters in response headers'')"
proof -
  let ?m = "merged_headers (http_date E t) c (r_status resp) (sent_headers req resp) keep"
  have "d_get (sent_headers req resp) ''X-Request-Id'' = Some (request_id req)"
    using assms(3) by (simp add: sent_headers_get [OF assms(2)])
  then have "(''X-Request-Id'', request_id req) \<in> set ?m"
    by (intro d_get_SomeD merged_get [OF sent_headers_ok])
  then have "\<not> clean_headers ?m"
    using assms(1) by (auto simp: clean_headers_def list_all_iff)
  then show ?thesis
    by (simp add: response_head_def header_block_eq)
qed

lemma write_broken:
  assumes "head_of E c req resp keep (now s) = Inl e"
  shows "write_response E req c resp keep s = (Inl e, s)"
  using assms by (auto simp: write_response_def Let_def send_headers_def sent_headers_def split: rbody.splits)

text \<open>
  A request whose \<^verbatim>\<open>X-Request-Id\<close> holds a bare CR or LF is accepted by the parser, handled,
  and never answered: the echoed header makes the response and then the error response raise,
  and the connection ends with nothing written.
\<close>

theorem request_id_break_unanswered:
  assumes "int seen < max_keepalive_requests c" and "\<not> stopping seen"
    and "parse_request (netloc_ok E) (SocketReader \<lparr>arrivals = arrivals s, now = now s\<rparr> c) addr c = (Inr req, rd)"
    and "has_break (header req ''x-request-id'')" and "\<not> is_websocket_upgrade req"
    and "dispatch E ep (req\<lparr>request_id := header req ''x-request-id''\<rparr>, app s) = (Inr resp, req2, w)"
    and "request_id req2 = header req ''x-request-id''"
    and "d_ok (r_headers resp)" and "d_get (r_headers resp) ''X-Request-Id'' = None"
  shows "\<exists>e s'. handle_connection E ep c addr stopping seen s = (Inl e, s') \<and> wire s' = wire s"
proof -
  let ?e = "err 500 ''Invalid characters in response headers''"
  let ?req1 = "req\<lparr>request_id := header req ''x-request-id''\<rparr>" let ?s1 = "of_reader rd s"
  have "header req ''x-request-id'' \<noteq> []"
    using assms(4) by (auto simp: has_break_def)
  then have a: "assign_id E req ?s1 = (?req1, ?s1)"
    by (simp add: assign_id_def)
  have u: "\<not> is_websocket_upgrade ?req1"
    using assms(5) by (simp add: is_websocket_upgrade_def header_def)
  let ?s2 = "?s1\<lparr>app := w\<rparr>"
  have b: "has_break (request_id req2)" using assms(4,7) by simp
  have "write_response E req2 c resp (keeps_alive c ?req1 (Suc seen)) ?s2 = (Inl ?e, ?s2)"
    by (rule write_broken [OF head_of_broken [OF b assms(8,9)]])
  then have ans: "answer E ep c (Suc seen) ?req1 ?s1 = (Inl ?e, req2, ?s2)"
    using u assms(6) by (simp add: answer_def Let_def of_reader_def)
  have "write_response E req2 c (error_response 500 ''Invalid characters in response headers'') False ?s2 = (Inl ?e, ?s2)"
    by (rule write_broken [OF head_of_broken [OF b]]) simp_all
  then have "on_error E c addr (Some req2) ?e ?s2 = (Inl ?e, ?s2)"
    by (simp add: on_error_def http_error_def dummy_request_def)
  then have "serve_turn E ep c addr seen s = ((Done, Inl ?e), ?s2)"
    using assms(3) a ans by (simp add: serve_turn_def)
  from handle_Done [where stopping = stopping and seen = seen, OF assms(1,2) this] show ?thesis
    by (auto simp: of_reader_def)
qed

definition broken_id :: "unit link" where
  "broken_id = link_with (''GET /hi HTTP/1.1'' @ CRLF @ ''Host: h'' @ CRLF @ ''X-Request-Id: a'' @ [LF] @ ''b'' @ CRLF @ CRLF)"

lemma request_id_break_unanswered_witness:
  "\<exists>e s'. handle_connection sample_env sample_ep DEFAULT_CONFIG (''10.0.0.9'', 1) (\<lambda>k. False) 0 broken_id
      = (Inl e, s') \<and> wire s' = []"
proof -
  have "turn_facts broken_id (\<lambda>req1 s1. has_break (header req1 ''x-request-id'') \<and>
      \<not> is_websocket_upgrade req1 \<and> request_id req1 = header req1 ''x-request-id'' \<and>
      dispatch sample_env sample_ep (req1, app broken_id) =
        (Inr (Response ''hi'' 200 [] HTML), req1\<lparr>route_params := []\<rparr>, ()))"
    by code_simp
  then obtain req rd req1 s1 where p: "turn_of broken_id = (Inr req, rd)"
    "assign_id sample_env req (of_reader rd broken_id) = (req1, s1)" "has_break (header req1 ''x-request-id'')"
    "\<not> is_websocket_upgrade req1" "request_id req1 = header req1 ''x-request-id''"
    "dispatch sample_env sample_ep (req1, app broken_id) =
       (Inr (Response ''hi'' 200 [] HTML), req1\<lparr>route_params := []\<rparr>, ())"
    by (rule turn_facts_obtain) blast
  obtain i where i: "req1 = req\<lparr>request_id := i\<rparr>"
    using assign_id_frame [OF p(2)] by blast
  then have h: "header req1 = header req"
    by (simp add: header_def fun_eq_iff)
  with i p(5) have r: "req1 = req\<lparr>request_id := header req ''x-request-id''\<rparr>" by simp
  have u: "\<not> is_websocket_upgrade req"
    using p(4) h by (simp add: is_websocket_upgrade_def)
  have t: "wire broken_id = []" "int 0 < max_keepalive_requests DEFAULT_CONFIG"
    by (simp_all add: broken_id_def link_with_def sample_link_def DEFAULT_CONFIG_def)
  have q: "request_id (req1\<lparr>route_params := []\<rparr>) = header req ''x-request-id''"
    "d_ok (r_headers (Response ''hi'' 200 [] HTML))"
    "d_get (r_headers (Response ''hi'' 200 [] HTML)) ''X-Request-Id'' = None"
    using p(5) h by (simp_all add: Response_def)
  show ?thesis
    using request_id_break_unanswered [where stopping = "\<lambda>k. False" and seen = 0,
        OF t(2) _ p(1) p(3) [unfolded h] u p(6) [unfolded r] q [unfolded r]] t(1) by auto
qed

text \<open>
  Pipelining loses requests: two requests that arrive in one segment get one answer, since
  the reader that had buffered the second is dropped when the turn ends.
\<close>

theorem pipelined_request_lost:
  "(let req = ''GET /hi HTTP/1.1'' @ CRLF @ ''Host: h'' @ CRLF @ CRLF;
        out = (\<lambda>b. handle_connection sample_env sample_ep DEFAULT_CONFIG (''10.0.0.9'', 1) (\<lambda>k. False) 0 (link_with b))
    in fst (out (req @ req)) = Inr () \<and> wire (snd (out (req @ req))) = wire (snd (out req)) \<and>
       suffix ''hi'' (wire (snd (out req))))"
  by code_simp

end
