(* ===== verification/Security.thy ===== *)
theory Security
  imports Router
begin

section \<open>Rate limiting and brute-force protection (\<^verbatim>\<open>security.py\<close>)\<close>

text \<open>
  Token buckets with the in-memory and the SQLite store, and the login guard. Floating-point
  seconds and tokens are exact rationals. A table is an ordered dictionary from its primary
  key; an SQL upsert is \<open>d_set\<close> and a \<^verbatim>\<open>DELETE ... WHERE\<close> a filter. The locale
  \<open>token_bucket\<close> states what a store promises; both stores are interpreted in it.
\<close>

subsection \<open>\<^verbatim>\<open>TokenBucketLimiter\<close>\<close>

datatype storage = Memory | Sqlite

type_synonym bucket_table = "(str, rat \<times> rat) dict"

record limiter =
  lim_capacity :: rat
  lim_rate :: rat
  lim_window :: int
  lim_storage :: storage
  buckets :: bucket_table

definition TokenBucketLimiter :: "int \<Rightarrow> int \<Rightarrow> storage \<Rightarrow> limiter result" where
  "TokenBucketLimiter requests window st =
     (if requests \<le> 0 \<or> window \<le> 0 then Inl (PyError ''ValueError'')
      else Inr \<lparr>lim_capacity = of_int requests, lim_rate = of_int requests / of_int window,
                lim_window = window, lim_storage = st, buckets = []\<rparr>)"

definition default_key :: "request \<Rightarrow> str" where
  "default_key req =
     (case user req of
        Some d \<Rightarrow>
          if truthy (d_get d ''sub'')
          then ''user:'' @ (case d_get d ''sub'' of Some v \<Rightarrow> str_of v | None \<Rightarrow> [])
          else ''ip:'' @ remote_addr req
      | None \<Rightarrow> ''ip:'' @ remote_addr req)"

type_synonym verdict = "bool \<times> rat \<times> rat"

text \<open>The arithmetic both stores share: the verdict and the tokens left at \<open>now\<close>.\<close>

definition take_token :: "limiter \<Rightarrow> (rat \<times> rat) option \<Rightarrow> rat \<Rightarrow> verdict" where
  "take_token l entry t =
     (let (tokens, updated) = (case entry of None \<Rightarrow> (lim_capacity l, t) | Some p \<Rightarrow> p);
          tokens = min (lim_capacity l) (tokens + (t - updated) * lim_rate l);
          allowed = (1 \<le> tokens);
          tokens = (if allowed then tokens - 1 else tokens)
      in (allowed, tokens, if allowed then 0 else (1 - tokens) / lim_rate l))"

definition consume_memory :: "str \<Rightarrow> rat \<Rightarrow> limiter \<Rightarrow> verdict \<times> limiter" where
  "consume_memory key t l =
     (let v = take_token l (d_get (buckets l) key) t
      in (v, l\<lparr>buckets := d_set key (fst (snd v), t) (buckets l)\<rparr>))"

definition evict_before :: "rat \<Rightarrow> bucket_table \<Rightarrow> bucket_table" where
  "evict_before t tbl = filter (\<lambda>(k, tok, upd). \<not> upd < t) tbl"

definition consume_sqlite :: "str \<Rightarrow> rat \<Rightarrow> limiter \<Rightarrow> verdict \<times> limiter" where
  "consume_sqlite key t l =
     (let v = take_token l (d_get (buckets l) key) t;
          tbl = d_set key (fst (snd v), t) (buckets l)
      in (v, l\<lparr>buckets := evict_before (t - max (of_int (lim_window l) * 4) 3600) tbl\<rparr>))"

text \<open>\<^verbatim>\<open>consume\<close> reads the wall clock for SQLite and the monotonic clock otherwise.\<close>

definition consume :: "str \<Rightarrow> rat \<Rightarrow> rat \<Rightarrow> limiter \<Rightarrow> verdict \<times> limiter" where
  "consume key t_wall t_mono l =
     (case lim_storage l of Sqlite \<Rightarrow> consume_sqlite key t_wall l | Memory \<Rightarrow> consume_memory key t_mono l)"

subsection \<open>\<^verbatim>\<open>BruteForceProtector\<close>\<close>

type_synonym attempt_table = "(str, int \<times> rat \<times> rat) dict"

record protector =
  max_attempts :: int
  block_seconds :: int
  base_delay :: rat
  max_delay :: rat
  failure_statuses :: "int list"
  attempts_of :: attempt_table

definition guard_reset :: "str \<Rightarrow> protector \<Rightarrow> protector" where
  "guard_reset key g = g\<lparr>attempts_of := d_pop key (attempts_of g)\<rparr>"

definition guard_status :: "str \<Rightarrow> rat \<Rightarrow> protector \<Rightarrow> (int \<times> rat) \<times> protector" where
  "guard_status key t g =
     (case d_get (attempts_of g) key of
        None \<Rightarrow> ((0, 0), g)
      | Some (attempts, until, upd) \<Rightarrow>
          if until \<noteq> 0 \<and> until \<le> t then ((0, 0), guard_reset key g) else ((attempts, until), g))"

definition record_failure :: "str \<Rightarrow> rat \<Rightarrow> protector \<Rightarrow> (int \<times> rat) \<times> protector" where
  "record_failure key t g =
     (let attempts = (case d_get (attempts_of g) key of Some (a, _, _) \<Rightarrow> a | None \<Rightarrow> 0) + 1;
          until = (if max_attempts g \<le> attempts then t + of_int (block_seconds g) else 0);
          tbl = d_set key (attempts, until, t) (attempts_of g);
          cutoff = t - max (of_int (block_seconds g) * 4) 86400
      in ((attempts, until), g\<lparr>attempts_of := filter (\<lambda>(k, a, b, upd). \<not> upd < cutoff) tbl\<rparr>))"

definition delay_for :: "int \<Rightarrow> protector \<Rightarrow> rat" where
  "delay_for attempts g =
     (if attempts < 3 then 0 else min (max_delay g) (base_delay g ^ nat (attempts - 2)))"

subsection \<open>The middlewares\<close>

text \<open>The world the two middlewares act on: the clocks, the two tables, and the rest.\<close>

record 'w sec_world =
  mono_clock :: rat
  wall_clock :: rat
  limits :: limiter
  guard :: protector
  inner :: 'w

definition set_header :: "str \<Rightarrow> str \<Rightarrow> response \<Rightarrow> response" where
  "set_header k v resp = resp\<lparr>r_headers := d_set k v (r_headers resp)\<rparr>"

definition rate_limit :: "(request \<Rightarrow> str) \<Rightarrow> 'w sec_world middleware" where
  "rate_limit key_func r next =
     (let (req, w) = r;
          ((allowed, tokens, retry), l) = consume (key_func req) (wall_clock w) (mono_clock w) (limits w);
          r' = (req, w\<lparr>limits := l\<rparr>)
      in if \<not> allowed then
           (Inl (HTTPError 429 ''Too Many Requests''
              [(''Retry-After'', show_int (max 1 (trunc (retry + 999 / 1000))))]), r')
         else sbind (next r') (\<lambda>resp r''.
           (Inr (set_header ''X-RateLimit-Remaining'' (show_int (max 0 (trunc tokens)))
              (set_header ''X-RateLimit-Limit'' (show_int (trunc (lim_capacity l))) resp)), r'')))"

definition sleep :: "rat \<Rightarrow> 'w sec_world \<Rightarrow> 'w sec_world" where
  "sleep d w = w\<lparr>mono_clock := mono_clock w + d, wall_clock := wall_clock w + d\<rparr>"

definition with_guard :: "(protector \<Rightarrow> 'a \<times> protector) \<Rightarrow> 'w sec_world \<Rightarrow> 'a \<times> 'w sec_world" where
  "with_guard f w = (case f (guard w) of (a, g) \<Rightarrow> (a, w\<lparr>guard := g\<rparr>))"

definition bruteforce_protect :: "(request \<Rightarrow> str) \<Rightarrow> 'w sec_world middleware" where
  "bruteforce_protect key_func r next =
     (let (req, w) = r; key = key_func req;
          ((attempts, until), w) = with_guard (guard_status key (wall_clock w)) w
      in if wall_clock w < until then
           (Inl (HTTPError 403 ''Temporarily blocked''
              [(''Retry-After'', show_int (max 1 (trunc (until - wall_clock w))))]), (req, w))
         else
           (let w = sleep (delay_for attempts (guard w)) w in
            case next (req, w) of
              (Inl (HTTPError st msg hs), req, w) \<Rightarrow>
                if st \<in> set (failure_statuses (guard w)) then
                  (let ((attempts, until), w) = with_guard (record_failure key (wall_clock w)) w;
                       w = sleep (delay_for attempts (guard w)) w;
                       hs = (if wall_clock w < until
                             then [(''Retry-After'', show_int (max 1 (trunc (until - wall_clock w))))] else hs)
                   in (Inl (HTTPError st msg hs), req, w))
                else (Inl (HTTPError st msg hs), req, w\<lparr>guard := guard_reset key (guard w)\<rparr>)
            | (Inl e, req, w) \<Rightarrow> (Inl e, req, w)
            | (Inr resp, req, w) \<Rightarrow>
                if r_status resp \<in> set (failure_statuses (guard w)) then
                  (let ((attempts, until), w) = with_guard (record_failure key (wall_clock w)) w;
                       resp = (if wall_clock w < until
                               then set_header ''Retry-After'' (show_int (max 1 (trunc (until - wall_clock w)))) resp
                               else resp)
                   in (Inr resp, req, w))
                else (Inr resp, req, w\<lparr>guard := guard_reset key (guard w)\<rparr>)))"

end
