(* ===== verification/Security_Props.thy ===== *)
theory Security_Props
  imports Security
begin

section \<open>Rate limits hold, whichever store keeps them\<close>

text \<open>
  The locale \<open>token_bucket\<close> is the contract of a bucket store: how many tokens a key has at a
  time, that they refill at the rate up to the capacity, and what one request takes. Inside it
  the bound on admitted requests is proved once; the memory and the SQLite store are its
  interpretations. The second part is the login guard.
\<close>

subsection \<open>The contract\<close>

locale token_bucket =
  fixes cap rate :: "'s \<Rightarrow> rat"
    and inv :: "rat \<Rightarrow> 's \<Rightarrow> bool"
    and level :: "'s \<Rightarrow> str \<Rightarrow> rat \<Rightarrow> rat"
    and spend :: "str \<Rightarrow> rat \<Rightarrow> 's \<Rightarrow> verdict \<times> 's"
  assumes params_pos: "inv t0 s \<Longrightarrow> 0 < rate s \<and> 1 \<le> cap s"
    and level_bounds: "inv t0 s \<Longrightarrow> t0 \<le> t \<Longrightarrow> 0 \<le> level s k t \<and> level s k t \<le> cap s"
    and level_refill: "inv t0 s \<Longrightarrow> t0 \<le> t \<Longrightarrow> t \<le> t' \<Longrightarrow>
      level s k t' = min (cap s) (level s k t + (t' - t) * rate s)"
    and spend_inv: "inv t0 s \<Longrightarrow> t0 \<le> t \<Longrightarrow> inv t (snd (spend k t s))"
    and spend_params: "cap (snd (spend k t s)) = cap s \<and> rate (snd (spend k t s)) = rate s"
    and spend_verdict: "inv t0 s \<Longrightarrow> t0 \<le> t \<Longrightarrow>
      fst (spend k t s) =
        (if 1 \<le> level s k t then (True, level s k t - 1, 0)
         else (False, level s k t, (1 - level s k t) / rate s))"
    and spend_level: "inv t0 s \<Longrightarrow> t0 \<le> t \<Longrightarrow> t \<le> t' \<Longrightarrow>
      level (snd (spend k t s)) k' t' =
        (if k' = k then min (cap s) (fst (snd (fst (spend k t s))) + (t' - t) * rate s) else level s k' t')"

text \<open>A sequence of requests, each a key and its time, and the verdicts it gets.\<close>

fun verdicts :: "(str \<Rightarrow> rat \<Rightarrow> 's \<Rightarrow> verdict \<times> 's) \<Rightarrow> (str \<times> rat) list \<Rightarrow> 's \<Rightarrow> verdict list" where
  "verdicts f [] s = []"
| "verdicts f ((k, t) # xs) s = (case f k t s of (v, s') \<Rightarrow> v # verdicts f xs s')"

fun admitted :: "str \<Rightarrow> (str \<times> rat) list \<Rightarrow> verdict list \<Rightarrow> nat" where
  "admitted key ((k, t) # xs) (v # vs) = (if k = key \<and> fst v then 1 else 0) + admitted key xs vs"
| "admitted key xs vs = 0"

fun in_order :: "rat \<Rightarrow> (str \<times> rat) list \<Rightarrow> bool" where
  "in_order t0 [] = True"
| "in_order t0 ((k, t) # xs) = (t0 \<le> t \<and> in_order t xs)"

definition end_time :: "rat \<Rightarrow> (str \<times> rat) list \<Rightarrow> rat" where
  "end_time t0 xs = (if xs = [] then t0 else snd (last xs))"

lemma end_time_ge: "in_order t0 xs \<Longrightarrow> t0 \<le> end_time t0 xs"
  by (induction t0 xs rule: in_order.induct) (auto simp: end_time_def)

context token_bucket
begin

lemma admitted_bound:
  "inv t0 s \<Longrightarrow> in_order t0 xs \<Longrightarrow>
   of_nat (admitted key xs (verdicts spend xs s)) \<le> level s key t0 + (end_time t0 xs - t0) * rate s"
proof (induction t0 xs arbitrary: s rule: in_order.induct)
  case (1 t0)
  then show ?case using level_bounds [of t0 s t0 key] by (simp add: end_time_def)
next
  case (2 t0 k t xs)
  obtain v s' where v: "spend k t s = (v, s')" by (meson surj_pair)
  have le: "t0 \<le> t" "in_order t xs" using "2.prems"(2) by simp_all
  have inv': "inv t s'" using spend_inv [OF "2.prems"(1) le(1), of k] v by simp
  have IH: "of_nat (admitted key xs (verdicts spend xs s')) \<le> level s' key t + (end_time t xs - t) * rate s'"
    by (rule "2.IH" [OF inv' le(2)])
  have e: "end_time t0 ((k, t) # xs) = end_time t xs"
    by (simp add: end_time_def)
  have refill: "level s key t \<le> level s key t0 + (t - t0) * rate s"
    using level_refill [OF "2.prems"(1) order.refl le(1), of key] by linarith
  have b: "level s key t \<le> cap s" "0 \<le> level s key t"
    using level_bounds [OF "2.prems"(1) le(1)] by simp_all
  have "level s' key t = (if key = k then fst (snd v) else level s key t)"
    using spend_level [OF "2.prems"(1) le(1) order.refl, of k key] v b
      spend_verdict [OF "2.prems"(1) le(1), of k] by (auto split: if_splits)
  then have "of_nat (if k = key \<and> fst v then 1 else 0) + level s' key t \<le> level s key t"
    using spend_verdict [OF "2.prems"(1) le(1), of k] v by (auto split: if_splits)
  moreover have "(end_time t xs - t) * rate s + (t - t0) * rate s = (end_time t xs - t0) * rate s"
    by (simp add: algebra_simps)
  moreover have "rate s' = rate s"
    using spend_params [of k t s] v by simp
  ultimately show ?case
    using IH refill v e by simp
qed

lemma admitted_cap:
  assumes "inv t0 s" "in_order t0 xs"
  shows "of_nat (admitted key xs (verdicts spend xs s)) \<le> cap s + (end_time t0 xs - t0) * rate s"
  using admitted_bound [OF assms, of key] level_bounds [OF assms(1) order.refl, of key] by linarith

text \<open>Waiting for the announced time is enough.\<close>

lemma retry_admits:
  assumes "inv t0 s" "t0 \<le> t" "spend k t s = ((False, tokens, retry), s')" "t + retry \<le> t'"
  shows "fst (fst (spend k t' s'))"
proof -
  have v: "\<not> 1 \<le> level s k t" "tokens = level s k t" "retry = (1 - level s k t) / rate s"
    using spend_verdict [OF assms(1,2), of k] assms(3) by (auto split: if_splits)
  have r: "0 < rate s" "1 \<le> cap s" using params_pos [OF assms(1)] by simp_all
  with v have "0 < retry" by simp
  then have tt: "t \<le> t'" using assms(4) by linarith
  have inv': "inv t s'" using spend_inv [OF assms(1,2), of k] assms(3) by simp
  have "retry * rate s \<le> (t' - t) * rate s"
    using assms(4) r(1) by (intro mult_right_mono) auto
  then have "1 - level s k t \<le> (t' - t) * rate s"
    using v(3) r(1) by simp
  moreover have "level s' k t' = min (cap s) (tokens + (t' - t) * rate s)"
    using spend_level [OF assms(1,2) tt, of k k] assms(3) by simp
  ultimately have "1 \<le> level s' k t'"
    using v(2) r(2) by auto
  then show ?thesis
    using spend_verdict [OF inv' tt, of k] by simp
qed

lemma length_verdicts: "length (verdicts f xs s0) = length xs"
  by (induction xs arbitrary: s0) (auto split: prod.split)

lemma retry_run:
  "\<lbrakk>inv t0 s; in_order t0 (xs @ [(k, t), (k, t')]);
    verdicts spend (xs @ [(k, t), (k, t')]) s = vs @ [(False, tokens, retry), v]; t + retry \<le> t'\<rbrakk> \<Longrightarrow> fst v"
proof (induction xs arbitrary: t0 s vs)
  case Nil
  obtain a s1 where a: "spend k t s = (a, s1)" by (meson surj_pair)
  obtain b s2 where b: "spend k t' s1 = (b, s2)" by (meson surj_pair)
  from Nil(3) a b have "[a, b] = vs @ [(False, tokens, retry), v]" by simp
  then have "vs = []" "a = (False, tokens, retry)" "b = v"
    by (cases vs; auto)+
  then show ?case
    using retry_admits [OF Nil(1) _ _ Nil(4), where k = k and s' = s1 and tokens = tokens] Nil(2) a b by simp
next
  case (Cons x xs)
  obtain k0 u where x: "x = (k0, u)" by force
  obtain a s1 where a: "spend k0 u s = (a, s1)" by (meson surj_pair)
  have le: "t0 \<le> u" "in_order u (xs @ [(k, t), (k, t')])" using Cons.prems(2) x by simp_all
  have "length vs = Suc (length xs)"
    using arg_cong [OF Cons.prems(3), of length] by (simp add: length_verdicts)
  then obtain w ws where vs: "vs = w # ws" by (cases vs) auto
  have "inv u s1" using spend_inv [OF Cons.prems(1) le(1), of k0] a by simp
  from Cons.IH [OF this le(2) _ Cons.prems(4), of ws] Cons.prems(3) x a vs show ?case by simp
qed

end

subsection \<open>Both stores keep the contract\<close>

definition bucket_inv :: "rat \<Rightarrow> limiter \<Rightarrow> bool" where
  "bucket_inv t l =
     (1 \<le> lim_capacity l \<and> 0 < lim_rate l \<and> 0 < lim_window l \<and>
      lim_rate l * of_int (lim_window l) = lim_capacity l \<and> d_ok (buckets l) \<and>
      (\<forall>k tok upd. d_get (buckets l) k = Some (tok, upd) \<longrightarrow> 0 \<le> tok \<and> tok \<le> lim_capacity l \<and> upd \<le> t))"

definition bucket_level :: "limiter \<Rightarrow> str \<Rightarrow> rat \<Rightarrow> rat" where
  "bucket_level l k t =
     (case d_get (buckets l) k of
        None \<Rightarrow> lim_capacity l
      | Some (tok, upd) \<Rightarrow> min (lim_capacity l) (tok + (t - upd) * lim_rate l))"

lemma bucket_inv_fresh: "TokenBucketLimiter requests window st = Inr l \<Longrightarrow> bucket_inv t l"
  by (auto simp: TokenBucketLimiter_def bucket_inv_def split: if_splits)

lemma bucket_level_bounds:
  assumes "bucket_inv t0 l" "t0 \<le> t"
  shows "0 \<le> bucket_level l k t \<and> bucket_level l k t \<le> lim_capacity l"
proof (cases "d_get (buckets l) k")
  case (Some p)
  obtain tok upd where p: "p = (tok, upd)" by force
  then have "0 \<le> tok" "upd \<le> t0" "0 < lim_rate l" "1 \<le> lim_capacity l"
    using assms(1) Some by (auto simp: bucket_inv_def)
  moreover from this have "0 \<le> (t - upd) * lim_rate l"
    using assms(2) by simp
  ultimately show ?thesis using Some p by (simp add: bucket_level_def)
qed (use assms in \<open>simp add: bucket_level_def bucket_inv_def\<close>)

lemma bucket_level_refill:
  assumes "bucket_inv t0 l" "t0 \<le> t" "t \<le> t'"
  shows "bucket_level l k t' = min (lim_capacity l) (bucket_level l k t + (t' - t) * lim_rate l)"
proof -
  have r: "0 \<le> (t' - t) * lim_rate l"
    using assms by (simp add: bucket_inv_def)
  show ?thesis
  proof (cases "d_get (buckets l) k")
    case None
    then show ?thesis using r by (simp add: bucket_level_def)
  next
    case (Some p)
    obtain tok upd where p: "p = (tok, upd)" by force
    have "(t' - upd) * lim_rate l = (t - upd) * lim_rate l + (t' - t) * lim_rate l"
      by (simp add: algebra_simps)
    then show ?thesis using Some p r by (simp add: bucket_level_def)
  qed
qed

lemma take_token_level:
  "take_token l (d_get (buckets l) k) t =
     (if 1 \<le> min (lim_capacity l) (bucket_level l k t)
      then (True, min (lim_capacity l) (bucket_level l k t) - 1, 0)
      else (False, min (lim_capacity l) (bucket_level l k t),
            (1 - min (lim_capacity l) (bucket_level l k t)) / lim_rate l))"
  by (auto simp: take_token_def bucket_level_def Let_def split: option.splits)

lemma take_token_inv:
  assumes "bucket_inv t0 l" "t0 \<le> t"
  shows "take_token l (d_get (buckets l) k) t =
     (if 1 \<le> bucket_level l k t then (True, bucket_level l k t - 1, 0)
      else (False, bucket_level l k t, (1 - bucket_level l k t) / lim_rate l))"
  using bucket_level_bounds [OF assms, of k] by (simp add: take_token_level min_absorb2)

lemma take_token_range:
  assumes "bucket_inv t0 l" "t0 \<le> t"
  shows "0 \<le> fst (snd (take_token l (d_get (buckets l) k) t))"
    "fst (snd (take_token l (d_get (buckets l) k) t)) \<le> lim_capacity l"
  using bucket_level_bounds [OF assms, of k] by (simp_all add: take_token_inv [OF assms])

lemma memory_inv:
  assumes "bucket_inv t0 l" "t0 \<le> t"
  shows "bucket_inv t (snd (consume_memory k t l))"
  using assms take_token_range [OF assms, of k]
  by (auto simp: bucket_inv_def consume_memory_def Let_def split: if_splits; force)

lemma memory_level:
  "bucket_level (snd (consume_memory k t l)) k' t' =
     (if k' = k then min (lim_capacity l) (fst (snd (fst (consume_memory k t l))) + (t' - t) * lim_rate l)
      else bucket_level l k' t')"
  by (simp add: bucket_level_def consume_memory_def Let_def split: option.split)

text \<open>Eviction is invisible: a row goes only after it has long been full again.\<close>

lemma d_get_filter:
  "d_ok tbl \<Longrightarrow> d_get (filter (\<lambda>(k, v). P v) tbl) k =
     (case d_get tbl k of Some v \<Rightarrow> if P v then Some v else None | None \<Rightarrow> None)"
proof (induction tbl)
  case (Cons p tbl)
  obtain k' v where p: "p = (k', v)" by force
  have ok: "d_ok tbl" "d_get tbl k' = None"
    using Cons.prems p by (simp_all add: d_ok_def d_get_None_iff)
  note IH = Cons.IH [OF ok(1)]
  show ?case
  proof (cases "k = k'")
    case True
    then show ?thesis using IH ok(2) p by simp
  next
    case False
    then show ?thesis using IH p by simp
  qed
qed simp

lemma d_get_evict:
  "d_ok tbl \<Longrightarrow> d_get (evict_before t tbl) k =
     (case d_get tbl k of Some (tok, upd) \<Rightarrow> if upd < t then None else Some (tok, upd) | None \<Rightarrow> None)"
  using d_get_filter [of tbl "\<lambda>(tok, upd). \<not> upd < t" k]
  by (auto simp: evict_before_def split: option.splits)

lemma d_ok_evict: "d_ok tbl \<Longrightarrow> d_ok (evict_before t tbl)"
  by (simp add: d_ok_def evict_before_def distinct_map_filter)

lemma evict_level:
  assumes "bucket_inv t l" "t \<le> t'"
  shows "bucket_level (l\<lparr>buckets := evict_before (t - max (of_int (lim_window l) * 4) 3600) (buckets l)\<rparr>) k t' =
    bucket_level l k t'"
proof -
  let ?cut = "t - max (of_int (lim_window l) * 4) 3600 :: rat"
  have ok: "d_ok (buckets l)" using assms(1) by (simp add: bucket_inv_def)
  have full: "lim_capacity l \<le> tok + (t' - upd) * lim_rate l"
    if "d_get (buckets l) k = Some (tok, upd)" "upd < ?cut" for tok upd
  proof -
    have i: "0 \<le> tok" "0 < lim_rate l" "1 \<le> lim_capacity l" "lim_rate l * of_int (lim_window l) = lim_capacity l"
      using assms(1) that(1) by (auto simp: bucket_inv_def)
    have "of_int (lim_window l) * 4 \<le> t' - upd"
      using that(2) assms(2) by linarith
    then have "of_int (lim_window l) * 4 * lim_rate l \<le> (t' - upd) * lim_rate l"
      using i(2) by (intro mult_right_mono) auto
    moreover have "of_int (lim_window l) * 4 * lim_rate l = 4 * lim_capacity l"
      unfolding i(4) [symmetric] by (simp only: ac_simps)
    ultimately show ?thesis using i(1,3) by linarith
  qed
  show ?thesis
    using full by (auto simp: bucket_level_def d_get_evict [OF ok] split: option.splits)
qed

lemma sqlite_via_memory:
  "consume_sqlite k t l = (fst (consume_memory k t l),
     (snd (consume_memory k t l))\<lparr>buckets :=
        evict_before (t - max (of_int (lim_window (snd (consume_memory k t l))) * 4) 3600)
          (buckets (snd (consume_memory k t l)))\<rparr>)"
  by (simp add: consume_sqlite_def consume_memory_def Let_def)

lemma sqlite_inv:
  assumes "bucket_inv t0 l" "t0 \<le> t"
  shows "bucket_inv t (snd (consume_sqlite k t l))"
  using memory_inv [OF assms, of k]
  by (auto simp: sqlite_via_memory bucket_inv_def d_get_evict d_ok_evict split: option.splits if_splits)

lemma sqlite_level:
  assumes "bucket_inv t0 l" "t0 \<le> t" "t \<le> t'"
  shows "bucket_level (snd (consume_sqlite k t l)) k' t' = bucket_level (snd (consume_memory k t l)) k' t'"
  using evict_level [OF memory_inv [OF assms(1,2)] assms(3)] by (simp add: sqlite_via_memory)

interpretation memory: token_bucket lim_capacity lim_rate bucket_inv bucket_level consume_memory
proof (unfold_locales, goal_cases)
  case (1 t0 s)
  then show ?case by (simp add: bucket_inv_def)
next
  case (2 t0 s t k)
  then show ?case by (rule bucket_level_bounds)
next
  case (3 t0 s t t' k)
  then show ?case by (rule bucket_level_refill)
next
  case (4 t0 s t k)
  then show ?case by (rule memory_inv)
next
  case (5 k t s)
  show ?case by (simp add: consume_memory_def Let_def)
next
  case (6 t0 s t k)
  then show ?case by (simp add: consume_memory_def Let_def take_token_inv)
next
  case (7 t0 s t t' k k')
  then show ?case by (simp add: memory_level)
qed

interpretation sqlite: token_bucket lim_capacity lim_rate bucket_inv bucket_level consume_sqlite
proof (unfold_locales, goal_cases)
  case (1 t0 s)
  then show ?case by (simp add: bucket_inv_def)
next
  case (2 t0 s t k)
  then show ?case by (rule bucket_level_bounds)
next
  case (3 t0 s t t' k)
  then show ?case by (rule bucket_level_refill)
next
  case (4 t0 s t k)
  then show ?case by (rule sqlite_inv)
next
  case (5 k t s)
  show ?case by (simp add: consume_sqlite_def Let_def)
next
  case (6 t0 s t k)
  then show ?case by (simp add: consume_sqlite_def Let_def take_token_inv)
next
  case (7 t0 s t t' k k')
  then show ?case
    using sqlite_level [OF 7, of k k'] by (simp add: memory_level sqlite_via_memory)
qed

subsection \<open>The limiter\<close>

abbreviation consume_at :: "str \<Rightarrow> rat \<Rightarrow> limiter \<Rightarrow> verdict \<times> limiter" where
  "consume_at \<equiv> \<lambda>k t. consume k t t"

lemma verdicts_consume:
  "verdicts consume_at xs l =
     (case lim_storage l of Memory \<Rightarrow> verdicts consume_memory xs l | Sqlite \<Rightarrow> verdicts consume_sqlite xs l)"
proof -
  have m: "lim_storage (snd (consume_memory k t l)) = lim_storage l" for k t l
    by (simp add: consume_memory_def Let_def)
  have q: "lim_storage (snd (consume_sqlite k t l)) = lim_storage l" for k t l
    by (simp add: consume_sqlite_def Let_def)
  show ?thesis
  proof (induction xs arbitrary: l)
    case (Cons x xs)
    obtain k t where x: "x = (k, t)" by force
    show ?case
      using Cons [of "snd (consume_memory k t l)"] Cons [of "snd (consume_sqlite k t l)"] m [of k t l] q [of k t l]
      by (cases "consume_memory k t l"; cases "consume_sqlite k t l"; cases "lim_storage l")
        (simp_all add: x consume_def)
  qed (simp split: storage.split)
qed

lemma fresh_params:
  "TokenBucketLimiter requests window st = Inr l \<Longrightarrow>
   lim_capacity l = of_int requests \<and> lim_rate l = of_int requests / of_int window"
  by (auto simp: TokenBucketLimiter_def split: if_splits)

text \<open>
  C11. Whatever the mix of clients and whichever store is used, a limiter for \<open>requests\<close> per
  \<open>window\<close> seconds never admits more than \<open>requests\<close> plus the refill of the elapsed time for
  one key.
\<close>

theorem rate_limit_holds:
  assumes "TokenBucketLimiter requests window st = Inr l" and "in_order t0 xs"
  shows "of_nat (admitted key xs (verdicts consume_at xs l)) \<le>
    (of_int requests + (end_time t0 xs - t0) * (of_int requests / of_int window) :: rat)"
proof (cases "lim_storage l")
  case Memory
  then show ?thesis
    using memory.admitted_cap [OF bucket_inv_fresh [OF assms(1)] assms(2), of key] fresh_params [OF assms(1)]
    by (simp add: verdicts_consume)
next
  case Sqlite
  then show ?thesis
    using sqlite.admitted_cap [OF bucket_inv_fresh [OF assms(1)] assms(2), of key] fresh_params [OF assms(1)]
    by (simp add: verdicts_consume)
qed

definition burst :: "(str \<times> rat) list" where
  "burst = [(''ip:a'', 0), (''ip:a'', 1), (''ip:b'', 1), (''ip:a'', 2), (''ip:a'', 40)]"

lemma rate_limit_holds_witness:
  "(case TokenBucketLimiter 2 60 Sqlite of
      Inr l \<Rightarrow> of_nat (admitted ''ip:a'' burst (verdicts consume_at burst l)) \<le> (2 + 40 * (2 / 60) :: rat) \<and>
               map fst (verdicts consume_at burst l) = [True, True, True, False, True]
    | Inl e \<Rightarrow> False)"
proof -
  obtain l where l: "TokenBucketLimiter 2 60 Sqlite = Inr l"
    by (simp add: TokenBucketLimiter_def)
  have o: "in_order 0 burst" "end_time 0 burst = 40"
    by (simp_all add: burst_def end_time_def)
  have "(case TokenBucketLimiter 2 60 Sqlite of
      Inr l \<Rightarrow> map fst (verdicts consume_at burst l) = [True, True, True, False, True] | Inl e \<Rightarrow> False)"
    by code_simp
  then show ?thesis
    using rate_limit_holds [OF l o(1), of "''ip:a''"] l o(2) by simp
qed

text \<open>The stores agree because eviction cannot be observed.\<close>

definition same_levels :: "rat \<Rightarrow> limiter \<Rightarrow> limiter \<Rightarrow> bool" where
  "same_levels t l m = (lim_capacity l = lim_capacity m \<and> lim_rate l = lim_rate m \<and>
     (\<forall>k t'. t \<le> t' \<longrightarrow> bucket_level l k t' = bucket_level m k t'))"

lemma stores_agree_step:
  assumes "bucket_inv t0 l" "bucket_inv t0 m" "same_levels t0 l m" "t0 \<le> t"
  shows "fst (consume_sqlite k t l) = fst (consume_memory k t m)"
    "same_levels t (snd (consume_sqlite k t l)) (snd (consume_memory k t m))"
proof -
  have lv: "bucket_level l k t = bucket_level m k t" "lim_rate l = lim_rate m" "lim_capacity l = lim_capacity m"
    using assms(3,4) by (simp_all add: same_levels_def)
  show v: "fst (consume_sqlite k t l) = fst (consume_memory k t m)"
    using sqlite.spend_verdict [OF assms(1,4), of k] memory.spend_verdict [OF assms(2,4), of k] lv by simp
  have "bucket_level (snd (consume_sqlite k t l)) k' t' = bucket_level (snd (consume_memory k t m)) k' t'"
    if "t \<le> t'" for k' t'
    using sqlite.spend_level [OF assms(1,4) that, of k k'] memory.spend_level [OF assms(2,4) that, of k k'] v lv
      assms(3,4) that by (simp add: same_levels_def)
  then show "same_levels t (snd (consume_sqlite k t l)) (snd (consume_memory k t m))"
    using sqlite.spend_params [of k t l] memory.spend_params [of k t m] lv by (simp add: same_levels_def)
qed

lemma stores_agree_run:
  "\<lbrakk>bucket_inv t0 l; bucket_inv t0 m; same_levels t0 l m; in_order t0 xs\<rbrakk> \<Longrightarrow>
   verdicts consume_sqlite xs l = verdicts consume_memory xs m"
proof (induction t0 xs arbitrary: l m rule: in_order.induct)
  case (2 t0 k t xs)
  have le: "t0 \<le> t" "in_order t xs" using "2.prems"(4) by simp_all
  note st = stores_agree_step [OF "2.prems"(1-3) le(1), of k]
  have "verdicts consume_sqlite xs (snd (consume_sqlite k t l)) = verdicts consume_memory xs (snd (consume_memory k t m))"
    by (rule "2.IH" [OF sqlite_inv [OF "2.prems"(1) le(1)] memory_inv [OF "2.prems"(2) le(1)] st(2) le(2)])
  then show ?case
    using st(1) by (simp add: case_prod_beta)
qed simp

text \<open>
  C12. The SQLite store with its eviction of old rows gives every request of every client
  exactly the verdict, the remaining tokens and the retry time of the in-memory store.
\<close>

theorem stores_agree:
  assumes "TokenBucketLimiter requests window Sqlite = Inr l" and "TokenBucketLimiter requests window Memory = Inr m"
    and "in_order t0 xs"
  shows "verdicts consume_at xs l = verdicts consume_at xs m"
proof -
  have "same_levels t0 l m" "lim_storage l = Sqlite" "lim_storage m = Memory"
    using assms(1,2) by (auto simp: TokenBucketLimiter_def same_levels_def bucket_level_def split: if_splits)
  then show ?thesis
    using stores_agree_run [OF bucket_inv_fresh [OF assms(1)] bucket_inv_fresh [OF assms(2)] _ assms(3)]
    by (simp add: verdicts_consume)
qed

lemma stores_agree_witness:
  "(case (TokenBucketLimiter 2 60 Sqlite, TokenBucketLimiter 2 60 Memory) of
      (Inr l, Inr m) \<Rightarrow> verdicts consume_at burst l = verdicts consume_at burst m | _ \<Rightarrow> False)"
proof -
  obtain l m where lm: "TokenBucketLimiter 2 60 Sqlite = Inr l" "TokenBucketLimiter 2 60 Memory = Inr m"
    by (simp add: TokenBucketLimiter_def)
  have "in_order 0 burst" by (simp add: burst_def)
  from stores_agree [OF lm this] lm show ?thesis by simp
qed

text \<open>
  A refused client is admitted at the latest when the announced retry time has passed,
  if it sends nothing in between.
\<close>

theorem retry_is_enough:
  assumes "TokenBucketLimiter requests window st = Inr l" and "in_order t0 (xs @ [(k, t), (k, t')])"
    and "verdicts consume_at (xs @ [(k, t), (k, t')]) l = vs @ [(False, tokens, retry), v]" and "t + retry \<le> t'"
  shows "fst v"
proof -
  note b = bucket_inv_fresh [OF assms(1)]
  show ?thesis
  proof (cases "lim_storage l")
    case Memory
    show ?thesis
      by (rule memory.retry_run [OF b assms(2) _ assms(4)]) (use assms(3) Memory in \<open>simp add: verdicts_consume\<close>)
  next
    case Sqlite
    show ?thesis
      by (rule sqlite.retry_run [OF b assms(2) _ assms(4)]) (use assms(3) Sqlite in \<open>simp add: verdicts_consume\<close>)
  qed
qed

lemma retry_is_enough_witness:
  "(case TokenBucketLimiter 1 10 Memory of
      Inr l \<Rightarrow> fst (last (verdicts consume_at [(''a'', 3), (''a'', 4), (''a'', 13)] l)) | Inl e \<Rightarrow> False)"
proof -
  obtain l where l: "TokenBucketLimiter 1 10 Memory = Inr l"
    by (simp add: TokenBucketLimiter_def)
  have "(case TokenBucketLimiter 1 10 Memory of
      Inr l \<Rightarrow> (case verdicts consume_at [(''a'', 3), (''a'', 4), (''a'', 13)] l of
                 [v1, v2, v3] \<Rightarrow> v2 = (False, 1 / 10, 9) | _ \<Rightarrow> False)
    | Inl e \<Rightarrow> False)"
    by code_simp
  with l obtain v1 v3 where v: "verdicts consume_at [(''a'', 3), (''a'', 4), (''a'', 13)] l = [v1, (False, 1 / 10, 9), v3]"
    by (auto split: list.splits)
  have "fst v3"
    by (rule retry_is_enough [OF l, of 0 "[(''a'', 3)]" "''a''" 4 13 "[v1]" "1 / 10" 9]) (use v in simp_all)
  with v l show ?thesis by simp
qed

definition one_per_ten :: "unit sec_world" where
  "one_per_ten = \<lparr>mono_clock = 0, wall_clock = 0,
     limits = (case TokenBucketLimiter 1 10 Memory of Inr l \<Rightarrow> l), guard = \<lparr>max_attempts = 5, block_seconds = 900,
       base_delay = 2, max_delay = 16, failure_statuses = [401, 403], attempts_of = []\<rparr>, inner = ()\<rparr>"

definition call_at :: "rat \<Rightarrow> unit sec_world \<Rightarrow> response result \<times> unit sec_world" where
  "call_at t w =
     (case rate_limit default_key (sample_request ''GET'' ''/'' [], w\<lparr>mono_clock := t\<rparr>)
             (\<lambda>r. (Inr (Response [] 200 [] HTML), r)) of (res, req, w') \<Rightarrow> (res, w'))"

text \<open>
  The announced \<^verbatim>\<open>Retry-After\<close> is not always enough: it adds 0.999 and truncates instead
  of rounding up. With one request per ten seconds, a client refused at 8.9995 s is told to
  wait one second and is refused again after exactly that.
\<close>

theorem retry_header_too_short:
  "(let (r1, w1) = call_at 0 one_per_ten; (r2, w2) = call_at (89995 / 10000) w1;
        (r3, w3) = call_at (89995 / 10000 + 1) w2
    in (case (r1, r2, r3) of
          (Inr _, Inl (HTTPError s2 m2 h2), Inl (HTTPError s3 m3 h3)) \<Rightarrow>
            s2 = 429 \<and> h2 = [(''Retry-After'', ''1'')] \<and> s3 = 429
        | _ \<Rightarrow> False))"
  by code_simp

subsection \<open>The login guard\<close>

text \<open>\<open>fails st d\<close> is a handler that rejects the login with status \<open>st\<close> after \<open>d\<close> seconds.\<close>

definition fails :: "int \<Rightarrow> rat \<Rightarrow> 'w sec_world handler" where
  "fails st d = (\<lambda>(req, w). (Inl (HTTPError st ''denied'' []), req, sleep d w))"

primrec attack :: "nat \<Rightarrow> (request \<Rightarrow> str) \<Rightarrow> 'w sec_world handler \<Rightarrow> 'w sec_world ctx \<Rightarrow> 'w sec_world ctx" where
  "attack 0 key_func h r = r"
| "attack (Suc n) key_func h r = attack n key_func h (snd (bruteforce_protect key_func r h))"

definition guard_ready :: "int \<Rightarrow> 'w sec_world \<Rightarrow> bool" where
  "guard_ready st w = (0 \<le> wall_clock w \<and> 0 \<le> base_delay (guard w) \<and> 0 \<le> max_delay (guard w) \<and>
     st \<in> set (failure_statuses (guard w)) \<and> d_ok (attempts_of (guard w)))"

definition failed_times :: "str \<Rightarrow> 'w sec_world \<Rightarrow> int \<Rightarrow> bool" where
  "failed_times key w a =
     (case d_get (attempts_of (guard w)) key of
        None \<Rightarrow> a = 0 | Some (n, until, u) \<Rightarrow> n = a \<and> until = 0)"

lemma delay_nonneg: "0 \<le> base_delay g \<Longrightarrow> 0 \<le> max_delay g \<Longrightarrow> 0 \<le> delay_for a g"
  by (simp add: delay_for_def)

lemma guard_status_open:
  "failed_times key w a \<Longrightarrow> guard_status key t (guard w) = ((a, 0), guard w)"
  by (auto simp: failed_times_def guard_status_def split: option.splits)

lemma record_failure_entry:
  assumes "d_ok (attempts_of g)" "record_failure key t g = ((n, until), g')"
  shows "d_get (attempts_of g') key = Some (n, until, t)" "d_ok (attempts_of g')"
    "max_attempts g' = max_attempts g" "block_seconds g' = block_seconds g" "base_delay g' = base_delay g"
    "max_delay g' = max_delay g" "failure_statuses g' = failure_statuses g"
proof -
  let ?P = "\<lambda>(a, b, upd). \<not> upd < t - max (of_int (block_seconds g) * 4) 86400"
  have tbl: "attempts_of g' = filter (\<lambda>(k, v). ?P v) (d_set key (n, until, t) (attempts_of g))"
    using assms(2) by (auto simp: record_failure_def Let_def case_prod_beta' intro!: filter_cong)
  have "\<not> t < t - max (of_int (block_seconds g) * 4) 86400" by simp
  then show "d_get (attempts_of g') key = Some (n, until, t)"
    unfolding tbl by (subst d_get_filter) (use assms(1) in auto)
  show "d_ok (attempts_of g')"
    using assms(1) by (simp add: tbl d_ok_def distinct_map_filter d_ok_set [unfolded d_ok_def])
  show "max_attempts g' = max_attempts g" "block_seconds g' = block_seconds g" "base_delay g' = base_delay g"
    "max_delay g' = max_delay g" "failure_statuses g' = failure_statuses g"
    using assms(2) by (auto simp: record_failure_def Let_def)
qed

lemma failing_call:
  assumes "guard_ready st w" "failed_times (key_func req) w a" "0 \<le> d"
  shows "\<exists>w' t. bruteforce_protect key_func (req, w) (fails st d) = (fst (bruteforce_protect key_func (req, w) (fails st d)), req, w') \<and>
    guard_ready st w' \<and> t \<le> wall_clock w' \<and> max_attempts (guard w') = max_attempts (guard w) \<and>
    block_seconds (guard w') = block_seconds (guard w) \<and>
    d_get (attempts_of (guard w')) (key_func req) =
      Some (a + 1, if max_attempts (guard w) \<le> a + 1 then t + of_int (block_seconds (guard w)) else 0, t)"
proof -
  let ?g = "guard w"
  let ?t = "wall_clock w + delay_for a ?g + d"
  obtain n until g' where rf: "record_failure (key_func req) ?t ?g = ((n, until), g')"
    by (metis surj_pair)
  note e = record_failure_entry [OF _ rf]
  have ok: "d_ok (attempts_of ?g)" "0 \<le> wall_clock w" "0 \<le> delay_for a ?g" "st \<in> set (failure_statuses ?g)"
    "0 \<le> base_delay ?g" "0 \<le> max_delay ?g"
    using assms(1) delay_nonneg by (auto simp: guard_ready_def)
  have n: "n = a + 1" "until = (if max_attempts ?g \<le> a + 1 then ?t + of_int (block_seconds ?g) else 0)"
    using rf assms(2) by (auto simp: record_failure_def Let_def failed_times_def split: option.splits)
  let ?w1 = "sleep d (sleep (delay_for a ?g) w)"
  let ?w2 = "sleep (delay_for n g') (?w1\<lparr>guard := g'\<rparr>)"
  have "snd (bruteforce_protect key_func (req, w) (fails st d)) = (req, ?w2)"
    using ok assms(2) rf
    by (simp add: bruteforce_protect_def with_guard_def guard_status_open fails_def sleep_def Let_def)
  moreover have "guard_ready st ?w2"
    using ok e [OF ok(1)] assms(3) delay_nonneg [of g' n] by (simp add: guard_ready_def sleep_def)
  moreover have "?t \<le> wall_clock ?w2" "guard ?w2 = g'"
    using delay_nonneg [of g' n] e [OF ok(1)] ok by (simp_all add: sleep_def)
  ultimately show ?thesis
    using e [OF ok(1)] n by (intro exI [of _ ?w2] exI [of _ ?t]) (auto simp: prod_eq_iff)
qed

text \<open>
  After as many failures in a row as the guard allows, the key is locked out: until the
  block ends every further request for it is refused with 403 before the handler runs, and
  nothing else changes.
\<close>

theorem bruteforce_locks_out:
  fixes w :: "'w sec_world"
  assumes "guard_ready st w" and "d_get (attempts_of (guard w)) (key_func req) = None" and "0 \<le> d"
    and "int n = max_attempts (guard w)" and "0 < n"
  shows "\<exists>w' t. attack n key_func (fails st d) (req, w) = (req, w') \<and> t \<le> wall_clock w' \<and>
    (\<forall>(w'' :: 'w sec_world) next. guard w'' = guard w' \<and> wall_clock w'' < t + of_int (block_seconds (guard w)) \<longrightarrow>
       (\<exists>hs. bruteforce_protect key_func (req, w'') next = (Inl (HTTPError 403 ''Temporarily blocked'' hs), req, w'')))"
proof -
  let ?key = "key_func req"
  have run: "\<lbrakk>guard_ready st v; failed_times ?key v a; a + int m = max_attempts (guard v); 0 < m\<rbrakk> \<Longrightarrow>
    \<exists>w' t n. attack m key_func (fails st d) (req, v) = (req, w') \<and> t \<le> wall_clock w' \<and>
      d_get (attempts_of (guard w')) ?key = Some (n, t + of_int (block_seconds (guard v)), t)" for m a v
  proof (induction m arbitrary: a v)
    case (Suc m)
    obtain v' t where v': "snd (bruteforce_protect key_func (req, v) (fails st d)) = (req, v')"
      "guard_ready st v'" "t \<le> wall_clock v'" "max_attempts (guard v') = max_attempts (guard v)"
      "block_seconds (guard v') = block_seconds (guard v)"
      "d_get (attempts_of (guard v')) ?key =
        Some (a + 1, if max_attempts (guard v) \<le> a + 1 then t + of_int (block_seconds (guard v)) else 0, t)"
      using failing_call [where key_func = key_func and req = req, OF Suc.prems(1,2) assms(3)] by (metis snd_conv)
    show ?case
    proof (cases m)
      case 0
      then show ?thesis using v' Suc.prems(3) by auto
    next
      case (Suc m')
      then have "failed_times ?key v' (a + 1)"
        using v'(6) Suc.prems(3) by (simp add: failed_times_def)
      from Suc.IH [OF v'(2) this] Suc.prems(3) Suc v' show ?thesis by auto
    qed
  qed simp
  obtain w' t n' where w': "attack n key_func (fails st d) (req, w) = (req, w')" "t \<le> wall_clock w'"
    "d_get (attempts_of (guard w')) ?key = Some (n', t + of_int (block_seconds (guard w)), t)"
    using run [of w 0 n] assms by (auto simp: failed_times_def)
  have "\<exists>hs. bruteforce_protect key_func (req, w'') next = (Inl (HTTPError 403 ''Temporarily blocked'' hs), req, w'')"
    if "guard w'' = guard w'" "wall_clock w'' < t + of_int (block_seconds (guard w))" for w'' :: "'w sec_world" and "next"
    using that w'(3) by (auto simp: bruteforce_protect_def with_guard_def guard_status_def Let_def)
  with w'(1,2) show ?thesis by blast
qed

definition login_world :: "unit sec_world" where
  "login_world = one_per_ten\<lparr>wall_clock := 1000, guard := (guard one_per_ten)\<lparr>max_attempts := 3\<rparr>\<rparr>"

lemma bruteforce_locks_out_witness:
  "\<exists>w' t. attack 3 default_key (fails 401 1) (sample_request ''POST'' ''/login'' [], login_world) =
      (sample_request ''POST'' ''/login'' [], w') \<and> t \<le> wall_clock w'"
proof -
  have "guard_ready 401 login_world" "d_get (attempts_of (guard login_world)) (default_key (sample_request ''POST'' ''/login'' [])) = None"
    "int 3 = max_attempts (guard login_world)"
    by (simp_all add: login_world_def one_per_ten_def guard_ready_def)
  from bruteforce_locks_out [where d = 1 and n = 3 and key_func = default_key and req = "sample_request ''POST'' ''/login'' []", OF this(1,2) _ this(3)] show ?thesis by auto
qed

end
