(* ===== verification/Injection.thy ===== *)
theory Injection
  imports Router
begin

section \<open>Dependency injection (\<^verbatim>\<open>router.py\<close>)\<close>

text \<open>
  Providers and handlers are callables of the application: a signature (what
  \<^verbatim>\<open>inspect.signature\<close> shows), the \<^verbatim>\<open>_scope\<close> attribute a decorator may have set, and a body that
  maps the keyword arguments and the state to an object or an exception. A provider is known
  by its name. The depth is the number of interpreter frames left.
\<close>

record marker =
  m_provider :: str
  m_scope :: "str option"

datatype param = PReq | PInject marker | PPlain

datatype arg = AReq | AObj obj

type_synonym kwargs = "(str \<times> arg) list"

text \<open>The router's singleton cache lives beside the application's state.\<close>

record 'w di_world =
  singletons :: "(str, obj) dict"
  overrides :: "(str, str) dict"
  outer :: 'w

record 'w provider =
  p_params :: "(str \<times> param) list"
  p_attr :: "str option"
  p_call :: "kwargs \<Rightarrow> 'w di_world ctx \<Rightarrow> obj result \<times> 'w di_world ctx"

text \<open>\<open>dependency scope\<close> is the decorator: it refuses unknown scopes and normalises \<^verbatim>\<open>scoped\<close>.\<close>

definition dependency :: "str \<Rightarrow> 'w provider \<Rightarrow> 'w provider result" where
  "dependency scope p =
     (if scope \<notin> {''transient'', ''request'', ''scoped'', ''singleton''} then Inl (PyError ''ValueError'')
      else Inr (p\<lparr>p_attr := Some (if scope = ''scoped'' then ''request'' else scope)\<rparr>))"

definition transient :: "'w provider \<Rightarrow> 'w provider result" where
  "transient p = dependency ''transient'' p"

definition request_scoped :: "'w provider \<Rightarrow> 'w provider result" where
  "request_scoped p = dependency ''request'' p"

definition singleton :: "'w provider \<Rightarrow> 'w provider result" where
  "singleton p = dependency ''singleton'' p"

definition effective_scope :: "(str \<Rightarrow> 'w provider) \<Rightarrow> marker \<Rightarrow> str \<Rightarrow> str" where
  "effective_scope tbl m p =
     (let s = (case m_scope m of
                 Some (c # cs) \<Rightarrow> c # cs
               | _ \<Rightarrow> (case p_attr (tbl p) of
                         Some s \<Rightarrow> s
                       | None \<Rightarrow> (case p_attr (tbl (m_provider m)) of Some s \<Rightarrow> s | None \<Rightarrow> ''transient'')))
      in if s = ''scoped'' then ''request'' else s)"

definition chosen :: "'w di_world \<Rightarrow> marker \<Rightarrow> str" where
  "chosen w m = (case d_get (overrides w) (m_provider m) of Some p \<Rightarrow> p | None \<Rightarrow> m_provider m)"

text \<open>The loop over the signature: \<open>with_req\<close> tells providers (which get the request) from handlers.\<close>

fun gather :: "bool \<Rightarrow> (marker \<Rightarrow> 'w di_world ctx \<Rightarrow> obj result \<times> 'w di_world ctx) \<Rightarrow>
    (str \<times> param) list \<Rightarrow> 'w di_world ctx \<Rightarrow> kwargs result \<times> 'w di_world ctx" where
  "gather with_req res [] r = (Inr [], r)"
| "gather with_req res ((name, p) # ps) r =
     (if name = ''req'' \<or> p = PReq then
        sbind (gather with_req res ps r) (\<lambda>kw r. (Inr (if with_req then (name, AReq) # kw else kw), r))
      else (case p of
          PInject m \<Rightarrow> sbind (res m r) (\<lambda>v r. sbind (gather with_req res ps r) (\<lambda>kw r. (Inr ((name, AObj v) # kw), r)))
        | _ \<Rightarrow> gather with_req res ps r))"

definition invoke_provider :: "(str \<Rightarrow> 'w provider) \<Rightarrow> (marker \<Rightarrow> 'w di_world ctx \<Rightarrow> obj result \<times> 'w di_world ctx) \<Rightarrow>
    str \<Rightarrow> 'w di_world ctx \<Rightarrow> obj result \<times> 'w di_world ctx" where
  "invoke_provider tbl res p r =
     sbind (gather True res (p_params (tbl p)) r) (\<lambda>kw r. p_call (tbl p) kw r)"

primrec resolve_dependency :: "nat \<Rightarrow> (str \<Rightarrow> 'w provider) \<Rightarrow> marker \<Rightarrow> 'w di_world ctx \<Rightarrow> obj result \<times> 'w di_world ctx" where
  "resolve_dependency 0 tbl m r = (Inl (PyError ''RecursionError''), r)"
| "resolve_dependency (Suc depth) tbl m r =
     (let p = chosen (snd r) m; scope = effective_scope tbl m p;
          make = invoke_provider tbl (resolve_dependency depth tbl) p
      in if scope = ''singleton'' then
           (case d_get (singletons (snd r)) p of
              Some v \<Rightarrow> (Inr v, r)
            | None \<Rightarrow> sbind (make r) (\<lambda>v (req, w). (Inr v, (req, w\<lparr>singletons := d_set p v (singletons w)\<rparr>))))
         else if scope = ''request'' then
           (case d_get (di_cache (fst r)) p of
              Some v \<Rightarrow> (Inr v, r)
            | None \<Rightarrow> sbind (make r) (\<lambda>v (req, w). (Inr v, (req\<lparr>di_cache := d_set p v (di_cache req)\<rparr>, w))))
         else make r)"

text \<open>\<^verbatim>\<open>_call_handler\<close>.\<close>

record 'w di_handler =
  h_params :: "(str \<times> param) list"
  h_call :: "kwargs \<Rightarrow> 'w di_world handler"

definition call_handler :: "nat \<Rightarrow> (str \<Rightarrow> 'w provider) \<Rightarrow> 'w di_handler \<Rightarrow> 'w di_world handler" where
  "call_handler depth tbl h r =
     sbind (gather False (resolve_dependency depth tbl) (h_params h) r) (\<lambda>kw r. h_call h kw r)"

subsection \<open>Caches\<close>

text \<open>What the code expects of providers: their bodies leave the two caches and the overrides alone.\<close>

definition tidy :: "(str \<Rightarrow> 'w provider) \<Rightarrow> bool" where
  "tidy tbl = (\<forall>p kw r. di_cache (fst (snd (p_call (tbl p) kw r))) = di_cache (fst r) \<and>
     singletons (snd (snd (p_call (tbl p) kw r))) = singletons (snd r) \<and>
     overrides (snd (snd (p_call (tbl p) kw r))) = overrides (snd r))"

text \<open>\<open>keeps r r'\<close>: no cached object is lost or replaced.\<close>

definition keeps :: "'w di_world ctx \<Rightarrow> 'w di_world ctx \<Rightarrow> bool" where
  "keeps r r' = (overrides (snd r') = overrides (snd r) \<and>
     (\<forall>p v. d_get (singletons (snd r)) p = Some v \<longrightarrow> d_get (singletons (snd r')) p = Some v) \<and>
     (\<forall>p v. d_get (di_cache (fst r)) p = Some v \<longrightarrow> d_get (di_cache (fst r')) p = Some v))"

lemma keeps_refl [simp]: "keeps r r"
  by (simp add: keeps_def)

lemma keeps_trans: "keeps r r' \<Longrightarrow> keeps r' r'' \<Longrightarrow> keeps r r''"
  by (simp add: keeps_def)

lemma keeps_sbind:
  "keeps r (snd m) \<Longrightarrow> (\<And>a t. m = (Inr a, t) \<Longrightarrow> keeps t (snd (f a t))) \<Longrightarrow> keeps r (snd (sbind m f))"
  by (cases m; cases "fst m") (auto simp: sbind_def intro: keeps_trans)

lemma gather_keeps:
  assumes "\<And>m r. keeps r (snd (res m r))"
  shows "keeps r (snd (gather b res ps r))"
proof (induction ps arbitrary: r)
  case (Cons x ps)
  obtain name p where x: "x = (name, p)" by force
  show ?case
  proof (cases "name = ''req'' \<or> p = PReq")
    case True
    then show ?thesis by (simp add: x keeps_sbind [OF Cons.IH])
  next
    case False
    then show ?thesis
      by (cases p) (auto simp: x Cons.IH intro!: keeps_sbind [OF assms] keeps_sbind [OF Cons.IH])
  qed
qed simp

lemma invoke_keeps: "tidy tbl \<Longrightarrow> (\<And>m r. keeps r (snd (res m r))) \<Longrightarrow> keeps r (snd (invoke_provider tbl res p r))"
  unfolding invoke_provider_def
  by (rule keeps_sbind [OF gather_keeps]) (auto simp: tidy_def keeps_def)

lemma resolve_keeps: "tidy tbl \<Longrightarrow> keeps r (snd (resolve_dependency depth tbl m r))"
proof (induction depth arbitrary: m r)
  case (Suc depth)
  let ?p = "chosen (snd r) m"
  obtain x r1 where i: "invoke_provider tbl (resolve_dependency depth tbl) ?p r = (x, r1)" by (meson surj_pair)
  have "keeps r (snd (invoke_provider tbl (resolve_dependency depth tbl) ?p r))"
    by (rule invoke_keeps [OF Suc.prems]) (rule Suc.IH [OF Suc.prems])
  then have k: "keeps r r1" using i by simp
  then show ?case
    using i by (cases x; cases r1) (auto simp: Let_def keeps_def split: option.split)
qed simp


text \<open>The sample container has a request-scoped session that needs a singleton pool.\<close>

definition sample_providers :: "str \<Rightarrow> nat provider" where
  "sample_providers p =
     (if p = ''session'' then \<lparr>p_params = [(''req'', PReq), (''pool'', PInject \<lparr>m_provider = ''pool'', m_scope = None\<rparr>)],
         p_attr = Some ''request'',
         p_call = (\<lambda>kw (req, w). (Inr (outer w), req, w\<lparr>outer := Suc (outer w)\<rparr>))\<rparr>
      else \<lparr>p_params = [], p_attr = Some ''singleton'',
         p_call = (\<lambda>kw (req, w). (Inr (outer w), req, w\<lparr>outer := Suc (outer w)\<rparr>))\<rparr>)"


end
