(* ===== verification/Sessions.thy ===== *)
theory Sessions
  imports Security_Props
begin

section \<open>The token blocklist (\<^verbatim>\<open>sessions.py\<close>)\<close>

text \<open>
  \<^verbatim>\<open>SQLiteJWTBlocklist\<close>: the table shared by all processes and the cache of one process. The
  two clocks a method reads are its arguments. \<open>Foreign\<close> is the upsert of another process.
\<close>

record blocklist =
  cache_ttl :: rat
  bl_cache :: "(ustr, bool \<times> rat) dict"
  bl_table :: "(ustr, int \<times> int \<times> str) dict"

definition Blocklist :: "rat \<Rightarrow> (ustr, int \<times> int \<times> str) dict \<Rightarrow> blocklist" where
  "Blocklist ttl tbl = \<lparr>cache_ttl = ttl, bl_cache = [], bl_table = tbl\<rparr>"

definition revoke :: "ustr \<Rightarrow> int \<Rightarrow> str \<Rightarrow> rat \<Rightarrow> rat \<Rightarrow> blocklist \<Rightarrow> unit result \<times> blocklist" where
  "revoke jti expiry reason t w b =
     (if jti = [] then (Inl (PyError ''ValueError''), b)
      else (Inr (), b\<lparr>bl_table := d_set jti (expiry, trunc w, reason) (bl_table b),
                      bl_cache := d_set jti (True, t + cache_ttl b) (bl_cache b)\<rparr>))"

definition row_active :: "ustr \<Rightarrow> int \<Rightarrow> blocklist \<Rightarrow> bool" where
  "row_active jti n b = (case d_get (bl_table b) jti of Some (expiry, _, _) \<Rightarrow> n \<le> expiry | None \<Rightarrow> False)"

definition is_revoked :: "ustr \<Rightarrow> rat \<Rightarrow> rat \<Rightarrow> blocklist \<Rightarrow> bool \<times> blocklist" where
  "is_revoked jti t w b =
     (if jti = [] then (False, b)
      else
        (let fresh = (let revoked = row_active jti (trunc w) b
                      in (revoked, b\<lparr>bl_cache := d_set jti (revoked, t + cache_ttl b) (bl_cache b)\<rparr>))
         in case d_get (bl_cache b) jti of
              Some (v, until) \<Rightarrow> if t < until then (v, b) else fresh
            | None \<Rightarrow> fresh))"

definition cleanup_expired :: "rat \<Rightarrow> blocklist \<Rightarrow> int \<times> blocklist" where
  "cleanup_expired w b =
     (let kept = filter (\<lambda>(j, expiry, r, why). \<not> expiry < trunc w) (bl_table b)
      in (int (length (bl_table b)) - int (length kept), b\<lparr>bl_table := kept, bl_cache := []\<rparr>))"

subsection \<open>Histories\<close>

datatype bl_op = Revoke ustr int str | Foreign ustr int str | Check ustr | Cleanup

fun bl_step :: "bl_op \<times> rat \<times> rat \<Rightarrow> blocklist \<Rightarrow> blocklist" where
  "bl_step (Revoke j e why, t, w) b = snd (revoke j e why t w b)"
| "bl_step (Foreign j e why, t, w) b = b\<lparr>bl_table := d_set j (e, trunc w, why) (bl_table b)\<rparr>"
| "bl_step (Check j, t, w) b = snd (is_revoked j t w b)"
| "bl_step (Cleanup, t, w) b = snd (cleanup_expired w b)"

fun bl_run :: "(bl_op \<times> rat \<times> rat) list \<Rightarrow> blocklist \<Rightarrow> blocklist" where
  "bl_run [] b = b"
| "bl_run (x # xs) b = bl_run xs (bl_step x b)"

text \<open>Clocks do not run backwards, and no operation shortens the revocation of \<open>jti\<close> below \<open>expiry\<close>.\<close>

fun bl_ordered :: "rat \<Rightarrow> rat \<Rightarrow> (bl_op \<times> rat \<times> rat) list \<Rightarrow> rat \<Rightarrow> rat \<Rightarrow> bool" where
  "bl_ordered t0 w0 [] t w = (t0 \<le> t \<and> w0 \<le> w)"
| "bl_ordered t0 w0 ((x, t1, w1) # xs) t w = (t0 \<le> t1 \<and> w0 \<le> w1 \<and> bl_ordered t1 w1 xs t w)"

fun keeps_exp :: "ustr \<Rightarrow> int \<Rightarrow> bl_op \<Rightarrow> bool" where
  "keeps_exp jti expiry (Revoke j e why) = (j = jti \<longrightarrow> expiry \<le> e)"
| "keeps_exp jti expiry (Foreign j e why) = (j = jti \<longrightarrow> expiry \<le> e)"
| "keeps_exp jti expiry op = True"

lemma trunc_mono: "x \<le> y \<Longrightarrow> trunc x \<le> trunc y"
  by (auto simp: trunc_def floor_mono) (metis (mono_tags, opaque_lifting) add.inverse_neutral floor_mono floor_zero
      le_minus_iff linorder_linear neg_0_le_iff_le order.trans zero_le_floor)

text \<open>The invariant of a revocation made at \<open>t0\<close>: its row stays, and stale denials die with their time.\<close>

definition revoked_inv :: "ustr \<Rightarrow> int \<Rightarrow> rat \<Rightarrow> blocklist \<Rightarrow> bool" where
  "revoked_inv jti expiry t0 b =
     ((\<exists>e r why. d_get (bl_table b) jti = Some (e, r, why) \<and> expiry \<le> e) \<and>
      (\<forall>u. d_get (bl_cache b) jti = Some (False, u) \<longrightarrow> u \<le> t0 + cache_ttl b))"

lemma revoked_inv_step:
  assumes "revoked_inv jti expiry t0 b" "keeps_exp jti expiry x" "trunc w \<le> expiry" "d_ok (bl_table b)"
  shows "revoked_inv jti expiry t0 (bl_step (x, t, w) b)" "cache_ttl (bl_step (x, t, w) b) = cache_ttl b"
    "d_ok (bl_table (bl_step (x, t, w) b))"
proof -
  have row: "row_active jti (trunc w) b"
    using assms(1,3) by (auto simp: revoked_inv_def row_active_def)
  have chk: "d_get (bl_cache (snd (is_revoked j t w b))) jti =
      (if j = jti \<and> j \<noteq> [] \<and> \<not> (\<exists>v u. d_get (bl_cache b) j = Some (v, u) \<and> t < u)
       then Some (True, t + cache_ttl b) else d_get (bl_cache b) jti)"
    "bl_table (snd (is_revoked j t w b)) = bl_table b" "cache_ttl (snd (is_revoked j t w b)) = cache_ttl b" for j
    using row by (auto simp: is_revoked_def Let_def split: option.splits)
  have f: "d_get (filter (\<lambda>(j, expiry, r, why). \<not> expiry < trunc w) (bl_table b)) jti =
      (case d_get (bl_table b) jti of Some (e, r, why) \<Rightarrow> if \<not> e < trunc w then Some (e, r, why) else None | None \<Rightarrow> None)"
    using d_get_filter [OF assms(4), of "\<lambda>(e, r, why). \<not> e < trunc w" jti] by (auto split: option.splits)
  show "revoked_inv jti expiry t0 (bl_step (x, t, w) b)"
  proof (cases x)
    case (Check j)
    then show ?thesis
      using assms(1) chk [of j] by (auto simp: revoked_inv_def)
  next
    case Cleanup
    then show ?thesis
      using assms(1,3) f by (auto simp: revoked_inv_def cleanup_expired_def Let_def)
  qed (use assms(1,2) in \<open>auto simp: revoked_inv_def revoke_def\<close>)
  show "cache_ttl (bl_step (x, t, w) b) = cache_ttl b"
    using chk(3) by (cases x) (auto simp: revoke_def cleanup_expired_def Let_def)
  show "d_ok (bl_table (bl_step (x, t, w) b))"
    using assms(4) chk(2) by (cases x)
      (auto simp: revoke_def cleanup_expired_def Let_def d_ok_def distinct_map_filter d_ok_set [unfolded d_ok_def])
qed

lemma bl_ordered_le: "bl_ordered t0 w0 xs t w \<Longrightarrow> w0 \<le> w"
  by (induction t0 w0 xs t w rule: bl_ordered.induct) auto

lemma revoked_inv_run:
  "\<lbrakk>revoked_inv jti expiry t1 b; \<forall>x\<in>set xs. keeps_exp jti expiry (fst x); bl_ordered t0 w0 xs t w; trunc w \<le> expiry;
    d_ok (bl_table b)\<rbrakk> \<Longrightarrow>
   revoked_inv jti expiry t1 (bl_run xs b) \<and> cache_ttl (bl_run xs b) = cache_ttl b"
proof (induction t0 w0 xs t w arbitrary: b rule: bl_ordered.induct)
  case (2 t0 w0 x t2 w2 xs t w)
  have "trunc w2 \<le> expiry"
    using bl_ordered_le [of t2 w2 xs t w] "2.prems"(3,4) trunc_mono [of w2 w] by simp
  note st = revoked_inv_step [OF "2.prems"(1) _ this "2.prems"(5), of x t2]
  show ?case
    using "2.IH" [OF st(1) _ _ "2.prems"(4) st(3)] st(2) "2.prems"(2,3) by simp
qed simp

text \<open>
  A revocation is seen everywhere after one cache lifetime: once a row for a token is in
  the table, written by this or another process, then whatever happens afterwards, except a
  second revocation with an earlier expiry, every check at least \<^verbatim>\<open>cache_ttl\<close> later and before
  the token expires answers that it is revoked.
\<close>

theorem revocation_lag:
  assumes "jti \<noteq> []" and "d_ok (bl_table b)"
    and "d_get (bl_table b) jti = Some (expiry, r, why)"
    and "\<And>v u. d_get (bl_cache b) jti = Some (v, u) \<Longrightarrow> u \<le> t0 + cache_ttl b"
    and "bl_ordered t0 w0 ops t w" and "\<forall>x\<in>set ops. keeps_exp jti expiry (fst x)"
    and "t0 + cache_ttl b \<le> t" and "trunc w \<le> expiry"
  shows "fst (is_revoked jti t w (bl_run ops b))"
proof -
  have "revoked_inv jti expiry t0 b"
    using assms(3,4) by (auto simp: revoked_inv_def)
  from revoked_inv_run [OF this assms(6,5,8,2)] have i: "revoked_inv jti expiry t0 (bl_run ops b)"
    "cache_ttl (bl_run ops b) = cache_ttl b" by simp_all
  have "row_active jti (trunc w) (bl_run ops b)"
    using i(1) assms(8) by (auto simp: revoked_inv_def row_active_def)
  moreover have "v" if "d_get (bl_cache (bl_run ops b)) jti = Some (v, u)" "t < u" for v u
    using that i assms(7) by (cases v) (auto simp: revoked_inv_def)
  ultimately show ?thesis
    using assms(1) by (auto simp: is_revoked_def Let_def split: option.splits)
qed

definition sample_blocklist :: blocklist where
  "sample_blocklist = (Blocklist 5 [((uni ''j1''), 500, 90, [])])\<lparr>bl_cache := [((uni ''j1''), False, 14)]\<rparr>"

lemma revocation_lag_witness:
  "fst (is_revoked (uni ''j1'') 16 106 (bl_run [(Check (uni ''j1''), 11, 101), (Cleanup, 12, 102), (Check (uni ''j1''), 13, 103)] sample_blocklist))
   \<and> \<not> fst (is_revoked (uni ''j1'') 11 101 sample_blocklist)"
proof
  show "fst (is_revoked (uni ''j1'') 16 106 (bl_run [(Check (uni ''j1''), 11, 101), (Cleanup, 12, 102), (Check (uni ''j1''), 13, 103)] sample_blocklist))"
    by (rule revocation_lag [of _ _ 500 90 "[]" 10 100])
      (simp_all add: sample_blocklist_def Blocklist_def d_ok_def trunc_def uni_def split: if_splits)
  show "\<not> fst (is_revoked (uni ''j1'') 11 101 sample_blocklist)"
    by code_simp
qed

text \<open>
  Revoking takes effect at once in the revoking process: any later check before the
  token's expiry answers that it is revoked.
\<close>

theorem revoke_immediate:
  assumes "revoke jti expiry reason t w b = (Inr (), b')" and "trunc w' \<le> expiry"
  shows "fst (is_revoked jti t' w' b')"
  using assms by (auto simp: revoke_def is_revoked_def row_active_def Let_def split: if_splits)

lemma revoke_immediate_witness:
  "fst (is_revoked (uni ''j2'') 40 140 (snd (revoke (uni ''j2'') 200 ''logout'' 20 120 sample_blocklist)))"
  by (rule revoke_immediate [of _ 200 "''logout''" 20 120 sample_blocklist])
    (simp_all add: revoke_def trunc_def uni_def)

text \<open>
  A second revocation of the same token with an earlier expiry cancels the first: the
  upsert overwrites the expiry, and after the cache lifetime the token counts as valid again.
\<close>

theorem second_revoke_cancels:
  "(let b1 = snd (revoke (uni ''j'') 1000 ''stolen'' 0 100 (Blocklist 5 []));
        b2 = snd (revoke (uni ''j'') 0 ''logout'' 1 101 b1)
    in fst (is_revoked (uni ''j'') 7 107 b1) \<and> \<not> fst (is_revoked (uni ''j'') 7 107 b2))"
  by code_simp

end
