(* ===== verification/Middleware.thy ===== *)
theory Middleware
  imports Static Security
begin

section \<open>CORS, CSRF and compression (\<^verbatim>\<open>middleware.py\<close>)\<close>

text \<open>
  The three middlewares act on the response of the rest of the chain. The random token and
  the two compressors are arguments.
\<close>

subsection \<open>\<^verbatim>\<open>CORSMiddleware\<close>\<close>

record cors =
  c_origins :: "str list"
  c_methods :: str
  c_headers :: str
  c_credentials :: bool
  c_max_age :: str

definition CORSMiddleware :: "str list \<Rightarrow> str list \<Rightarrow> str list \<Rightarrow> bool \<Rightarrow> int \<Rightarrow> cors" where
  "CORSMiddleware origins methods hs credentials max_age =
     \<lparr>c_origins = origins, c_methods = join '', '' methods, c_headers = join '', '' hs,
      c_credentials = credentials, c_max_age = show_int max_age\<rparr>"

definition cors_origin :: "cors \<Rightarrow> request \<Rightarrow> str" where
  "cors_origin c req =
     (let origin = header req ''origin'' in
      if ''*'' \<in> set (c_origins c) then (if \<not> c_credentials c then ''*'' else origin)
      else if origin \<in> set (c_origins c) then origin else [])"

definition add_cors :: "cors \<Rightarrow> str \<Rightarrow> response \<Rightarrow> response" where
  "add_cors c origin resp =
     (if origin = [] then resp
      else (let resp = set_header ''Access-Control-Max-Age'' (c_max_age c)
                 (set_header ''Access-Control-Allow-Headers'' (c_headers c)
                 (set_header ''Access-Control-Allow-Methods'' (c_methods c)
                 (set_header ''Vary'' ''Origin''
                 (set_header ''Access-Control-Allow-Origin'' origin resp))))
            in if c_credentials c then set_header ''Access-Control-Allow-Credentials'' ''true'' resp else resp))"

definition cors_middleware :: "cors \<Rightarrow> 'w middleware" where
  "cors_middleware c r next =
     (let origin = cors_origin c (fst r) in
      sbind (if q_method (fst r) = ''OPTIONS'' then (Inr (Response [] 204 [] HTML), r) else next r)
        (\<lambda>resp r. (Inr (add_cors c origin resp), r)))"

subsection \<open>\<^verbatim>\<open>CSRFMiddleware\<close>\<close>

definition SAFE :: "str list" where
  "SAFE = [''GET'', ''HEAD'', ''OPTIONS'', ''TRACE'']"

text \<open>\<^verbatim>\<open>secrets.compare_digest\<close> on text: it raises on characters outside ASCII.\<close>

definition compare_digest :: "str \<Rightarrow> str \<Rightarrow> bool result" where
  "compare_digest a b =
     (if list_all (\<lambda>c. code c < 128) a \<and> list_all (\<lambda>c. code c < 128) b then Inr (a = b)
      else Inl (PyError ''TypeError''))"

definition csrf_check :: "str \<Rightarrow> str \<Rightarrow> request \<Rightarrow> unit result" where
  "csrf_check cookie_name header_name req =
     (if q_method req \<in> set SAFE then Inr ()
      else (case d_get (cookies req) cookie_name of
              Some (c # cs) \<Rightarrow>
                (let hd = header req (lower header_name) in
                 if hd = [] then Inl (err 403 ''CSRF validation failed'')
                 else rbind (compare_digest (c # cs) hd) (\<lambda>same.
                        if same then Inr () else Inl (err 403 ''CSRF validation failed'')))
            | _ \<Rightarrow> Inl (err 403 ''CSRF validation failed'')))"

definition csrf_cookie :: "str \<Rightarrow> str \<Rightarrow> str" where
  "csrf_cookie name token = name @ ''='' @ token @ ''; Path=/; SameSite=Lax; HttpOnly''"

definition setdefault_header :: "str \<Rightarrow> str \<Rightarrow> response \<Rightarrow> response" where
  "setdefault_header k v resp = resp\<lparr>r_headers := d_setdefault k v (r_headers resp)\<rparr>"

definition csrf_middleware :: "str \<Rightarrow> str \<Rightarrow> str \<Rightarrow> 'w middleware" where
  "csrf_middleware cookie_name header_name token r next =
     (case csrf_check cookie_name header_name (fst r) of
        Inl e \<Rightarrow> (Inl e, r)
      | Inr _ \<Rightarrow>
          sbind (next r) (\<lambda>resp r.
            (Inr (if d_get (cookies (fst r)) cookie_name = None
                  then setdefault_header ''Set-Cookie'' (csrf_cookie cookie_name token) resp else resp), r)))"

subsection \<open>\<^verbatim>\<open>CompressionMiddleware\<close> and \<^verbatim>\<open>GZipMiddleware\<close>\<close>

record compressors =
  gzip :: "int \<Rightarrow> bytes \<Rightarrow> bytes"
  zlib :: "int \<Rightarrow> bytes \<Rightarrow> bytes"

definition COMPRESSIBLE_PREFIXES :: "str list" where
  "COMPRESSIBLE_PREFIXES =
     [''text/'', ''application/json'', ''application/javascript'', ''application/xml'', ''image/svg+xml'']"

definition compressible :: "int \<Rightarrow> response \<Rightarrow> bool" where
  "compressible min_size resp =
     (case r_body resp of
        Stream cs e \<Rightarrow> False
      | Full b \<Rightarrow>
          (case d_get (r_headers resp) ''Content-Encoding'' of Some (c # cs) \<Rightarrow> False | _ \<Rightarrow> True) \<and>
          min_size \<le> int (length b) \<and>
          list_ex (\<lambda>p. prefix p (lower (r_ctype resp))) COMPRESSIBLE_PREFIXES)"

definition encode_body :: "(bytes \<Rightarrow> bytes) \<Rightarrow> str \<Rightarrow> response \<Rightarrow> response" where
  "encode_body f name resp =
     (case r_body resp of
        Stream cs e \<Rightarrow> resp
      | Full b \<Rightarrow>
          set_header ''Content-Length'' (show_nat (length (f b)))
            (set_header ''Vary'' ''Accept-Encoding''
            (set_header ''Content-Encoding'' name (resp\<lparr>r_body := Full (f b)\<rparr>))))"

definition compression_middleware :: "compressors \<Rightarrow> int \<Rightarrow> int \<Rightarrow> 'w middleware" where
  "compression_middleware z min_size level r next =
     sbind (next r) (\<lambda>resp r.
       (let accept = lower (header (fst r) ''accept-encoding'') in
        (Inr (if \<not> compressible min_size resp then resp
              else if in_text ''gzip'' accept then encode_body (gzip z level) ''gzip'' resp
              else if in_text ''deflate'' accept then encode_body (zlib z level) ''deflate'' resp
              else resp), r)))"

definition gzip_middleware :: "compressors \<Rightarrow> int \<Rightarrow> int \<Rightarrow> 'w middleware" where
  "gzip_middleware z min_size level r next =
     sbind (next r) (\<lambda>resp r.
       (Inr (if \<not> compressible min_size resp then resp
             else if \<not> in_text ''gzip'' (lower (header (fst r) ''accept-encoding'')) then resp
             else encode_body (gzip z level) ''gzip'' resp), r))"

subsection \<open>Properties\<close>

lemma r_headers_set_header [simp]: "r_headers (set_header k v resp) = d_set k v (r_headers resp)"
  by (simp add: set_header_def)

lemma r_body_set_header [simp]: "r_body (set_header k v resp) = r_body resp"
  by (simp add: set_header_def)

lemma cors_frame [simp]: "r_body (add_cors c o' resp) = r_body resp" "r_status (add_cors c o' resp) = r_status resp"
  by (simp_all add: add_cors_def Let_def set_header_def)

text \<open>
  The CORS answer grants an origin only by the configuration: what it allows is the star
  of a configuration without credentials, or the request's own origin when that is listed, or
  (with credentials and a star) any origin at all; status and body are those of the chain, or
  the empty 204 for a preflight, which never reaches the handler.
\<close>

theorem cors_grants:
  assumes "cors_middleware c r next = (Inr resp, r')"
  shows "\<exists>inner. ((q_method (fst r) = ''OPTIONS'' \<and> inner = Response [] 204 [] HTML \<and> r' = r) \<or>
                  (q_method (fst r) \<noteq> ''OPTIONS'' \<and> next r = (Inr inner, r'))) \<and>
    r_body resp = r_body inner \<and> r_status resp = r_status inner \<and>
    (d_get (r_headers resp) ''Access-Control-Allow-Origin'' = d_get (r_headers inner) ''Access-Control-Allow-Origin'' \<or>
     (\<exists>v. d_get (r_headers resp) ''Access-Control-Allow-Origin'' = Some v \<and>
       (v = ''*'' \<and> ''*'' \<in> set (c_origins c) \<and> \<not> c_credentials c \<or>
        v = header (fst r) ''origin'' \<and> v \<in> set (c_origins c) \<or>
        v = header (fst r) ''origin'' \<and> ''*'' \<in> set (c_origins c) \<and> c_credentials c)))"
proof -
  obtain inner where i: "(q_method (fst r) = ''OPTIONS'' \<and> inner = Response [] 204 [] HTML \<and> r' = r) \<or>
      (q_method (fst r) \<noteq> ''OPTIONS'' \<and> next r = (Inr inner, r'))"
    "resp = add_cors c (cors_origin c (fst r)) inner"
    using assms by (auto simp: cors_middleware_def Let_def sbind_Inr_iff split: if_splits)
  have "cors_origin c (fst r) = [] \<or> d_get (r_headers resp) ''Access-Control-Allow-Origin'' = Some (cors_origin c (fst r))"
    by (simp add: i(2) add_cors_def Let_def)
  moreover have "cors_origin c (fst r) = [] \<Longrightarrow> resp = inner"
    by (simp add: i(2) add_cors_def)
  ultimately show ?thesis
    using i by (intro exI [of _ inner]) (auto simp: cors_origin_def Let_def split: if_splits)
qed

definition ok_handler :: "unit handler" where
  "ok_handler r = (Inr (Response (replicate 600 (CHR ''x'')) 200 [] HTML), r)"

lemma cors_grants_witness:
  "(let r = (sample_request ''GET'' ''/'' [(''origin'', ''https://a'')], ());
        c = CORSMiddleware [''https://a''] [''GET''] [] False 600
    in (case cors_middleware c r ok_handler of
          (Inr resp, _) \<Rightarrow> d_get (r_headers resp) ''Access-Control-Allow-Origin'' = Some ''https://a'' \<and>
             r_status resp = 200
        | _ \<Rightarrow> False))"
proof -
  let ?r = "(sample_request ''GET'' ''/'' [(''origin'', ''https://a'')], ())"
  let ?c = "CORSMiddleware [''https://a''] [''GET''] [] False 600"
  have "(case cors_middleware ?c ?r ok_handler of
          (Inr resp, _) \<Rightarrow> d_get (r_headers resp) ''Access-Control-Allow-Origin'' = Some ''https://a''
        | _ \<Rightarrow> False)"
    by code_simp
  then obtain resp r' where c: "cors_middleware ?c ?r ok_handler = (Inr resp, r')"
    "d_get (r_headers resp) ''Access-Control-Allow-Origin'' = Some ''https://a''"
    by (auto split: prod.splits sum.splits)
  have "r_status resp = 200"
    using cors_grants [OF c(1)] by (auto simp: ok_handler_def Response_def sample_request_def)
  with c show ?thesis by (simp add: Let_def)
qed

text \<open>
  No unsafe request passes without the double-submitted token: for any method but GET,
  HEAD, OPTIONS and TRACE the handler runs only if the CSRF cookie is non-empty and equal to
  the CSRF header; otherwise the answer is an error and nothing has changed.
\<close>

theorem csrf_guards:
  assumes "q_method (fst r) \<notin> {''GET'', ''HEAD'', ''OPTIONS'', ''TRACE''}"
  shows "(\<exists>tok. tok \<noteq> [] \<and> d_get (cookies (fst r)) name = Some tok \<and> header (fst r) (lower hname) = tok \<and>
            snd (csrf_middleware name hname token r next) = snd (next r)) \<or>
         (\<exists>e. csrf_middleware name hname token r next = (Inl e, r) \<and>
            (status_of e = Some 403 \<or> e = PyError ''TypeError''))"
proof (cases "csrf_check name hname (fst r)")
  case (Inl e)
  then have "status_of e = Some 403 \<or> e = PyError ''TypeError''"
    by (auto simp: csrf_check_def compare_digest_def Let_def rbind_Inl_iff split: if_splits option.splits list.splits)
  with Inl show ?thesis by (simp add: csrf_middleware_def)
next
  case (Inr u)
  then have "\<exists>tok. tok \<noteq> [] \<and> d_get (cookies (fst r)) name = Some tok \<and> header (fst r) (lower hname) = tok"
    using assms by (auto simp: csrf_check_def SAFE_def compare_digest_def Let_def rbind_Inr_iff
        split: if_splits option.splits list.splits)
  moreover have "snd (csrf_middleware name hname token r next) = snd (next r)"
    using Inr by (auto simp: csrf_middleware_def sbind_def split: prod.split sum.split)
  ultimately show ?thesis by blast
qed

lemma csrf_guards_witness:
  "(let r = (sample_request ''POST'' ''/'' [(''cookie'', ''sovereign_csrf=abc''), (''x-csrf-token'', ''abd'')], ())
    in \<exists>e. csrf_middleware ''sovereign_csrf'' ''X-CSRF-Token'' ''t'' r ok_handler = (Inl e, r))"
proof -
  let ?r = "(sample_request ''POST'' ''/'' [(''cookie'', ''sovereign_csrf=abc''), (''x-csrf-token'', ''abd'')], ())"
  have "header (fst ?r) (lower ''X-CSRF-Token'') = ''abd''"
    "d_get (cookies (fst ?r)) ''sovereign_csrf'' = Some ''abc''"
    by code_simp+
  moreover have "q_method (fst ?r) \<notin> {''GET'', ''HEAD'', ''OPTIONS'', ''TRACE''}"
    by (simp add: sample_request_def)
  ultimately show ?thesis
    using csrf_guards [of ?r "''sovereign_csrf''" "''X-CSRF-Token''" "''t''" ok_handler]
    unfolding Let_def by force
qed

definition decode_as :: "(bytes \<Rightarrow> bytes) \<Rightarrow> (bytes \<Rightarrow> bytes) \<Rightarrow> str \<Rightarrow> bytes \<Rightarrow> bytes" where
  "decode_as gunzip inflate name b =
     (if name = ''gzip'' then gunzip b else if name = ''deflate'' then inflate b else b)"

text \<open>
  Compression is transparent: if each decompressor inverts its compressor, decoding the
  body by the \<^verbatim>\<open>Content-Encoding\<close> the middleware set gives the handler's body, the
  \<^verbatim>\<open>Content-Length\<close> it set is the length of the encoded body, the status is kept, and
  streams, small bodies, encoded bodies and other types pass unchanged.
\<close>

theorem compression_transparent:
  assumes "\<And>b. gunzip (gzip z level b) = b" and "\<And>b. inflate (zlib z level b) = b"
    and "compression_middleware z min_size level r next = (Inr resp, r')"
  shows "\<exists>inner. next r = (Inr inner, r') \<and> r_status resp = r_status inner \<and>
    (resp = inner \<or>
     (\<exists>b b' name. r_body inner = Full b \<and> r_body resp = Full b' \<and> min_size \<le> int (length b) \<and>
        d_get (r_headers resp) ''Content-Encoding'' = Some name \<and> decode_as gunzip inflate name b' = b \<and>
        in_text name (lower (header (fst r') ''accept-encoding'')) \<and>
        d_get (r_headers resp) ''Content-Length'' = Some (show_nat (length b'))))"
proof -
  obtain inner where n: "next r = (Inr inner, r')"
    and resp: "resp = (let accept = lower (header (fst r') ''accept-encoding'') in
         if \<not> compressible min_size inner then inner
         else if in_text ''gzip'' accept then encode_body (gzip z level) ''gzip'' inner
         else if in_text ''deflate'' accept then encode_body (zlib z level) ''deflate'' inner
         else inner)"
    using assms(3) by (auto simp: compression_middleware_def sbind_Inr_iff Let_def)
  have st: "r_status resp = r_status inner"
    by (simp add: resp Let_def encode_body_def set_header_def split: rbody.split)
  show ?thesis
  proof (cases "compressible min_size inner")
    case False
    then show ?thesis using n st by (auto simp: resp)
  next
    case True
    then obtain b where b: "r_body inner = Full b" "min_size \<le> int (length b)"
      by (auto simp: compressible_def split: rbody.splits)
    show ?thesis
      using True n st b assms(1,2)
      by (auto simp: resp Let_def encode_body_def decode_as_def)
  qed
qed

definition tag_compressors :: compressors where
  "tag_compressors = \<lparr>gzip = (\<lambda>l b. CHR ''g'' # b), zlib = (\<lambda>l b. CHR ''z'' # b)\<rparr>"

lemma compression_transparent_witness:
  "(let r = (sample_request ''GET'' ''/'' [(''accept-encoding'', ''br, deflate'')], ())
    in (case compression_middleware tag_compressors 500 6 r ok_handler of
          (Inr resp, _) \<Rightarrow> r_body resp = Full (CHR ''z'' # replicate 600 (CHR ''x'')) \<and> r_status resp = 200
        | _ \<Rightarrow> False))"
proof -
  let ?r = "(sample_request ''GET'' ''/'' [(''accept-encoding'', ''br, deflate'')], ())"
  have "(case compression_middleware tag_compressors 500 6 ?r ok_handler of
          (Inr resp, _) \<Rightarrow> r_body resp = Full (CHR ''z'' # replicate 600 (CHR ''x'')) | _ \<Rightarrow> False)"
    by code_simp
  then obtain resp r' where c: "compression_middleware tag_compressors 500 6 ?r ok_handler = (Inr resp, r')"
    "r_body resp = Full (CHR ''z'' # replicate 600 (CHR ''x''))"
    by (auto split: prod.splits sum.splits)
  have "r_status resp = 200"
    using compression_transparent [OF _ _ c(1), of tl tl]
    by (auto simp: tag_compressors_def ok_handler_def Response_def)
  with c show ?thesis by (simp add: Let_def)
qed

end
