(* ===== verification/Html5.thy ===== *)
theory Html5
  imports Middleware
begin

section \<open>HTML5 assets, ranges and browser hardening (\<^verbatim>\<open>html5.py\<close>)\<close>

text \<open>
  Content types, the Content-Security-Policy builder, the hardening middleware, byte ranges,
  the asset handler and the routes an application mounts. Compression and the file system are
  the environment's.
\<close>

subsection \<open>Content types\<close>

definition HTML5_MIME_TYPES :: "(str, str) dict" where
  "HTML5_MIME_TYPES =
     [(''.html'', ''text/html; charset=utf-8''), (''.htm'', ''text/html; charset=utf-8''),
      (''.css'', ''text/css; charset=utf-8''), (''.js'', ''text/javascript; charset=utf-8''),
      (''.mjs'', ''text/javascript; charset=utf-8''), (''.json'', ''application/json; charset=utf-8''),
      (''.map'', ''application/json; charset=utf-8''), (''.svg'', ''image/svg+xml''),
      (''.webp'', ''image/webp''), (''.avif'', ''image/avif''), (''.png'', ''image/png''),
      (''.jpg'', ''image/jpeg''), (''.jpeg'', ''image/jpeg''), (''.gif'', ''image/gif''),
      (''.ico'', ''image/x-icon''), (''.webmanifest'', ''application/manifest+json; charset=utf-8''),
      (''.wasm'', ''application/wasm''), (''.woff'', ''font/woff''), (''.woff2'', ''font/woff2''),
      (''.txt'', ''text/plain; charset=utf-8'')]"

text \<open>\<^verbatim>\<open>PurePath.suffix\<close>: from the last full stop, unless that starts or ends the name.\<close>

definition suffix_of :: "ustr \<Rightarrow> ustr" where
  "suffix_of name =
     (let ext = takeWhile (\<lambda>c. c \<noteq> DOT) (rev name); stem = drop (length ext) (rev name)
      in if ext \<noteq> [] \<and> 1 < length stem then DOT # rev ext else [])"

definition ascii_lower :: "ustr \<Rightarrow> str option" where
  "ascii_lower s = (if list_all (\<lambda>c. c < 128) s then Some (lower (map char_of s)) else None)"

definition guess_html5_type :: "env \<Rightarrow> ustr \<Rightarrow> str" where
  "guess_html5_type E name =
     (case (case ascii_lower (suffix_of name) of Some x \<Rightarrow> d_get HTML5_MIME_TYPES x | None \<Rightarrow> None) of
        Some t \<Rightarrow> t
      | None \<Rightarrow> (case guess_mime E name of Some (c # m) \<Rightarrow> c # m | _ \<Rightarrow> ''application/octet-stream''))"

subsection \<open>Content-Security-Policy\<close>

type_synonym csp = "(str, str list) dict"

definition quoted :: "str \<Rightarrow> str" where
  "quoted s = [CHR 0x27] @ s @ [CHR 0x27]"

definition CSP_DEFAULTS :: csp where
  "CSP_DEFAULTS =
     [(''default-src'', [quoted ''self'']), (''base-uri'', [quoted ''none'']),
      (''object-src'', [quoted ''none'']), (''frame-ancestors'', [quoted ''none'']),
      (''img-src'', [quoted ''self'', ''data:'']), (''font-src'', [quoted ''self'', ''data:'']),
      (''style-src'', [quoted ''self'']), (''script-src'', [quoted ''self'']),
      (''connect-src'', [quoted ''self'']), (''form-action'', [quoted ''self'']),
      (''manifest-src'', [quoted ''self'']), (''worker-src'', [quoted ''self''])]"

datatype csp_value = Text str | Parts "str list"

definition csp_set :: "str \<Rightarrow> csp_value \<Rightarrow> csp \<Rightarrow> csp" where
  "csp_set name v d =
     d_set name (case v of Text t \<Rightarrow> filter (\<lambda>p. p \<noteq> []) (split_on '' '' t) | Parts ps \<Rightarrow> ps) d"

fun csp_apply :: "(str \<times> csp_value) list \<Rightarrow> csp \<Rightarrow> csp" where
  "csp_apply [] d = d"
| "csp_apply ((k, v) # kvs) d =
     csp_apply kvs (csp_set (map (\<lambda>c. if c = CHR ''_'' then CHR ''-'' else c) k) v d)"

definition CSP :: "(str \<times> csp_value) list \<Rightarrow> csp" where
  "CSP directives = csp_apply directives CSP_DEFAULTS"

definition csp_str :: "csp \<Rightarrow> str" where
  "csp_str d = join ''; '' (map (\<lambda>(k, v). k @ '' '' @ join '' '' v) d)"

subsection \<open>The hardening middleware\<close>

record hardening =
  hd_csp :: str
  hd_hsts :: bool
  hd_isolation :: bool
  hd_permissions :: str

definition HTML5SecurityHeaders :: "hardening" where
  "HTML5SecurityHeaders = \<lparr>hd_csp = csp_str (CSP []), hd_hsts = False, hd_isolation = False,
     hd_permissions = ''geolocation=(), microphone=(), camera=(), payment=()''\<rparr>"

definition apply_hardening :: "hardening \<Rightarrow> response \<Rightarrow> response" where
  "apply_hardening h resp =
     (let resp = setdefault_header ''X-Content-Type-Options'' ''nosniff'' resp;
          resp = setdefault_header ''Referrer-Policy'' ''strict-origin-when-cross-origin'' resp;
          resp = setdefault_header ''Permissions-Policy'' (hd_permissions h) resp;
          resp = setdefault_header ''Content-Security-Policy'' (hd_csp h) resp;
          resp = (if hd_hsts h
                  then setdefault_header ''Strict-Transport-Security'' ''max-age=31536000; includeSubDomains'' resp
                  else resp)
      in if hd_isolation h then
           setdefault_header ''Cross-Origin-Resource-Policy'' ''same-origin''
             (setdefault_header ''Cross-Origin-Embedder-Policy'' ''require-corp''
             (setdefault_header ''Cross-Origin-Opener-Policy'' ''same-origin'' resp))
         else resp)"

definition hardening_middleware :: "hardening \<Rightarrow> 'w middleware" where
  "hardening_middleware h r next = sbind (next r) (\<lambda>resp r. (Inr (apply_hardening h resp), r))"

subsection \<open>Byte ranges\<close>

text \<open>The two bounds of a \<^verbatim>\<open>Range\<close> header on a body of the given size; \<open>None\<close> is the \<^verbatim>\<open>except\<close>.\<close>

definition range_bounds :: "str \<Rightarrow> int \<Rightarrow> (int \<times> int) option" where
  "range_bounds spec n =
     (case split1 ''-'' spec of
        None \<Rightarrow> None
      | Some (raw_start, raw_end) \<Rightarrow>
          (let bounds =
             (if raw_start = [] then
                (case py_int raw_end of None \<Rightarrow> None | Some k \<Rightarrow> Some (max (n - k) 0, n - 1))
              else (case py_int raw_start of
                      None \<Rightarrow> None
                    | Some a \<Rightarrow>
                        if raw_end = [] then Some (a, n - 1)
                        else (case py_int raw_end of None \<Rightarrow> None | Some b \<Rightarrow> Some (a, b))))
           in case bounds of
                None \<Rightarrow> None
              | Some (a, b) \<Rightarrow> if a < 0 \<or> b < a \<or> n \<le> a then None else Some (a, min b (n - 1))))"

definition range_response ::
  "request \<Rightarrow> bytes \<Rightarrow> (str, str) dict \<Rightarrow> str \<Rightarrow> response option result" where
  "range_response req content hs ctype =
     (let hdr = header req ''range'' in
      if hdr = [] \<or> \<not> prefix ''bytes='' hdr then Inr None
      else (case range_bounds (drop 6 hdr) (int (length content)) of
          None \<Rightarrow> Inl (http_error 416 ''Requested Range Not Satisfiable''
                         [(''Content-Range'', ''bytes */'' @ show_nat (length content))])
        | Some (a, b) \<Rightarrow>
            (let chunk = upto_idx (b + 1 - a) (from_idx a content);
                 hs = d_update hs
                   [(''Content-Range'', ''bytes '' @ show_int a @ ''-'' @ show_int b @ ''/'' @ show_nat (length content)),
                    (''Content-Length'', show_nat (length chunk))]
             in Inr (Some (Response chunk 206 hs ctype)))))"

subsection \<open>Assets\<close>

definition is_hex :: "nat \<Rightarrow> bool" where
  "is_hex c = ((48 \<le> c \<and> c \<le> 57) \<or> (65 \<le> c \<and> c \<le> 70) \<or> (97 \<le> c \<and> c \<le> 102))"

fun is_fingerprinted :: "ustr \<Rightarrow> bool" where
  "is_fingerprinted [] = False"
| "is_fingerprinted (c # cs) =
     (((c = DOT \<or> c = 45) \<and> 8 \<le> length (takeWhile is_hex cs) \<and> prefix [DOT] (dropWhile is_hex cs)) \<or>
      is_fingerprinted cs)"

definition is_file :: "env \<Rightarrow> fpath \<Rightarrow> bool" where
  "is_file E p = (case node E p of Some (File c t) \<Rightarrow> True | _ \<Rightarrow> False)"

record asset_options =
  ao_index :: ustr
  ao_fallback :: bool
  ao_immutable :: bool
  ao_max_age :: int

definition wants_html :: "request \<Rightarrow> bool" where
  "wants_html req =
     (let accept = header req ''accept'' in
      q_method req \<in> {''GET'', ''HEAD''} \<and> (in_text ''text/html'' accept \<or> in_text ''*/*'' accept \<or> accept = []))"

text \<open>Which file answers: the wanted one, a directory's index, or the fallback page.\<close>

definition candidate :: "env \<Rightarrow> asset_options \<Rightarrow> request \<Rightarrow> fpath \<Rightarrow> ustr \<Rightarrow> fpath result" where
  "candidate E ao req dir asset =
     (let wanted = (if lstrip_slash asset = [] then ao_index ao else lstrip_slash asset) in
      rbind (safe_join (realpath E) dir wanted) (\<lambda>p.
      rbind (if node E p = Some Dir then safe_join (realpath E) p (ao_index ao) else Inr p) (\<lambda>p.
      if \<not> is_file E p \<and> ao_fallback ao \<and> wants_html req
      then safe_join (realpath E) dir (ao_index ao) else Inr p)))"

definition cache_control :: "asset_options \<Rightarrow> ustr \<Rightarrow> str" where
  "cache_control ao name =
     (let fixed = is_fingerprinted name \<and> ao_immutable ao in
      ''public, max-age='' @ show_int (if fixed then 31536000 else ao_max_age ao) @
      (if fixed then '', immutable'' else []))"

text \<open>
  A path outside Latin-1 cannot be sent as the header \<^verbatim>\<open>X-Sovereign-Asset\<close>; the error that
  \<^verbatim>\<open>send_headers\<close> raises for it is raised here.
\<close>

definition asset_header :: "fpath \<Rightarrow> str result" where
  "asset_header rel =
     (let t = join [SLASH] rel in
      if list_all (\<lambda>c. c < 256) t then Inr (CHR ''/'' # map char_of t)
      else Inl (PyError ''UnicodeEncodeError''))"

definition gzip_types :: "str list" where
  "gzip_types = [''text/'', ''application/json'', ''application/javascript'', ''image/svg'']"

definition asset_headers :: "env \<Rightarrow> asset_options \<Rightarrow> fpath \<Rightarrow> str \<Rightarrow> bytes \<Rightarrow> int \<Rightarrow> (str, str) dict" where
  "asset_headers E ao p asset content mtime =
     [(''Cache-Control'', cache_control ao (last p)), (''ETag'', etag_of E content mtime),
      (''Last-Modified'', file_date E mtime), (''Accept-Ranges'', ''bytes''), (''X-Sovereign-Asset'', asset)]"

definition serve_html5_file ::
  "env \<Rightarrow> compressors \<Rightarrow> asset_options \<Rightarrow> request \<Rightarrow> fpath \<Rightarrow> ustr \<Rightarrow> response result" where
  "serve_html5_file E z ao req dir asset =
     rbind (realpath E dir) (\<lambda>base.
     rbind (candidate E ao req base asset) (\<lambda>p.
     (case node E p of
        Some (File content mtime) \<Rightarrow>
          rbind (asset_header (drop (length base) p)) (\<lambda>rel.
            (let ctype = guess_html5_type E (last p); hs = asset_headers E ao p rel content mtime in
             if header req ''if-none-match'' = etag_of E content mtime then Inr (Response [] 304 hs ctype)
             else rbind (range_response req content hs ctype) (\<lambda>ranged.
               case ranged of
                 Some resp \<Rightarrow> Inr resp
               | None \<Rightarrow>
                   if in_text ''gzip'' (header req ''accept-encoding'') \<and> 512 < length content \<and>
                      list_ex (\<lambda>t. prefix t ctype) gzip_types
                   then Inr (Response (gzip z 6 content) 200
                          (d_set ''Vary'' ''Accept-Encoding'' (d_set ''Content-Encoding'' ''gzip'' hs)) ctype)
                   else Inr (Response content 200 hs ctype))))
      | _ \<Rightarrow> Inl (err 404 ''HTML5 asset not found''))))"

subsection \<open>\<^verbatim>\<open>HTML5App\<close>\<close>

record html5_app =
  app_root :: fpath
  app_prefix :: str
  app_index :: ustr
  app_assets :: str
  app_fallback :: bool
  app_hardened :: bool
  app_manifest :: bool

definition mount_prefix :: "html5_app \<Rightarrow> str" where
  "mount_prefix a = (if strip_slash (app_prefix a) \<noteq> [] then ''/'' @ strip_slash (app_prefix a) else [])"

definition param_of :: "str \<Rightarrow> request \<Rightarrow> ustr" where
  "param_of k req = (case d_get (route_params req) k of Some v \<Rightarrow> v | None \<Rightarrow> [])"

definition asset_handler :: "env \<Rightarrow> compressors \<Rightarrow> html5_app \<Rightarrow> 'w handler" where
  "asset_handler E z a r =
     (serve_html5_file E z \<lparr>ao_index = app_index a, ao_fallback = False, ao_immutable = True, ao_max_age = 3600\<rparr>
        (fst r) (app_root a) (uni (strip_slash (app_assets a)) @ [SLASH] @ param_of ''asset_path'' (fst r)), r)"

definition page_handler :: "env \<Rightarrow> compressors \<Rightarrow> html5_app \<Rightarrow> 'w handler" where
  "page_handler E z a r =
     (serve_html5_file E z \<lparr>ao_index = app_index a, ao_fallback = app_fallback a, ao_immutable = True, ao_max_age = 3600\<rparr>
        (fst r) (app_root a) (param_of ''page_path'' (fst r)), r)"

text \<open>\<open>manifest\<close> is the handler of \<^verbatim>\<open>/__assets.json\<close>.\<close>

definition mount :: "env \<Rightarrow> compressors \<Rightarrow> 'w handler \<Rightarrow> html5_app \<Rightarrow>
    ('w handler, 'w middleware) router \<Rightarrow> ('w handler, 'w middleware) router option" where
  "mount E z manifest a r =
     (let r = (if app_hardened a then add_middleware (hardening_middleware HTML5SecurityHeaders) r else r);
          assets = ''/'' @ strip_slash (app_assets a);
          pre = (if mount_prefix a = [] then ''/'' else mount_prefix a)
      in case (if app_manifest a then add_methods [''GET''] ''/__assets.json'' manifest [] r else Some r) of
           None \<Rightarrow> None
         | Some r \<Rightarrow>
             (case add_methods [''GET'', ''HEAD''] (assets @ ''/{asset_path:path}'') (asset_handler E z a) [] r of
                None \<Rightarrow> None
              | Some r \<Rightarrow> add_methods [''GET'', ''HEAD''] (pre @ ''{page_path:path}'') (page_handler E z a) [] r))"

subsection \<open>Properties\<close>

lemma range_bounds_sound:
  "range_bounds spec n = Some (a, b) \<Longrightarrow> 0 \<le> a \<and> a \<le> b \<and> b < n"
  by (auto simp: range_bounds_def Let_def split: option.splits if_splits)

text \<open>
  A partial answer is exactly the slice it announces: its bounds lie in the file, the body
  is those bytes, \<^verbatim>\<open>Content-Range\<close> and \<^verbatim>\<open>Content-Length\<close> state them, and every header that
  cannot be satisfied or read is a 416 with the file's size.
\<close>

theorem range_is_slice:
  "(case range_response req content hs ctype of
      Inl e \<Rightarrow> e = HTTPError 416 ''Requested Range Not Satisfiable''
                    [(''Content-Range'', ''bytes */'' @ show_nat (length content))]
    | Inr None \<Rightarrow> \<not> prefix ''bytes='' (header req ''range'')
    | Inr (Some resp) \<Rightarrow>
        (\<exists>a b. a \<le> b \<and> b < length content \<and> r_status resp = 206 \<and>
           r_body resp = Full (take (Suc b - a) (drop a content)) \<and>
           r_headers resp = d_update [] (d_update hs
             [(''Content-Range'', ''bytes '' @ show_nat a @ ''-'' @ show_nat b @ ''/'' @ show_nat (length content)),
              (''Content-Length'', show_nat (Suc b - a))])))"
proof (cases "header req ''range'' = [] \<or> \<not> prefix ''bytes='' (header req ''range'')")
  case True
  then show ?thesis by (auto simp: range_response_def Let_def)
next
  case hdr: False
  show ?thesis
  proof (cases "range_bounds (drop 6 (header req ''range'')) (int (length content))")
    case None
    with hdr show ?thesis by (simp add: range_response_def Let_def http_error_def)
  next
    case (Some ab)
    obtain a b where ab: "ab = (a, b)" by force
    from range_bounds_sound [OF Some [unfolded ab]] have le: "0 \<le> a" "a \<le> b" "b < int (length content)"
      by simp_all
    define m n where "m = nat a" "n = nat b"
    have ab': "a = int m" "b = int n" using le m_n_def by simp_all
    have mn: "m \<le> n" "n < length content" using le ab' by simp_all
    have "nat (int n + 1 - int m) = Suc n - m" using mn by simp
    then have chunk: "upto_idx (b + 1 - a) (from_idx a content) = take (Suc n - m) (drop m content)"
      using le ab' by (simp add: upto_idx_def from_idx_def)
    have len: "length (take (Suc n - m) (drop m content)) = Suc n - m"
      using mn by simp
    have sh: "show_int (int i) = show_nat i" for i by (simp add: show_int_def)
    have "range_response req content hs ctype = Inr (Some (Response (take (Suc n - m) (drop m content)) 206
        (d_update hs
             [(''Content-Range'', ''bytes '' @ show_nat m @ ''-'' @ show_nat n @ ''/'' @ show_nat (length content)),
              (''Content-Length'', show_nat (Suc n - m))]) ctype))"
      using hdr Some ab chunk len by (simp add: range_response_def Let_def ab' sh)
    then show ?thesis
      using mn by (simp only: sum.case option.case) (intro exI [of _ m] exI [of _ n], simp add: Response_def)
  qed
qed

text \<open>
  The three forms of a range mean what HTTP says: \<^verbatim>\<open>a-b\<close> is the bytes from \<open>a\<close> to \<open>b\<close> or the
  end, \<^verbatim>\<open>a-\<close> those from \<open>a\<close> on, \<^verbatim>\<open>-k\<close> the last \<open>k\<close> (all, if there are fewer), and a start
  beyond the end, an end before the start or an empty suffix is refused.
\<close>

theorem range_forms:
  assumes "a < 10 ^ max_str_digits" and "b < 10 ^ max_str_digits"
  shows "range_bounds (show_nat a @ ''-'' @ show_nat b) (int n) =
           (if a \<le> b \<and> a < n then Some (int a, int (min b (n - 1))) else None) \<and>
         range_bounds (show_nat a @ ''-'') (int n) = (if a < n then Some (int a, int (n - 1)) else None) \<and>
         range_bounds (''-'' @ show_nat b) (int n) =
           (if 0 < b \<and> 0 < n then Some (int (n - b), int (n - 1)) else None)"
proof -
  have nd: "CHR ''-'' \<notin> set (show_nat a)"
    using show_nat_chars_neq(2) [of "CHR ''-''" a] by blast
  have ne: "show_nat m \<noteq> []" for m by (simp add: show_nat_def)
  have s: "split1 ''-'' (show_nat a @ ''-'' @ x) = Some (show_nat a, x)" for x
    by (rule split1_hd_notin) (use nd in simp_all)
  have s0: "split1 ''-'' (''-'' @ x) = Some ([], x)" for x
    using split1_hd_notin [of "''-''" "[]" x] by simp
  note p = py_int_show_nat [OF assms(1)] py_int_show_nat [OF assms(2)]
  have 1: "range_bounds (show_nat a @ ''-'' @ show_nat b) (int n) =
           (if a \<le> b \<and> a < n then Some (int a, int (min b (n - 1))) else None)"
    unfolding range_bounds_def s option.case prod.case p if_not_P [OF ne] Let_def
    by (simp add: of_nat_diff min_def) linarith?
  have 2: "range_bounds (show_nat a @ ''-'') (int n) = (if a < n then Some (int a, int (n - 1)) else None)"
    unfolding range_bounds_def s [of "[]", simplified] option.case prod.case p if_not_P [OF ne] Let_def
    by (simp add: of_nat_diff) linarith?
  have 3: "range_bounds (''-'' @ show_nat b) (int n) =
           (if 0 < b \<and> 0 < n then Some (int (n - b), int (n - 1)) else None)"
    unfolding range_bounds_def s0 option.case prod.case p if_P [OF refl] Let_def
    by (simp add: of_nat_diff) linarith?
  show ?thesis using 1 2 3 by blast
qed

lemma range_forms_witness:
  "range_bounds ''2-9'' 6 = Some (2, 5)"
proof -
  have e: "show_nat 2 = ''2''" "show_nat 9 = ''9''" by code_simp+
  have "(10 :: nat) ^ 1 \<le> 10 ^ max_str_digits"
    by (rule power_increasing) (simp_all add: max_str_digits_def)
  then have ten: "(10 :: nat) \<le> 10 ^ max_str_digits"
    by (simp only: power_one_right)
  have "(2 :: nat) < 10 ^ max_str_digits" by (rule less_le_trans [OF _ ten]) simp
  moreover have "(9 :: nat) < 10 ^ max_str_digits" by (rule less_le_trans [OF _ ten]) simp
  ultimately show ?thesis
    using range_forms [of 2 9 6] unfolding e by simp
qed

lemma safe_join_prefix: "safe_join rp base u = Inr t \<Longrightarrow> rp base = Inr b \<Longrightarrow> prefix b t"
  by (auto simp: safe_join_def rbind_Inr_iff strict_prefix_def split: if_splits)

lemma candidate_below:
  assumes idem: "\<And>p q. realpath E p = Inr q \<Longrightarrow> realpath E q = Inr q"
    and bb: "realpath E base = Inr base" and p: "candidate E ao req base asset = Inr p"
  shows "prefix base p"
proof -
  obtain p1 where p1: "safe_join (realpath E) base
      (if lstrip_slash asset = [] then ao_index ao else lstrip_slash asset) = Inr p1"
    using p by (auto simp: candidate_def Let_def rbind_Inr_iff)
  from p1 have pp1: "prefix base p1" using bb by (rule safe_join_prefix)
  have r1: "realpath E p1 = Inr p1"
    using p1 idem by (auto simp: safe_join_def rbind_Inr_iff split: if_splits)
  obtain p2 where p2: "(if node E p1 = Some Dir then safe_join (realpath E) p1 (ao_index ao) else Inr p1) = Inr p2"
    "(if \<not> is_file E p2 \<and> ao_fallback ao \<and> wants_html req
      then safe_join (realpath E) base (ao_index ao) else Inr p2) = Inr p"
    using p p1 by (auto simp: candidate_def Let_def rbind_Inr_iff)
  have "prefix p1 p2"
    using p2(1) safe_join_prefix [where rp = "realpath E", OF _ r1] by (auto split: if_splits)
  with pp1 have "prefix base p2" by (rule prefix_order.trans)
  then show ?thesis
    using p2(2) safe_join_prefix [where rp = "realpath E", OF _ bb] by (auto split: if_splits)
qed

lemma served_content:
  assumes served: "serve_html5_file E z ao req dir asset = Inr resp" and base: "realpath E dir = Inr base"
    and p: "candidate E ao req base asset = Inr p" and n: "node E p = Some (File content mtime)"
  shows "r_status resp = 304 \<and> r_body resp = Full [] \<and> header req ''if-none-match'' = etag_of E content mtime \<or>
     r_status resp = 200 \<and> r_body resp \<in> {Full content, Full (gzip z 6 content)} \<or>
     r_status resp = 206 \<and> (\<exists>a b. r_body resp = Full (take (Suc b - a) (drop a content)))"
proof -
  obtain rel where rel: "asset_header (drop (length base) p) = Inr rel"
    using served base p n by (auto simp: serve_html5_file_def rbind_Inr_iff)
  let ?ct = "guess_html5_type E (last p)" and ?hs = "asset_headers E ao p rel content mtime"
  show ?thesis
  proof (cases "header req ''if-none-match'' = etag_of E content mtime")
    case True
    then show ?thesis
      using served base p n rel by (auto simp: serve_html5_file_def Response_def Let_def)
  next
    case False
    obtain ranged where ranged: "range_response req content ?hs ?ct = Inr ranged"
      using served base p n rel False
      by (cases "range_response req content ?hs ?ct") (simp_all add: serve_html5_file_def Let_def)
    show ?thesis
    proof (cases ranged)
      case None
      then show ?thesis
        using served base p n rel False ranged
        by (auto simp: serve_html5_file_def Response_def Let_def split: if_splits)
    next
      case (Some resp')
      then have "resp = resp'"
        using served base p n rel False ranged by (simp add: serve_html5_file_def Let_def)
      then show ?thesis
        using range_is_slice [where req = req and content = content and hs = ?hs and ctype = ?ct] ranged Some by auto
    qed
  qed
qed

text \<open>
  C24. Whatever path is asked for, with directories, fallback pages and links, an asset answer
  comes from a regular file below the resolved root, with the file's own tag, and is the whole
  file, its gzip form, a slice of it, or 304.
\<close>

theorem assets_stay_below_root:
  assumes "\<And>p q. realpath E p = Inr q \<Longrightarrow> realpath E q = Inr q"
    and "serve_html5_file E z ao req dir asset = Inr resp"
  shows "\<exists>base p content mtime. realpath E dir = Inr base \<and> prefix base p \<and> node E p = Some (File content mtime) \<and>
    (r_status resp = 304 \<and> r_body resp = Full [] \<and> header req ''if-none-match'' = etag_of E content mtime \<or>
     r_status resp = 200 \<and> r_body resp \<in> {Full content, Full (gzip z 6 content)} \<or>
     r_status resp = 206 \<and> (\<exists>a b. r_body resp = Full (take (Suc b - a) (drop a content))))"
proof -
  obtain base p where base: "realpath E dir = Inr base" and p: "candidate E ao req base asset = Inr p"
    using assms(2) by (auto simp: serve_html5_file_def rbind_Inr_iff)
  obtain content mtime where n: "node E p = Some (File content mtime)"
    using assms(2) base p by (auto simp: serve_html5_file_def split: option.splits fnode.splits)
  have "prefix base p" using candidate_below [OF assms(1) assms(1) [OF base] p] .
  with base n served_content [OF assms(2) base p n] show ?thesis by blast
qed

lemma assets_stay_below_root_witness:
  "\<exists>base p content mtime. realpath sample_env [uni ''static''] = Inr base \<and> prefix base p \<and>
     node sample_env p = Some (File content mtime)"
proof -
  let ?ao = "\<lparr>ao_index = uni ''a.css'', ao_fallback = True, ao_immutable = True, ao_max_age = 60\<rparr>"
  have "(case serve_html5_file sample_env tag_compressors ?ao (sample_request ''GET'' ''/'' []) [uni ''static''] (uni ''/no/such'') of
      Inr resp \<Rightarrow> r_body resp = Full ''body {}'' | Inl e \<Rightarrow> False)"
    by code_simp
  then obtain resp where r: "serve_html5_file sample_env tag_compressors ?ao (sample_request ''GET'' ''/'' [])
      [uni ''static''] (uni ''/no/such'') = Inr resp"
    by (auto split: sum.splits)
  have idem: "\<And>p q. realpath sample_env p = Inr q \<Longrightarrow> realpath sample_env q = Inr q"
    by (simp add: sample_env_def)
  have "\<exists>base p content mtime. realpath sample_env [uni ''static''] = Inr base \<and> prefix base p \<and>
     node sample_env p = Some (File content mtime) \<and>
     (r_status resp = 304 \<and> r_body resp = Full [] \<and>
        header (sample_request ''GET'' ''/'' []) ''if-none-match'' = etag_of sample_env content mtime \<or>
      r_status resp = 200 \<and> r_body resp \<in> {Full content, Full (gzip tag_compressors 6 content)} \<or>
      r_status resp = 206 \<and> (\<exists>a b. r_body resp = Full (take (Suc b - a) (drop a content))))"
    by (rule assets_stay_below_root [OF _ r]) (erule idem)
  then show ?thesis by blast
qed

lemma setdefault_frame [simp]:
  "r_body (setdefault_header k v resp) = r_body resp" "r_status (setdefault_header k v resp) = r_status resp"
  "r_headers (setdefault_header k v resp) = d_setdefault k v (r_headers resp)"
  by (simp_all add: setdefault_header_def)

text \<open>
  Hardening only adds: every header of the handler keeps its value, body and status are
  untouched, and the answer always forbids sniffing and carries a policy of its own or the
  handler's.
\<close>

theorem hardening_only_adds:
  assumes "hardening_middleware h r next = (Inr resp, r')"
  shows "\<exists>inner. next r = (Inr inner, r') \<and> r_body resp = r_body inner \<and> r_status resp = r_status inner \<and>
    (\<forall>k v. d_get (r_headers inner) k = Some v \<longrightarrow> d_get (r_headers resp) k = Some v) \<and>
    d_get (r_headers resp) ''X-Content-Type-Options'' \<noteq> None \<and>
    d_get (r_headers resp) ''Content-Security-Policy'' =
      Some (case d_get (r_headers inner) ''Content-Security-Policy'' of Some v \<Rightarrow> v | None \<Rightarrow> hd_csp h)"
proof -
  obtain inner where i: "next r = (Inr inner, r')" "resp = apply_hardening h inner"
    using assms by (auto simp: hardening_middleware_def sbind_Inr_iff)
  show ?thesis
    unfolding i(2)
    by (intro exI [of _ inner] conjI) (simp_all add: i(1) apply_hardening_def Let_def)
qed

lemma hardening_only_adds_witness:
  "(case hardening_middleware HTML5SecurityHeaders (sample_request ''GET'' ''/'' [], ()) ok_handler of
      (Inr resp, r') \<Rightarrow> d_get (r_headers resp) ''X-Content-Type-Options'' \<noteq> None | _ \<Rightarrow> False)"
proof -
  have "hardening_middleware HTML5SecurityHeaders (sample_request ''GET'' ''/'' [], ()) ok_handler =
      (Inr (apply_hardening HTML5SecurityHeaders (Response (replicate 600 (CHR ''x'')) 200 [] HTML)), sample_request ''GET'' ''/'' [], ())"
    by (simp add: hardening_middleware_def ok_handler_def)
  from this hardening_only_adds [OF this] show ?thesis by auto
qed

text \<open>
  The page route of a mounted prefix lacks its slash: an application mounted under
  \<^verbatim>\<open>/app\<close> also answers \<^verbatim>\<open>/apple\<close>, as the page \<^verbatim>\<open>le\<close>.
\<close>

definition sample_app :: html5_app where
  "sample_app = \<lparr>app_root = [uni ''static''], app_prefix = ''/app/'', app_index = uni ''index.html'',
     app_assets = ''/assets'', app_fallback = True, app_hardened = True, app_manifest = True\<rparr>"

theorem mount_prefix_overmatches:
  "(case mount sample_env tag_compressors ok_handler sample_app Router of
      Some r \<Rightarrow>
        (case resolve r ''GET'' ''/apple'' of Inr (Bound h ps, mws) \<Rightarrow> ps = [(''page_path'', uni ''le'')] | _ \<Rightarrow> False) \<and>
        (case resolve r ''GET'' ''/app/x'' of Inr (Bound h ps, mws) \<Rightarrow> ps = [(''page_path'', uni ''/x'')] | _ \<Rightarrow> False)
    | None \<Rightarrow> False)"
  by code_simp

end
