(* ===== verification/EventHub.thy ===== *)
theory EventHub
  imports WebSocket_Props "HOL-Library.Char_ord" "HOL-Library.List_Lexorder"
begin

section \<open>Rooms, users and sessions (\<^verbatim>\<open>eventhub.py\<close>)\<close>

text \<open>
  The hub stores objects, so the model has a store: SSE sessions and WebSocket wrappers by
  number, WebSocket sessions (theory WebSocket) by theirs. A handle is what the application
  passes in: an object of the hub's protocol or a bare \<^verbatim>\<open>WebSocketSession\<close>, which \<^verbatim>\<open>register\<close>
  wraps anew each time. Sets are sets of handles. \<open>enc\<close> is the JSON text of an event.
\<close>

datatype handle = ObjRef nat | WsRef nat

type_synonym event = "str \<times> str"

subsection \<open>\<^verbatim>\<open>SSESession\<close>\<close>

text \<open>\<open>taken\<close> records what the generator has taken from the queue.\<close>

record sse =
  sse_closed :: bool
  sse_max :: int
  sse_queue :: "event option list"
  taken :: "event option list"

definition SSESession :: "int \<Rightarrow> sse" where
  "SSESession max_queue = \<lparr>sse_closed = False, sse_max = max_queue, sse_queue = [], taken = []\<rparr>"

definition sse_put :: "event option \<Rightarrow> sse \<Rightarrow> sse option" where
  "sse_put item s =
     (if 0 < sse_max s \<and> sse_max s \<le> int (length (sse_queue s)) then None
      else Some (s\<lparr>sse_queue := sse_queue s @ [item]\<rparr>))"

definition sse_close :: "sse \<Rightarrow> sse" where
  "sse_close s =
     (if sse_closed s then s
      else (let s = s\<lparr>sse_closed := True\<rparr> in case sse_put None s of None \<Rightarrow> s | Some s' \<Rightarrow> s'))"

definition sse_send :: "str \<Rightarrow> str \<Rightarrow> sse \<Rightarrow> sse" where
  "sse_send ev d s =
     (if sse_closed s then s
      else (case sse_put (Some (ev, d)) s of None \<Rightarrow> sse_close s | Some s' \<Rightarrow> s'))"

text \<open>
  One turn of the generator \<^verbatim>\<open>events\<close>: the queue is empty until the timeout (a heartbeat), or
  gives an event or the end marker; a closed session ends it.
\<close>

datatype yielded = Heartbeat | Event event | Finished

definition sse_next :: "sse \<Rightarrow> yielded \<times> sse" where
  "sse_next s =
     (if sse_closed s then (Finished, s)
      else (case sse_queue s of
          [] \<Rightarrow> (Heartbeat, s)
        | None # q \<Rightarrow> (Finished, s\<lparr>sse_queue := q, taken := taken s @ [None]\<rparr>)
        | Some e # q \<Rightarrow> (Event e, s\<lparr>sse_queue := q, taken := taken s @ [Some e]\<rparr>)))"

subsection \<open>The hub\<close>

datatype kind = Sse sse | Wrapper nat

record client =
  cl_kind :: kind
  cl_user :: "str option"
  cl_presence :: "(str, str) dict"
  cl_stale :: bool

text \<open>
  \<open>cl_stale\<close> is the attribute \<^verbatim>\<open>closed\<close> that a wrapper copies from its session when it is made.
  The presence of a wrapper is the dictionary of its session, shared by all its wrappers.
\<close>

record hub =
  objs :: "(nat, client) dict"
  wss :: "(nat, session) dict"
  ws_presence :: "(nat, (str, str) dict) dict"
  next_obj :: nat
  rooms :: "(str, handle set) dict"
  users :: "(str, handle set) dict"
  members :: "handle set"

definition EventHub :: hub where
  "EventHub = \<lparr>objs = [], wss = [], ws_presence = [], next_obj = 0, rooms = [], users = [], members = {}\<rparr>"

definition set_at :: "str \<Rightarrow> (str, handle set) dict \<Rightarrow> handle set" where
  "set_at k d = (case d_get d k of Some S \<Rightarrow> S | None \<Rightarrow> {})"

definition add_at :: "str \<Rightarrow> handle \<Rightarrow> (str, handle set) dict \<Rightarrow> (str, handle set) dict" where
  "add_at k h d = d_set k (insert h (set_at k d)) d"

text \<open>Discard a member and drop the key when its set is empty (or was missing).\<close>

definition discard_at :: "str \<Rightarrow> handle \<Rightarrow> (str, handle set) dict \<Rightarrow> (str, handle set) dict" where
  "discard_at k h d =
     (let S = set_at k d - {h} in if S = {} then d_pop k d else d_set k S d)"

definition new_client :: "client \<Rightarrow> hub \<Rightarrow> handle \<times> hub" where
  "new_client c H = (ObjRef (next_obj H), H\<lparr>objs := d_set (next_obj H) c (objs H), next_obj := Suc (next_obj H)\<rparr>)"

definition wrap :: "handle \<Rightarrow> hub \<Rightarrow> handle \<times> hub" where
  "wrap h H =
     (case h of
        WsRef w \<Rightarrow>
          (case d_get (wss H) w of
             Some s \<Rightarrow> new_client \<lparr>cl_kind = Wrapper w, cl_user = ws_user s, cl_presence = [], cl_stale = ws_closed s\<rparr> H
           | None \<Rightarrow> (h, H))
      | ObjRef n \<Rightarrow> (h, H))"

definition user_of :: "handle \<Rightarrow> hub \<Rightarrow> str option" where
  "user_of h H =
     (case (case h of ObjRef n \<Rightarrow> (case d_get (objs H) n of Some c \<Rightarrow> cl_user c | None \<Rightarrow> None)
                    | WsRef w \<Rightarrow> (case d_get (wss H) w of Some s \<Rightarrow> ws_user s | None \<Rightarrow> None)) of
        Some (c # cs) \<Rightarrow> Some (c # cs) | _ \<Rightarrow> None)"

definition set_user :: "handle \<Rightarrow> str option \<Rightarrow> hub \<Rightarrow> hub" where
  "set_user h uid H =
     (case uid of
        None \<Rightarrow> H
      | Some u \<Rightarrow>
          (case h of
             ObjRef n \<Rightarrow> (case d_get (objs H) n of
                   Some c \<Rightarrow> H\<lparr>objs := d_set n (c\<lparr>cl_user := Some u\<rparr>) (objs H)\<rparr> | None \<Rightarrow> H)
           | WsRef w \<Rightarrow> H))"

definition touch :: "(str, str) dict \<Rightarrow> str \<Rightarrow> (str, str) dict \<Rightarrow> (str, str) dict" where
  "touch presence stamp p = d_setdefault ''online_at'' stamp (d_update p presence)"

definition update_presence :: "handle \<Rightarrow> (str, str) dict \<Rightarrow> str \<Rightarrow> hub \<Rightarrow> hub" where
  "update_presence h presence stamp H =
     (case h of
        WsRef w \<Rightarrow> H
      | ObjRef n \<Rightarrow>
          (case d_get (objs H) n of
             None \<Rightarrow> H
           | Some c \<Rightarrow>
               (case cl_kind c of
                  Sse s \<Rightarrow> H\<lparr>objs := d_set n (c\<lparr>cl_presence := touch presence stamp (cl_presence c)\<rparr>) (objs H)\<rparr>
                | Wrapper w \<Rightarrow>
                    (case d_get (ws_presence H) w of
                       None \<Rightarrow> H
                     | Some p \<Rightarrow> H\<lparr>ws_presence := d_set w (touch presence stamp p) (ws_presence H)\<rparr>))))"

definition register :: "handle \<Rightarrow> str option \<Rightarrow> (str, str) dict \<Rightarrow> str \<Rightarrow> hub \<Rightarrow> handle \<times> hub" where
  "register h uid presence stamp H =
     (let (h, H) = wrap h H;
          H = update_presence h presence stamp (set_user h uid H);
          H = H\<lparr>members := insert h (members H)\<rparr>;
          H = (case user_of h H of Some u \<Rightarrow> H\<lparr>users := add_at u h (users H)\<rparr> | None \<Rightarrow> H)
      in (h, H))"

definition close_handle :: "handle \<Rightarrow> hub \<Rightarrow> hub" where
  "close_handle h H =
     (let close_ws = (\<lambda>w. case d_get (wss H) w of
            Some s \<Rightarrow> H\<lparr>wss := d_set w (close 1000 [] s) (wss H)\<rparr> | None \<Rightarrow> H)
      in case h of
           WsRef w \<Rightarrow> close_ws w
         | ObjRef n \<Rightarrow>
             (case d_get (objs H) n of
                None \<Rightarrow> H
              | Some c \<Rightarrow> (case cl_kind c of
                    Wrapper w \<Rightarrow> close_ws w
                  | Sse s \<Rightarrow> H\<lparr>objs := d_set n (c\<lparr>cl_kind := Sse (sse_close s)\<rparr>) (objs H)\<rparr>)))"

fun discard_rooms :: "handle \<Rightarrow> str list \<Rightarrow> (str, handle set) dict \<Rightarrow> (str, handle set) dict" where
  "discard_rooms h [] d = d"
| "discard_rooms h (k # ks) d = discard_rooms h ks (discard_at k h d)"

definition unregister :: "handle \<Rightarrow> hub \<Rightarrow> hub" where
  "unregister h H =
     (let H = H\<lparr>members := members H - {h}, rooms := discard_rooms h (d_keys (rooms H)) (rooms H)\<rparr>;
          H = (case user_of h H of Some u \<Rightarrow> H\<lparr>users := discard_at u h (users H)\<rparr> | None \<Rightarrow> H)
      in close_handle h H)"

definition join_room :: "str \<Rightarrow> handle \<Rightarrow> str \<Rightarrow> hub \<Rightarrow> handle \<times> hub" where
  "join_room rn h stamp H =
     (let (h, H) = register h None [] stamp H in (h, H\<lparr>rooms := add_at rn h (rooms H)\<rparr>))"

definition leave_room :: "str \<Rightarrow> handle \<Rightarrow> hub \<Rightarrow> hub" where
  "leave_room rn h H = H\<lparr>rooms := discard_at rn h (rooms H)\<rparr>"

text \<open>\<^verbatim>\<open>sse\<close>: a new session joins and is registered; its response drains the queue (\<open>sse_next\<close>).\<close>

definition sse_connect :: "str \<Rightarrow> str option \<Rightarrow> (str, str) dict \<Rightarrow> str \<Rightarrow> hub \<Rightarrow> handle \<times> hub" where
  "sse_connect rn uid presence stamp H =
     (let (h, H) = new_client \<lparr>cl_kind = Sse (SSESession 256), cl_user = uid,
                       cl_presence = [(''online_at'', stamp), (''transport'', ''sse'')], cl_stale = False\<rparr> H;
          (h, H) = join_room rn h stamp H
      in register h uid presence stamp H)"

definition online_users :: "hub \<Rightarrow> str list" where
  "online_users H = sort (d_keys (users H))"

definition user_sessions :: "str \<Rightarrow> hub \<Rightarrow> handle set" where
  "user_sessions u H = set_at u (users H)"

definition is_online :: "str \<Rightarrow> hub \<Rightarrow> bool" where
  "is_online u H = (set_at u (users H) \<noteq> {})"

subsection \<open>Delivery\<close>

text \<open>
  One target of \<^verbatim>\<open>_send_many\<close>: whether it is dead, and the hub after the attempt. A closed
  session or a failing send is dead.
\<close>

definition send_one :: "(str \<Rightarrow> str \<Rightarrow> ustr) \<Rightarrow> str \<Rightarrow> str \<Rightarrow> handle \<Rightarrow> hub \<Rightarrow> bool \<times> hub" where
  "send_one enc ev d h H =
     (case h of
        WsRef w \<Rightarrow> (True, H)
      | ObjRef n \<Rightarrow>
          (case d_get (objs H) n of
             None \<Rightarrow> (True, H)
           | Some c \<Rightarrow>
               (case cl_kind c of
                  Sse s \<Rightarrow>
                    if sse_closed s then (True, H)
                    else (False, H\<lparr>objs := d_set n (c\<lparr>cl_kind := Sse (sse_send ev d s)\<rparr>) (objs H)\<rparr>)
                | Wrapper w \<Rightarrow>
                    if cl_stale c then (True, H)
                    else (case d_get (wss H) w of
                        None \<Rightarrow> (True, H)
                      | Some s \<Rightarrow>
                          (case send_text (enc ev d) s of
                             (Inl e, s') \<Rightarrow> (True, H\<lparr>wss := d_set w s' (wss H)\<rparr>)
                           | (Inr _, s') \<Rightarrow> (False, H\<lparr>wss := d_set w s' (wss H)\<rparr>))))))"

fun send_all :: "(str \<Rightarrow> str \<Rightarrow> ustr) \<Rightarrow> str \<Rightarrow> str \<Rightarrow> handle list \<Rightarrow> hub \<Rightarrow> handle list \<times> hub" where
  "send_all enc ev d [] H = ([], H)"
| "send_all enc ev d (h # hs) H =
     (let (dead, H) = send_one enc ev d h H; (rest, H) = send_all enc ev d hs H
      in (if dead then h # rest else rest, H))"

definition send_many :: "(str \<Rightarrow> str \<Rightarrow> ustr) \<Rightarrow> str \<Rightarrow> str \<Rightarrow> handle list \<Rightarrow> hub \<Rightarrow> hub" where
  "send_many enc ev d targets H =
     (let (dead, H) = send_all enc ev d targets H in fold unregister dead H)"

text \<open>\<open>targets\<close> is the list of the set's elements, in the order the set iterates.\<close>

definition broadcast_event :: "(str \<Rightarrow> str \<Rightarrow> ustr) \<Rightarrow> str \<Rightarrow> str \<Rightarrow> str \<Rightarrow> handle list \<Rightarrow> hub \<Rightarrow> hub" where
  "broadcast_event enc rn ev d targets H =
     (if set targets = set_at rn (rooms H) \<and> distinct targets then send_many enc ev d targets H else H)"

definition send_user :: "(str \<Rightarrow> str \<Rightarrow> ustr) \<Rightarrow> str \<Rightarrow> str \<Rightarrow> str \<Rightarrow> handle list \<Rightarrow> hub \<Rightarrow> hub" where
  "send_user enc u ev d targets H =
     (if set targets = set_at u (users H) \<and> distinct targets then send_many enc ev d targets H else H)"

definition broadcast :: "(str \<Rightarrow> str \<Rightarrow> ustr) \<Rightarrow> str \<Rightarrow> str \<Rightarrow> handle list \<Rightarrow> hub \<Rightarrow> hub" where
  "broadcast enc rn d targets H = broadcast_event enc rn ''message'' d targets H"

subsection \<open>Interleavings\<close>

text \<open>
  A step of some thread: a request is upgraded, the application calls the hub on an object it
  holds, a generator takes from its queue, or a WebSocket session moves by itself.
\<close>

definition valid_handle :: "handle \<Rightarrow> hub \<Rightarrow> bool" where
  "valid_handle h H =
     (case h of ObjRef n \<Rightarrow> d_get (objs H) n \<noteq> None
              | WsRef w \<Rightarrow> d_get (wss H) w \<noteq> None \<and> d_get (ws_presence H) w \<noteq> None)"

definition ws_upgrade :: "nat \<Rightarrow> session \<Rightarrow> (str, str) dict \<Rightarrow> hub \<Rightarrow> hub" where
  "ws_upgrade w s p H =
     (if d_get (wss H) w = None then H\<lparr>wss := d_set w s (wss H), ws_presence := d_set w p (ws_presence H)\<rparr>
      else H)"

definition generate :: "nat \<Rightarrow> hub \<Rightarrow> yielded \<times> hub" where
  "generate n H =
     (case d_get (objs H) n of
        Some c \<Rightarrow>
          (case cl_kind c of
             Sse s \<Rightarrow>
               (let (y, s') = sse_next s; H = H\<lparr>objs := d_set n (c\<lparr>cl_kind := Sse s'\<rparr>) (objs H)\<rparr>
                in (y, if y = Finished then unregister (ObjRef n) H else H))
           | Wrapper w \<Rightarrow> (Finished, H))
      | None \<Rightarrow> (Finished, H))"

inductive hub_step :: "hub \<Rightarrow> hub \<Rightarrow> bool" where
  hs_upgrade: "hub_step H (ws_upgrade w s p H)"
| hs_register: "valid_handle h H \<Longrightarrow> hub_step H (snd (register h uid presence stamp H))"
| hs_unregister: "valid_handle h H \<Longrightarrow> hub_step H (unregister h H)"
| hs_join: "valid_handle h H \<Longrightarrow> hub_step H (snd (join_room rn h stamp H))"
| hs_leave: "hub_step H (leave_room rn h H)"
| hs_sse: "hub_step H (snd (sse_connect rn uid presence stamp H))"
| hs_broadcast: "hub_step H (broadcast_event enc rn ev d targets H)"
| hs_send_user: "hub_step H (send_user enc u ev d targets H)"
| hs_generate: "hub_step H (snd (generate n H))"
| hs_session: "d_get (wss H) w = Some s \<Longrightarrow> ws_step s s' \<Longrightarrow> hub_step H (H\<lparr>wss := d_set w s' (wss H)\<rparr>)"

inductive_cases hub_stepE: "hub_step H H'"

inductive hub_reach :: "hub \<Rightarrow> bool" where
  hub_init: "hub_reach EventHub"
| hub_next: "hub_reach H \<Longrightarrow> hub_step H H' \<Longrightarrow> hub_reach H'"

end
