(* ===== verification/EventHub_Props.thy ===== *)
theory EventHub_Props
  imports EventHub
begin

section \<open>The hub keeps its books\<close>

text \<open>
  The invariant of the hub under every interleaving, what unregistering and broadcasting do,
  and the contract shared by the two kinds of client connection.
\<close>

subsection \<open>Sets by key\<close>

lemma set_at_set [simp]: "set_at k (d_set k' S d) = (if k = k' then S else set_at k d)"
  by (simp add: set_at_def)

lemma set_at_pop [simp]: "set_at k (d_pop k' d) = (if k = k' then {} else set_at k d)"
  by (simp add: set_at_def)

lemma set_at_add [simp]: "set_at k (add_at k' h d) = (if k = k' then insert h (set_at k d) else set_at k d)"
  by (simp add: add_at_def)

lemma set_at_discard [simp]: "set_at k (discard_at k' h d) = (if k = k' then set_at k d - {h} else set_at k d)"
  by (simp add: discard_at_def Let_def)

lemma set_at_discard_rooms:
  "set_at k (discard_rooms h ks d) = (if k \<in> set ks then set_at k d - {h} else set_at k d)"
  by (induction ks arbitrary: d) auto

lemma d_keys_iff: "k \<in> set (d_keys d) \<longleftrightarrow> d_get d k \<noteq> None"
  by (simp add: d_keys_def d_get_None_iff)

lemma set_at_missing: "k \<notin> set (d_keys d) \<Longrightarrow> set_at k d = {}"
  by (simp add: set_at_def d_keys_iff)

text \<open>A table of sets: each key once, no empty set, all elements from \<open>M\<close>.\<close>

definition table_ok :: "handle set \<Rightarrow> (str, handle set) dict \<Rightarrow> bool" where
  "table_ok M d = (d_ok d \<and> (\<forall>k. d_get d k \<noteq> Some {} \<and> set_at k d \<subseteq> M))"

lemma table_ok_Nil [simp]: "table_ok M []"
  by (simp add: table_ok_def set_at_def)

lemma table_ok_mono: "table_ok M d \<Longrightarrow> M \<subseteq> M' \<Longrightarrow> table_ok M' d"
  by (auto simp: table_ok_def)

lemma table_ok_add: "table_ok M d \<Longrightarrow> h \<in> M \<Longrightarrow> table_ok M (add_at k h d)"
  by (auto simp: table_ok_def add_at_def)

lemma d_ok_pop [simp, intro]: "d_ok d \<Longrightarrow> d_ok (d_pop k d)"
  by (simp add: d_ok_def d_pop_def distinct_delete)

lemma table_ok_discard: "table_ok M d \<Longrightarrow> table_ok M (discard_at k h d)"
  by (auto simp: table_ok_def discard_at_def Let_def)

lemma table_ok_discard_rooms: "table_ok M d \<Longrightarrow> table_ok M (discard_rooms h ks d)"
  by (induction ks arbitrary: d) (auto intro: table_ok_discard)

lemma table_ok_discard_all:
  assumes "table_ok M d"
  shows "table_ok (M - {h}) (discard_rooms h (d_keys d) d)"
proof -
  have "set_at k (discard_rooms h (d_keys d) d) = set_at k d - {h}" for k
    by (simp add: set_at_discard_rooms set_at_missing)
  then show ?thesis
    using table_ok_discard_rooms [OF assms, of h "d_keys d"] by (auto simp: table_ok_def)
qed

lemma table_ok_online: "table_ok M d \<Longrightarrow> set_at k d \<noteq> {} \<longleftrightarrow> k \<in> set (d_keys d)"
  by (auto simp: table_ok_def set_at_def d_keys_iff split: option.splits)


subsection \<open>The invariant\<close>

text \<open>
  Every room is a non-empty set of registered connections, every user entry is a non-empty set
  of known objects under a non-empty name, and what the hub holds are its own objects.
\<close>

definition known :: "hub \<Rightarrow> handle set" where
  "known H = ObjRef ` set (map fst (objs H))"

definition hub_inv :: "hub \<Rightarrow> bool" where
  "hub_inv H =
     (table_ok (members H) (rooms H) \<and> table_ok (known H) (users H) \<and> set_at [] (users H) = {} \<and>
      members H \<subseteq> known H \<and> (\<forall>n \<in> set (map fst (objs H)). n < next_obj H))"

lemma hub_invI:
  assumes "table_ok (members H) (rooms H)" "table_ok (known H) (users H)" "set_at [] (users H) = {}"
    "members H \<subseteq> known H" "\<And>n. n \<in> set (map fst (objs H)) \<Longrightarrow> n < next_obj H"
  shows "hub_inv H"
  using assms by (auto simp: hub_inv_def)

lemma hub_inv_EventHub [simp]: "hub_inv EventHub"
  by (simp add: hub_inv_def EventHub_def set_at_def known_def)

lemma known_iff: "ObjRef n \<in> known H \<longleftrightarrow> d_get (objs H) n \<noteq> None"
  by (auto simp: known_def d_get_None_iff)

text \<open>Changing the objects in place, or the WebSocket sessions, keeps the books.\<close>

definition same_books :: "hub \<Rightarrow> hub \<Rightarrow> bool" where
  "same_books H H' =
     (rooms H' = rooms H \<and> users H' = users H \<and> members H' = members H \<and> next_obj H' = next_obj H \<and>
      set (map fst (objs H')) = set (map fst (objs H)))"

lemma same_books_refl [simp]: "same_books H H"
  by (simp add: same_books_def)

lemma same_books_trans: "same_books H H' \<Longrightarrow> same_books H' H'' \<Longrightarrow> same_books H H''"
  by (simp add: same_books_def)

lemma same_books_inv: "same_books H H' \<Longrightarrow> hub_inv H \<Longrightarrow> hub_inv H'"
  by (simp add: same_books_def hub_inv_def known_def)

lemma same_books_known: "same_books H H' \<Longrightarrow> known H' = known H"
  by (simp add: same_books_def known_def)

lemma same_books_set_obj:
  "d_get (objs H) n \<noteq> None \<Longrightarrow> same_books H (H\<lparr>objs := d_set n c (objs H)\<rparr>)"
  by (auto simp: same_books_def d_set_keys d_get_None_iff insert_absorb simp del: set_map)

lemma same_books_ws [simp]:
  "same_books H (H\<lparr>wss := W\<rparr>)" "same_books H (H\<lparr>ws_presence := P\<rparr>)"
  by (simp_all add: same_books_def)

lemma same_books_set_user: "same_books H (set_user h uid H)"
  by (auto simp: set_user_def same_books_set_obj split: option.split handle.split)

lemma same_books_presence: "same_books H (update_presence h p t H)"
  by (auto simp: update_presence_def same_books_set_obj split: option.split handle.split kind.split)

lemma same_books_close: "same_books H (close_handle h H)"
  by (auto simp: close_handle_def same_books_set_obj Let_def split: option.split handle.split kind.split)

lemma same_books_send_one: "same_books H (snd (send_one enc ev d h H))"
  by (auto simp: send_one_def same_books_set_obj split: option.split handle.split kind.split prod.split sum.split)

lemma same_books_send_all: "same_books H (snd (send_all enc ev d hs H))"
proof (induction hs arbitrary: H)
  case (Cons h hs)
  show ?case
    using same_books_trans [OF same_books_send_one [of H enc ev d h] Cons.IH [of "snd (send_one enc ev d h H)"]]
    by (auto split: prod.split)
qed simp

lemma same_books_upgrade: "same_books H (ws_upgrade w s p H)"
  by (simp add: ws_upgrade_def same_books_def)

lemma new_client_inv:
  assumes "hub_inv H" "new_client c H = (h, H')"
  shows "hub_inv H' \<and> h \<in> known H'"
proof -
  have H': "H' = H\<lparr>objs := d_set (next_obj H) c (objs H), next_obj := Suc (next_obj H)\<rparr>"
    and h: "h = ObjRef (next_obj H)"
    using assms(2) by (auto simp: new_client_def)
  have k: "known H \<subseteq> known H'"
    by (auto simp: known_def H' d_set_keys simp del: set_map)
  show ?thesis
    using assms(1) k table_ok_mono [OF _ k]
    by (auto simp: hub_inv_def H' h known_def d_set_keys less_Suc_eq simp del: set_map)
qed

lemma wrap_inv:
  assumes "hub_inv H" "valid_handle h H" "wrap h H = (h', H')"
  shows "hub_inv H' \<and> h' \<in> known H'"
  using assms new_client_inv [OF assms(1)]
  by (auto simp: wrap_def valid_handle_def known_iff split: handle.splits option.splits)

lemma user_of_nonempty: "user_of h H = Some u \<Longrightarrow> u \<noteq> []"
  by (auto simp: user_of_def split: option.splits list.splits handle.splits)

lemma register_inv:
  assumes "hub_inv H" "valid_handle h H" "register h uid presence stamp H = (h', H')"
  shows "hub_inv H' \<and> h' \<in> members H' \<and> h' \<in> known H'"
proof -
  obtain H1 where w: "wrap h H = (h', H1)"
    using assms(3) by (auto simp: register_def Let_def split: prod.splits)
  define H2 where "H2 = update_presence h' presence stamp (set_user h' uid H1)"
  have sb: "same_books H1 H2"
    unfolding H2_def by (rule same_books_trans [OF same_books_set_user same_books_presence])
  have I: "hub_inv H2" "h' \<in> known H2"
    using wrap_inv [OF assms(1,2) w] same_books_inv [OF sb] same_books_known [OF sb] by auto
  define H3 where "H3 = H2\<lparr>members := insert h' (members H2)\<rparr>"
  have k3: "known H3 = known H2" by (simp add: known_def H3_def)
  have I3: "hub_inv H3"
    using I table_ok_mono [of "members H2" _ "insert h' (members H2)"]
    by (auto simp: hub_inv_def H3_def known_def)
  have H': "H' = (case user_of h' H3 of Some u \<Rightarrow> H3\<lparr>users := add_at u h' (users H3)\<rparr> | None \<Rightarrow> H3)"
    using assms(3) unfolding register_def w by (auto simp: Let_def H2_def H3_def split: option.splits)
  have k': "known H' = known H3"
    by (simp add: H' known_def split: option.split)
  have "hub_inv H'"
    using I3 I(2) k' k3 user_of_nonempty [of h' H3]
    by (auto simp: hub_inv_def H' known_def intro: table_ok_add split: option.splits)
  then show ?thesis
    using I(2) k' k3 by (auto simp: H' H3_def split: option.split)
qed

lemma unregister_books:
  "rooms (unregister h H) = discard_rooms h (d_keys (rooms H)) (rooms H)"
  "members (unregister h H) = members H - {h}"
  "users (unregister h H) = (case user_of h H of Some u \<Rightarrow> discard_at u h (users H) | None \<Rightarrow> users H)"
  "known (unregister h H) = known H" "next_obj (unregister h H) = next_obj H"
  "set (map fst (objs (unregister h H))) = set (map fst (objs H))"
proof -
  let ?H = "H\<lparr>members := members H - {h}, rooms := discard_rooms h (d_keys (rooms H)) (rooms H)\<rparr>"
  let ?H' = "case user_of h ?H of Some u \<Rightarrow> ?H\<lparr>users := discard_at u h (users ?H)\<rparr> | None \<Rightarrow> ?H"
  have u: "user_of h ?H = user_of h H"
    by (simp add: user_of_def split: handle.split)
  have "unregister h H = close_handle h ?H'"
    by (simp add: unregister_def Let_def)
  then have sb: "same_books ?H' (unregister h H)"
    using same_books_close by simp
  show "rooms (unregister h H) = discard_rooms h (d_keys (rooms H)) (rooms H)"
    "members (unregister h H) = members H - {h}"
    "users (unregister h H) = (case user_of h H of Some u \<Rightarrow> discard_at u h (users H) | None \<Rightarrow> users H)"
    "known (unregister h H) = known H" "next_obj (unregister h H) = next_obj H"
    "set (map fst (objs (unregister h H))) = set (map fst (objs H))"
    using sb u by (simp_all add: same_books_def known_def split: option.splits)
qed

lemma unregister_inv: "hub_inv H \<Longrightarrow> hub_inv (unregister h H)"
  using table_ok_discard_all [of "members H" "rooms H" h] table_ok_discard
  by (auto simp: hub_inv_def unregister_books split: option.split simp del: set_map)


lemma fold_unregister_inv: "hub_inv H \<Longrightarrow> hub_inv (fold unregister hs H)"
  by (induction hs arbitrary: H) (auto intro: unregister_inv)

lemma send_many_inv: "hub_inv H \<Longrightarrow> hub_inv (send_many enc ev d hs H)"
  using fold_unregister_inv [OF same_books_inv [OF same_books_send_all]]
  by (auto simp: send_many_def split: prod.split) (metis snd_conv)

lemma register_rooms_inv:
  assumes "hub_inv H" "h \<in> members H"
  shows "hub_inv (H\<lparr>rooms := add_at rn h (rooms H)\<rparr>)"
  using assms by (auto simp: hub_inv_def known_def intro: table_ok_add)

lemma join_room_inv:
  assumes "hub_inv H" "valid_handle h H" "join_room rn h stamp H = (h', H')"
  shows "hub_inv H' \<and> h' \<in> known H'"
proof -
  obtain H1 where r: "register h None [] stamp H = (h', H1)"
      "H' = H1\<lparr>rooms := add_at rn h' (rooms H1)\<rparr>"
    using assms(3) by (auto simp: join_room_def split: prod.splits)
  show ?thesis
    using register_inv [OF assms(1,2) r(1)] register_rooms_inv by (auto simp: r(2) known_def)
qed

lemma known_valid: "h \<in> known H \<Longrightarrow> valid_handle h H"
  by (cases h) (auto simp: known_iff valid_handle_def, auto simp: known_def)

lemma sse_connect_inv:
  assumes "hub_inv H"
  shows "hub_inv (snd (sse_connect rn uid presence stamp H))"
proof -
  let ?c = "\<lparr>cl_kind = Sse (SSESession 256), cl_user = uid,
     cl_presence = [(''online_at'', stamp), (''transport'', ''sse'')], cl_stale = False\<rparr>"
  obtain h H1 where n: "new_client ?c H = (h, H1)" by force
  obtain h2 H2 where j: "join_room rn h stamp H1 = (h2, H2)" by force
  obtain h3 H3 where r: "register h2 uid presence stamp H2 = (h3, H3)" by force
  have "hub_inv H2 \<and> h2 \<in> known H2"
    using new_client_inv [OF assms n] join_room_inv [OF _ known_valid j] by blast
  then show ?thesis
    using register_inv [OF _ known_valid r] by (simp add: sse_connect_def n j r)
qed

lemma leave_room_inv: "hub_inv H \<Longrightarrow> hub_inv (leave_room rn h H)"
  by (auto simp: hub_inv_def leave_room_def known_def intro: table_ok_discard)

lemma generate_inv: "hub_inv H \<Longrightarrow> hub_inv (snd (generate n H))"
  using same_books_inv [OF same_books_set_obj [of H n]]
  by (auto simp: generate_def Let_def intro: unregister_inv split: option.split kind.split prod.split)

lemma hub_step_inv: "hub_step H H' \<Longrightarrow> hub_inv H \<Longrightarrow> hub_inv H'"
proof (induction rule: hub_step.induct)
  case (hs_register h H uid presence stamp)
  then show ?case using register_inv by (metis prod.collapse)
next
  case (hs_join h H rn stamp)
  then show ?case using join_room_inv by (metis prod.collapse)
qed (auto simp: broadcast_event_def send_user_def
    intro: same_books_inv [OF same_books_upgrade] unregister_inv leave_room_inv sse_connect_inv
      send_many_inv generate_inv same_books_inv [OF same_books_ws(1)])

lemma hub_reach_inv: "hub_reach H \<Longrightarrow> hub_inv H"
  by (induction rule: hub_reach.induct) (auto intro: hub_step_inv)


definition sample_hub :: hub where
  "sample_hub = snd (sse_connect ''lobby'' (Some ''ann'') [] ''t1'' (snd (sse_connect ''lobby'' (Some ''bob'') [] ''t0'' EventHub)))"

lemma sample_hub_reach: "hub_reach sample_hub"
  unfolding sample_hub_def by (rule hub_next [OF hub_next [OF hub_init hs_sse] hs_sse])

lemma d_set_twice: "d_set k v (d_set k u d) = d_set k v d"
  by (induction d) (auto simp: d_set_def)

lemma register_sse:
  assumes "d_get (objs H) n = Some c" and "cl_kind c = Sse s"
  shows "register (ObjRef n) uid p t H = (ObjRef n,
    (let c' = c\<lparr>cl_user := (case uid of None \<Rightarrow> cl_user c | Some u \<Rightarrow> Some u), cl_presence := touch p t (cl_presence c)\<rparr>
     in H\<lparr>objs := d_set n c' (objs H), members := insert (ObjRef n) (members H),
          users := (case cl_user c' of Some (x # xs) \<Rightarrow> add_at (x # xs) (ObjRef n) (users H) | _ \<Rightarrow> users H)\<rparr>))"
  using assms
  by (cases uid) (simp_all add: register_def wrap_def set_user_def update_presence_def user_of_def d_set_twice Let_def
      split: option.split list.split)

lemma sse_connect_eq:
  assumes "u \<noteq> []"
  shows "sse_connect rn (Some u) [] t H = (ObjRef (next_obj H),
    H\<lparr>objs := d_set (next_obj H) \<lparr>cl_kind = Sse (SSESession 256), cl_user = Some u,
          cl_presence = [(''online_at'', t), (''transport'', ''sse'')], cl_stale = False\<rparr> (objs H),
      next_obj := Suc (next_obj H), rooms := add_at rn (ObjRef (next_obj H)) (rooms H),
      users := add_at u (ObjRef (next_obj H)) (add_at u (ObjRef (next_obj H)) (users H)), members := insert (ObjRef (next_obj H)) (members H)\<rparr>)"
proof -
  obtain x xs where u: "u = x # xs" using assms by (cases u) auto
  let ?c = "\<lparr>cl_kind = Sse (SSESession 256), cl_user = Some u, cl_presence = [(''online_at'', t), (''transport'', ''sse'')], cl_stale = False\<rparr>"
  have r: "register (ObjRef (next_obj H)) a [] t H' = (ObjRef (next_obj H), H'\<lparr>members := insert (ObjRef (next_obj H)) (members H'),
      users := add_at u (ObjRef (next_obj H)) (users H')\<rparr>)"
    if "objs H' = d_set (next_obj H) ?c (objs H)" "a = None \<or> a = Some u" for H' a
  proof -
    have g: "d_get (objs H') (next_obj H) = Some ?c" "cl_kind ?c = Sse (SSESession 256)" using that by simp_all
    show ?thesis
      unfolding register_sse [OF g] using that u
      by (auto simp: touch_def d_setdefault_def d_set_twice Let_def)
  qed
  show ?thesis
    by (simp add: sse_connect_def new_client_def join_room_def r Let_def)
qed

lemma sample_hub_eq: "sample_hub =
  (let c = (\<lambda>u t. \<lparr>cl_kind = Sse (SSESession 256), cl_user = Some u, cl_presence = [(''online_at'', t), (''transport'', ''sse'')], cl_stale = False\<rparr>)
   in \<lparr>objs = [(0, c ''bob'' ''t0''), (1, c ''ann'' ''t1'')], wss = [], ws_presence = [], next_obj = 2,
        rooms = [(''lobby'', {ObjRef 0, ObjRef 1})], users = [(''bob'', {ObjRef 0}), (''ann'', {ObjRef 1})], members = {ObjRef 0, ObjRef 1}\<rparr>)"
  unfolding sample_hub_def by (simp add: sse_connect_eq add_at_def set_at_def EventHub_def d_set_def insert_commute)

lemma sample_hub_lobby: "set_at ''lobby'' (rooms sample_hub) = {ObjRef 0, ObjRef 1}"
  by (simp add: sample_hub_eq set_at_def Let_def)

lemma sample_hub_user: "user_of (ObjRef 1) sample_hub = Some ''ann''"
  by (simp add: sample_hub_eq user_of_def Let_def)

lemma sample_hub_ann: "set_at ''ann'' (users sample_hub) = {ObjRef 1}"
  by (simp add: sample_hub_eq set_at_def Let_def)



subsection \<open>Leaving\<close>

lemma set_at_discard_keys: "set_at k (discard_rooms h (d_keys d) d) = set_at k d - {h}"
  by (simp add: set_at_discard_rooms set_at_missing)

lemma user_of_presence: "user_of (ObjRef m) (update_presence h p t H) = user_of (ObjRef m) H"
  by (auto simp: user_of_def update_presence_def split: handle.split option.split kind.split)

lemma user_of_set_user:
  "d_get (objs H) n \<noteq> None \<Longrightarrow> u \<noteq> [] \<Longrightarrow> user_of (ObjRef n) (set_user (ObjRef n) (Some u) H) = Some u"
  by (cases u) (auto simp: user_of_def set_user_def)

lemma user_of_members [simp]: "user_of h (H\<lparr>members := M\<rparr>) = user_of h H"
  "user_of h (H\<lparr>users := U\<rparr>) = user_of h H"
  by (simp_all add: user_of_def split: handle.split)

lemma register_again:
  assumes "d_get (objs H) n \<noteq> None" "u \<noteq> []"
  shows "\<exists>H'. register (ObjRef n) (Some u) p t H = (ObjRef n, H') \<and> d_get (objs H') n \<noteq> None \<and>
    users H' = add_at u (ObjRef n) (users H) \<and> user_of (ObjRef n) H' = Some u \<and>
    rooms H' = rooms H \<and> members H' = insert (ObjRef n) (members H)"
proof -
  define H2 where "H2 = update_presence (ObjRef n) p t (set_user (ObjRef n) (Some u) H)"
  have sb: "same_books H H2"
    unfolding H2_def by (rule same_books_trans [OF same_books_set_user same_books_presence])
  have u: "user_of (ObjRef n) H2 = Some u"
    unfolding H2_def by (simp add: user_of_presence user_of_set_user assms)
  have "register (ObjRef n) (Some u) p t H =
      (ObjRef n, H2\<lparr>members := insert (ObjRef n) (members H2), users := add_at u (ObjRef n) (users H2)\<rparr>)"
    by (simp add: register_def wrap_def u flip: H2_def)
  moreover have "d_get (objs H2) n \<noteq> None"
    using assms(1) known_iff [of n H] known_iff [of n H2] same_books_known [OF sb] by simp
  ultimately show ?thesis
    using sb u by (simp add: same_books_def)
qed

text \<open>
  A connection registered under one user id and registered again under another stays in
  the first user's entry after it is unregistered: the first user is reported online for ever.
\<close>

theorem rebound_user_stays_online:
  assumes "valid_handle (ObjRef n) H" "u \<noteq> v" "u \<noteq> []" "v \<noteq> []"
  shows "is_online u (unregister (ObjRef n)
    (snd (register (ObjRef n) (Some v) q t2 (snd (register (ObjRef n) (Some u) p t1 H)))))"
proof -
  obtain H1 where 1: "register (ObjRef n) (Some u) p t1 H = (ObjRef n, H1)" "d_get (objs H1) n \<noteq> None"
      "users H1 = add_at u (ObjRef n) (users H)"
    using register_again [of H n u p t1] assms by (auto simp: valid_handle_def)
  obtain H2 where 2: "register (ObjRef n) (Some v) q t2 H1 = (ObjRef n, H2)"
      "users H2 = add_at v (ObjRef n) (users H1)" "user_of (ObjRef n) H2 = Some v"
    using register_again [OF 1(2) assms(4)] by blast
  show ?thesis
    using assms(2) by (simp add: 1 2 is_online_def unregister_books)
qed

lemma rebound_user_stays_online_witness:
  "is_online ''ann'' (unregister (ObjRef 0) (snd (register (ObjRef 0) (Some ''eve'') [] ''t2''
     (snd (register (ObjRef 0) (Some ''ann'') [] ''t1'' sample_hub)))))"
  by (rule rebound_user_stays_online) (simp_all add: valid_handle_def sample_hub_eq)

text \<open>
  Unregistering forgets a connection: it is no member, in no room and not in its user's
  entry; the other connections keep their places; an SSE connection is closed.
\<close>

theorem unregister_forgets:
  "let H' = unregister h H in
     members H' = members H - {h} \<and> (\<forall>rn. set_at rn (rooms H') = set_at rn (rooms H) - {h}) \<and>
     (\<forall>u. set_at u (users H') = set_at u (users H) - (if user_of h H = Some u then {h} else {})) \<and>
     (\<forall>n c s. h = ObjRef n \<longrightarrow> d_get (objs H) n = Some c \<longrightarrow> cl_kind c = Sse s \<longrightarrow>
        (\<exists>c'. d_get (objs H') n = Some c' \<and> cl_kind c' = Sse (sse_close s) \<and> sse_closed (sse_close s)))"
proof -
  have "\<exists>c'. d_get (objs (unregister h H)) n = Some c' \<and> cl_kind c' = Sse (sse_close s) \<and> sse_closed (sse_close s)"
    if "h = ObjRef n" "d_get (objs H) n = Some c" "cl_kind c = Sse s" for n c s
  proof -
    have "sse_closed (sse_close s)"
      by (simp add: sse_close_def sse_put_def Let_def split: option.split)
    with that show ?thesis
      by (auto simp: unregister_def close_handle_def Let_def split: option.split)
  qed
  then show ?thesis
    by (auto simp: unregister_books set_at_discard_keys Let_def split: option.split)
qed

lemma unregister_forgets_witness:
  "set_at ''lobby'' (rooms (unregister (ObjRef 1) sample_hub)) = {ObjRef 0} \<and>
   \<not> is_online ''ann'' (unregister (ObjRef 1) sample_hub)"
proof -
  note u = unregister_forgets [of "ObjRef 1" sample_hub, unfolded Let_def sample_hub_user]
  have "set_at ''lobby'' (rooms (unregister (ObjRef 1) sample_hub)) = {ObjRef 0, ObjRef 1} - {ObjRef 1}"
    by (simp only: u sample_hub_lobby)
  moreover have "set_at ''ann'' (users (unregister (ObjRef 1) sample_hub)) = {ObjRef 1} - {ObjRef 1}"
    by (simp only: u sample_hub_ann refl if_True)
  ultimately show ?thesis
    by (simp add: is_online_def insert_Diff_if)
qed


subsection \<open>Broadcasting\<close>

definition sse_of :: "nat \<Rightarrow> hub \<Rightarrow> sse option" where
  "sse_of n H = (case d_get (objs H) n of Some c \<Rightarrow> (case cl_kind c of Sse s \<Rightarrow> Some s | _ \<Rightarrow> None) | None \<Rightarrow> None)"

lemma sse_send_closed: "sse_closed s \<Longrightarrow> sse_send ev d s = s"
  by (simp add: sse_send_def)

lemma send_one_dead:
  "sse_of n H = Some s \<Longrightarrow> fst (send_one enc ev d (ObjRef n) H) = sse_closed s"
  by (auto simp: send_one_def sse_of_def split: option.splits kind.splits)

lemma send_one_sse:
  "sse_of n H = Some s \<Longrightarrow>
   sse_of n (snd (send_one enc ev d h H)) = Some (if h = ObjRef n then sse_send ev d s else s)"
  by (auto simp: send_one_def sse_of_def sse_send_closed
      split: option.splits kind.splits handle.splits prod.splits sum.splits)

lemma send_all_sse:
  "sse_of n H = Some s \<Longrightarrow> distinct hs \<Longrightarrow>
   sse_of n (snd (send_all enc ev d hs H)) = Some (if ObjRef n \<in> set hs then sse_send ev d s else s) \<and>
   (ObjRef n \<in> set (fst (send_all enc ev d hs H)) \<longleftrightarrow> ObjRef n \<in> set hs \<and> sse_closed s)"
proof (induction hs arbitrary: H s)
  case (Cons h hs)
  obtain dead H1 where 1: "send_one enc ev d h H = (dead, H1)" by force
  have s1: "sse_of n H1 = Some (if h = ObjRef n then sse_send ev d s else s)"
    using send_one_sse [OF Cons.prems(1), of enc ev d h] 1 by simp
  have dead: "h = ObjRef n \<Longrightarrow> dead = sse_closed s"
    using send_one_dead [OF Cons.prems(1), of enc ev d] 1 by auto
  obtain rest H2 where 2: "send_all enc ev d hs H1 = (rest, H2)" by force
  have e: "send_all enc ev d (h # hs) H = (if dead then h # rest else rest, H2)"
    by (simp add: 1 2)
  show ?case
    using Cons.IH [OF s1] Cons.prems(2) dead unfolding e 2
    by (cases "h = ObjRef n") auto
qed simp

lemma sse_of_unregister:
  assumes "sse_of n H = Some s" "h = ObjRef n \<Longrightarrow> sse_closed s"
  shows "sse_of n (unregister h H) = Some s"
  using assms
  by (auto simp: unregister_def close_handle_def sse_of_def Let_def sse_close_def
      split: option.splits kind.splits handle.splits)

lemma fold_unregister_sse:
  "sse_of n H = Some s \<Longrightarrow> ObjRef n \<in> set hs \<longrightarrow> sse_closed s \<Longrightarrow> sse_of n (fold unregister hs H) = Some s"
proof (induction hs arbitrary: H)
  case (Cons h hs)
  have "sse_of n (unregister h H) = Some s"
    by (rule sse_of_unregister [OF Cons.prems(1)]) (use Cons.prems(2) in auto)
  then show ?case using Cons.IH Cons.prems(2) by simp
qed simp

lemma fold_unregister_books:
  "members (fold unregister hs H) = members H - set hs"
  "set_at rn (rooms (fold unregister hs H)) = set_at rn (rooms H) - set hs"
  by (induction hs arbitrary: H) (auto simp: unregister_books set_at_discard_keys)

text \<open>
  A broadcast reaches exactly the room: every SSE connection in it is sent the event once
  and every other one is untouched, and of the SSE connections the hub drops, from its members
  and from every room, precisely those of this room that were already closed.
\<close>

theorem broadcast_delivers:
  assumes "set targets = set_at rn (rooms H)" "distinct targets" "sse_of n H = Some s"
  shows "let H' = broadcast_event enc rn ev d targets H; hit = (ObjRef n \<in> set_at rn (rooms H)) in
    sse_of n H' = Some (if hit then sse_send ev d s else s) \<and>
    (ObjRef n \<in> members H' \<longleftrightarrow> ObjRef n \<in> members H \<and> \<not> (hit \<and> sse_closed s)) \<and>
    (\<forall>r. ObjRef n \<in> set_at r (rooms H') \<longleftrightarrow> ObjRef n \<in> set_at r (rooms H) \<and> \<not> (hit \<and> sse_closed s))"
proof -
  obtain dead H1 where 1: "send_all enc ev d targets H = (dead, H1)" by force
  have s1: "sse_of n H1 = Some (if ObjRef n \<in> set targets then sse_send ev d s else s)"
    and dead: "ObjRef n \<in> set dead \<longleftrightarrow> ObjRef n \<in> set targets \<and> sse_closed s"
    using send_all_sse [OF assms(3,2), of enc ev d] by (simp_all add: 1)
  have b: "members H1 = members H" "rooms H1 = rooms H"
    using same_books_send_all [of H enc ev d targets] by (simp_all add: 1 same_books_def)
  have "broadcast_event enc rn ev d targets H = fold unregister dead H1"
    using assms(1,2) by (simp add: broadcast_event_def send_many_def 1)
  moreover have "sse_of n (fold unregister dead H1) = Some (if ObjRef n \<in> set targets then sse_send ev d s else s)"
    by (rule fold_unregister_sse [OF s1]) (use dead in \<open>auto simp: sse_send_closed\<close>)
  ultimately show ?thesis
    using assms(1) dead by (auto simp: fold_unregister_books b)
qed

lemma broadcast_delivers_witness:
  "sse_of 1 (broadcast_event (\<lambda>_ _. []) ''lobby'' ''msg'' ''hi'' [ObjRef 0, ObjRef 1] sample_hub) =
     Some ((SSESession 256)\<lparr>sse_queue := [Some (''msg'', ''hi'')]\<rparr>)"
proof -
  have t: "set [ObjRef 0, ObjRef 1] = set_at ''lobby'' (rooms sample_hub)"
    by (simp add: sample_hub_lobby)
  have o: "sse_of 1 sample_hub = Some (SSESession 256)"
    by (simp add: sse_of_def sample_hub_eq)
  have "sse_send ''msg'' ''hi'' (SSESession 256) = (SSESession 256)\<lparr>sse_queue := [Some (''msg'', ''hi'')]\<rparr>"
    by code_simp
  then show ?thesis
    using broadcast_delivers [OF t _ o, of "\<lambda>_ _. []" "''msg''" "''hi''"]
    by (simp add: Let_def sample_hub_lobby)
qed


subsection \<open>The contract of a client connection\<close>

text \<open>
  The protocol \<^verbatim>\<open>ClientConnection\<close>: sending never raises past the hub, closing is final, and
  what a connection has accepted stays in order. \<open>journal\<close> is everything ever accepted.
\<close>

locale client_connection =
  fixes transmit :: "'e \<Rightarrow> 's \<Rightarrow> 's" and shut :: "'s \<Rightarrow> 's"
    and is_closed :: "'s \<Rightarrow> bool" and journal :: "'s \<Rightarrow> 'i list"
  assumes transmit_closed: "is_closed s \<Longrightarrow> transmit e s = s"
    and transmit_extends: "prefix (journal s) (journal (transmit e s))"
    and shut_closed: "is_closed (shut s)"
    and shut_again: "is_closed s \<Longrightarrow> shut s = s"
    and shut_extends: "prefix (journal s) (journal (shut s))"
begin

definition act :: "'e option \<Rightarrow> 's \<Rightarrow> 's" where
  "act a = (case a of Some e \<Rightarrow> transmit e | None \<Rightarrow> shut)"

lemma act_extends: "prefix (journal s) (journal (act a s))"
  by (simp add: act_def transmit_extends shut_extends split: option.split)

lemma acts_extend: "prefix (journal s) (journal (fold act as s))"
  by (induction "as" arbitrary: s) (auto intro: prefix_order.trans [OF act_extends])

lemma acts_closed: "is_closed s \<Longrightarrow> fold act as s = s"
  by (induction "as") (auto simp: act_def transmit_closed shut_again split: option.split)

lemma acts_after_shut: "None \<in> set as \<Longrightarrow> is_closed (fold act as s)"
proof (induction "as" arbitrary: s)
  case (Cons a as)
  show ?case
  proof (cases a)
    case None
    then have "fold act (a # as) s = shut s"
      using acts_closed [OF shut_closed] by (simp add: act_def)
    then show ?thesis
      using shut_closed by simp
  qed (use Cons in auto)
qed simp

lemma acts_final: "None \<in> set as \<Longrightarrow> fold act (as @ bs) s = fold act as s"
  using acts_closed [OF acts_after_shut] by simp

end

interpretation sse_conn: client_connection "\<lambda>(ev, d). sse_send ev d" sse_close sse_closed "\<lambda>s. taken s @ sse_queue s"
proof (unfold_locales, goal_cases)
  case (2 s e)
  then show ?case
    by (cases e) (auto simp: sse_send_def sse_close_def sse_put_def Let_def split: option.split)
next
  case (3 s)
  then show ?case
    by (simp add: sse_close_def sse_put_def Let_def split: option.split)
next
  case (5 s)
  then show ?case
    by (simp add: sse_close_def sse_put_def Let_def split: option.split)
qed (auto simp: sse_send_def sse_close_def)

lemma send_text_closed: "ws_closed s \<Longrightarrow> snd (send_text t s) = s"
  by (simp add: send_text_def send_frame_def enqueue_frame_def split: option.split sum.split)

lemma close_log: "prefix (ws_log s) (ws_log (close st r s))"
  using ws_safe_close by (auto simp: ws_safe_def ws_grows_def)

lemma send_text_log: "prefix (ws_log s) (ws_log (snd (send_text t s)))"
  using ws_safe_send_frame by (auto simp: send_text_def ws_safe_def ws_grows_def split: option.split)

interpretation ws_conn: client_connection "\<lambda>(ev, d) s. snd (send_text (enc ev d) s)" "close 1000 []" ws_closed ws_log
proof (unfold_locales, goal_cases)
  case (3 s)
  then show ?case
    by (simp add: close_def Let_def put_ignored_def put_nowait_def split: option.split)
next
  case (5 s)
  then show ?case by (rule close_log)
qed (auto simp: send_text_closed send_text_log close_def)

definition sse_ops :: "event option list \<Rightarrow> sse \<Rightarrow> sse" where
  "sse_ops as = fold (\<lambda>a. case a of Some e \<Rightarrow> (case e of (ev, d) \<Rightarrow> sse_send ev d) | None \<Rightarrow> sse_close) as"

definition ws_ops :: "(str \<Rightarrow> str \<Rightarrow> ustr) \<Rightarrow> event option list \<Rightarrow> session \<Rightarrow> session" where
  "ws_ops enc as = fold (\<lambda>a. case a of Some e \<Rightarrow> (case e of (ev, d) \<Rightarrow> \<lambda>s. snd (send_text (enc ev d) s)) | None \<Rightarrow> close 1000 []) as"

lemma sse_ops_act: "sse_ops as = fold sse_conn.act as"
  by (simp add: sse_ops_def sse_conn.act_def [abs_def])

lemma ws_ops_act: "ws_ops enc as = fold (ws_conn.act enc) as"
  by (simp add: ws_ops_def ws_conn.act_def [abs_def])

text \<open>
  Both kinds of client connection keep the hub's contract: whatever is sent and closed, in
  any order, what was accepted before stays in place, and after the first close nothing that is
  sent or closed changes the connection any more.
\<close>

theorem connections_final:
  assumes "None \<in> set as"
  shows "sse_ops (as @ bs) s = sse_ops as s \<and> ws_ops enc (as @ bs) w = ws_ops enc as w \<and>
    prefix (sse_queue s) (sse_queue (sse_ops as s)) \<and> prefix (ws_log w) (ws_log (ws_ops enc as w))"
proof -
  have t: "taken (sse_ops as s) = taken s"
    by (induction "as" arbitrary: s)
      (auto simp: sse_ops_def sse_send_def sse_close_def sse_put_def Let_def split: option.split)
  have "prefix (taken s @ sse_queue s) (taken (sse_ops as s) @ sse_queue (sse_ops as s))"
    unfolding sse_ops_act by (rule sse_conn.acts_extend)
  then show ?thesis
    using sse_conn.acts_final [OF assms] ws_conn.acts_final [OF assms] ws_conn.acts_extend
    by (simp add: sse_ops_act ws_ops_act t [unfolded sse_ops_act])
qed

lemma connections_final_witness:
  "sse_ops ([Some (''a'', ''1''), None] @ [Some (''b'', ''2'')]) (SSESession 256) =
     sse_ops [Some (''a'', ''1''), None] (SSESession 256)"
proof -
  have "None \<in> set [Some (''a'', ''1''), None]" by simp
  from connections_final [OF this] show ?thesis by blast
qed

subsection \<open>The event stream\<close>

text \<open>One session under its senders, its closers and its generator; \<open>emitted\<close> is what the generator yields.\<close>

inductive sse_run :: "int \<Rightarrow> event list \<Rightarrow> event list \<Rightarrow> sse \<Rightarrow> bool" for m :: int where
  run_init: "sse_run m [] [] (SSESession m)"
| run_send: "sse_run m sent emitted s \<Longrightarrow>
    sse_run m (sent @ (if sse_queue (sse_send ev d s) = sse_queue s @ [Some (ev, d)] then [(ev, d)] else []))
      emitted (sse_send ev d s)"
| run_close: "sse_run m sent emitted s \<Longrightarrow> sse_run m sent emitted (sse_close s)"
| run_next: "sse_run m sent emitted s \<Longrightarrow> sse_next s = (y, s') \<Longrightarrow>
    sse_run m sent (emitted @ (case y of Event e \<Rightarrow> [e] | _ \<Rightarrow> [])) s'"

definition events_in :: "event option list \<Rightarrow> event list" where
  "events_in xs = concat (map (\<lambda>x. case x of Some e \<Rightarrow> [e] | None \<Rightarrow> []) xs)"

lemma events_in_simps [simp]: "events_in [] = []" "events_in (xs @ ys) = events_in xs @ events_in ys"
  "events_in (x # xs) = (case x of Some e \<Rightarrow> [e] | None \<Rightarrow> []) @ events_in xs"
  by (simp_all add: events_in_def)

text \<open>
  An SSE stream is a bounded queue: what its generator has yielded, followed by what still
  waits, is exactly what was accepted, in order and without repetition, and the queue never
  exceeds its size.
\<close>

theorem sse_fifo:
  assumes "sse_run m sent emitted s"
  shows "sent = emitted @ events_in (sse_queue s) \<and> (0 < m \<longrightarrow> int (length (sse_queue s)) \<le> m)"
proof -
  have "sse_max s = m \<and> sent = emitted @ events_in (sse_queue s) \<and> (0 < m \<longrightarrow> int (length (sse_queue s)) \<le> m)"
    using assms
  proof (induction rule: sse_run.induct)
    case (run_next sent emitted s y s')
    then show ?case
      by (cases "sse_queue s") (auto simp: sse_next_def split: if_splits option.splits)
  qed (auto simp: SSESession_def sse_send_def sse_close_def sse_put_def Let_def split: option.splits if_splits)
  then show ?thesis by blast
qed

lemma sse_fifo_witness:
  "[(''a'', ''1'')] = [] @ events_in (sse_queue (sse_send ''a'' ''1'' (SSESession 256)))"
proof -
  have "sse_run 256 [(''a'', ''1'')] [] (sse_send ''a'' ''1'' (SSESession 256))"
    using run_send [OF run_init [of 256], of "''a''" "''1''"]
    by (simp add: sse_send_def sse_put_def SSESession_def)
  from sse_fifo [OF this] show ?thesis by blast
qed

end
