(* ===== verification/Tasks.thy ===== *)
theory Tasks
  imports Http
begin

section \<open>The persistent task queue (\<^verbatim>\<open>tasks.py\<close>)\<close>

text \<open>
  One table of tasks, its worker thread and the retry rule. Importing the mname, finding the
  attribute, decoding the arguments and calling the task belong to the application: \<open>call_task\<close>
  of the runner, which returns, raises an \<^verbatim>\<open>Exception\<close> with a text, or ends the thread with a
  \<^verbatim>\<open>BaseException\<close> (\<^verbatim>\<open>SystemExit\<close>) or with the process.
\<close>

datatype status = Pending | Running | Done | Dead

record task =
  t_func :: str
  t_args :: str
  t_kwargs :: str
  t_status :: status
  t_attempts :: int
  next_run :: rat
  last_error :: "str option"

record queue =
  rows :: "(nat, task) dict"
  next_id :: nat
  poll_interval :: rat
  max_retries :: int
  stop_event :: bool
  worker_alive :: bool

datatype outcome = Returned | Raised str | Exited

record 'w runner =
  call_task :: "str \<Rightarrow> str list \<Rightarrow> str \<Rightarrow> str \<Rightarrow> 'w \<Rightarrow> outcome \<times> 'w"

definition SQLiteTaskQueue :: "rat \<Rightarrow> int \<Rightarrow> queue" where
  "SQLiteTaskQueue poll retries =
     \<lparr>rows = [], next_id = 1, poll_interval = poll, max_retries = retries, stop_event = False, worker_alive = False\<rparr>"

text \<open>\<open>args\<close> and \<open>kwargs\<close> are the results of \<^verbatim>\<open>json.dumps\<close>, which may raise.\<close>

definition enqueue :: "str \<Rightarrow> str \<Rightarrow> str result \<Rightarrow> str result \<Rightarrow> rat \<Rightarrow> queue \<Rightarrow> nat result \<times> queue" where
  "enqueue mname qualname args kwargs t q =
     (case rbind args (\<lambda>a. rbind kwargs (\<lambda>k. Inr (a, k))) of
        Inl e \<Rightarrow> (Inl e, q)
      | Inr (a, k) \<Rightarrow>
          (Inr (next_id q),
           q\<lparr>rows := rows q @ [(next_id q, \<lparr>t_func = mname @ '':'' @ qualname, t_args = a, t_kwargs = k,
                 t_status = Pending, t_attempts = 0, next_run = t, last_error = None\<rparr>)],
             next_id := Suc (next_id q)\<rparr>))"

subsection \<open>One turn of the worker\<close>

definition due :: "rat \<Rightarrow> nat \<times> task \<Rightarrow> bool" where
  "due t r = (t_status (snd r) = Pending \<and> next_run (snd r) \<le> t)"

definition select_task :: "rat \<Rightarrow> queue \<Rightarrow> (nat \<times> task) option" where
  "select_task t q = find (due t) (sort_key fst (rows q))"

definition update_row :: "nat \<Rightarrow> (task \<Rightarrow> task) \<Rightarrow> queue \<Rightarrow> queue" where
  "update_row i f q = q\<lparr>rows := map (\<lambda>(j, x). (j, if j = i then f x else x)) (rows q)\<rparr>"

definition perform :: "'w runner \<Rightarrow> task \<Rightarrow> 'w \<Rightarrow> outcome \<times> 'w" where
  "perform E x w =
     (case split1 '':'' (t_func x) of
        None \<Rightarrow> (Raised ''not enough values to unpack (expected 2, got 1)'', w)
      | Some (mname, qualname) \<Rightarrow> call_task E mname (split_on ''.'' qualname) (t_args x) (t_kwargs x) w)"

definition finish :: "nat \<Rightarrow> int \<Rightarrow> outcome \<Rightarrow> rat \<Rightarrow> queue \<Rightarrow> queue" where
  "finish i tries out t q =
     (case out of
        Returned \<Rightarrow> update_row i (\<lambda>x. x\<lparr>t_status := Done\<rparr>) q
      | Exited \<Rightarrow> q
      | Raised why \<Rightarrow>
          (let tries = tries + 1; delay = min 60 (2 ^ nat tries)
           in update_row i (\<lambda>x. x\<lparr>t_status := (if max_retries q \<le> tries then Dead else Pending),
                t_attempts := tries, next_run := t + delay, last_error := Some why\<rparr>) q))"

text \<open>
  \<^verbatim>\<open>run_once\<close>; \<open>t1\<close> and \<open>t2\<close> are the two readings of the clock. The result says which task was
  called and how that ended.
\<close>

definition run_once :: "'w runner \<Rightarrow> rat \<Rightarrow> rat \<Rightarrow> queue \<times> 'w \<Rightarrow> (nat \<times> outcome) option \<times> queue \<times> 'w" where
  "run_once E t1 t2 qw =
     (let (q, w) = qw in
      case select_task t1 q of
        None \<Rightarrow> (None, q, w)
      | Some (i, x) \<Rightarrow>
          (let q = update_row i (\<lambda>x. x\<lparr>t_status := Running\<rparr>) q; (out, w) = perform E x w
           in (Some (i, out), finish i (t_attempts x) out t2 q, w)))"

subsection \<open>The worker thread\<close>

definition start :: "queue \<Rightarrow> queue" where
  "start q = (if worker_alive q then q else q\<lparr>stop_event := False, worker_alive := True\<rparr>)"

text \<open>\<^verbatim>\<open>stop\<close> sets the event and waits at most its timeout for the thread: \<open>joined\<close> says whether it ended.\<close>

definition stop :: "bool \<Rightarrow> queue \<Rightarrow> queue" where
  "stop joined q = q\<lparr>stop_event := True, worker_alive := worker_alive q \<and> \<not> joined\<rparr>"

text \<open>One iteration of \<^verbatim>\<open>run_forever\<close>, or its end; the thread also ends with an exit.\<close>

definition worker_turn :: "'w runner \<Rightarrow> rat \<Rightarrow> rat \<Rightarrow> queue \<times> 'w \<Rightarrow> queue \<times> 'w" where
  "worker_turn E t1 t2 qw =
     (let (q, w) = qw in
      if \<not> worker_alive q then (q, w)
      else if stop_event q then (q\<lparr>worker_alive := False\<rparr>, w)
      else (case run_once E t1 t2 (q, w) of
              (Some (i, Exited), q, w) \<Rightarrow> (q\<lparr>worker_alive := False\<rparr>, w)
            | (_, q, w) \<Rightarrow> (q, w)))"

subsection \<open>What one turn changes\<close>

lemma update_row_simps [simp]:
  "next_id (update_row i f q) = next_id q" "max_retries (update_row i f q) = max_retries q"
  "map fst (rows (update_row i f q)) = map fst (rows q)"
  by (simp_all add: update_row_def case_prod_unfold comp_def)

lemma d_get_update_row [simp]:
  "d_get (rows (update_row i f q)) j = (if j = i then map_option f (d_get (rows q) j) else d_get (rows q) j)"
proof -
  have "d_get (map (\<lambda>(j, x). (j, if j = i then f x else x)) d) j =
      (if j = i then map_option f (d_get d j) else d_get d j)" for d
    by (induction d) auto
  then show ?thesis by (simp add: update_row_def)
qed

lemma find_sorted_first:
  assumes "find P (sort_key fst d) = Some (i, x)"
  shows "(i, x) \<in> set d \<and> P (i, x) \<and> (\<forall>(j, y)\<in>set d. P (j, y) \<longrightarrow> i \<le> j)"
proof -
  obtain n where n: "n < length d" "P (sort_key fst d ! n)" "(i, x) = sort_key fst d ! n"
    "\<forall>m<n. \<not> P (sort_key fst d ! m)"
    using assms by (auto simp: find_Some_iff)
  have "i \<le> j" if "(j, y) \<in> set d" "P (j, y)" for j y
  proof -
    obtain m where m: "m < length d" "(j, y) = sort_key fst d ! m"
      using \<open>(j, y) \<in> set d\<close> by (metis in_set_conv_nth length_sort set_sort)
    then have "n \<le> m" using n(4) that(2) by (metis not_less)
    then have "map fst (sort_key fst d) ! n \<le> map fst (sort_key fst d) ! m"
      using m(1) by (intro sorted_nth_mono) simp_all
    then show ?thesis using n(1,3) m by (metis fst_conv length_map length_sort nth_map)
  qed
  moreover have "(i, x) \<in> set d" using n(1,3) by (metis length_sort nth_mem set_sort)
  ultimately show ?thesis using n(2,3) by auto
qed

lemma find_sorted_None: "find P (sort_key fst d) = None \<longleftrightarrow> (\<forall>r\<in>set d. \<not> P r)"
  by (auto simp: find_None_iff)

lemma run_once_spec:
  assumes "d_ok (rows q)" and "run_once E t1 t2 (q, w) = (r, q', w')"
  shows "case r of
      None \<Rightarrow> q' = q \<and> w' = w \<and> (\<forall>i x. d_get (rows q) i = Some x \<longrightarrow> \<not> due t1 (i, x))
    | Some (i, out) \<Rightarrow>
        (\<exists>x. d_get (rows q) i = Some x \<and> due t1 (i, x) \<and> perform E x w = (out, w') \<and>
           (\<forall>j y. d_get (rows q) j = Some y \<longrightarrow> due t1 (j, y) \<longrightarrow> i \<le> j) \<and>
           (\<forall>j. j \<noteq> i \<longrightarrow> d_get (rows q') j = d_get (rows q) j) \<and>
           d_get (rows q') i = Some (case out of
               Returned \<Rightarrow> x\<lparr>t_status := Done\<rparr>
             | Exited \<Rightarrow> x\<lparr>t_status := Running\<rparr>
             | Raised why \<Rightarrow> x\<lparr>t_status := (if max_retries q \<le> t_attempts x + 1 then Dead else Pending),
                  t_attempts := t_attempts x + 1, next_run := t2 + min 60 (2 ^ nat (t_attempts x + 1)),
                  last_error := Some why\<rparr>))"
proof (cases "select_task t1 q")
  case None
  then have "r = None" "q' = q" "w' = w" using assms(2) by (auto simp: run_once_def)
  moreover have "\<forall>r\<in>set (rows q). \<not> due t1 r"
    using None by (simp add: select_task_def find_sorted_None)
  ultimately show ?thesis by (auto dest: d_get_SomeD)
next
  case (Some r0)
  obtain i x where ix: "select_task t1 q = Some (i, x)" using Some by (cases r0) auto
  obtain out w1 where p: "perform E x w = (out, w1)" by force
  have f: "(i, x) \<in> set (rows q)" "due t1 (i, x)" "\<forall>(j, y)\<in>set (rows q). due t1 (j, y) \<longrightarrow> i \<le> j"
    using find_sorted_first [OF ix [unfolded select_task_def]] by auto
  have g: "d_get (rows q) i = Some x"
    using assms(1) f(1) by (simp add: d_get_def d_ok_def)
  have least: "i \<le> j" if "d_get (rows q) j = Some y" "due t1 (j, y)" for j y
    using f(3) d_get_SomeD [OF that(1)] that(2) by blast
  have e: "r = Some (i, out)" "w' = w1"
    "q' = finish i (t_attempts x) out t2 (update_row i (\<lambda>x. x\<lparr>t_status := Running\<rparr>) q)"
    using assms(2) by (auto simp: run_once_def ix p Let_def)
  show ?thesis
    using g f(2) p least unfolding e
    by (cases out) (auto simp: finish_def Let_def)
qed

text \<open>
  One turn of the worker runs the due task with the least id, or none when none is due: a
  task that returns is done, one that raises is retried after \<^verbatim>\<open>min(60, 2 ** attempts)\<close> seconds
  or dead once its attempts are used up, and no other row changes.
\<close>

theorem run_once_effect:
  assumes "d_ok (rows q)" and "run_once E t1 t2 (q, w) = (r, q', w')"
  shows "case r of
      None \<Rightarrow> q' = q \<and> w' = w \<and> (\<forall>i x. d_get (rows q) i = Some x \<longrightarrow> \<not> due t1 (i, x))
    | Some (i, out) \<Rightarrow>
        (\<exists>x. d_get (rows q) i = Some x \<and> due t1 (i, x) \<and> perform E x w = (out, w') \<and>
           (\<forall>j y. d_get (rows q) j = Some y \<longrightarrow> due t1 (j, y) \<longrightarrow> i \<le> j) \<and>
           (\<forall>j. j \<noteq> i \<longrightarrow> d_get (rows q') j = d_get (rows q) j) \<and>
           d_get (rows q') i = Some (case out of
               Returned \<Rightarrow> x\<lparr>t_status := Done\<rparr>
             | Exited \<Rightarrow> x\<lparr>t_status := Running\<rparr>
             | Raised why \<Rightarrow> x\<lparr>t_status := (if max_retries q \<le> t_attempts x + 1 then Dead else Pending),
                  t_attempts := t_attempts x + 1, next_run := t2 + min 60 (2 ^ nat (t_attempts x + 1)),
                  last_error := Some why\<rparr>))"
  using assms by (rule run_once_spec)

text \<open>A task that fails once, then succeeds, and one whose name has no module.\<close>

definition flaky :: "nat runner" where
  "flaky = \<lparr>call_task = (\<lambda>m qn a k n. (if n = 0 then Raised ''boom'' else Returned, Suc n))\<rparr>"

definition two_tasks :: queue where
  "two_tasks = snd (enqueue ''jobs'' ''clean'' (Inr ''[]'') (Inr ''{}'') 10
     (snd (enqueue ''jobs'' ''mail'' (Inr ''[1]'') (Inr ''{}'') 5 (SQLiteTaskQueue 1 3))))"

lemma run_once_effect_witness:
  "case run_once flaky 20 21 (two_tasks, 0) of
     (r, q', w') \<Rightarrow> r = Some (1, Raised ''boom'') \<and> d_get (rows q') 2 = d_get (rows two_tasks) 2 \<and>
       map_option next_run (d_get (rows q') 1) = Some 23"
proof -
  obtain r q' w' where r: "run_once flaky 20 21 (two_tasks, 0) = (r, q', w')"
    by (metis surj_pair)
  have "(case run_once flaky 20 21 (two_tasks, 0) of (r, q', w') \<Rightarrow> r = Some (1, Raised ''boom'') \<and>
     map_option next_run (d_get (rows q') 1) = Some 23)" and ok: "d_ok (rows two_tasks)"
    by code_simp+
  with r have v: "r = Some (1, Raised ''boom'')" "map_option next_run (d_get (rows q') 1) = Some 23"
    by simp_all
  have "\<forall>j. j \<noteq> 1 \<longrightarrow> d_get (rows q') j = d_get (rows two_tasks) j"
    using run_once_effect [OF ok r] unfolding v(1) option.case prod.case by (elim exE conjE)
  then have "d_get (rows q') 2 = d_get (rows two_tasks) 2" by simp
  with r v show ?thesis by simp
qed

subsection \<open>The queue drains\<close>

fun run_turns :: "'w runner \<Rightarrow> (rat \<times> rat) list \<Rightarrow> queue \<times> 'w \<Rightarrow> queue \<times> 'w" where
  "run_turns E [] qw = qw"
| "run_turns E ((t1, t2) # ts) qw = run_turns E ts (snd (run_once E t1 t2 qw))"

text \<open>Turns at least a minute apart, which is the longest delay between two attempts.\<close>

fun spaced :: "rat \<Rightarrow> (rat \<times> rat) list \<Rightarrow> bool" where
  "spaced t [] = True"
| "spaced t ((t1, t2) # ts) = (t \<le> t1 \<and> t1 \<le> t2 \<and> spaced (t2 + 60) ts)"

text \<open>The attempts a task may still take, and those of the whole queue.\<close>

definition effort :: "int \<Rightarrow> task \<Rightarrow> nat" where
  "effort m x = (if t_status x = Pending then max 1 (nat (m - t_attempts x)) else 0)"

definition work :: "queue \<Rightarrow> nat" where
  "work q = sum_list (map (\<lambda>(i, x). effort (max_retries q) x) (rows q))"

lemma update_row_twice: "update_row i f (update_row i g q) = update_row i (\<lambda>x. f (g x)) q"
  by (simp add: update_row_def case_prod_unfold)

lemma work_update_row:
  assumes "d_ok (rows q)" "d_get (rows q) i = Some x" "effort (max_retries q) (f x) < effort (max_retries q) x"
  shows "work (update_row i f q) < work q"
proof -
  let ?m = "max_retries q"
  let ?e = "\<lambda>d. sum_list (map (\<lambda>(i, x). effort ?m x) d)"
  let ?u = "\<lambda>d. sum_list (map (\<lambda>(j, y). effort ?m (if j = i then f y else y)) d)"
  have same: "?u d = ?e d" if "i \<notin> set (map fst d)" for d
    using that by (induction d) auto
  have "?u d < ?e d" if "d_ok d" "d_get d i = Some x" for d
    using that
  proof (induction d)
    case (Cons r d)
    then show ?case
      using assms(3) same [of d] by (cases r) (auto simp: d_ok_def split: if_splits)
  qed simp
  moreover have "work (update_row i f q) = ?u (rows q)"
    by (simp add: work_def update_row_def comp_def case_prod_unfold)
  ultimately show ?thesis
    using assms(1,2) by (simp add: work_def)
qed

lemma run_once_row:
  assumes "d_ok (rows q)" "run_once E t1 t2 (q, w) = (Some (i, out), q', w')" "out \<noteq> Exited"
  shows "\<exists>x f. d_get (rows q) i = Some x \<and> t_status x = Pending \<and> q' = update_row i f q \<and>
    effort (max_retries q) (f x) < effort (max_retries q) x \<and> t_status (f x) \<noteq> Running \<and>
    (t_status (f x) = Pending \<longrightarrow> next_run (f x) \<le> t2 + 60)"
proof -
  obtain x where ix: "select_task t1 q = Some (i, x)"
    using assms(2) by (auto simp: run_once_def Let_def split: option.splits prod.splits)
  have f: "(i, x) \<in> set (rows q)" "t_status x = Pending"
    using find_sorted_first [OF ix [unfolded select_task_def]] by (auto simp: due_def)
  have g: "d_get (rows q) i = Some x"
    using assms(1) f(1) by (simp add: d_get_def d_ok_def)
  have q': "q' = finish i (t_attempts x) out t2 (update_row i (\<lambda>x. x\<lparr>t_status := Running\<rparr>) q)"
    using assms(2) by (auto simp: run_once_def ix Let_def split: prod.splits)
  show ?thesis
  proof (cases out)
    case Returned
    show ?thesis
      by (intro exI [of _ x] exI [of _ "\<lambda>x. x\<lparr>t_status := Running\<rparr>\<lparr>t_status := Done\<rparr>"])
        (simp add: g f(2) q' Returned finish_def update_row_twice effort_def)
  next
    case (Raised why)
    let ?n = "t_attempts x + 1"
    let ?f = "\<lambda>x. x\<lparr>t_status := Running\<rparr>\<lparr>t_status := (if max_retries q \<le> ?n then Dead else Pending),
        t_attempts := ?n, next_run := t2 + min 60 (2 ^ nat ?n), last_error := Some why\<rparr>"
    show ?thesis
      by (intro exI [of _ x] exI [of _ ?f]) (simp add: g f(2) q' Raised finish_def update_row_twice effort_def Let_def)
  qed (use assms(3) in simp)
qed

text \<open>One turn of a worker that no task ends: nothing is pending, or one task has fewer attempts left.\<close>

lemma idle_turn:
  assumes "d_ok (rows q)" and r: "run_once E t1 t2 (q, w) = (None, q1, w1)"
    and early: "\<forall>i x. d_get (rows q) i = Some x \<and> t_status x = Pending \<longrightarrow> next_run x \<le> t1"
  shows "q1 = q" and "work q = 0" and "d_get (rows q) j = Some y \<Longrightarrow> t_status y \<noteq> Pending"
proof -
  have q1: "q1 = q" "\<forall>j y. d_get (rows q) j = Some y \<longrightarrow> \<not> due t1 (j, y)"
    using run_once_spec [OF assms(1) r] by simp_all
  have np: "t_status y \<noteq> Pending" if "d_get (rows q) j = Some y" for j y
    using q1(2) early that by (fastforce simp: due_def)
  then show "work q = 0" using assms(1) by (auto simp: work_def effort_def d_get_def d_ok_def)
  show "q1 = q" by (rule q1(1))
  show "d_get (rows q) j = Some y \<Longrightarrow> t_status y \<noteq> Pending" by (rule np)
qed

lemma busy_turn:
  assumes "d_ok (rows q)" and r: "run_once E t1 t2 (q, w) = (Some ko, q1, w1)" and "t1 \<le> t2"
    and "\<And>x w. fst (perform E x w) \<noteq> Exited"
    and early: "\<forall>i x. d_get (rows q) i = Some x \<and> t_status x = Pending \<longrightarrow> next_run x \<le> t1"
  obtains y f where "d_get (rows q) (fst ko) = Some y" "t_status y = Pending" "q1 = update_row (fst ko) f q"
    "t_status (f y) \<noteq> Running" "d_ok (rows q1)" "work q1 < work q"
    "\<And>j z. d_get (rows q1) j = Some z \<Longrightarrow> t_status z = Pending \<Longrightarrow> next_run z \<le> t2 + 60"
proof -
  obtain k out where ko: "ko = (k, out)" by force
  have "out \<noteq> Exited"
    using run_once_spec [OF assms(1) r] assms(4) by (auto simp: ko) (metis fst_conv)
  from run_once_row [OF assms(1) r [unfolded ko] this] obtain y f where
    y: "d_get (rows q) k = Some y" "t_status y = Pending" "q1 = update_row k f q"
      "effort (max_retries q) (f y) < effort (max_retries q) y" "t_status (f y) \<noteq> Running"
      "t_status (f y) = Pending \<longrightarrow> next_run (f y) \<le> t2 + 60" by blast
  have nx: "next_run z \<le> t2 + 60" if "d_get (rows q1) j = Some z" "t_status z = Pending" for j z
    using that y early assms(3) by (fastforce split: if_splits)
  have "d_ok (rows q1)" using assms(1) by (simp add: y(3) d_ok_def)
  with work_update_row [where f = f, OF assms(1) y(1) y(4)] y nx that show thesis by (simp add: ko)
qed



subsection \<open>Tasks that are lost\<close>

text \<open>
  A task left marked \<^verbatim>\<open>running\<close> by a crash is never run again: no number of turns, with any
  tasks and at any times, changes its row.
\<close>

theorem crashed_task_lost:
  assumes "d_ok (rows q)" and "d_get (rows q) i = Some x" and "t_status x = Running"
  shows "d_get (rows (fst (run_turns E ts (q, w)))) i = Some x"
  using assms(1,2)
proof (induction ts arbitrary: q w)
  case (Cons t ts)
  obtain t1 t2 where t: "t = (t1, t2)" by force
  obtain r q1 w1 where r: "run_once E t1 t2 (q, w) = (r, q1, w1)" by (metis surj_pair)
  have "d_get (rows q1) i = Some x \<and> d_ok (rows q1)"
  proof (cases r)
    case None
    then show ?thesis
      using run_once_spec [OF Cons.prems(1) r] Cons.prems by simp
  next
    case (Some ro)
    obtain k out where ro: "r = Some (k, out)" using Some by (cases ro) auto
    obtain y where y: "d_get (rows q) k = Some y" "due t1 (k, y)" "\<forall>j. j \<noteq> k \<longrightarrow> d_get (rows q1) j = d_get (rows q) j"
      using run_once_spec [OF Cons.prems(1) r] by (auto simp: ro)
    then have "k \<noteq> i"
      using Cons.prems(2) assms(3) by (auto simp: due_def)
    moreover have "map fst (rows q1) = map fst (rows q)"
      using r by (auto simp: ro run_once_def Let_def finish_def split: option.splits prod.splits outcome.splits)
    ultimately show ?thesis
      using y(3) Cons.prems by (auto simp: d_ok_def)
  qed
  then show ?case
    using Cons.IH by (simp add: t r)
qed simp

definition exiting :: "unit runner" where
  "exiting = \<lparr>call_task = (\<lambda>m qn a k w. (Exited, w))\<rparr>"

lemma crashed_task_lost_witness:
  "map_option t_status (d_get (rows (fst (run_turns flaky [(100, 101), (200, 201)]
     (fst (run_turns exiting [(20, 21)] (two_tasks, ())), 0)))) 1) = Some Running"
proof -
  let ?q = "fst (run_turns exiting [(20, 21)] (two_tasks, ()))"
  have ok: "d_ok (rows ?q)" and s: "map_option t_status (d_get (rows ?q) 1) = Some Running"
    by code_simp+
  then obtain x where x: "d_get (rows ?q) 1 = Some x" "t_status x = Running" by auto
  show ?thesis
    using crashed_task_lost [OF ok x, of flaky "[(100, 101), (200, 201)]" 0] x(2) by (simp only: option.map)
qed

text \<open>
  A queue stopped while a long task runs, and started again before that task ends, has no
  worker once the task is over: \<^verbatim>\<open>start\<close> sees the old thread alive and leaves the event set.
\<close>

lemma restart_leaves_no_worker:
  assumes "worker_alive q"
  shows "\<not> worker_alive (fst (worker_turn E t1 t2 (start (stop False q), w)))"
  using assms by (simp add: start_def stop_def worker_turn_def)

end
