(* ===== verification/Multipart.thy ===== *)
theory Multipart
  imports Parser_Head
begin

section \<open>Multipart forms (\<^verbatim>\<open>multipart.py\<close>)\<close>

text \<open>
  The bounded \<^verbatim>\<open>multipart/form-data\<close> parser. A spooled temporary file is its content; whether it
  is in memory or on disk does not matter to what can be read back.
\<close>

record uploaded_file =
  up_name :: str
  up_filename :: str
  up_type :: str
  up_size :: int
  up_data :: bytes
  up_sniffed :: "str option"

record multipart_data =
  mp_fields :: "(str, ustr) dict"
  mp_files :: "(str, uploaded_file) dict"

text \<open>\<^verbatim>\<open>save\<close> copies the file in chunks of 64 KiB: the chunks written.\<close>

function save_chunks :: "nat \<Rightarrow> bytes \<Rightarrow> bytes list" where
  "save_chunks k d = (if k = 0 \<or> d = [] then [] else take k d # save_chunks k (drop k d))"
  by pat_completeness auto
termination
  by (relation "measure (\<lambda>(k, d). length d)") auto

declare save_chunks.simps [simp del]

definition save :: "uploaded_file \<Rightarrow> bytes" where
  "save f = concat (save_chunks 65536 (up_data f))"

subsection \<open>Types by magic bytes\<close>

definition MAGIC :: "(bytes, str) dict" where
  "MAGIC =
    [(CHR 0x89 # ''PNG'' @ CRLF @ [CHR 0x1A, LF], ''image/png''),
     ([CHR 0xFF, CHR 0xD8, CHR 0xFF], ''image/jpeg''),
     (''GIF87a'', ''image/gif''), (''GIF89a'', ''image/gif''),
     (''%PDF-'', ''application/pdf''),
     (''PK'' @ [CHR 0x03, CHR 0x04], ''application/zip''),
     (''MZ'', ''application/vnd.microsoft.portable-executable''),
     (''#!'', ''text/x-shellscript'')]"

definition sniff_mime :: "bytes \<Rightarrow> str option" where
  "sniff_mime head =
     (case find (\<lambda>(magic, mime). prefix magic head) MAGIC of
        Some (magic, mime) \<Rightarrow> Some mime
      | None \<Rightarrow> if prefix ''<?xml'' head \<or> prefix ''<svg'' head then Some ''application/xml'' else None)"

definition dangerous :: "str list" where
  "dangerous = [''application/vnd.microsoft.portable-executable'', ''text/x-shellscript'']"

subsection \<open>The head of a part\<close>

fun disposition_params :: "str list \<Rightarrow> (str, str) dict \<Rightarrow> (str, str) dict" where
  "disposition_params [] d = d"
| "disposition_params (p # ps) d =
     disposition_params ps
       (case split1 ''='' p of
          None \<Rightarrow> d
        | Some (k, v) \<Rightarrow> d_set (lower (strip k)) (strip_by (\<lambda>c. c = DQUOTE) (strip v)) d)"

definition parse_content_disposition :: "str \<Rightarrow> str \<times> (str, str) dict" where
  "parse_content_disposition value =
     (let pieces = map strip (split_on '';'' value)
      in (lower (hd pieces), disposition_params (tl pieces) []))"

fun part_headers :: "str list \<Rightarrow> (str, str) dict \<Rightarrow> (str, str) dict result" where
  "part_headers [] d = Inr d"
| "part_headers (line # ls) d =
     (if line = [] then part_headers ls d
      else if CR \<in> set line \<or> LF \<in> set line then Inl (HTTPError 400 ''Malformed multipart header'' [])
      else (case split1 '':'' line of
              None \<Rightarrow> Inl (HTTPError 400 ''Malformed multipart header'' [])
            | Some (k, v) \<Rightarrow> part_headers ls (d_set (lower (strip k)) (strip v) d)))"

subsection \<open>The boundary\<close>

text \<open>
  \<^verbatim>\<open>re.search\<close> of \<^verbatim>\<open>boundary=("?)([^";]+)\1\<close>: an opening quote needs a closing one, and without
  one the group cannot start with a quote.
\<close>

definition boundary_at :: "str \<Rightarrow> str option" where
  "boundary_at s =
     (let quote = (s \<noteq> [] \<and> hd s = DQUOTE); t = (if quote then tl s else s);
          g = takeWhile (\<lambda>c. c \<noteq> DQUOTE \<and> c \<noteq> CHR '';'') t; r = drop (length g) t
      in if g \<noteq> [] \<and> (quote \<longrightarrow> r \<noteq> [] \<and> hd r = DQUOTE) then Some g else None)"

fun find_boundary :: "str \<Rightarrow> str option" where
  "find_boundary [] = None"
| "find_boundary (c # cs) =
     (case (if prefix ''boundary='' (c # cs) then boundary_at (drop 9 (c # cs)) else None) of
        Some b \<Rightarrow> Some b
      | None \<Rightarrow> find_boundary cs)"

subsection \<open>\<^verbatim>\<open>MultipartParser\<close>\<close>

record multipart_limits =
  max_files :: int
  max_file_size :: int
  max_parts :: int
  allowed_mime_mismatch :: bool

definition MultipartParser :: multipart_limits where
  "MultipartParser = \<lparr>max_files = 8, max_file_size = 10 * 1024 * 1024, max_parts = 64, allowed_mime_mismatch = False\<rparr>"

definition checked_types :: "str list" where
  "checked_types = [''image/'', ''application/pdf'', ''application/zip'']"

definition upload :: "multipart_limits \<Rightarrow> str \<Rightarrow> str \<Rightarrow> (str, str) dict \<Rightarrow> bytes \<Rightarrow> uploaded_file result" where
  "upload lims name filename hs content =
     (if max_file_size lims < int (length content) then Inl (HTTPError 413 ''Uploaded file too large'' [])
      else
        (let ctype = lower (case d_get hs ''content-type'' of Some v \<Rightarrow> v | None \<Rightarrow> ''application/octet-stream'');
             sniffed = sniff_mime (take 8 content)
         in case sniffed of
              None \<Rightarrow> Inr \<lparr>up_name = name, up_filename = filename, up_type = ctype, up_size = int (length content),
                 up_data = content, up_sniffed = None\<rparr>
            | Some mime \<Rightarrow>
                if mime \<in> set dangerous then Inl (HTTPError 415 ''Dangerous uploaded file type rejected'' [])
                else if list_ex (\<lambda>p. prefix p ctype) checked_types \<and> mime \<noteq> ctype \<and> \<not> allowed_mime_mismatch lims
                then Inl (HTTPError 415 (''MIME mismatch: declared '' @ ctype @ '', got '' @ mime) [])
                else Inr \<lparr>up_name = name, up_filename = filename, up_type = ctype, up_size = int (length content),
                   up_data = content, up_sniffed = Some mime\<rparr>))"

definition trim_part :: "bytes \<Rightarrow> bytes" where
  "trim_part p =
     (let p = (if prefix CRLF p then drop 2 p else p)
      in if suffix CRLF p then take (length p - 2) p else p)"

text \<open>One part: a field or a file; \<open>fc\<close> counts the files seen so far.\<close>

definition parse_part :: "multipart_limits \<Rightarrow> bytes \<Rightarrow> nat \<Rightarrow> ((str \<times> ustr) + (str \<times> uploaded_file)) result" where
  "parse_part lims part fc =
     (case split1 (CRLF @ CRLF) part of
        None \<Rightarrow> Inl (HTTPError 400 ''Malformed multipart part'' [])
      | Some (block, content) \<Rightarrow>
          rbind (part_headers (split_on CRLF block) [])
            (\<lambda>hs. let (disp, params) = parse_content_disposition
                      (case d_get hs ''content-disposition'' of Some v \<Rightarrow> v | None \<Rightarrow> [])
                  in (case d_get params ''name'' of
                        None \<Rightarrow> Inl (HTTPError 400 ''Invalid content disposition'' [])
                      | Some name \<Rightarrow>
                          if disp \<noteq> ''form-data'' then Inl (HTTPError 400 ''Invalid content disposition'' [])
                          else (case d_get params ''filename'' of
                                  None \<Rightarrow> Inr (Inl (name, u8_replace (map code content)))
                                | Some filename \<Rightarrow>
                                    if max_files lims < int (Suc fc) then Inl (HTTPError 413 ''Too many uploaded files'' [])
                                    else rbind (upload lims name filename hs content)
                                           (\<lambda>f. Inr (Inr (name, f)))))))"

fun parse_parts :: "multipart_limits \<Rightarrow> bytes list \<Rightarrow> nat \<Rightarrow> nat \<Rightarrow> multipart_data \<Rightarrow> multipart_data result" where
  "parse_parts lims [] pc fc m = Inr m"
| "parse_parts lims (p # ps) pc fc m =
     (if prefix ''--'' p then Inr m
      else if trim_part p = [] then parse_parts lims ps pc fc m
      else if max_parts lims < int (Suc pc) then Inl (HTTPError 413 ''Too many multipart parts'' [])
      else (case parse_part lims (trim_part p) fc of
              Inl e \<Rightarrow> Inl e
            | Inr (Inl (name, v)) \<Rightarrow> parse_parts lims ps (Suc pc) fc (m\<lparr>mp_fields := d_set name v (mp_fields m)\<rparr>)
            | Inr (Inr (name, f)) \<Rightarrow>
                parse_parts lims ps (Suc pc) (Suc fc) (m\<lparr>mp_files := d_set name f (mp_files m)\<rparr>)))"

definition parse_multipart :: "multipart_limits \<Rightarrow> request \<Rightarrow> multipart_data result" where
  "parse_multipart lims req =
     (let ctype = header req ''content-type'' in
      case find_boundary ctype of
        None \<Rightarrow> Inl (HTTPError 400 ''Expected multipart/form-data'' [])
      | Some b \<Rightarrow>
          if \<not> in_text ''multipart/form-data'' ctype then Inl (HTTPError 400 ''Expected multipart/form-data'' [])
          else if \<not> list_all (\<lambda>c. code c < 128) b then Inl (PyError ''UnicodeEncodeError'')
          else if 200 < length b \<or> CR \<in> set b \<or> LF \<in> set b then Inl (HTTPError 400 ''Invalid multipart boundary'' [])
          else
            (let raw = body_bytes_of (q_body req); sep = ''--'' @ b
             in if \<not> in_text sep raw then Inl (HTTPError 400 ''Multipart boundary not found'' [])
                else parse_parts lims (tl (split_on sep raw)) 0 0 \<lparr>mp_fields = [], mp_files = []\<rparr>))"

subsection \<open>What an accepted upload satisfies\<close>

lemma save_chunks_concat: "0 < k \<Longrightarrow> concat (save_chunks k d) = d"
  by (induction k d rule: save_chunks.induct) (simp add: save_chunks.simps)

text \<open>The limits and the type rules of one file.\<close>

definition file_ok :: "multipart_limits \<Rightarrow> uploaded_file \<Rightarrow> bool" where
  "file_ok lims f =
     (up_size f = int (length (up_data f)) \<and> up_size f \<le> max_file_size lims \<and>
      up_sniffed f = sniff_mime (take 8 (up_data f)) \<and>
      \<not> prefix ''MZ'' (up_data f) \<and> \<not> prefix ''#!'' (up_data f) \<and>
      (\<forall>mime. up_sniffed f = Some mime \<longrightarrow> \<not> allowed_mime_mismatch lims \<longrightarrow>
         list_ex (\<lambda>p. prefix p (up_type f)) checked_types \<longrightarrow> mime = up_type f))"

lemma sniff_danger:
  "sniff_mime (take 8 (''MZ'' @ z)) = Some (dangerous ! 0)"
  "sniff_mime (take 8 (''#!'' @ z)) = Some (dangerous ! 1)"
  by (simp_all add: sniff_mime_def MAGIC_def dangerous_def)

lemma upload_ok:
  assumes "upload lims name filename hs content = Inr f"
  shows "file_ok lims f"
proof -
  define sn where "sn = sniff_mime (take 8 content)"
  have f: "int (length content) \<le> max_file_size lims" "up_data f = content" "up_size f = int (length content)"
    "up_sniffed f = sn"
    "\<And>mime. sn = Some mime \<Longrightarrow> mime \<notin> set dangerous \<and>
      (\<not> allowed_mime_mismatch lims \<longrightarrow> list_ex (\<lambda>p. prefix p (up_type f)) checked_types \<longrightarrow> mime = up_type f)"
    using assms unfolding upload_def sn_def [symmetric]
    by (auto simp: Let_def split: if_splits option.splits)
  have "dangerous ! 0 \<in> set dangerous" "dangerous ! 1 \<in> set dangerous"
    by (simp_all add: dangerous_def)
  then have "\<not> prefix ''MZ'' content" "\<not> prefix ''#!'' content"
    using f(5) sniff_danger by (auto simp: sn_def prefix_def simp del: append_Cons append_Nil)
  then show ?thesis
    using f unfolding file_ok_def by (auto simp: sn_def)
qed

lemma parse_part_file:
  assumes "parse_part lims part fc = Inr (Inr (name, f))"
  shows "file_ok lims f \<and> int (Suc fc) \<le> max_files lims"
proof -
  obtain block content where b: "split1 (CRLF @ CRLF) part = Some (block, content)"
    using assms by (auto simp: parse_part_def split: option.splits)
  note p = assms [unfolded parse_part_def b option.case prod.case]
  then obtain hs where h: "part_headers (split_on CRLF block) [] = Inr hs"
    by (auto simp: rbind_Inr_iff)
  obtain disp params where d: "parse_content_disposition
      (case d_get hs ''content-disposition'' of Some v \<Rightarrow> v | None \<Rightarrow> []) = (disp, params)"
    by force
  note p = p [unfolded h rbind_simps Let_def d prod.case]
  show ?thesis
    using p upload_ok by (auto simp: rbind_Inr_iff split: option.splits if_splits)
qed

lemma d_set_length: "length (d_set k v d) \<le> Suc (length d)"
  by (induction d) auto

definition mp_ok :: "multipart_limits \<Rightarrow> nat \<Rightarrow> nat \<Rightarrow> multipart_data \<Rightarrow> bool" where
  "mp_ok lims pc fc m =
     ((\<forall>f\<in>snd ` set (mp_files m). file_ok lims f) \<and> length (mp_files m) \<le> fc \<and>
      length (mp_fields m) + length (mp_files m) \<le> pc \<and>
      int fc \<le> max 0 (max_files lims) \<and> int pc \<le> max 0 (max_parts lims))"

lemma mp_ok_field:
  "mp_ok lims pc fc m \<Longrightarrow> int (Suc pc) \<le> max_parts lims \<Longrightarrow>
   mp_ok lims (Suc pc) fc (m\<lparr>mp_fields := d_set k v (mp_fields m)\<rparr>)"
  using d_set_length [of k v "mp_fields m"] by (auto simp: mp_ok_def)

lemma mp_ok_file:
  "mp_ok lims pc fc m \<Longrightarrow> int (Suc pc) \<le> max_parts lims \<Longrightarrow> file_ok lims f \<Longrightarrow> int (Suc fc) \<le> max_files lims \<Longrightarrow>
   mp_ok lims (Suc pc) (Suc fc) (m\<lparr>mp_files := d_set k f (mp_files m)\<rparr>)"
  using d_set_length [of k f "mp_files m"] d_set_set [of k f "mp_files m"] by (auto simp: mp_ok_def)

lemma parse_parts_ok:
  "parse_parts lims ps pc fc m = Inr m' \<Longrightarrow> mp_ok lims pc fc m \<Longrightarrow> \<exists>pc' fc'. mp_ok lims pc' fc' m'"
proof (induction lims ps pc fc m rule: parse_parts.induct)
  case (2 lims p ps pc fc m)
  show ?case
  proof (cases "prefix ''--'' p \<or> trim_part p = []")
    case True
    then show ?thesis using 2 by (auto split: if_splits)
  next
    case False
    then have n: "int (Suc pc) \<le> max_parts lims" using 2(4) by (auto split: if_splits)
    obtain r where r: "parse_part lims (trim_part p) fc = Inr r"
      using 2(4) False n by (auto split: sum.splits)
    show ?thesis
    proof (cases r)
      case (Inl kv)
      then obtain k v where kv: "r = Inl (k, v)" by (cases kv) auto
      then show ?thesis
        using 2 False n r mp_ok_field [of lims pc fc m k v] by auto
    next
      case (Inr kv)
      then obtain k f where kv: "r = Inr (k, f)" by (cases kv) auto
      have "mp_ok lims (Suc pc) (Suc fc) (m\<lparr>mp_files := d_set k f (mp_files m)\<rparr>)"
        using parse_part_file [of lims "trim_part p" fc k f] r kv mp_ok_file [OF 2(5) n] by simp
      then show ?thesis
        using 2 False n r kv by auto
    qed
  qed
qed auto

text \<open>
  C33. An accepted form is within its limits: at most \<^verbatim>\<open>max_files\<close> files and \<^verbatim>\<open>max_parts\<close> parts, each
  file within \<^verbatim>\<open>max_file_size\<close> with its true size and sniffed type, none an executable or a
  script, and none of a checked type whose magic bytes tell another.
\<close>

theorem multipart_within_limits:
  assumes "parse_multipart lims req = Inr m" and "0 \<le> max_files lims" and "0 \<le> max_parts lims"
  shows "int (length (mp_files m)) \<le> max_files lims \<and>
    int (length (mp_fields m) + length (mp_files m)) \<le> max_parts lims \<and>
    (\<forall>k f. d_get (mp_files m) k = Some f \<longrightarrow> file_ok lims f)"
proof -
  obtain ps where "parse_parts lims ps 0 0 \<lparr>mp_fields = [], mp_files = []\<rparr> = Inr m"
    using assms(1) by (auto simp: parse_multipart_def Let_def split: option.splits if_splits)
  moreover have "mp_ok lims 0 0 \<lparr>mp_fields = [], mp_files = []\<rparr>"
    by (simp add: mp_ok_def)
  ultimately obtain pc fc where "mp_ok lims pc fc m"
    using parse_parts_ok by blast
  then show ?thesis
    using assms(2,3) by (force simp: mp_ok_def dest: d_get_SomeD)
qed


subsection \<open>Splitting at a separator that does not occur inside\<close>

lemma split1_at: "sep \<noteq> [] \<Longrightarrow> \<not> sublist sep (a @ butlast sep) \<Longrightarrow> split1 sep (a @ sep @ b) = Some (a, b)"
proof (induction a)
  case Nil
  then obtain y ys where s: "sep = y # ys" by (cases sep) auto
  have "prefix (y # ys) (y # ys @ b)" by simp
  with s show ?case by simp
next
  case (Cons x a)
  have "\<not> prefix sep (x # a @ sep @ b)"
  proof
    assume p: "prefix sep (x # a @ sep @ b)"
    have "prefix (x # a @ butlast sep) (x # a @ sep @ b)"
      using Cons.prems(1) by (metis append_Cons append_assoc append_butlast_last_id prefixI)
    moreover have "length sep \<le> length (x # a @ butlast sep)"
      by simp
    ultimately have "prefix sep (x # a @ butlast sep)"
      using p prefix_length_prefix by blast
    then show False using Cons.prems(2) by (simp add: prefix_imp_sublist)
  qed
  moreover have "\<not> sublist sep (a @ butlast sep)"
    using Cons.prems(2) by (auto simp: sublist_Cons_right)
  ultimately show ?case using Cons by simp
qed

lemma no_overlap:
  assumes "\<not> sublist sep (a @ [c])" "c \<notin> set sep" "sep \<noteq> []"
  shows "\<not> sublist sep ((a @ [c]) @ butlast sep)"
proof
  have short: "\<not> sublist sep (butlast sep)"
    using sublist_length_le [of sep "butlast sep"] assms(3) by (cases sep) auto
  assume "sublist sep ((a @ [c]) @ butlast sep)"
  with assms(1) short obtain x y where xy: "sep = x @ y" "suffix x (a @ [c])" "prefix y (butlast sep)"
    unfolding sublist_append by blast
  then show False
  proof (cases x rule: rev_cases)
    case Nil
    then show False using xy short prefix_imp_sublist by force
  next
    case (snoc x' d)
    then have "d = c" using xy(2) by simp
    then show False using snoc xy(1) assms(2) by simp
  qed
qed

lemma split_on_join_at:
  assumes "sep \<noteq> []" "\<And>p. p \<in> set ps \<Longrightarrow> \<not> sublist sep (p @ butlast sep)" "\<not> sublist sep q"
  shows "split_on sep (join sep (ps @ [q])) = ps @ [q]"
  using assms(2)
proof (induction ps)
  case Nil
  show ?case
    using assms(3) by (simp add: split_on.simps [of sep q] assms(1) flip: split1_None_iff)
next
  case (Cons p ps)
  have "split1 sep (p @ sep @ join sep (ps @ [q])) = Some (p, join sep (ps @ [q]))"
    using Cons.prems by (intro split1_at assms(1)) auto
  then show ?case
    using Cons by (simp add: join_Cons split_on.simps [of sep "p @ sep @ join sep (ps @ [q])"] assms(1))
qed

subsection \<open>What a client sends\<close>

datatype form_part = FieldPart str bytes | FilePart str str str bytes

definition quote :: "str \<Rightarrow> str" where
  "quote s = DQUOTE # s @ [DQUOTE]"

fun part_lines :: "form_part \<Rightarrow> str list" where
  "part_lines (FieldPart n v) = [''Content-Disposition: form-data; name='' @ quote n]"
| "part_lines (FilePart n f t v) =
     [''Content-Disposition: form-data; name='' @ quote n @ ''; filename='' @ quote f, ''Content-Type: '' @ t]"

fun part_content :: "form_part \<Rightarrow> bytes" where
  "part_content (FieldPart n v) = v"
| "part_content (FilePart n f t v) = v"

definition part_text :: "form_part \<Rightarrow> bytes" where
  "part_text p = join CRLF (part_lines p) @ CRLF @ CRLF @ part_content p"

definition form_text :: "str \<Rightarrow> form_part list \<Rightarrow> bytes" where
  "form_text b ps = concat (map (\<lambda>p. ''--'' @ b @ CRLF @ part_text p @ CRLF) ps) @ ''--'' @ b @ ''--'' @ CRLF"

definition plain :: "str \<Rightarrow> bool" where
  "plain s = list_all (\<lambda>c. c \<notin> {DQUOTE, CHR '';'', CR, LF}) s"

fun plain_part :: "multipart_limits \<Rightarrow> form_part \<Rightarrow> bool" where
  "plain_part lims (FieldPart n v) = plain n"
| "plain_part lims (FilePart n f t v) =
     (plain n \<and> plain f \<and> t \<noteq> [] \<and> strip t = t \<and> CR \<notin> set t \<and> LF \<notin> set t \<and>
      (\<exists>u. upload lims n f [(''content-type'', t)] v = Inr u))"

fun is_upload :: "form_part \<Rightarrow> bool" where
  "is_upload (FieldPart n v) = False"
| "is_upload (FilePart n f t v) = True"

fun add_part :: "form_part \<Rightarrow> multipart_data \<Rightarrow> multipart_data" where
  "add_part (FieldPart n v) m = m\<lparr>mp_fields := d_set n (u8_replace (map code v)) (mp_fields m)\<rparr>"
| "add_part (FilePart n f t v) m =
     m\<lparr>mp_files := d_set n \<lparr>up_name = n, up_filename = f, up_type = lower t, up_size = int (length v),
         up_data = v, up_sniffed = sniff_mime (take 8 v)\<rparr> (mp_files m)\<rparr>"


lemma strip_one_space:
  assumes "x \<noteq> []" "\<not> is_space (hd x)" "\<not> is_space (last x)"
  shows "strip (CHR '' '' # x) = x" "strip x = x"
proof -
  obtain a y where x: "x = a # y" using assms(1) by (cases x) auto
  have "\<not> is_space (hd (rev x))" "rev x \<noteq> []"
    using assms by (simp_all add: hd_rev)
  then have r: "dropWhile is_space (rev x) = rev x"
    by (cases "rev x") auto
  have d: "dropWhile is_space x = x" using assms(2) by (simp add: x)
  have "is_space (CHR '' '')" by code_simp
  then show "strip (CHR '' '' # x) = x" "strip x = x"
    using r by (simp_all add: strip_def strip_by_def d)
qed

lemma space_facts: "\<not> is_space DQUOTE" "\<not> is_space (CHR ''n'')" "\<not> is_space (CHR ''f'')" "\<not> is_space (CHR ''-'')"
  by code_simp+

lemma strip_quote:
  "strip (quote n) = quote n" "strip ('' name='' @ quote n) = ''name='' @ quote n"
  "strip ('' filename='' @ quote n) = ''filename='' @ quote n"
  using strip_one_space [of "quote n"] strip_one_space [of "''name='' @ quote n"] strip_one_space [of "''filename='' @ quote n"]
  by (simp_all add: quote_def space_facts)

lemma unquote_quote: "DQUOTE \<notin> set n \<Longrightarrow> strip_by (\<lambda>c. c = DQUOTE) (quote n) = n"
proof -
  assume n: "DQUOTE \<notin> set n"
  have d: "dropWhile (\<lambda>c. c = DQUOTE) m = m" if "DQUOTE \<notin> set m" for m
    using that by (cases m) auto
  show ?thesis
    using n d [of n] d [of "rev n"] by (cases n) (auto simp: strip_by_def quote_def dropWhile_append)
qed

lemma split_eq: "CHR ''='' \<notin> set k \<Longrightarrow> split1 ''='' (k @ ''='' @ v) = Some (k, v)"
  by (rule split1_hd_notin) simp_all

lemma plain_quote: "plain n \<Longrightarrow> DQUOTE \<notin> set n \<and> CHR '';'' \<notin> set (quote n) \<and> CR \<notin> set (quote n) \<and> LF \<notin> set (quote n)"
  by (auto simp: plain_def list_all_iff quote_def)

lemma lower_names: "lower (strip ''form-data'') = ''form-data''" "lower (strip ''name'') = ''name''"
  "lower (strip ''filename'') = ''filename''" "lower (strip ''Content-Disposition'') = ''content-disposition''"
  "lower (strip ''Content-Type'') = ''content-type''" "strip ''form-data'' = ''form-data''"
  "lower ''form-data'' = ''form-data''"
  by code_simp+

lemma parse_disposition_field:
  assumes "plain n"
  shows "parse_content_disposition (''form-data; name='' @ quote n) = (''form-data'', [(''name'', n)])"
proof -
  let ?ps = "[''form-data'', '' name='' @ quote n]"
  have "split_on '';'' (join '';'' ?ps) = ?ps"
    by (rule split_on_join) (use plain_quote [OF assms] in auto)
  then have s: "split_on '';'' (''form-data; name='' @ quote n) = ?ps"
    by simp
  have p: "disposition_params [''name='' @ quote n] [] = [(''name'', n)]"
    using split_eq [of "''name''" "quote n"] plain_quote [OF assms] unquote_quote [of n]
    by (simp add: strip_quote lower_names)
  show ?thesis
    unfolding parse_content_disposition_def s Let_def list.map strip_quote list.sel p lower_names by (rule refl)
qed

lemma parse_disposition_file:
  assumes "plain n" "plain f"
  shows "parse_content_disposition (''form-data; name='' @ quote n @ ''; filename='' @ quote f) =
    (''form-data'', [(''name'', n), (''filename'', f)])"
proof -
  let ?ps = "[''form-data'', '' name='' @ quote n, '' filename='' @ quote f]"
  have "split_on '';'' (join '';'' ?ps) = ?ps"
    by (rule split_on_join) (use plain_quote [OF assms(1)] plain_quote [OF assms(2)] in auto)
  then have s: "split_on '';'' (''form-data; name='' @ quote n @ ''; filename='' @ quote f) = ?ps"
    by simp
  have p: "disposition_params [''name='' @ quote n, ''filename='' @ quote f] [] = [(''name'', n), (''filename'', f)]"
    using split_eq [of "''name''" "quote n"] plain_quote [OF assms(1)] unquote_quote [of n]
      split_eq [of "''filename''" "quote f"] plain_quote [OF assms(2)] unquote_quote [of f]
    by (simp add: strip_quote lower_names)
  show ?thesis
    unfolding parse_content_disposition_def s Let_def list.map strip_quote list.sel p lower_names by (rule refl)
qed

lemma split_colon: "CHR '':'' \<notin> set k \<Longrightarrow> split1 '':'' (k @ '':'' @ v) = Some (k, v)"
  by (rule split1_hd_notin) simp_all

lemma strip_value:
  assumes "\<not> is_space (last v)" "v \<noteq> []"
  shows "strip ('' form-data'' @ v) = ''form-data'' @ v"
  using strip_one_space(1) [of "''form-data'' @ v"] assms by (simp add: space_facts)

lemma header_step:
  assumes "CR \<notin> set l" "LF \<notin> set l" "split1 '':'' l = Some (k, v)"
  shows "part_headers (l # ls) d = part_headers ls (d_set (lower (strip k)) (strip v) d)"
  using assms by (cases l) auto

lemma disposition_line:
  assumes "CR \<notin> set v" "LF \<notin> set v" "v \<noteq> []" "\<not> is_space (last v)"
  shows "part_headers ((''Content-Disposition: form-data'' @ v) # ls) [] =
    part_headers ls [(''content-disposition'', ''form-data'' @ v)]"
proof -
  have "split1 '':'' (''Content-Disposition'' @ '':'' @ '' form-data'' @ v) = Some (''Content-Disposition'', '' form-data'' @ v)"
    by (rule split_colon) simp
  from header_step [OF _ _ this] show ?thesis
    using strip_value [OF assms(4,3)] assms(1,2) by (simp add: lower_names)
qed

lemma type_line:
  assumes "CR \<notin> set t" "LF \<notin> set t" "t \<noteq> []" "strip t = t"
  shows "part_headers [''Content-Type: '' @ t] [(''content-disposition'', x)] =
    Inr [(''content-disposition'', x), (''content-type'', t)]"
proof -
  have "split1 '':'' (''Content-Type'' @ '':'' @ '' '' @ t) = Some (''Content-Type'', '' '' @ t)"
    by (rule split_colon) simp
  moreover have "strip ('' '' @ t) = t"
    using strip_by_ends [of is_space t] assms(3,4) strip_one_space(1) [of t] by (simp add: strip_def)
  ultimately show ?thesis
    using header_step [of "''Content-Type: '' @ t" "''Content-Type''" "'' '' @ t" "[]"] assms(1,2)
    by (simp add: lower_names)
qed

lemma part_lines_clean:
  assumes "plain_part lims p" "l \<in> set (part_lines p)"
  shows "CR \<notin> set l \<and> l \<noteq> []"
  using assms plain_quote by (cases p) auto

lemma parse_part_text:
  assumes "plain_part lims p" "is_upload p \<Longrightarrow> int (Suc fc) \<le> max_files lims"
  shows "\<exists>r. parse_part lims (part_text p) fc = Inr r \<and>
    (case r of Inl (n, v) \<Rightarrow> \<not> is_upload p \<and> add_part p = (\<lambda>m. m\<lparr>mp_fields := d_set n v (mp_fields m)\<rparr>)
             | Inr (n, f) \<Rightarrow> is_upload p \<and> add_part p = (\<lambda>m. m\<lparr>mp_files := d_set n f (mp_files m)\<rparr>))"
proof -
  have ne: "part_lines p \<noteq> []" by (cases p) auto
  have b: "split1 (CRLF @ CRLF) (part_text p) = Some (join CRLF (part_lines p), part_content p)"
    unfolding part_text_def by (rule split1_blank_line [OF ne]) (rule part_lines_clean [OF assms(1)])
  have l: "split_on CRLF (join CRLF (part_lines p)) = part_lines p"
    by (rule split_on_join) (use ne part_lines_clean [OF assms(1)] in auto)
  show ?thesis
  proof (cases p)
    case (FieldPart n v)
    have pl: "plain n" using assms(1) by (simp add: FieldPart)
    have "part_headers (part_lines p) [] = Inr [(''content-disposition'', ''form-data; name='' @ quote n)]"
      using disposition_line [of "''; name='' @ quote n" "[]"] plain_quote [OF pl]
      by (simp add: FieldPart quote_def space_facts)
    then show ?thesis
      unfolding parse_part_def b option.case prod.case l
      by (simp add: parse_disposition_field [OF pl, simplified]) (auto simp: FieldPart)
  next
    case (FilePart n f t v)
    have pl: "plain n" "plain f" "t \<noteq> []" "strip t = t" "CR \<notin> set t" "LF \<notin> set t"
      using assms(1) by (simp_all add: FilePart)
    obtain u where u: "upload lims n f [(''content-type'', t)] v = Inr u"
      using assms(1) by (auto simp: FilePart)
    have h: "part_headers (part_lines p) [] =
        Inr [(''content-disposition'', ''form-data; name='' @ quote n @ ''; filename='' @ quote f), (''content-type'', t)]"
      using disposition_line [of "''; name='' @ quote n @ ''; filename='' @ quote f" "[''Content-Type: '' @ t]"]
        plain_quote [OF pl(1)] plain_quote [OF pl(2)] type_line [OF pl(5,6,3,4)]
      by (simp add: FilePart quote_def space_facts)
    have u': "upload lims n f [(''content-disposition'', x), (''content-type'', t)] v = Inr u" for x
      using u by (auto simp: upload_def split: if_splits)
    have "u = \<lparr>up_name = n, up_filename = f, up_type = lower t, up_size = int (length v),
         up_data = v, up_sniffed = sniff_mime (take 8 v)\<rparr>"
      using u by (auto simp: upload_def Let_def split: if_splits option.splits)
    then show ?thesis
      unfolding parse_part_def b option.case prod.case l h
      using parse_disposition_file [OF pl(1,2)] assms(2)
      by (auto simp: FilePart u' rbind_def)
  qed
qed

subsection \<open>Round trip\<close>

lemma trim_part_text: "trim_part (CRLF @ part_text p @ CRLF) = part_text p"
  by (simp add: trim_part_def suffix_def)

lemma part_text_nonempty: "part_text p \<noteq> []"
  by (simp add: part_text_def)

lemma parse_parts_text:
  assumes "list_all (plain_part lims) ps" "int (pc + length ps) \<le> max_parts lims"
    "int (fc + length (filter is_upload ps)) \<le> max_files lims"
  shows "parse_parts lims (map (\<lambda>p. CRLF @ part_text p @ CRLF) ps @ [''--'' @ CRLF]) pc fc m = Inr (fold add_part ps m)"
  using assms
proof (induction ps arbitrary: pc fc m)
  case (Cons p ps)
  have pl: "plain_part lims p" and up: "is_upload p \<Longrightarrow> int (Suc fc) \<le> max_files lims"
    using Cons.prems(1,3) by simp_all
  obtain r where r: "parse_part lims (part_text p) fc = Inr r"
    "case r of Inl (n, v) \<Rightarrow> \<not> is_upload p \<and> add_part p = (\<lambda>m. m\<lparr>mp_fields := d_set n v (mp_fields m)\<rparr>)
             | Inr (n, f) \<Rightarrow> is_upload p \<and> add_part p = (\<lambda>m. m\<lparr>mp_files := d_set n f (mp_files m)\<rparr>)"
    using parse_part_text [OF pl up] by blast
  have step: "parse_parts lims ((CRLF @ part_text p @ CRLF) # qs) pc fc m =
     (case parse_part lims (part_text p) fc of
        Inl e \<Rightarrow> Inl e
      | Inr (Inl (name, v)) \<Rightarrow> parse_parts lims qs (Suc pc) fc (m\<lparr>mp_fields := d_set name v (mp_fields m)\<rparr>)
      | Inr (Inr (name, f)) \<Rightarrow>
          parse_parts lims qs (Suc pc) (Suc fc) (m\<lparr>mp_files := d_set name f (mp_files m)\<rparr>))" for qs
    using Cons.prems(2) part_text_nonempty [of p] by (simp add: trim_part_text [simplified])
  show ?case
  proof (cases r)
    case (Inl nv)
    obtain n v where nv: "nv = (n, v)" by force
    have "parse_parts lims (map (\<lambda>p. CRLF @ part_text p @ CRLF) ps @ [''--'' @ CRLF]) (Suc pc) fc
        (m\<lparr>mp_fields := d_set n v (mp_fields m)\<rparr>) = Inr (fold add_part ps (m\<lparr>mp_fields := d_set n v (mp_fields m)\<rparr>))"
      by (rule Cons.IH) (use Cons.prems r(2) in \<open>auto simp: Inl nv\<close>)
    with r show ?thesis
      using step [of "map (\<lambda>p. CRLF @ part_text p @ CRLF) ps @ [''--'' @ CRLF]"]
      by (simp add: Inl nv del: parse_parts.simps)
  next
    case (Inr nf)
    obtain n f where nf: "nf = (n, f)" by force
    have "parse_parts lims (map (\<lambda>p. CRLF @ part_text p @ CRLF) ps @ [''--'' @ CRLF]) (Suc pc) (Suc fc)
        (m\<lparr>mp_files := d_set n f (mp_files m)\<rparr>) = Inr (fold add_part ps (m\<lparr>mp_files := d_set n f (mp_files m)\<rparr>))"
      by (rule Cons.IH) (use Cons.prems r(2) in \<open>auto simp: Inr nf\<close>)
    with r show ?thesis
      using step [of "map (\<lambda>p. CRLF @ part_text p @ CRLF) ps @ [''--'' @ CRLF]"]
      by (simp add: Inr nf del: parse_parts.simps)
  qed
qed simp

lemma find_boundary_form:
  assumes "plain b" "b \<noteq> []"
  shows "find_boundary (''multipart/form-data; boundary='' @ b) = Some b"
proof -
  have t: "takeWhile (\<lambda>c. c \<noteq> DQUOTE \<and> c \<noteq> CHR '';'') b = b"
    using assms(1) by (auto simp: plain_def list_all_iff)
  have "hd b \<noteq> DQUOTE" using assms by (cases b) (auto simp: plain_def)
  then have "boundary_at b = Some b"
    using assms(2) by (simp add: boundary_at_def t)
  then show ?thesis by simp
qed

text \<open>
  C32. The parser reads back what a client sends: for a boundary that occurs in no part, the
  text of any list of fields and acceptable files within the limits parses to exactly those
  fields and files, later ones of the same name replacing earlier ones.
\<close>

theorem multipart_round_trip:
  assumes "header req ''content-type'' = ''multipart/form-data; boundary='' @ b"
    and "body_bytes_of (q_body req) = form_text b ps"
    and "plain b" and "list_all (\<lambda>c. code c < 128) b" and "b \<noteq> []" and "length b \<le> 200"
    and "list_all (plain_part lims) ps"
    and "\<And>p. p \<in> set ps \<Longrightarrow> \<not> sublist (''--'' @ b) (CRLF @ part_text p @ CRLF)"
    and "int (length ps) \<le> max_parts lims" and "int (length (filter is_upload ps)) \<le> max_files lims"
  shows "parse_multipart lims req = Inr (fold add_part ps \<lparr>mp_fields = [], mp_files = []\<rparr>)"
proof -
  let ?sep = "''--'' @ b"
  let ?qs = "map (\<lambda>p. CRLF @ part_text p @ CRLF) ps"
  have cr: "CR \<notin> set b" "LF \<notin> set b" using assms(3) by (auto simp: plain_def list_all_iff)
  have raw: "form_text b ps = join ?sep (([] # ?qs) @ [''--'' @ CRLF])"
  proof -
    have "concat (map (\<lambda>p. ''--'' @ b @ CRLF @ part_text p @ CRLF) ps) @ ''--'' @ b @ ''--'' @ CRLF =
        ?sep @ join ?sep (map (\<lambda>p. CRLF @ part_text p @ CRLF) ps @ [''--'' @ CRLF])" for ps
      by (induction ps) (simp_all add: join_Cons)
    from this [of ps] show ?thesis by (simp add: form_text_def join_Cons)
  qed
  have "split_on ?sep (form_text b ps) = ([] # ?qs) @ [''--'' @ CRLF]"
    unfolding raw
  proof (rule split_on_join_at)
    fix q assume "q \<in> set ([] # ?qs)"
    then consider "q = []" | p where "p \<in> set ps" "q = ((CRLF @ part_text p @ [CR]) @ [LF])" by auto
    then show "\<not> sublist ?sep (q @ butlast ?sep)"
    proof cases
      case 1
      have "\<not> length ?sep \<le> length (butlast ?sep)" by simp
      with 1 show ?thesis using sublist_length_le by (metis append_Nil)
    next
      case 2
      show ?thesis
        unfolding 2(2) by (rule no_overlap) (use assms(8) [OF 2(1)] cr in auto)
    qed
  next
    obtain c b' where "b = c # b'" using assms(5) by (cases b) auto
    then show "\<not> sublist ?sep (''--'' @ CRLF)"
      using cr by (auto simp: sublist_Cons_right)
  qed simp
  moreover have "in_text ?sep (form_text b ps)"
    unfolding in_text_def split1_None_iff raw by (simp add: join_Cons)
  moreover have "in_text ''multipart/form-data'' (''multipart/form-data; boundary='' @ b)"
    by (simp add: in_text_def)
  ultimately show ?thesis
    using parse_parts_text [of lims ps 0 0] assms(1,2,4,6,7,9,10) cr find_boundary_form [OF assms(3,5)]
    by (simp add: parse_multipart_def)
qed

definition form_request :: "str \<Rightarrow> form_part list \<Rightarrow> request" where
  "form_request b ps = (sample_request ''POST'' ''/upload'' [(''content-type'', ''multipart/form-data; boundary='' @ b)])
     \<lparr>q_body := InMemory (form_text b ps)\<rparr>"

definition sample_form :: "form_part list" where
  "sample_form = [FieldPart ''title'' ''a-b'', FilePart ''doc'' ''x y.pdf'' ''application/pdf'' (''%PDF-1'' @ CRLF @ CRLF @ ''--'')]"

lemma multipart_round_trip_witness:
  "(case parse_multipart MultipartParser (form_request ''XyZ'' sample_form) of
     Inr m \<Rightarrow> map_option up_data (d_get (mp_files m) ''doc'') = Some (''%PDF-1'' @ CRLF @ CRLF @ ''--'')
   | Inl e \<Rightarrow> False)"
proof -
  have h: "header (form_request ''XyZ'' sample_form) ''content-type'' = ''multipart/form-data; boundary='' @ ''XyZ''"
    by code_simp
  have q: "body_bytes_of (q_body (form_request ''XyZ'' sample_form)) = form_text ''XyZ'' sample_form"
    by (simp add: form_request_def)
  have u: "(case upload MultipartParser ''doc'' ''x y.pdf'' [(''content-type'', ''application/pdf'')] (''%PDF-1'' @ CRLF @ CRLF @ ''--'') of
      Inr u \<Rightarrow> True | Inl e \<Rightarrow> False)"
    by code_simp
  have s: "strip ''application/pdf'' = ''application/pdf''" by code_simp
  have pl: "list_all (plain_part MultipartParser) sample_form"
    using u s by (simp add: sample_form_def plain_def split: sum.splits)
  have "list_all (\<lambda>p. split1 (''--'' @ ''XyZ'') (CRLF @ part_text p @ CRLF) = None) sample_form"
    by code_simp
  then have sep: "\<not> sublist (''--'' @ ''XyZ'') (CRLF @ part_text p @ CRLF)" if "p \<in> set sample_form" for p
    using that unfolding list_all_iff split1_None_iff by blast
  have c: "list_all (\<lambda>c. code c < 128) ''XyZ''" by code_simp
  have l: "int (length sample_form) \<le> max_parts MultipartParser"
    "int (length (filter is_upload sample_form)) \<le> max_files MultipartParser"
    by (simp_all add: sample_form_def MultipartParser_def)
  have "parse_multipart MultipartParser (form_request ''XyZ'' sample_form) =
      Inr (fold add_part sample_form \<lparr>mp_fields = [], mp_files = []\<rparr>)"
    by (rule multipart_round_trip [OF h q _ c _ _ pl sep l]) (simp_all add: plain_def)
  then show ?thesis by (simp add: sample_form_def)
qed

lemma multipart_within_limits_witness:
  "(case parse_multipart MultipartParser (form_request ''XyZ'' sample_form) of
     Inr m \<Rightarrow> int (length (mp_files m)) \<le> 8 | Inl e \<Rightarrow> False)"
proof -
  have "(case parse_multipart MultipartParser (form_request ''XyZ'' sample_form) of Inr m \<Rightarrow> True | Inl e \<Rightarrow> False)"
    by code_simp
  then obtain m where m: "parse_multipart MultipartParser (form_request ''XyZ'' sample_form) = Inr m"
    by (auto split: sum.splits)
  show ?thesis
    using multipart_within_limits [OF m] unfolding m sum.case by (simp add: MultipartParser_def)
qed

text \<open>An SVG file with its own type is refused: the magic \<^verbatim>\<open><svg\<close> counts as \<^verbatim>\<open>application/xml\<close>.\<close>

lemma svg_upload_refused:
  "upload MultipartParser ''img'' ''a.svg'' [(''content-type'', ''image/svg+xml'')] (''<svg'' @ rest) =
    Inl (HTTPError 415 ''MIME mismatch: declared image/svg+xml, got application/xml'' []) \<or>
   max_file_size MultipartParser < int (length (''<svg'' @ rest))"
proof -
  have "lower ''image/svg+xml'' = ''image/svg+xml''" by code_simp
  then show ?thesis
    by (simp add: upload_def sniff_mime_def MAGIC_def dangerous_def checked_types_def MultipartParser_def Let_def)
qed

end
