(* ===== verification/Json.thy ===== *)
theory Json
  imports Http "HOL-Library.List_Lexorder"
begin

section \<open>JSON texts (the standard library's \<^verbatim>\<open>json\<close>)\<close>

text \<open>
  \<^verbatim>\<open>json.dumps\<close> and \<^verbatim>\<open>json.loads\<close> as the program uses them: the \<^verbatim>\<open>ensure_ascii\<close> flag, the two
  separators and \<^verbatim>\<open>sort_keys\<close>. Texts are lists of code points. A number with a fraction or an
  exponent is kept as its text, since the program only passes floats through.
\<close>

datatype json =
    JNull
  | JBool bool
  | JInt int
  | JFloat ustr
  | JStr ustr
  | JArr "json list"
  | JObj "(ustr \<times> json) list"

subsection \<open>Printing\<close>

definition hex_low :: "nat \<Rightarrow> nat" where
  "hex_low d = (if d < 10 then 48 + d else 87 + d)"

definition u_escape :: "nat \<Rightarrow> ustr" where
  "u_escape n = [92, 117, hex_low (n div 4096 mod 16), hex_low (n div 256 mod 16), hex_low (n div 16 mod 16), hex_low (n mod 16)]"

definition escape_code :: "bool \<Rightarrow> nat \<Rightarrow> ustr" where
  "escape_code ascii c =
     (if c = 34 then [92, 34] else if c = 92 then [92, 92] else if c = 10 then [92, 110]
      else if c = 13 then [92, 114] else if c = 9 then [92, 116] else if c = 12 then [92, 102]
      else if c = 8 then [92, 98]
      else if c < 32 then u_escape c
      else if \<not> ascii \<or> c < 127 then [c]
      else if c < 0x10000 then u_escape c
      else u_escape (0xD800 + (c - 0x10000) div 1024 mod 1024) @ u_escape (0xDC00 + (c - 0x10000) mod 1024))"

definition json_string :: "bool \<Rightarrow> ustr \<Rightarrow> ustr" where
  "json_string ascii s = 34 # concat (map (escape_code ascii) s) @ [34]"

text \<open>The printer, with item separator \<open>isep\<close> and key separator \<open>ksep\<close>.\<close>

fun dumps :: "bool \<Rightarrow> ustr \<Rightarrow> ustr \<Rightarrow> json \<Rightarrow> ustr" where
  "dumps ascii isep ksep JNull = uni ''null''"
| "dumps ascii isep ksep (JBool b) = uni (if b then ''true'' else ''false'')"
| "dumps ascii isep ksep (JInt i) = uni (show_int i)"
| "dumps ascii isep ksep (JFloat t) = t"
| "dumps ascii isep ksep (JStr s) = json_string ascii s"
| "dumps ascii isep ksep (JArr js) = 91 # join isep (map (dumps ascii isep ksep) js) @ [93]"
| "dumps ascii isep ksep (JObj kvs) =
     123 # join isep (map (\<lambda>(k, v). json_string ascii k @ ksep @ dumps ascii isep ksep v) kvs) @ [125]"

text \<open>\<^verbatim>\<open>sort_keys\<close>, at every level.\<close>

fun sort_json :: "json \<Rightarrow> json" where
  "sort_json (JArr js) = JArr (map sort_json js)"
| "sort_json (JObj kvs) = JObj (sort_key fst (map (\<lambda>(k, v). (k, sort_json v)) kvs))"
| "sort_json j = j"

definition dumps_compact :: "json \<Rightarrow> ustr" where
  "dumps_compact j = dumps False [44] [58] j"

subsection \<open>Reading\<close>

definition jspace :: "nat \<Rightarrow> bool" where
  "jspace c = (c = 32 \<or> c = 9 \<or> c = 10 \<or> c = 13)"

definition jws :: "ustr \<Rightarrow> ustr" where
  "jws s = dropWhile jspace s"

fun hex4 :: "ustr \<Rightarrow> (nat \<times> ustr) option" where
  "hex4 (a # b # c # d # r) =
     (case (hexval a, hexval b, hexval c, hexval d) of
        (Some w, Some x, Some y, Some z) \<Rightarrow> Some (((w * 16 + x) * 16 + y) * 16 + z, r)
      | _ \<Rightarrow> None)"
| "hex4 _ = None"

lemma hex4_shorter: "hex4 s = Some (n, r) \<Longrightarrow> length r < length s"
  by (cases s rule: hex4.cases) (auto split: option.splits)

definition escape_of :: "nat \<Rightarrow> nat option" where
  "escape_of e = map_of [(34, 34), (92, 92), (47, 47), (98, 8), (102, 12), (110, 10), (114, 13), (116, 9)] e"

definition low_surrogate :: "ustr \<Rightarrow> (nat \<times> ustr) option" where
  "low_surrogate s =
     (if take 2 s = [92, 117]
      then (case hex4 (drop 2 s) of
              Some (m, r) \<Rightarrow> if 0xDC00 \<le> m \<and> m \<le> 0xDFFF then Some (m, r) else None
            | None \<Rightarrow> None)
      else None)"

lemma low_surrogate_shorter: "low_surrogate s = Some (n, r) \<Longrightarrow> length r < length s"
  by (auto simp: low_surrogate_def split: if_splits option.splits dest!: hex4_shorter)

text \<open>The text after an opening quote: the string and what follows its closing quote.\<close>

function jstring :: "ustr \<Rightarrow> (ustr \<times> ustr) option" where
  "jstring s =
     (case s of
        [] \<Rightarrow> None
      | c # r \<Rightarrow>
          if c = 34 then Some ([], r)
          else if c = 92 then
            (case r of
               [] \<Rightarrow> None
             | e # r1 \<Rightarrow>
                 if e = 117 then
                   (case hex4 r1 of
                      None \<Rightarrow> None
                    | Some (n, r2) \<Rightarrow>
                        (case (if 0xD800 \<le> n \<and> n \<le> 0xDBFF then low_surrogate r2 else None) of
                           Some (m, r3) \<Rightarrow>
                             map_option (apfst ((#) (0x10000 + (n - 0xD800) * 1024 + (m - 0xDC00)))) (jstring r3)
                         | None \<Rightarrow> map_option (apfst ((#) n)) (jstring r2)))
                 else
                   (case escape_of e of
                      None \<Rightarrow> None
                    | Some x \<Rightarrow> map_option (apfst ((#) x)) (jstring r1)))
          else if c < 32 then None
          else map_option (apfst ((#) c)) (jstring r))"
  by pat_completeness auto
termination
  by (relation "measure length") (auto dest!: hex4_shorter low_surrogate_shorter split: if_splits)

declare jstring.simps [simp del]

definition jdigit :: "nat \<Rightarrow> bool" where
  "jdigit c = (48 \<le> c \<and> c \<le> 57)"

definition jdigits :: "ustr \<Rightarrow> ustr" where
  "jdigits s = takeWhile jdigit s"

definition jfraction :: "ustr \<Rightarrow> ustr" where
  "jfraction s = (if s \<noteq> [] \<and> hd s = 46 \<and> jdigits (tl s) \<noteq> [] then 46 # jdigits (tl s) else [])"

definition jexponent :: "ustr \<Rightarrow> ustr" where
  "jexponent s =
     (if s \<noteq> [] \<and> (hd s = 101 \<or> hd s = 69) then
        (let sign = takeWhile (\<lambda>c. c = 43 \<or> c = 45) (take 1 (tl s)); ds = jdigits (drop (length sign) (tl s))
         in if ds = [] then [] else hd s # sign @ ds)
      else [])"

text \<open>
  A number: an integer part without leading zeros, then perhaps a fraction and an exponent;
  without these it is \<^verbatim>\<open>int(text)\<close>.
\<close>

definition jnumber :: "ustr \<Rightarrow> (json \<times> ustr) option" where
  "jnumber s =
     (let sign = takeWhile (\<lambda>c. c = 45) (take 1 s); t = drop (length sign) s;
          ds = (if t \<noteq> [] \<and> hd t = 48 then [48] else jdigits t); r = drop (length ds) t;
          f = jfraction r; e = jexponent (drop (length f) r)
      in if ds = [] then None
         else if f = [] \<and> e = [] then map_option (\<lambda>i. (JInt i, r)) (py_int (map char_of (sign @ ds)))
         else Some (JFloat (sign @ ds @ f @ e), drop (length e) (drop (length f) r)))"

definition jliteral :: "ustr \<Rightarrow> (json \<times> ustr) option" where
  "jliteral s =
     (case find (\<lambda>(t, j). prefix t s)
        [(uni ''null'', JNull), (uni ''true'', JBool True), (uni ''false'', JBool False),
         (uni ''NaN'', JFloat (uni ''NaN'')), (uni ''Infinity'', JFloat (uni ''Infinity'')),
         (uni ''-Infinity'', JFloat (uni ''-Infinity''))] of
        Some (t, j) \<Rightarrow> Some (j, drop (length t) s)
      | None \<Rightarrow> jnumber s)"

text \<open>
  The reader; the first argument bounds the calls. \<open>jitems\<close> starts at a value, \<open>jmembers\<close> at a key.
\<close>

fun jvalue :: "nat \<Rightarrow> ustr \<Rightarrow> (json \<times> ustr) option"
  and jitems :: "nat \<Rightarrow> ustr \<Rightarrow> (json list \<times> ustr) option"
  and jmembers :: "nat \<Rightarrow> ustr \<Rightarrow> ((ustr \<times> json) list \<times> ustr) option" where
  "jvalue 0 s = None"
| "jvalue (Suc n) [] = None"
| "jvalue (Suc n) (c # r) =
     (if c = 34 then map_option (apfst JStr) (jstring r)
      else if c = 123 then
        (if jws r \<noteq> [] \<and> hd (jws r) = 125 then Some (JObj [], tl (jws r))
         else map_option (apfst (\<lambda>kvs. JObj (d_update [] kvs))) (jmembers n (jws r)))
      else if c = 91 then
        (if jws r \<noteq> [] \<and> hd (jws r) = 93 then Some (JArr [], tl (jws r))
         else map_option (apfst JArr) (jitems n (jws r)))
      else jliteral (c # r))"
| "jitems 0 s = None"
| "jitems (Suc n) s =
     (case jvalue n s of
        None \<Rightarrow> None
      | Some (v, r) \<Rightarrow>
          (case jws r of
             [] \<Rightarrow> None
           | d # r \<Rightarrow>
               if d = 44 then map_option (apfst ((#) v)) (jitems n (jws r))
               else if d = 93 then Some ([v], r) else None))"
| "jmembers 0 s = None"
| "jmembers (Suc n) [] = None"
| "jmembers (Suc n) (c # s) =
     (if c \<noteq> 34 then None
      else (case jstring s of
          None \<Rightarrow> None
        | Some (k, r) \<Rightarrow>
            (case jws r of
               [] \<Rightarrow> None
             | d # r \<Rightarrow>
                 if d \<noteq> 58 then None
                 else (case jvalue n (jws r) of
                         None \<Rightarrow> None
                       | Some (v, r) \<Rightarrow>
                           (case jws r of
                              [] \<Rightarrow> None
                            | d # r \<Rightarrow>
                                if d = 44 then map_option (apfst ((#) (k, v))) (jmembers n (jws r))
                                else if d = 125 then Some ([(k, v)], r) else None)))))"

text \<open>
  \<^verbatim>\<open>json.loads\<close>; \<open>None\<close> is its \<^verbatim>\<open>ValueError\<close>. The bound is never what stops the reader: every two
  calls consume a character.
\<close>

definition loads :: "ustr \<Rightarrow> json option" where
  "loads s =
     (if s \<noteq> [] \<and> hd s = 0xFEFF then None
      else (case jvalue (2 * length s + 2) (jws s) of
              None \<Rightarrow> None
            | Some (j, r) \<Rightarrow> if jws r = [] then Some j else None))"

subsection \<open>JSON bodies (\<^verbatim>\<open>responses.py\<close>, \<^verbatim>\<open>request.py\<close>)\<close>

definition JSONResponse :: "json \<Rightarrow> int \<Rightarrow> (str, str) dict \<Rightarrow> response result" where
  "JSONResponse j status hs =
     (case u8_encode (dumps_compact j) of
        None \<Rightarrow> Inl (PyError ''UnicodeEncodeError'')
      | Some b \<Rightarrow> Inr (Response (map char_of b) status hs ''application/json; charset=utf-8''))"

definition json_of :: "bytes \<Rightarrow> json result" where
  "json_of b =
     (case u8_strict (map code b) of
        None \<Rightarrow> Inl (PyError ''UnicodeDecodeError'')
      | Some t \<Rightarrow> (case loads t of None \<Rightarrow> Inl (PyError ''JSONDecodeError'') | Some j \<Rightarrow> Inr j))"

definition request_json :: "request \<Rightarrow> json result" where
  "request_json req = json_of (body_bytes_of (q_body req))"

end
