(* ===== verification/Json_Props.thy ===== *)
theory Json_Props
  imports Json
begin

section \<open>Reading back what is printed\<close>

text \<open>
  The reader never runs into its bound, and it inverts the printer, for every separator of a
  comma or a colon and spaces and with or without ASCII escaping.
\<close>

subsection \<open>Strings\<close>

lemma hexval_low: "d < 16 \<Longrightarrow> hexval (hex_low d) = Some d"
  by (auto simp: hexval_def hex_low_def digit_val_def Let_def)

lemma hex4_escape: "n < 65536 \<Longrightarrow> hex4 (hex_low (n div 4096 mod 16) # hex_low (n div 256 mod 16) #
    hex_low (n div 16 mod 16) # hex_low (n mod 16) # t) = Some (n, t)"
proof -
  assume n: "n < 65536"
  have s: "(a * 16 + n div m mod 16) = n div m" if "a = n div (m * 16)" for a m
    using that by (simp add: div_mult2_eq)
  have e: "((n div 4096 mod 16 * 16 + n div 256 mod 16) * 16 + n div 16 mod 16) * 16 + n mod 16 = n"
  proof -
    have "n div 4096 mod 16 = n div (256 * 16)" using n by simp
    then have "n div 4096 mod 16 * 16 + n div 256 mod 16 = n div 256" by (rule s)
    moreover have "n div 256 * 16 + n div 16 mod 16 = n div 16" by (rule s) simp
    ultimately show ?thesis by simp
  qed
  have d: "x mod 16 < 16" for x :: nat by simp
  show ?thesis
    unfolding hex4.simps hexval_low [OF d] by (simp only: option.case prod.case e)
qed

declare hex4.simps [simp del]

lemma jstring_u:
  assumes "n < 65536" "\<not> (0xD800 \<le> n \<and> n \<le> 0xDBFF)"
  shows "jstring (u_escape n @ t) = map_option (apfst ((#) n)) (jstring t)"
  using assms(2) by (auto simp: u_escape_def jstring.simps [of "92 # _"] hex4_escape [OF assms(1)])

lemma jstring_pair:
  assumes "x < 1024" "y < 1024"
  shows "jstring (u_escape (0xD800 + x) @ u_escape (0xDC00 + y) @ t) =
    map_option (apfst ((#) (0x10000 + x * 1024 + y))) (jstring t)"
proof -
  have l: "low_surrogate (u_escape (0xDC00 + y) @ t) = Some (0xDC00 + y, t)"
    using assms(2) hex4_escape [of "0xDC00 + y" t] by (simp add: low_surrogate_def u_escape_def)
  have h: "hex4 (drop 2 (u_escape (0xD800 + x)) @ r) = Some (0xD800 + x, r)" for r
    using assms(1) hex4_escape [of "0xD800 + x" r] by (simp add: u_escape_def)
  have u: "u_escape (0xD800 + x) = 92 # 117 # drop 2 (u_escape (0xD800 + x))"
    by (simp add: u_escape_def)
  show ?thesis
    using assms by (subst u) (simp add: jstring.simps [of "92 # _"] h l)
qed

lemma jstring_escape:
  assumes "is_scalar c"
  shows "jstring (escape_code ascii c @ t) = map_option (apfst ((#) c)) (jstring t)"
proof -
  have simple: "jstring (92 # e # t) = map_option (apfst ((#) x)) (jstring t)" if "escape_of e = Some x" "e \<noteq> 117" for e x
    using that by (simp add: jstring.simps [of "92 # _"])
  have plain: "jstring (c # t) = map_option (apfst ((#) c)) (jstring t)" if "c \<noteq> 34" "c \<noteq> 92" "32 \<le> c"
    using that by (simp add: jstring.simps [of "c # _"])
  have esc: "escape_of 34 = Some 34" "escape_of 92 = Some 92" "escape_of 110 = Some 10" "escape_of 114 = Some 13"
    "escape_of 116 = Some 9" "escape_of 102 = Some 12" "escape_of 98 = Some 8"
    by (simp_all add: escape_of_def)
  have low: "c < 65536 \<Longrightarrow> \<not> (0xD800 \<le> c \<and> c \<le> 0xDBFF)"
    using assms by (auto simp: is_scalar_def)
  have high: "(c - 65536) div 1024 < 1024" "(c - 65536) div 1024 mod 1024 = (c - 65536) div 1024"
    "65536 \<le> c \<Longrightarrow> 65536 + (c - 65536) div 1024 * 1024 + (c - 65536) mod 1024 = c"
    using assms by (auto simp: is_scalar_def less_mult_imp_div_less)
  show ?thesis
    using simple [OF esc(1)] simple [OF esc(2)] simple [OF esc(3)] simple [OF esc(4)] simple [OF esc(5)]
      simple [OF esc(6)] simple [OF esc(7)] plain jstring_u [of c t] low
      jstring_pair [OF high(1), of "(c - 65536) mod 1024" t] high(2,3)
    by (auto simp: escape_code_def)
qed

lemma jstring_text:
  "list_all is_scalar s \<Longrightarrow> jstring (concat (map (escape_code ascii) s) @ 34 # t) = Some (s, t)"
proof (induction s)
  case Nil
  then show ?case by (simp add: jstring.simps [of "34 # _"])
next
  case (Cons c s)
  then show ?case by (simp add: jstring_escape)
qed

subsection \<open>Numbers\<close>

definition stops :: "ustr \<Rightarrow> bool" where
  "stops r = (r = [] \<or> \<not> jdigit (hd r) \<and> hd r \<notin> {46, 101, 69})"

lemma uni_append [simp]: "uni (s @ t) = uni s @ uni t"
  by (simp add: uni_def)

lemma map_char_of_uni [simp]: "map char_of (uni s) = s"
  by (simp add: uni_def comp_def)

lemma show_nat_digits: "list_all jdigit (uni (show_nat n))"
  using show_nat_chars [of _ n] by (auto simp: list_all_iff uni_def jdigit_def)

lemma show_nat_nonempty: "show_nat n \<noteq> []"
  by (simp add: show_nat_def)

lemma show_nat_zero: "hd (uni (show_nat n)) = 48 \<longleftrightarrow> n = 0"
proof -
  have "code (hd (show_base 10 n)) = 48 \<longleftrightarrow> n = 0" for n
  proof (induction n rule: less_induct)
    case (less n)
    show ?case
    proof (cases "n < 10")
      case True
      then show ?thesis by (simp add: show_base.simps [of 10 n] digit_char_def)
    next
      case False
      then have "hd (show_base 10 n) = hd (show_base 10 (n div 10))"
        by (simp add: show_base.simps [of 10 n])
      with less [of "n div 10"] False show ?thesis by auto
    qed
  qed
  then show ?thesis
    by (simp add: uni_def show_nat_def hd_map)
qed

lemma show_nat_0: "show_nat 0 = ''0''"
  by code_simp

lemma jdigits_stop: "list_all jdigit ds \<Longrightarrow> stops r \<Longrightarrow> jdigits (ds @ r) = ds"
  by (cases r) (auto simp: jdigits_def stops_def takeWhile_append list_all_iff takeWhile_eq_all_conv)

lemma py_int_show_int:
  assumes "\<bar>i\<bar> < 10 ^ max_str_digits"
  shows "py_int (show_int i) = Some i"
proof (cases "i < 0")
  case True
  let ?n = "nat (- i)"
  have n: "?n < 10 ^ max_str_digits"
    using assms True by (simp add: nat_less_iff)
  have ne: "show_nat ?n \<noteq> []" by (rule show_nat_nonempty)
  have sp: "list_all (\<lambda>c. \<not> is_space c) (show_nat ?n)"
    using show_nat_chars_neq(1) by (auto simp: list_all_iff)
  then have s: "strip (show_nat ?n) = show_nat ?n" by (simp add: strip_def strip_by_id)
  have "\<not> is_space (CHR ''-'')" by code_simp
  with sp have s': "strip (CHR ''-'' # show_nat ?n) = CHR ''-'' # show_nat ?n"
    by (simp add: strip_def strip_by_id)
  have "map_option int (parse_nat 10 (show_nat ?n)) = Some (int ?n)"
    using py_int_show_nat [OF n] show_nat_chars_neq(2,3) [of "hd (show_nat ?n)" ?n] ne
    by (simp add: py_int_def s parse_int_plain)
  with True show ?thesis
    by (auto simp: show_int_def py_int_def s' parse_int_def)
next
  case False
  then show ?thesis
    using assms py_int_show_nat [of "nat i"] by (simp add: show_int_def nat_less_iff)
qed

lemma jnumber_int:
  assumes "\<bar>i\<bar> < 10 ^ max_str_digits" "stops r"
  shows "jnumber (uni (show_int i) @ r) = Some (JInt i, r)"
proof -
  define n where "n = nat \<bar>i\<bar>"
  define sign where "sign = (if i < 0 then [45] else [] :: ustr)"
  let ?d = "uni (show_nat n)"
  have sh: "uni (show_int i) = sign @ ?d"
    by (simp add: show_int_def n_def sign_def uni_def code_def)
  have d: "?d \<noteq> []" "list_all jdigit ?d" "hd ?d \<noteq> 45"
    using show_nat_digits [of n] show_nat_nonempty [of n]
    by (simp add: uni_def, simp, cases ?d) (auto simp: jdigit_def uni_def)
  have t: "takeWhile (\<lambda>c. c = 45) (take 1 (sign @ ?d @ r)) = sign"
    using d(1,3) by (cases ?d) (auto simp: sign_def)
  have dr: "drop (length sign) (sign @ ?d @ r) = ?d @ r" "drop (length ?d) (?d @ r) = r" by simp_all
  have ds: "(if ?d @ r \<noteq> [] \<and> hd (?d @ r) = 48 then [48] else jdigits (?d @ r)) = ?d"
  proof (cases "n = 0")
    case True
    have "?d = [48]" using show_nat_0 by (simp add: True uni_def code_def)
    then show ?thesis by simp
  next
    case False
    then have "hd (?d @ r) \<noteq> 48" using show_nat_zero [of n] d(1) by simp
    then show ?thesis using jdigits_stop [OF d(2) assms(2)] by simp
  qed
  have f: "jfraction r = []" "jexponent r = []"
    using assms(2) by (auto simp: jfraction_def jexponent_def stops_def)
  have "py_int (map char_of (sign @ ?d)) = Some i"
    using py_int_show_int [OF assms(1)] by (simp flip: sh)
  then show ?thesis
    unfolding sh append_assoc jnumber_def t Let_def dr ds by (simp add: f d(1))
qed


subsection \<open>The bound of the reader\<close>

lemma jws_length: "length (jws s) \<le> length s"
  by (simp add: jws_def length_dropWhile_le)

lemma jws_cons_length: "jws s = c # r \<Longrightarrow> length r < length s"
  using jws_length [of s] by simp

lemma jstring_shorter: "jstring s = Some (t, r) \<Longrightarrow> length r < length s"
proof (induction "length s" arbitrary: s t r rule: less_induct)
  case less
  have ih: "length r' < length v" if "jstring v = Some (t', r')" "length v < length s" for v t' r'
    using less.hyps that by blast
  show ?case
    using less.prems unfolding jstring.simps [of s]
    by (force dest!: hex4_shorter low_surrogate_shorter dest: ih
        split: list.splits if_splits option.splits)
qed

lemma jnumber_shorter: "jnumber s = Some (v, r) \<Longrightarrow> length r < length s"
proof -
  assume j: "jnumber s = Some (v, r)"
  define sign where "sign = takeWhile (\<lambda>c. c = 45) (take 1 s)"
  define t where "t = drop (length sign) s"
  define ds where "ds = (if t \<noteq> [] \<and> hd t = 48 then [48] else jdigits t)"
  from j have "ds \<noteq> []" "length r \<le> length (drop (length ds) t)"
    unfolding jnumber_def sign_def [symmetric] t_def [symmetric] ds_def [symmetric] Let_def
    by (auto split: if_splits)
  moreover have "t \<noteq> []" if "ds \<noteq> []"
    using that by (auto simp: ds_def jdigits_def split: if_splits)
  ultimately have "length r < length t" by (cases ds; cases t) auto
  then show ?thesis by (simp add: t_def)
qed

lemma jliteral_shorter: "jliteral s = Some (v, r) \<Longrightarrow> length r < length s"
proof -
  assume j: "jliteral s = Some (v, r)"
  have d: "length (drop (length t) s) < length s" if "prefix t s" "t \<noteq> []" for t
    using that by (cases s; cases t) auto
  have ne: "uni (c # cs) \<noteq> []" for c cs by (simp add: uni_def)
  show ?thesis
    using j jnumber_shorter d [OF _ ne]
    by (auto simp: jliteral_def split: option.splits if_splits)
qed

lemma jvalue_shorter:
  "jvalue n s = Some (v, r) \<Longrightarrow> length r < length s"
  "jitems n s = Some (vs, r) \<Longrightarrow> length r < length s"
  "jmembers n s = Some (ms, r) \<Longrightarrow> length r < length s"
proof (induction n s and n s and n s arbitrary: v r and vs r and ms r rule: jvalue_jitems_jmembers.induct)
  case (3 n c u)
  have l: "length (tl (jws u)) \<le> length u" using jws_length [of u] by simp
  show ?case
    using 3 jws_length [of u]
    by (fastforce split: if_splits dest: jstring_shorter jliteral_shorter intro: le_less_trans [OF l])
next
  case (5 n s)
  obtain w u where 1: "jvalue n s = Some (w, u)" using 5(3) by (auto split: option.splits)
  obtain d x where 2: "jws u = d # x" using 5(3) 1 by (auto split: list.splits)
  have "length x < length s" using 5(1) [OF 1] jws_cons_length [OF 2] by simp
  moreover have "length r < length (jws x)" if "jitems n (jws x) = Some (ws, r)" "d = 44" for ws
    using 5(2) [OF 1 refl 2 that(2) that(1)] .
  ultimately show ?case
    using 5(3) 1 2 jws_length [of x] by (fastforce split: if_splits)
next
  case (8 n c s)
  obtain k u where 1: "c = 34" "jstring s = Some (k, u)" using 8(3) by (auto split: option.splits if_splits)
  obtain x where 2: "jws u = 58 # x" using 8(3) 1 by (auto split: list.splits if_splits)
  obtain w y where 3: "jvalue n (jws x) = Some (w, y)" using 8(3) 1 2 by (auto split: option.splits)
  obtain d z where 4: "jws y = d # z" using 8(3) 1 2 3 by (auto split: list.splits)
  have "length z < length s"
    using jstring_shorter [OF 1(2)] jws_cons_length [OF 2] jws_length [of x] jws_cons_length [OF 4]
      8(1) [OF _ 1(2) refl 2 _ 3] 1(1) by simp
  moreover have "length r < length (jws z)" if "jmembers n (jws z) = Some (ws, r)" "d = 44" for ws
    using 8(2) [OF _ 1(2) refl 2 _ 3 refl 4 that(2) that(1)] 1(1) by simp
  ultimately show ?case
    using 8(3) 1 2 3 4 jws_length [of z] by (fastforce split: if_splits)
qed auto

lemma jvalue_bound:
  "2 * length s + 1 \<le> n \<Longrightarrow> 2 * length s + 1 \<le> m \<Longrightarrow> jvalue n s = jvalue m s"
  "2 * length s + 2 \<le> n \<Longrightarrow> 2 * length s + 2 \<le> m \<Longrightarrow> jitems n s = jitems m s"
  "2 * length s + 1 \<le> n \<Longrightarrow> 2 * length s + 1 \<le> m \<Longrightarrow> jmembers n s = jmembers m s"
proof (induction n s and n s and n s arbitrary: m and m and m rule: jvalue_jitems_jmembers.induct)
  case (3 n c u)
  obtain m' where m: "m = Suc m'" using 3(4) by (cases m) auto
  have "jmembers n (jws u) = jmembers m' (jws u)" if "c \<noteq> 34" "c = 123" "\<not> (jws u \<noteq> [] \<and> hd (jws u) = 125)"
    by (rule 3(1) [OF that]) (use 3(3,4) jws_length [of u] m in auto)
  moreover have "jitems n (jws u) = jitems m' (jws u)" if "c \<noteq> 34" "c \<noteq> 123" "c = 91" "\<not> (jws u \<noteq> [] \<and> hd (jws u) = 93)"
    by (rule 3(2) [OF that]) (use 3(3,4) jws_length [of u] m in auto)
  ultimately show ?case by (cases "jws u = []") (auto simp: m)
next
  case (5 n s)
  obtain m' where m: "m = Suc m'" using 5(4) by (cases m) auto
  have v: "jvalue n s = jvalue m' s" by (rule 5(1)) (use 5(3,4) m in auto)
  have i: "jitems n (jws x) = jitems m' (jws x)" if "jvalue n s = Some (w, u)" "jws u = d # x" "d = 44" for w u d x
  proof (rule 5(2) [OF that(1) refl that(2,3)])
    have "length x + 1 < length s"
      using jvalue_shorter(1) [OF that(1)] jws_cons_length [OF that(2)] by simp
    then show "2 * length (jws x) + 2 \<le> n" "2 * length (jws x) + 2 \<le> m'"
      using 5(3,4) m jws_length [of x] by auto
  qed
  show ?case
    using i by (auto simp: m v [symmetric] split: option.split list.split)
next
  case (8 n c s)
  obtain m' where m: "m = Suc m'" using 8(4) by (cases m) auto
  have v: "jvalue n (jws x) = jvalue m' (jws x)" if "c = 34" "jstring s = Some (k, u)" "jws u = d # x" "d = 58" for k u d x
  proof (rule 8(1) [OF _ that(2) refl that(3)])
    have "length x + 1 < length s"
      using jstring_shorter [OF that(2)] jws_cons_length [OF that(3)] by simp
    then show "2 * length (jws x) + 1 \<le> n" "2 * length (jws x) + 1 \<le> m'"
      using 8(3,4) m jws_length [of x] by auto
  qed (use that in auto)
  have i: "jmembers n (jws z) = jmembers m' (jws z)"
    if "c = 34" "jstring s = Some (k, u)" "jws u = d # x" "d = 58" "jvalue n (jws x) = Some (w, y)" "jws y = e # z" "e = 44"
    for k u d x w y e z
  proof (rule 8(2) [OF _ that(2) refl that(3) _ that(5) refl that(6,7)])
    have "length z + 2 < length s"
      using jstring_shorter [OF that(2)] jws_cons_length [OF that(3)] jws_length [of x]
        jvalue_shorter(1) [OF that(5)] jws_cons_length [OF that(6)] by simp
    then show "2 * length (jws z) + 1 \<le> n" "2 * length (jws z) + 1 \<le> m'"
      using 8(3,4) m jws_length [of z] by auto
  qed (use that in auto)
  show ?case
    using i by (auto simp: m v [symmetric] split: option.split list.split)
next
  case (2 n)
  then show ?case by (cases m) auto
next
  case (7 n)
  then show ?case by (cases m) auto
qed auto

text \<open>
  The JSON reader terminates for a reason of its own, not because its bound stops it: any
  larger bound on the number of calls gives the same answer.
\<close>

theorem loads_bound_enough:
  assumes "2 * length s + 2 \<le> n"
  shows "loads s = (if s \<noteq> [] \<and> hd s = 0xFEFF then None
     else (case jvalue n (jws s) of None \<Rightarrow> None | Some (j, r) \<Rightarrow> if jws r = [] then Some j else None))"
proof -
  have b: "jvalue (2 * length s + 2) (jws s) = jvalue n (jws s)"
    by (rule jvalue_bound) (use assms jws_length [of s] in auto)
  show ?thesis unfolding loads_def b ..
qed

lemma loads_bound_enough_witness:
  "loads (uni ''[1, 2]'') = (case jvalue 1000 (jws (uni ''[1, 2]'')) of
     None \<Rightarrow> None | Some (j, r) \<Rightarrow> if jws r = [] then Some j else None)"
  using loads_bound_enough [of "uni ''[1, 2]''" 1000] by (simp add: uni_def code_def)


subsection \<open>Round trip\<close>

text \<open>
  What the printer writes faithfully: integers of at most 4300 digits, texts without lone
  surrogates, objects without repeated keys. (A float is printed as its own text.)
\<close>

fun json_ok :: "json \<Rightarrow> bool" where
  "json_ok (JInt i) = (\<bar>i\<bar> < 10 ^ max_str_digits)"
| "json_ok (JFloat t) = False"
| "json_ok (JStr s) = list_all is_scalar s"
| "json_ok (JArr js) = list_all json_ok js"
| "json_ok (JObj kvs) = (d_ok kvs \<and> list_all (\<lambda>(k, v). list_all is_scalar k \<and> json_ok v) kvs)"
| "json_ok j = True"

lemma d_update_append: "d_ok (d @ e) \<Longrightarrow> d_update d e = d @ e"
proof (induction d e rule: d_update.induct)
  case (2 d k v es)
  have "d_get d k = None" using "2.prems" by (auto simp: d_get_None_iff d_ok_def)
  then show ?case using 2 by (simp add: d_set_new)
qed simp

lemma d_update_Nil [simp]: "d_ok e \<Longrightarrow> d_update [] e = e"
  using d_update_append [of "[]" e] by simp

definition spaces :: "ustr \<Rightarrow> bool" where
  "spaces w = list_all jspace w"

lemma jws_spaces: "spaces w \<Longrightarrow> jws (w @ s) = jws s"
  by (auto simp: jws_def spaces_def list_all_iff)

definition no_space :: "ustr \<Rightarrow> bool" where
  "no_space s = (s = [] \<or> \<not> jspace (hd s))"

lemma jws_no_space: "no_space s \<Longrightarrow> jws s = s"
  by (cases s) (auto simp: jws_def no_space_def)

text \<open>The first character of a printed value tells its kind.\<close>

lemma dumps_head:
  assumes "json_ok j"
  shows "dumps ascii isep ksep j \<noteq> [] \<and> \<not> jspace (hd (dumps ascii isep ksep j)) \<and>
    hd (dumps ascii isep ksep j) \<notin> {44, 93, 125, 0xFEFF}"
proof (cases j)
  case (JInt i)
  have d: "uni (show_nat n) \<noteq> [] \<and> jdigit (hd (uni (show_nat n)))" for n
    using show_nat_digits [of n] show_nat_nonempty [of n] by (cases "uni (show_nat n)") (auto simp: uni_def)
  show ?thesis
    using d [of "nat i"] d [of "nat (- i)"]
    by (auto simp: JInt show_int_def jdigit_def jspace_def uni_def code_def)
qed (use assms in \<open>auto simp: uni_def code_def jspace_def json_string_def\<close>)

lemma jliteral_words:
  "jliteral (uni ''null'' @ r) = Some (JNull, r)"
  "jliteral (uni ''true'' @ r) = Some (JBool True, r)"
  "jliteral (uni ''false'' @ r) = Some (JBool False, r)"
  by (simp_all add: jliteral_def uni_def code_def)

lemma jliteral_int:
  assumes "\<bar>i\<bar> < 10 ^ max_str_digits" "stops r"
  shows "jliteral (uni (show_int i) @ r) = Some (JInt i, r)"
proof -
  have d: "\<exists>c t. uni (show_nat n) @ r = c # t \<and> jdigit c" for n
    using show_nat_digits [of n] show_nat_nonempty [of n] by (cases "uni (show_nat n)") (auto simp: uni_def)
  obtain c t where ct: "uni (show_int i) @ r = c # t" "jdigit c \<or> c = 45 \<and> (\<exists>d u. t = d # u \<and> jdigit d)"
  proof (cases "i < 0")
    case True
    then show ?thesis using d [of "nat (- i)"] that by (force simp: show_int_def uni_def code_def)
  next
    case False
    then show ?thesis using d [of "nat i"] that by (force simp: show_int_def)
  qed
  then have "find (\<lambda>(t, j). prefix t (uni (show_int i) @ r))
        [(uni ''null'', JNull), (uni ''true'', JBool True), (uni ''false'', JBool False),
         (uni ''NaN'', JFloat (uni ''NaN'')), (uni ''Infinity'', JFloat (uni ''Infinity'')),
         (uni ''-Infinity'', JFloat (uni ''-Infinity''))] = None"
    unfolding ct(1) by (auto simp: uni_def code_def jdigit_def)
  then show ?thesis
    using jnumber_int [OF assms] by (simp add: jliteral_def)
qed

definition reads :: "(json \<Rightarrow> ustr) \<Rightarrow> json \<Rightarrow> bool" where
  "reads D j = (\<forall>n r. 2 * length (D j) + 1 \<le> n \<longrightarrow> stops r \<longrightarrow> jvalue n (D j @ r) = Some (j, r))"

lemma stops_simps [simp]: "stops []" "stops (44 # r)" "stops (93 # r)" "stops (125 # r)"
  by (simp_all add: stops_def jdigit_def)

lemma no_space_append: "s \<noteq> [] \<Longrightarrow> \<not> jspace (hd s) \<Longrightarrow> jws (s @ r) = s @ r"
  by (cases s) (simp_all add: jws_def)

lemma jws_punct [simp]: "jws (44 # r) = 44 # r" "jws (93 # r) = 93 # r" "jws (125 # r) = 125 # r" "jws (58 # r) = 58 # r"
  by (simp_all add: jws_def jspace_def)

lemma items_read:
  assumes "spaces w" "\<And>j. j \<in> set js \<Longrightarrow> reads D j \<and> D j \<noteq> [] \<and> \<not> jspace (hd (D j))" "js \<noteq> []"
    "2 * length (join (44 # w) (map D js)) + 2 \<le> n"
  shows "jitems n (join (44 # w) (map D js) @ 93 # r) = Some (js, r)"
  using assms(2-4)
proof (induction js arbitrary: n)
  case (Cons j js)
  obtain n' where n: "n = Suc n'" using Cons.prems(3) by (cases n) auto
  have j: "reads D j" "D j \<noteq> []" "\<not> jspace (hd (D j))" using Cons.prems(1) by auto
  show ?case
  proof (cases "js = []")
    case True
    then show ?thesis using j(1) Cons.prems(3) by (simp add: n reads_def)
  next
    case False
    let ?t = "join (44 # w) (map D js)"
    have tx: "join (44 # w) (map D (j # js)) = D j @ 44 # w @ ?t"
      using False by (simp add: join_Cons)
    have v: "jvalue n' (D j @ 44 # w @ ?t @ 93 # r) = Some (j, 44 # w @ ?t @ 93 # r)"
      using j(1) Cons.prems(3) unfolding tx by (simp add: n reads_def)
    have "?t \<noteq> [] \<and> \<not> jspace (hd ?t)"
      using False Cons.prems(1) by (cases js; cases "tl js") auto
    then have w: "jws (w @ ?t @ 93 # r) = ?t @ 93 # r"
      using jws_spaces [OF assms(1)] no_space_append by metis
    have "jitems n' (?t @ 93 # r) = Some (js, r)"
      by (rule Cons.IH) (use Cons.prems False j(2) tx n in \<open>auto simp: Suc_le_eq\<close>)
    then show ?thesis
      unfolding tx by (simp add: n v w)
  qed
qed simp

lemma members_read:
  assumes "spaces w" "spaces w'" "kvs \<noteq> []"
    "\<And>k v. (k, v) \<in> set kvs \<Longrightarrow> reads D v \<and> D v \<noteq> [] \<and> \<not> jspace (hd (D v)) \<and> list_all is_scalar k"
    "2 * length (join (44 # w) (map (\<lambda>(k, v). json_string ascii k @ 58 # w' @ D v) kvs)) + 1 \<le> n"
  shows "jmembers n (join (44 # w) (map (\<lambda>(k, v). json_string ascii k @ 58 # w' @ D v) kvs) @ 125 # r) = Some (kvs, r)"
  using assms(3-5)
proof (induction kvs arbitrary: n)
  case (Cons kv kvs)
  obtain k v where kv: "kv = (k, v)" by force
  obtain n' where n: "n = Suc n'" using Cons.prems(3) by (cases n) auto
  have j: "reads D v" "D v \<noteq> []" "\<not> jspace (hd (D v))" "list_all is_scalar k" using Cons.prems(2) kv by auto
  let ?E = "\<lambda>(k, v). json_string ascii k @ 58 # w' @ D v"
  have key: "jmembers n (json_string ascii k @ 58 # w' @ D v @ u) =
      (case jvalue n' (D v @ u) of None \<Rightarrow> None
       | Some (v, r) \<Rightarrow> (case jws r of [] \<Rightarrow> None
          | d # r \<Rightarrow> if d = 44 then map_option (apfst ((#) (k, v))) (jmembers n' (jws r))
                    else if d = 125 then Some ([(k, v)], r) else None))" for u
    using jstring_text [OF j(4), of ascii "58 # w' @ D v @ u"] jws_spaces [OF assms(2), of "D v @ u"]
      no_space_append [OF j(2,3), of u]
    by (simp add: n json_string_def)
  show ?case
  proof (cases "kvs = []")
    case True
    have "jvalue n' (D v @ 125 # r) = Some (v, 125 # r)"
      using j(1) Cons.prems(3) by (simp add: n reads_def kv True)
    then show ?thesis using key [of "125 # r"] by (simp add: kv True)
  next
    case False
    let ?t = "join (44 # w) (map ?E kvs)"
    have tx: "join (44 # w) (map ?E (kv # kvs)) = json_string ascii k @ 58 # w' @ D v @ 44 # w @ ?t"
      using False by (simp add: join_Cons kv)
    have ih: "2 * length ?t + 1 \<le> n'" "2 * length (D v) + 1 \<le> n'"
      using Cons.prems(3) unfolding tx by (simp_all add: n json_string_def)
    have val: "jvalue n' (D v @ 44 # w @ ?t @ 125 # r) = Some (v, 44 # w @ ?t @ 125 # r)"
      using j(1) ih(2) by (simp add: reads_def)
    have "?t \<noteq> [] \<and> \<not> jspace (hd ?t)"
      using False by (cases kvs; cases "tl kvs") (auto simp: json_string_def jspace_def split: prod.splits)
    then have w: "jws (w @ ?t @ 125 # r) = ?t @ 125 # r"
      using jws_spaces [OF assms(1), of "?t @ 125 # r"] no_space_append [of ?t "125 # r"] by (simp only: simp_thms)
    have "jmembers n' (?t @ 125 # r) = Some (kvs, r)"
      by (rule Cons.IH [OF False _ ih(1)]) (use Cons.prems(2) in auto)
    then show ?thesis
      using key [of "44 # w @ ?t @ 125 # r"] unfolding tx by (simp add: val w kv)
  qed
qed simp

lemma value_read:
  assumes "spaces w" "spaces w'"
  shows "json_ok j \<Longrightarrow> reads (dumps ascii (44 # w) (58 # w')) j"
proof (induction j)
  case (JInt i)
  have h: "hd (uni (show_int i)) \<notin> {34, 123, 91}" "uni (show_int i) \<noteq> []"
  proof -
    have d: "uni (show_nat n) \<noteq> [] \<and> jdigit (hd (uni (show_nat n)))" for n
      using show_nat_digits [of n] show_nat_nonempty [of n] by (cases "uni (show_nat n)") (auto simp: uni_def)
    show "hd (uni (show_int i)) \<notin> {34, 123, 91}" "uni (show_int i) \<noteq> []"
      using d [of "nat i"] d [of "nat (- i)"] by (auto simp: show_int_def jdigit_def uni_def code_def)
  qed
  obtain c t where ct: "uni (show_int i) = c # t" using h(2) by (cases "uni (show_int i)") auto
  show ?case
    unfolding reads_def
  proof (intro allI impI)
    fix n r assume "2 * length (dumps ascii (44 # w) (58 # w') (JInt i)) + 1 \<le> n" and r: "stops r"
    then obtain n' where "n = Suc n'" by (cases n) auto
    then show "jvalue n (dumps ascii (44 # w) (58 # w') (JInt i) @ r) = Some (JInt i, r)"
      using jliteral_int [of i r] JInt r h(1) by (simp add: ct)
  qed
next
  case (JArr js)
  let ?D = "dumps ascii (44 # w) (58 # w')"
  show ?case
    unfolding reads_def
  proof (intro allI impI)
    fix n r assume n: "2 * length (?D (JArr js)) + 1 \<le> n" and r: "stops r"
    obtain n' where n': "n = Suc n'" using n by (cases n) auto
    show "jvalue n (?D (JArr js) @ r) = Some (JArr js, r)"
    proof (cases "js = []")
      case True
      then show ?thesis by (simp add: n')
    next
      case False
      let ?t = "join (44 # w) (map ?D js)"
      have d: "reads ?D j \<and> ?D j \<noteq> [] \<and> \<not> jspace (hd (?D j)) \<and> hd (?D j) \<noteq> 93" if "j \<in> set js" for j
        using that JArr dumps_head [of j ascii "44 # w" "58 # w'"] by (auto simp: list_all_iff)
      then have t: "?t \<noteq> []" "\<not> jspace (hd ?t)" "hd ?t \<noteq> 93"
        using False by (cases js; cases "tl js"; auto)+
      have "jitems n' (?t @ 93 # r) = Some (js, r)"
        by (rule items_read [OF assms(1) _ False]) (use d n n' in auto)
      then show ?thesis
        using no_space_append [OF t(1,2), of "93 # r"] t by (simp add: n')
    qed
  qed
next
  case (JObj kvs)
  let ?D = "dumps ascii (44 # w) (58 # w')"
  let ?E = "\<lambda>(k, v). json_string ascii k @ 58 # w' @ ?D v"
  have E: "(\<lambda>(k, v). json_string ascii k @ 58 # w' @ ?D v) = ?E" by auto
  show ?case
    unfolding reads_def
  proof (intro allI impI)
    fix n r assume n: "2 * length (?D (JObj kvs)) + 1 \<le> n" and r: "stops r"
    obtain n' where n': "n = Suc n'" using n by (cases n) auto
    show "jvalue n (?D (JObj kvs) @ r) = Some (JObj kvs, r)"
    proof (cases "kvs = []")
      case True
      then show ?thesis by (simp add: n')
    next
      case False
      let ?t = "join (44 # w) (map ?E kvs)"
      have d: "reads ?D v \<and> ?D v \<noteq> [] \<and> \<not> jspace (hd (?D v)) \<and> list_all is_scalar k" if "(k, v) \<in> set kvs" for k v
        using that JObj.IH [of "(k, v)" v] JObj.prems dumps_head [of v ascii "44 # w" "58 # w'"]
        by (auto simp: list_all_iff)
      have t: "?t \<noteq> []" "\<not> jspace (hd ?t)" "hd ?t \<noteq> 125"
        using False by (cases kvs; cases "tl kvs"; auto simp: json_string_def jspace_def split: prod.splits)+
      have "jmembers n' (?t @ 125 # r) = Some (kvs, r)"
        by (rule members_read [OF assms False]) (use d n n' in auto)
      then show ?thesis
        using no_space_append [OF t(1,2), of "125 # r"] t JObj.prems by (simp add: n')
    qed
  qed
next
  case (JStr s)
  show ?case unfolding reads_def
  proof (intro allI impI)
    fix n r assume "2 * length (dumps ascii (44 # w) (58 # w') (JStr s)) + 1 \<le> n"
    then obtain n' where "n = Suc n'" by (cases n) auto
    then show "jvalue n (dumps ascii (44 # w) (58 # w') (JStr s) @ r) = Some (JStr s, r)"
      using jstring_text [of s ascii r] JStr by (simp add: json_string_def)
  qed
next
  case JNull
  show ?case
    unfolding reads_def
  proof (intro allI impI)
    fix n r assume "2 * length (dumps ascii (44 # w) (58 # w') JNull) + 1 \<le> n"
    then obtain n' where "n = Suc n'" by (cases n) auto
    then show "jvalue n (dumps ascii (44 # w) (58 # w') JNull @ r) = Some (JNull, r)"
      using jliteral_words(1) [of r] by (simp add: uni_def code_def)
  qed
next
  case (JBool b)
  show ?case
    unfolding reads_def
  proof (intro allI impI)
    fix n r assume "2 * length (dumps ascii (44 # w) (58 # w') (JBool b)) + 1 \<le> n"
    then obtain n' where "n = Suc n'" by (cases n) auto
    then show "jvalue n (dumps ascii (44 # w) (58 # w') (JBool b) @ r) = Some (JBool b, r)"
      using jliteral_words(2,3) [of r] by (cases b) (simp_all add: uni_def code_def)
  qed
qed simp

lemma loads_dumps:
  assumes "json_ok j" and "spaces w" and "spaces w'"
  shows "loads (dumps ascii (44 # w) (58 # w') j) = Some j"
proof -
  let ?s = "dumps ascii (44 # w) (58 # w') j"
  have d: "?s \<noteq> []" "\<not> jspace (hd ?s)" "hd ?s \<noteq> 0xFEFF"
    using dumps_head [OF assms(1)] by auto
  have "jvalue (2 * length ?s + 2) (?s @ []) = Some (j, [])"
    using value_read [OF assms(2,3,1), of ascii] by (simp only: reads_def stops_simps simp_thms)
  moreover have "jws ?s = ?s" using no_space_append [OF d(1,2), of "[]"] by simp
  ultimately show ?thesis using d(3) by (simp add: loads_def jws_def [of "[]"])
qed

text \<open>
  JSON survives the trip: for every value without floats, lone surrogates or repeated keys,
  and with integers \<^verbatim>\<open>int()\<close> accepts, \<^verbatim>\<open>loads(dumps(j))\<close> is the value itself, with or without
  ASCII escaping and with any separators of a comma or colon and white space.
\<close>

theorem json_round_trip:
  assumes "json_ok j" and "spaces w" and "spaces w'"
  shows "loads (dumps ascii (44 # w) (58 # w') j) = Some j"
  by (rule loads_dumps [OF assms])

definition sample_json :: json where
  "sample_json = JObj [(uni ''a'', JArr [JInt (- 12), JNull, JBool True]), (uni ''b'', JStr [34, 10, 233, 0x1F600]), (uni ''c'', JObj [])]"

lemma json_round_trip_witness: "loads (dumps True (uni '', '') (uni '': '') sample_json) = Some sample_json"
proof -
  have big: "(12 :: int) < 10 ^ max_str_digits"
  proof -
    have "(10 :: int) ^ 2 \<le> 10 ^ max_str_digits" by (rule power_increasing) (simp_all add: max_str_digits_def)
    then show ?thesis by simp
  qed
  have ok: "json_ok sample_json"
    using big by (simp add: sample_json_def uni_def is_scalar_def d_ok_def code_def)
  have sp: "spaces [32]" by (simp add: spaces_def jspace_def)
  have u: "uni '', '' = 44 # [32]" "uni '': '' = 58 # [32]" by (simp_all add: uni_def code_def)
  show ?thesis unfolding u by (rule json_round_trip [OF ok sp sp])
qed

end
