(* ===== verification/Auth.thy ===== *)
theory Auth
  imports Sessions Json_Props Middleware Base64
begin

section \<open>JSON web tokens (\<^verbatim>\<open>auth.py\<close>)\<close>

text \<open>
  Creating, verifying and revoking tokens. The keyed hash and the reading of numbers that are
  not decimal ASCII literals are parameters (\<open>auth_env\<close>); the blocklist is an object with two
  methods, here the functions \<open>check\<close> and \<open>put\<close> over a state of its own.
\<close>

record auth_env =
  hmac_sha256 :: "bytes \<Rightarrow> bytes \<Rightarrow> bytes"
  float_int :: "ustr \<Rightarrow> int result"
  float_true :: "ustr \<Rightarrow> bool"
  wide_int :: "ustr \<Rightarrow> int result"
  other_str :: "json \<Rightarrow> ustr"

record jwt =
  jw_secrets :: "(ustr, ustr) dict"
  current_kid :: ustr
  issuer :: "ustr option"
  audience :: "ustr option"
  expected_alg :: ustr
  max_token_len :: int

type_synonym claims = "(ustr, json) dict"

datatype secrets_arg = OneSecret ustr | SecretMap "(ustr, ustr) dict"

text \<open>A missing or empty optional text, as Python's \<^verbatim>\<open>or\<close> sees it.\<close>

definition given :: "ustr option \<Rightarrow> ustr option" where
  "given x = (case x of Some (c # cs) \<Rightarrow> Some (c # cs) | _ \<Rightarrow> None)"

definition JWTAuth :: "secrets_arg \<Rightarrow> ustr option \<Rightarrow> ustr option \<Rightarrow> ustr option \<Rightarrow> ustr \<Rightarrow> int \<Rightarrow> jwt result" where
  "JWTAuth s kid iss aud alg maxlen =
     (case s of
        OneSecret x \<Rightarrow>
          Inr \<lparr>jw_secrets = [(uni ''default'', x)],
            current_kid = (case given kid of Some k \<Rightarrow> k | None \<Rightarrow> uni ''default''),
            issuer = iss, audience = aud, expected_alg = alg, max_token_len = maxlen\<rparr>
      | SecretMap [] \<Rightarrow> Inl (PyError ''ValueError'')
      | SecretMap ((k, x) # d) \<Rightarrow>
          Inr \<lparr>jw_secrets = d_update [] ((k, x) # d),
            current_kid = (case given kid of Some k' \<Rightarrow> k' | None \<Rightarrow> k),
            issuer = iss, audience = aud, expected_alg = alg, max_token_len = maxlen\<rparr>)"

subsection \<open>Base64 as \<^verbatim>\<open>urlsafe_b64decode\<close> reads it\<close>

text \<open>
  The lenient decoder: characters outside the alphabet are skipped, and a padding that
  completes a group ends the text. \<open>q\<close> is the position in the group, \<open>l\<close> the bits carried over
  and \<open>p\<close> the padding seen.
\<close>

definition url_val :: "char \<Rightarrow> nat option" where
  "url_val c = (if c = CHR ''-'' then Some 62 else if c = CHR ''_'' then Some 63 else sextet_val STD c)"

fun a2b :: "nat \<Rightarrow> nat \<Rightarrow> nat \<Rightarrow> str \<Rightarrow> bytes option" where
  "a2b q l p [] = (if q = 0 then Some [] else None)"
| "a2b q l p (c # cs) =
     (if c = CHR ''='' then
        (if 2 \<le> q then (if 4 \<le> q + Suc p then Some [] else a2b q l (Suc p) cs) else a2b q l p cs)
      else (case url_val c of
              None \<Rightarrow> a2b q l p cs
            | Some v \<Rightarrow>
                if q = 0 then a2b 1 v 0 cs
                else if q = 1 then map_option ((#) (char_of (l * 4 + v div 16))) (a2b 2 (v mod 16) 0 cs)
                else if q = 2 then map_option ((#) (char_of (l * 16 + v div 4))) (a2b 3 (v mod 4) 0 cs)
                else map_option ((#) (char_of (l * 64 + v))) (a2b 0 0 0 cs)))"

definition b64d :: "str \<Rightarrow> bytes option" where
  "b64d s =
     (if list_all (\<lambda>c. code c < 128) s
      then a2b 0 0 0 (s @ replicate ((4 - length s mod 4) mod 4) (CHR ''='')) else None)"

subsection \<open>Tokens\<close>

definition sign :: "auth_env \<Rightarrow> bytes \<Rightarrow> str \<Rightarrow> str \<Rightarrow> str" where
  "sign E secret h b = b64e (hmac_sha256 E secret (h @ ''.'' @ b))"

definition encode_part :: "json \<Rightarrow> str" where
  "encode_part j = b64e (map char_of (dumps True [44] [58] (sort_json j)))"

definition token_header :: "jwt \<Rightarrow> ustr \<Rightarrow> json" where
  "token_header a kid =
     JObj [(uni ''alg'', JStr (expected_alg a)), (uni ''typ'', JStr (uni ''JWT'')), (uni ''kid'', JStr kid)]"

text \<open>The claims of a new token; \<open>w\<close> is the clock and \<open>rnd\<close> the random identifier.\<close>

definition token_claims :: "jwt \<Rightarrow> claims \<Rightarrow> int \<Rightarrow> rat \<Rightarrow> ustr \<Rightarrow> claims" where
  "token_claims a payload secs w rnd =
     (let t = trunc w;
          body = d_setdefault (uni ''iat'') (JInt t) (d_update [] payload);
          body = d_setdefault (uni ''jti'') (JStr rnd) body;
          body = d_set (uni ''exp'') (JInt (t + secs)) body;
          body = (case given (issuer a) of Some i \<Rightarrow> d_setdefault (uni ''iss'') (JStr i) body | None \<Rightarrow> body)
      in (case given (audience a) of Some i \<Rightarrow> d_setdefault (uni ''aud'') (JStr i) body | None \<Rightarrow> body))"

definition create_token :: "auth_env \<Rightarrow> jwt \<Rightarrow> claims \<Rightarrow> int \<Rightarrow> ustr option \<Rightarrow> rat \<Rightarrow> ustr \<Rightarrow> str result" where
  "create_token E a payload secs kid w rnd =
     (let kid = (case given kid of Some k \<Rightarrow> k | None \<Rightarrow> current_kid a) in
      case d_get (jw_secrets a) kid of
        None \<Rightarrow> Inl (PyError ''ValueError'')
      | Some secret \<Rightarrow>
          (let h = encode_part (token_header a kid); b = encode_part (JObj (token_claims a payload secs w rnd))
           in case u8_encode secret of
                None \<Rightarrow> Inl (PyError ''UnicodeEncodeError'')
              | Some key \<Rightarrow> Inr (h @ ''.'' @ b @ ''.'' @ sign E (map char_of key) h b)))"

text \<open>\<^verbatim>\<open>json.loads(_b64d(part).decode("utf-8"))\<close>, any exception of which is answered 401.\<close>

definition decode_part :: "str \<Rightarrow> json option" where
  "decode_part s = (case b64d s of None \<Rightarrow> None | Some b \<Rightarrow> (case json_of b of Inr j \<Rightarrow> Some j | Inl e \<Rightarrow> None))"

definition unauthorized :: "str \<Rightarrow> exn" where
  "unauthorized msg = HTTPError 401 msg []"

text \<open>\<^verbatim>\<open>int(value)\<close> and \<^verbatim>\<open>str(value)\<close> of a decoded value, and its truth value.\<close>

definition int_of_json :: "auth_env \<Rightarrow> json \<Rightarrow> int result" where
  "int_of_json E j =
     (case j of
        JInt i \<Rightarrow> Inr i
      | JBool b \<Rightarrow> Inr (if b then 1 else 0)
      | JFloat t \<Rightarrow> float_int E t
      | JStr s \<Rightarrow>
          (if list_all (\<lambda>c. c < 256) s
           then (case py_int (map char_of s) of Some i \<Rightarrow> Inr i | None \<Rightarrow> Inl (PyError ''ValueError''))
           else wide_int E s)
      | _ \<Rightarrow> Inl (PyError ''TypeError''))"

definition str_of_json :: "auth_env \<Rightarrow> json \<Rightarrow> ustr" where
  "str_of_json E j =
     (case j of JStr s \<Rightarrow> s | JInt i \<Rightarrow> uni (show_int i)
      | JBool b \<Rightarrow> uni (if b then ''True'' else ''False'') | JNull \<Rightarrow> uni ''None'' | _ \<Rightarrow> other_str E j)"

definition json_true :: "auth_env \<Rightarrow> json \<Rightarrow> bool" where
  "json_true E j =
     (case j of JNull \<Rightarrow> False | JBool b \<Rightarrow> b | JInt i \<Rightarrow> i \<noteq> 0
      | JFloat t \<Rightarrow> float_true E t
      | JStr s \<Rightarrow> s \<noteq> [] | JArr js \<Rightarrow> js \<noteq> [] | JObj d \<Rightarrow> d \<noteq> [])"

text \<open>
  The header gives the secret: a header that is no object has no \<^verbatim>\<open>get\<close>, and a key id that is a
  list or an object cannot be looked up.
\<close>

definition header_secret :: "jwt \<Rightarrow> json \<Rightarrow> ustr result" where
  "header_secret a j =
     (case j of
        JObj d \<Rightarrow>
          if d_get d (uni ''alg'') \<noteq> Some (JStr (expected_alg a)) \<or> d_get d (uni ''typ'') \<noteq> Some (JStr (uni ''JWT''))
          then Inl (unauthorized ''Invalid token algorithm'')
          else (case (case d_get d (uni ''kid'') of Some k \<Rightarrow> k | None \<Rightarrow> JStr (current_kid a)) of
                  JStr k \<Rightarrow>
                    (case given (d_get (jw_secrets a) k) of
                       Some s \<Rightarrow> Inr s | None \<Rightarrow> Inl (unauthorized ''Unknown token key''))
                | JArr _ \<Rightarrow> Inl (PyError ''TypeError'')
                | JObj _ \<Rightarrow> Inl (PyError ''TypeError'')
                | _ \<Rightarrow> Inl (unauthorized ''Unknown token key''))
      | _ \<Rightarrow> Inl (PyError ''AttributeError''))"

definition check_signature :: "auth_env \<Rightarrow> ustr \<Rightarrow> str \<Rightarrow> str \<Rightarrow> str \<Rightarrow> unit result" where
  "check_signature E secret h b s =
     (case u8_encode secret of
        None \<Rightarrow> Inl (PyError ''UnicodeEncodeError'')
      | Some key \<Rightarrow>
          if \<not> list_all (\<lambda>c. code c < 128) (h @ b) then Inl (PyError ''UnicodeEncodeError'')
          else rbind (compare_digest s (sign E (map char_of key) h b))
                 (\<lambda>same. if same then Inr () else Inl (unauthorized ''Invalid token signature'')))"

definition check_claims :: "auth_env \<Rightarrow> jwt \<Rightarrow> rat \<Rightarrow> json \<Rightarrow> claims result" where
  "check_claims E a w j =
     (case j of
        JObj p \<Rightarrow>
          rbind (int_of_json E (case d_get p (uni ''exp'') of Some v \<Rightarrow> v | None \<Rightarrow> JInt 0))
            (\<lambda>n. if n < trunc w then Inl (unauthorized ''Token expired'')
                 else if given (issuer a) \<noteq> None \<and> d_get p (uni ''iss'') \<noteq> map_option JStr (issuer a)
                 then Inl (unauthorized ''Invalid issuer'')
                 else if given (audience a) \<noteq> None \<and> d_get p (uni ''aud'') \<noteq> map_option JStr (audience a)
                 then Inl (unauthorized ''Invalid audience'')
                 else Inr p)
      | _ \<Rightarrow> Inl (PyError ''AttributeError''))"

definition jti_of :: "auth_env \<Rightarrow> claims \<Rightarrow> ustr option" where
  "jti_of E p =
     (case d_get p (uni ''jti'') of
        Some v \<Rightarrow> if json_true E v then Some (str_of_json E v) else None
      | None \<Rightarrow> None)"

text \<open>The checks that do not touch the blocklist, then \<^verbatim>\<open>verify_token\<close>.\<close>

definition verify_text :: "auth_env \<Rightarrow> jwt \<Rightarrow> rat \<Rightarrow> str \<Rightarrow> claims result" where
  "verify_text E a w token =
     (if max_token_len a < int (length token) then Inl (unauthorized ''Invalid token structure'')
      else (case split_on ''.'' token of
          [h, b, s] \<Rightarrow>
            (case decode_part h of
               None \<Rightarrow> Inl (unauthorized ''Invalid token header'')
             | Some hj \<Rightarrow>
                 rbind (header_secret a hj) (\<lambda>secret.
                 rbind (check_signature E secret h b s) (\<lambda>_.
                 (case decode_part b of
                    None \<Rightarrow> Inl (unauthorized ''Invalid token payload'')
                  | Some pj \<Rightarrow> check_claims E a w pj))))
        | _ \<Rightarrow> Inl (unauthorized ''Invalid token structure'')))"

definition verify_token :: "auth_env \<Rightarrow> jwt \<Rightarrow> (ustr \<Rightarrow> 'b \<Rightarrow> bool \<times> 'b) option \<Rightarrow> rat \<Rightarrow> str \<Rightarrow> 'b \<Rightarrow> claims result \<times> 'b" where
  "verify_token E a check w token st =
     (case verify_text E a w token of
        Inl e \<Rightarrow> (Inl e, st)
      | Inr p \<Rightarrow>
          (case (check, jti_of E p) of
             (Some f, Some j) \<Rightarrow>
               (let (revoked, st) = f j st
                in if revoked then (Inl (unauthorized ''Token revoked''), st) else (Inr p, st))
           | _ \<Rightarrow> (Inr p, st)))"

definition revoke_token :: "auth_env \<Rightarrow> jwt \<Rightarrow> ((ustr \<Rightarrow> 'b \<Rightarrow> bool \<times> 'b) \<times> (ustr \<Rightarrow> int \<Rightarrow> str \<Rightarrow> 'b \<Rightarrow> unit result \<times> 'b)) option \<Rightarrow>
    rat \<Rightarrow> str \<Rightarrow> str \<Rightarrow> 'b \<Rightarrow> unit result \<times> 'b" where
  "revoke_token E a bl w token reason st =
     (case bl of
        None \<Rightarrow> (Inl (PyError ''RuntimeError''), st)
      | Some (check, put) \<Rightarrow>
          sbind (verify_token E a (Some check) w token st) (\<lambda>p st.
            case jti_of E p of
              None \<Rightarrow> (Inl (HTTPError 400 ''Token has no jti'' []), st)
            | Some j \<Rightarrow>
                (case int_of_json E (case d_get p (uni ''exp'') of Some v \<Rightarrow> v | None \<Rightarrow> JInt 0) of
                   Inl e \<Rightarrow> (Inl e, st)
                 | Inr n \<Rightarrow> put j n reason st)))"

subsection \<open>\<^verbatim>\<open>require_auth\<close>\<close>

text \<open>
  The middleware. The user of a request is a dictionary of scalars (theory Http); \<open>scalars\<close> turns
  the claims into it.
\<close>

definition bearer :: "request \<Rightarrow> str result" where
  "bearer req =
     (let auth = header req ''authorization''
      in if prefix ''Bearer '' auth then Inr (strip (drop 7 auth)) else Inl (unauthorized ''Missing bearer token''))"

record 'b auth_world =
  auth_clock :: rat
  auth_list :: 'b

definition require_auth :: "auth_env \<Rightarrow> (claims \<Rightarrow> (str, scalar) dict) \<Rightarrow> jwt \<Rightarrow> (ustr \<Rightarrow> 'b \<Rightarrow> bool \<times> 'b) option \<Rightarrow> 'b auth_world middleware" where
  "require_auth E scalars a check r next =
     (case bearer (fst r) of
        Inl e \<Rightarrow> (Inl e, r)
      | Inr token \<Rightarrow>
          (let (res, st) = verify_token E a check (auth_clock (snd r)) token (auth_list (snd r));
               w = (snd r)\<lparr>auth_list := st\<rparr>
           in case res of
                Inl e \<Rightarrow> (Inl e, (fst r, w))
              | Inr p \<Rightarrow> next ((fst r)\<lparr>user := Some (scalars p)\<rparr>, w)))"

subsection \<open>Only signed tokens are accepted\<close>

lemma given_Some_iff: "given x = Some s \<longleftrightarrow> x = Some s \<and> s \<noteq> []"
  by (auto simp: given_def split: option.splits list.splits)

lemma verify_text_Inr:
  assumes "verify_text E a w token = Inr p"
  shows "\<exists>h b d k secret key. token = h @ ''.'' @ b @ ''.'' @ sign E (map char_of key) h b \<and>
    decode_part h = Some (JObj d) \<and> d_get d (uni ''alg'') = Some (JStr (expected_alg a)) \<and>
    (d_get d (uni ''kid'') = Some (JStr k) \<or> d_get d (uni ''kid'') = None \<and> k = current_kid a) \<and>
    d_get (jw_secrets a) k = Some secret \<and> secret \<noteq> [] \<and> u8_encode secret = Some key \<and>
    decode_part b = Some (JObj p) \<and> check_claims E a w (JObj p) = Inr p"
proof -
  obtain h b s where sp: "split_on ''.'' token = [h, b, s]"
    using assms by (auto simp: verify_text_def split: if_splits list.splits)
  have tok: "token = h @ ''.'' @ b @ ''.'' @ s"
    using join_split_on [of "''.''" token] by (simp add: sp)
  obtain hj where hj: "decode_part h = Some hj"
    using assms by (auto simp: verify_text_def sp split: if_splits option.splits)
  obtain secret where s: "header_secret a hj = Inr secret"
    using assms by (auto simp: verify_text_def sp hj rbind_Inr_iff split: if_splits)
  have c: "check_signature E secret h b s = Inr ()"
    using assms by (auto simp: verify_text_def sp hj s rbind_Inr_iff split: if_splits)
  obtain pj where pj: "decode_part b = Some pj" "check_claims E a w pj = Inr p"
    using assms by (auto simp: verify_text_def sp hj s c split: if_splits option.splits)
  have p: "pj = JObj p"
    using pj(2) by (auto simp: check_claims_def rbind_Inr_iff split: json.splits if_splits)
  obtain key where key: "u8_encode secret = Some key" "s = sign E (map char_of key) h b"
    using c by (auto simp: check_signature_def compare_digest_def split: option.splits if_splits)
  obtain d where d: "hj = JObj d" "d_get d (uni ''alg'') = Some (JStr (expected_alg a))"
    using s by (auto simp: header_secret_def split: json.splits if_splits)
  have "\<exists>k. (d_get d (uni ''kid'') = Some (JStr k) \<or> d_get d (uni ''kid'') = None \<and> k = current_kid a) \<and>
      given (d_get (jw_secrets a) k) = Some secret"
    using s unfolding d by (auto simp: header_secret_def split: if_splits option.splits json.splits)
  then obtain k where k: "d_get d (uni ''kid'') = Some (JStr k) \<or> d_get d (uni ''kid'') = None \<and> k = current_kid a"
      "d_get (jw_secrets a) k = Some secret" "secret \<noteq> []"
    by (auto simp: given_Some_iff)
  show ?thesis
    using tok hj d k key pj p by blast
qed

subsection \<open>A created token is accepted\<close>

lemma url_val_sextet: "v < 64 \<Longrightarrow> url_val (sextet_char URL v) = Some v"
proof -
  assume v: "v < 64"
  consider "v < 62" | "v = 62" | "v = 63" using v by linarith
  then show ?thesis
  proof cases
    case 1
    then have "sextet_char URL v = sextet_char STD v" by (simp add: sextet_char_def)
    moreover have "sextet_val STD (sextet_char STD v) = Some v" using v sextet_val_char by blast
    moreover have "sextet_char URL v \<notin> {CHR ''-'', CHR ''_''}"
      using 1 by (auto simp: sextet_char_def char_eq_code code_alphabet)
    ultimately show ?thesis by (simp add: url_val_def)
  qed (simp_all add: sextet_char_def URL_def url_val_def)
qed

lemma sextet_char_facts:
  assumes "v < 64"
  shows "sextet_char URL v \<noteq> CHR ''=''" "code (sextet_char URL v) < 128" "sextet_char URL v \<noteq> CHR ''.''"
proof -
  have "code (CHR ''.'') = 46" by (simp add: code_def)
  then show "sextet_char URL v \<noteq> CHR ''=''" "code (sextet_char URL v) < 128" "sextet_char URL v \<noteq> CHR ''.''"
    using assms by (auto simp: sextet_char_def char_eq_code code_alphabet URL_def)
qed

lemma a2b_sextets:
  "\<forall>v\<in>set vs. v < 64 \<Longrightarrow> of_sextets vs = Some b \<Longrightarrow>
   a2b 0 0 0 (map (sextet_char URL) vs @ replicate ((4 - length vs mod 4) mod 4) (CHR ''='')) = Some b"
proof (induction vs arbitrary: b rule: of_sextets.induct)
  case (1 p q r s t)
  then show ?case
    using sextet_char_facts(1) by (auto simp: url_val_sextet)
qed (use sextet_char_facts(1) in \<open>auto simp: url_val_sextet numeral_2_eq_2\<close>)

lemma b64e_eq: "b64e b = map (sextet_char URL) (to_sextets b)"
proof -
  let ?s = "map (sextet_char URL) (to_sextets b)"
  have "CHR ''='' \<notin> set ?s"
    using to_sextets_lt [of _ b] sextet_char_facts(1) by force
  then have "rev ?s \<noteq> [] \<Longrightarrow> hd (rev ?s) \<noteq> CHR ''=''"
    using hd_in_set [of "rev ?s"] by (metis set_rev)
  then have "dropWhile (\<lambda>c. c = CHR ''='') (rev ?s) = rev ?s"
    unfolding dropWhile_eq_self_iff by blast
  moreover have "dropWhile (\<lambda>c. c = CHR ''='') (replicate n (CHR ''='') @ t) = dropWhile (\<lambda>c. c = CHR ''='') t" for n t
    by (induction n) auto
  ultimately show ?thesis
    by (simp add: b64e_def b64encode_def rstrip_by_def padding_def Let_def)
qed

lemma b64d_b64e: "b64d (b64e b) = Some b"
proof -
  have "list_all (\<lambda>c. code c < 128) (b64e b)"
    using to_sextets_lt [of _ b] sextet_char_facts(2) by (auto simp: b64e_eq list_all_iff)
  then show ?thesis
    using a2b_sextets [of "to_sextets b" b] to_sextets_lt [of _ b] of_to_sextets [of b]
    by (simp add: b64d_def b64e_eq)
qed

lemma b64e_chars: "c \<in> set (b64e b) \<Longrightarrow> code c < 128 \<and> c \<noteq> CHR ''.''"
  using to_sextets_lt [of _ b] sextet_char_facts(2,3) by (auto simp: b64e_eq)


lemma d_get_map: "d_get (map (\<lambda>(k, v). (k, f v)) d) k = map_option f (d_get d k)"
  by (induction d) auto

lemma d_get_sort:
  assumes "d_ok d"
  shows "d_get (sort_key fst d) k = d_get d k"
proof -
  have "d_get (sort_key fst d) k = Some v \<longleftrightarrow> d_get d k = Some v" for v
    using assms by (simp add: d_get_def d_ok_def distinct_map)
  then show ?thesis by (metis not_None_eq)
qed

lemma d_ok_sort: "d_ok d \<Longrightarrow> d_ok (sort_key fst d)"
  by (simp add: d_ok_def distinct_map)

lemma json_ok_sort: "json_ok j \<Longrightarrow> json_ok (sort_json j)"
proof (induction j)
  case (JObj kvs)
  let ?m = "map (\<lambda>(k, v). (k, sort_json v)) kvs"
  have "d_ok ?m"
    using JObj.prems by (simp add: d_ok_def comp_def case_prod_unfold)
  moreover have "list_all is_scalar k \<and> json_ok v" if kv: "(k, v) \<in> set ?m" for k v
  proof -
    obtain v0 where "(k, v0) \<in> set kvs" "v = sort_json v0" using kv by auto
    then show ?thesis
      using JObj.prems JObj.IH [of "(k, v0)" v0] by (auto simp: list_all_iff)
  qed
  ultimately show ?case
    using d_ok_sort [of ?m] by (simp only: sort_json.simps json_ok.simps list_all_iff set_sort) blast
qed (auto simp: list_all_iff)

lemma set_join: "set (join sep ps) \<subseteq> set sep \<union> \<Union> (set ` set ps)"
  by (induction sep ps rule: join.induct) auto

lemma escape_ascii: "x \<in> set (escape_code True c) \<Longrightarrow> x < 128"
proof -
  have "hex_low d < 128" if "d < 16" for d
    using that by (simp add: hex_low_def)
  then have "hex_low (n mod 16) < 128" for n by simp
  then have h: "y \<in> set (u_escape n) \<Longrightarrow> y < 128" for y n
    by (auto simp: u_escape_def)
  show "x \<in> set (escape_code True c) \<Longrightarrow> x < 128"
    by (auto simp: escape_code_def dest: h split: if_splits)
qed

lemma json_string_ascii: "x \<in> set (json_string True s) \<Longrightarrow> x < 128"
  using escape_ascii by (auto simp: json_string_def)

lemma dumps_ascii: "json_ok j \<Longrightarrow> x \<in> set (dumps True [44] [58] j) \<Longrightarrow> x < 128"
proof (induction j arbitrary: x)
  case (JInt i)
  have "y < 128" if "y \<in> set (uni (show_nat n))" for y n
    using that show_nat_digits [of n] by (auto simp: list_all_iff jdigit_def)
  then show ?case using JInt.prems by (auto simp: show_int_def uni_def code_def split: if_splits)
next
  case (JArr js)
  then have "x \<in> set (join [44] (map (dumps True [44] [58]) js)) \<or> x = 91 \<or> x = 93" by auto
  then show ?case
    using set_join [of "[44]" "map (dumps True [44] [58]) js"] JArr.IH JArr.prems(1)
    by (auto simp: list_all_iff dest!: subsetD)
next
  case (JObj kvs)
  let ?E = "\<lambda>(k, v). json_string True k @ [58] @ dumps True [44] [58] v"
  have e: "y < 128" if "kv \<in> set kvs" "y \<in> set (?E kv)" for kv y
  proof -
    obtain k v where kv: "kv = (k, v)" by force
    have "json_ok v" using JObj.prems(1) that(1) by (auto simp: list_all_iff kv)
    then show ?thesis
      using that JObj.IH [of kv v y] json_string_ascii [of y k] by (auto simp: kv)
  qed
  have "x \<in> set (join [44] (map ?E kvs)) \<or> x = 123 \<or> x = 125" using JObj.prems(2) by auto
  then show ?case
    using set_join [of "[44]" "map ?E kvs"] e by (auto dest!: subsetD)
qed (auto simp: uni_def code_def dest: json_string_ascii split: if_splits)

lemma decode_encode_part:
  assumes "json_ok j"
  shows "decode_part (encode_part j) = Some (sort_json j)"
proof -
  let ?t = "dumps True [44] [58] (sort_json j)"
  have l: "loads ?t = Some (sort_json j)"
    using json_round_trip [OF json_ok_sort [OF assms], of "[]" "[]" True] by (simp add: spaces_def)
  have a: "list_all (\<lambda>c. c < 128) ?t"
    using dumps_ascii [OF json_ok_sort [OF assms]] by (auto simp: list_all_iff)
  then have "map code (map char_of ?t) = ?t"
    unfolding map_map by (intro map_idI) (use a in \<open>auto simp: list_all_iff\<close>)
  then have "json_of (map char_of ?t) = Inr (sort_json j)"
    using u8_strict_encode [OF u8_encode_ascii [OF a]] by (simp only: json_of_def option.case l)
  then show ?thesis
    by (simp add: decode_part_def encode_part_def b64d_b64e)
qed

lemma encode_part_chars: "list_all (\<lambda>c. code c < 128 \<and> c \<noteq> CHR ''.'') (encode_part j)"
  using b64e_chars by (auto simp: encode_part_def list_all_iff)

lemma sign_chars: "list_all (\<lambda>c. code c < 128 \<and> c \<noteq> CHR ''.'') (sign E key h b)"
  using b64e_chars by (auto simp: sign_def list_all_iff)

lemma split_token:
  assumes "CHR ''.'' \<notin> set h" "CHR ''.'' \<notin> set b" "CHR ''.'' \<notin> set s"
  shows "split_on ''.'' (h @ ''.'' @ b @ ''.'' @ s) = [h, b, s]"
proof -
  have "split_on ''.'' (join ''.'' [h, b, s]) = [h, b, s]"
    by (rule split_on_join) (use assms in auto)
  then show ?thesis by simp
qed

lemma header_secret_token:
  assumes "d_get (jw_secrets a) k = Some secret" "secret \<noteq> []"
  shows "header_secret a (sort_json (token_header a k)) = Inr secret"
proof -
  let ?d = "[(uni ''alg'', JStr (expected_alg a)), (uni ''typ'', JStr (uni ''JWT'')), (uni ''kid'', JStr k)]"
  have ne: "uni ''alg'' \<noteq> uni ''typ''" "uni ''alg'' \<noteq> uni ''kid''" "uni ''typ'' \<noteq> uni ''kid''"
    by (simp_all add: uni_def code_def)
  then have "d_ok ?d" by (auto simp: d_ok_def)
  then have g: "d_get (sort_key fst ?d) x = d_get ?d x" for x by (rule d_get_sort)
  have g': "d_get ?d (uni ''alg'') = Some (JStr (expected_alg a))" "d_get ?d (uni ''typ'') = Some (JStr (uni ''JWT''))"
    "d_get ?d (uni ''kid'') = Some (JStr k)"
    using ne by simp_all
  have gv: "given (d_get (jw_secrets a) k) = Some secret"
    using assms by (simp add: given_Some_iff)
  have "sort_json (token_header a k) = JObj (sort_key fst ?d)"
    by (simp add: token_header_def)
  then show ?thesis
    by (simp only: header_secret_def json.case g g' gv option.case simp_thms if_False)
qed

lemma token_claims_get:
  assumes "d_ok payload"
  shows "d_get (token_claims a payload secs w rnd) (uni ''exp'') = Some (JInt (trunc w + secs))"
    "given (issuer a) = Some i \<Longrightarrow> d_get (token_claims a payload secs w rnd) (uni ''iss'') =
       Some (case d_get payload (uni ''iss'') of None \<Rightarrow> JStr i | Some v \<Rightarrow> v)"
    "given (audience a) = Some i \<Longrightarrow> d_get (token_claims a payload secs w rnd) (uni ''aud'') =
       Some (case d_get payload (uni ''aud'') of None \<Rightarrow> JStr i | Some v \<Rightarrow> v)"
proof -
  have ne: "uni ''exp'' \<noteq> uni ''iss''" "uni ''exp'' \<noteq> uni ''aud''" "uni ''iss'' \<noteq> uni ''aud''" "uni ''iss'' \<noteq> uni ''exp''"
    "uni ''aud'' \<noteq> uni ''exp''" "uni ''aud'' \<noteq> uni ''iss''" "uni ''iss'' \<noteq> uni ''jti''" "uni ''iss'' \<noteq> uni ''iat''"
    "uni ''aud'' \<noteq> uni ''jti''" "uni ''aud'' \<noteq> uni ''iat''"
    by (simp_all add: uni_def code_def)
  show "d_get (token_claims a payload secs w rnd) (uni ''exp'') = Some (JInt (trunc w + secs))"
    "given (issuer a) = Some i \<Longrightarrow> d_get (token_claims a payload secs w rnd) (uni ''iss'') =
       Some (case d_get payload (uni ''iss'') of None \<Rightarrow> JStr i | Some v \<Rightarrow> v)"
    "given (audience a) = Some i \<Longrightarrow> d_get (token_claims a payload secs w rnd) (uni ''aud'') =
       Some (case d_get payload (uni ''aud'') of None \<Rightarrow> JStr i | Some v \<Rightarrow> v)"
    using ne d_get_update [OF assms, of "[]"]
    by (auto simp: token_claims_def Let_def split: option.split)
qed

lemma d_ok_token_claims: "d_ok (token_claims a payload secs w rnd)"
  by (auto simp: token_claims_def Let_def split: option.split)

lemma verify_created:
  assumes "create_token E a payload secs kid w rnd = Inr tok" and "int (length tok) \<le> max_token_len a"
    and "k = (case given kid of Some k \<Rightarrow> k | None \<Rightarrow> current_kid a)"
    and "d_get (jw_secrets a) k \<noteq> Some []" and "list_all is_scalar (expected_alg a)" and "list_all is_scalar k"
    and "d_ok payload" and "json_ok (JObj (token_claims a payload secs w rnd))" and "trunc w' \<le> trunc w + secs"
    and "\<And>i. given (issuer a) = Some i \<Longrightarrow> d_get payload (uni ''iss'') \<in> {None, Some (JStr i)}"
    and "\<And>i. given (audience a) = Some i \<Longrightarrow> d_get payload (uni ''aud'') \<in> {None, Some (JStr i)}"
  shows "\<exists>p. verify_text E a w' tok = Inr p \<and>
    (\<forall>c. d_get p c = map_option sort_json (d_get (token_claims a payload secs w rnd) c))"
proof -
  let ?c = "token_claims a payload secs w rnd"
  obtain secret key where s: "d_get (jw_secrets a) k = Some secret" "u8_encode secret = Some key" "secret \<noteq> []"
    using assms(1,4) unfolding create_token_def assms(3) [symmetric] by (auto simp: Let_def split: option.splits)
  define h where "h = encode_part (token_header a k)"
  define b where "b = encode_part (JObj ?c)"
  let ?s = "sign E (map char_of key) h b"
  have tok: "tok = h @ ''.'' @ b @ ''.'' @ ?s"
    using assms(1) s unfolding create_token_def assms(3) [symmetric] by (simp add: Let_def h_def b_def)
  have ch: "list_all (\<lambda>c. code c < 128 \<and> c \<noteq> CHR ''.'') x" if "x \<in> {h, b, ?s}" for x
    using that encode_part_chars sign_chars by (auto simp: h_def b_def)
  have sp: "split_on ''.'' tok = [h, b, ?s]"
    unfolding tok by (rule split_token) (use ch in \<open>auto simp: list_all_iff\<close>)
  have "json_ok (token_header a k)"
    using assms(5,6) by (simp add: token_header_def d_ok_def uni_def code_def is_scalar_def)
  then have hd: "decode_part h = Some (sort_json (token_header a k))"
    unfolding h_def by (rule decode_encode_part)
  define p where "p = sort_key fst (map (\<lambda>(k, v). (k, sort_json v)) ?c)"
  have pd: "decode_part b = Some (JObj p)"
    unfolding b_def p_def using decode_encode_part [OF assms(8)] by simp
  have ok: "d_ok (map (\<lambda>(k, v). (k, sort_json v)) ?c)"
    using d_ok_token_claims [of a payload secs w rnd] by (simp add: d_ok_def comp_def case_prod_unfold)
  have pg: "d_get p c = map_option sort_json (d_get ?c c)" for c
    unfolding p_def d_get_sort [OF ok] by (rule d_get_map)
  have asc: "list_all (\<lambda>c. code c < 128) x" if "x \<in> {h, b, ?s}" for x
    using ch [OF that] by (simp add: list_all_iff)
  then have "list_all (\<lambda>c. code c < 128) (h @ b)" "compare_digest ?s ?s = Inr True"
    by (simp_all add: compare_digest_def)
  then have sig: "check_signature E secret h b ?s = Inr ()"
    by (simp add: check_signature_def s del: list_all_append)
  note get = token_claims_get [OF assms(7), where a = a and secs = secs and w = w and rnd = rnd]
  have iss: "given (issuer a) = None \<or> d_get p (uni ''iss'') = map_option JStr (issuer a)"
  proof (cases "given (issuer a)")
    case (Some i)
    then show ?thesis
      using assms(10) [OF Some] get(2) [OF Some] by (auto simp: pg given_Some_iff)
  qed simp
  have aud: "given (audience a) = None \<or> d_get p (uni ''aud'') = map_option JStr (audience a)"
  proof (cases "given (audience a)")
    case (Some i)
    then show ?thesis
      using assms(11) [OF Some] get(3) [OF Some] by (auto simp: pg given_Some_iff)
  qed simp
  have "check_claims E a w' (JObj p) = Inr p"
    using assms(9) iss aud by (auto simp: check_claims_def pg get(1) int_of_json_def)
  then have "verify_text E a w' tok = Inr p"
    using assms(2) by (simp add: verify_text_def sp hd header_secret_token [OF s(1,3)] sig pd)
  then show ?thesis using pg by blast
qed

end
