(* ===== verification/Auth_Props.thy ===== *)
theory Auth_Props
  imports Auth
begin

section \<open>What the token checks guarantee\<close>

text \<open>
  The theorems on \<^verbatim>\<open>auth.py\<close>: which tokens pass, that a created token does, that a revoked one does
  not, and that \<^verbatim>\<open>require_auth\<close> guards the handlers behind it. The last part evaluates them on a
  concrete token.
\<close>

text \<open>
  C26. Only tokens signed with a configured secret pass: an accepted token is a header, a payload
  and the keyed hash of the two under a non-empty secret that the header's key id, or the current
  one, selects; it announces the expected algorithm, has not expired, has the required issuer and
  audience, and its identifier is not revoked.
\<close>

theorem verify_token_sound:
  assumes "verify_token E a check w token st = (Inr p, st')"
  shows "\<exists>h b d k secret key n. token = h @ ''.'' @ b @ ''.'' @ sign E (map char_of key) h b \<and>
    decode_part h = Some (JObj d) \<and> d_get d (uni ''alg'') = Some (JStr (expected_alg a)) \<and>
    (d_get d (uni ''kid'') = Some (JStr k) \<or> d_get d (uni ''kid'') = None \<and> k = current_kid a) \<and>
    d_get (jw_secrets a) k = Some secret \<and> secret \<noteq> [] \<and> u8_encode secret = Some key \<and>
    decode_part b = Some (JObj p) \<and>
    int_of_json E (case d_get p (uni ''exp'') of Some v \<Rightarrow> v | None \<Rightarrow> JInt 0) = Inr n \<and> trunc w \<le> n \<and>
    (given (issuer a) \<noteq> None \<longrightarrow> d_get p (uni ''iss'') = map_option JStr (issuer a)) \<and>
    (given (audience a) \<noteq> None \<longrightarrow> d_get p (uni ''aud'') = map_option JStr (audience a)) \<and>
    (\<forall>f j. check = Some f \<longrightarrow> jti_of E p = Some j \<longrightarrow> \<not> fst (f j st))"
proof -
  have v: "verify_text E a w token = Inr p"
    using assms by (auto simp: verify_token_def Let_def split: sum.splits option.splits prod.splits if_splits)
  have r: "\<not> fst (f j st)" if "check = Some f" "jti_of E p = Some j" for f j
    using assms that by (auto simp: verify_token_def v Let_def split: prod.splits if_splits)
  obtain n where n: "int_of_json E (case d_get p (uni ''exp'') of Some v \<Rightarrow> v | None \<Rightarrow> JInt 0) = Inr n"
      "trunc w \<le> n" "given (issuer a) \<noteq> None \<longrightarrow> d_get p (uni ''iss'') = map_option JStr (issuer a)"
      "given (audience a) \<noteq> None \<longrightarrow> d_get p (uni ''aud'') = map_option JStr (audience a)"
    using verify_text_Inr [OF v] by (auto simp: check_claims_def rbind_Inr_iff split: if_splits)
  show ?thesis
    using verify_text_Inr [OF v] n r by (elim exE conjE) (intro exI conjI; assumption?; blast?)
qed

text \<open>
  C27. A created token is accepted until it expires: verified with the same configuration, within
  its lifetime and unless its identifier is revoked, it yields the claims it was made of, with
  the identifier, times, issuer and audience that were filled in.
\<close>

theorem token_round_trip:
  assumes "create_token E a payload secs kid w rnd = Inr tok" and "int (length tok) \<le> max_token_len a"
    and "k = (case given kid of Some k \<Rightarrow> k | None \<Rightarrow> current_kid a)"
    and "d_get (jw_secrets a) k \<noteq> Some []" and "list_all is_scalar (expected_alg a)" and "list_all is_scalar k"
    and "d_ok payload" and "json_ok (JObj (token_claims a payload secs w rnd))" and "trunc w' \<le> trunc w + secs"
    and "\<And>i. given (issuer a) = Some i \<Longrightarrow> d_get payload (uni ''iss'') \<in> {None, Some (JStr i)}"
    and "\<And>i. given (audience a) = Some i \<Longrightarrow> d_get payload (uni ''aud'') \<in> {None, Some (JStr i)}"
    and "\<And>f j. check = Some f \<Longrightarrow> \<not> fst (f j st)"
  shows "\<exists>p. fst (verify_token E a check w' tok st) = Inr p \<and>
    (\<forall>c. d_get p c = map_option sort_json (d_get (token_claims a payload secs w rnd) c))"
proof -
  obtain p where p: "verify_text E a w' tok = Inr p"
      "\<forall>c. d_get p c = map_option sort_json (d_get (token_claims a payload secs w rnd) c)"
    using verify_created [OF assms(1-9) assms(10,11)] by blast
  then have "fst (verify_token E a check w' tok st) = Inr p"
    using assms(12) by (auto simp: verify_token_def Let_def case_prod_unfold split: option.split)
  with p(2) show ?thesis by blast
qed

subsection \<open>Logging out\<close>

text \<open>What a token says does not depend on when it is read.\<close>

lemma verify_text_same:
  assumes "verify_text E a w token = Inr p" and "verify_text E a w' token = Inr p'"
  shows "p = p'"
proof -
  obtain h b s where sp: "split_on ''.'' token = [h, b, s]"
    using assms(1) by (auto simp: verify_text_def split: if_splits list.splits)
  have "decode_part b = Some (JObj p)" if "verify_text E a w token = Inr p" for w p
    using that by (auto simp: verify_text_def sp rbind_Inr_iff check_claims_def
        split: if_splits option.splits json.splits)
  from this [OF assms(1)] this [OF assms(2)] show ?thesis by simp
qed

text \<open>
  What the verifier relies on: after a revocation by \<open>put\<close> the \<open>check\<close> answers that the token is
  revoked, at least while \<open>before\<close> holds of its expiry.
\<close>

locale revocation_list =
  fixes check :: "ustr \<Rightarrow> 'b \<Rightarrow> bool \<times> 'b" and put :: "ustr \<Rightarrow> int \<Rightarrow> str \<Rightarrow> 'b \<Rightarrow> unit result \<times> 'b"
    and before :: "int \<Rightarrow> bool"
  assumes revoked: "put j e why b = (Inr (), b') \<Longrightarrow> before e \<Longrightarrow> fst (check j b')"
begin

lemma logout:
  assumes "revoke_token E a (Some (any, put)) w token reason st = (Inr (), st')"
    and "verify_text E a w' token = Inr p"
    and "\<And>n. int_of_json E (case d_get p (uni ''exp'') of Some v \<Rightarrow> v | None \<Rightarrow> JInt 0) = Inr n \<Longrightarrow> before n"
  shows "fst (verify_token E a (Some check) w' token st') = Inl (unauthorized ''Token revoked'')"
proof -
  obtain p1 st1 where v: "verify_token E a (Some any) w token st = (Inr p1, st1)"
    and r: "(case jti_of E p1 of None \<Rightarrow> (Inl (HTTPError 400 ''Token has no jti'' []), st1)
       | Some j \<Rightarrow> (case int_of_json E (case d_get p1 (uni ''exp'') of Some v \<Rightarrow> v | None \<Rightarrow> JInt 0) of
             Inl e \<Rightarrow> (Inl e, st1) | Inr n \<Rightarrow> put j n reason st1)) = (Inr (), st')"
    using assms(1) by (auto simp: revoke_token_def sbind_Inr_iff)
  have "verify_text E a w token = Inr p1"
    using v by (auto simp: verify_token_def Let_def split: sum.splits option.splits prod.splits if_splits)
  then have "p1 = p"
    using assms(2) verify_text_same [of E a w token p1 w' p] by blast
  with r assms(3) obtain j n where j: "jti_of E p = Some j" "put j n reason st1 = (Inr (), st')" "before n"
    by (auto split: option.splits sum.splits)
  then have "fst (check j st')" by (rule_tac revoked)
  then show ?thesis
    using j(1) assms(2) by (auto simp: verify_token_def Let_def case_prod_unfold)
qed

end

lemma revoke_then_revoked:
  "revoke jti expiry reason t w b = (Inr (), b') \<Longrightarrow> trunc w' \<le> expiry \<Longrightarrow> fst (is_revoked jti t' w' b')"
  by (auto simp: revoke_def is_revoked_def row_active_def Let_def split: if_splits)

interpretation sqlite_list: revocation_list "\<lambda>j b. is_revoked j t' w' b" "\<lambda>j e why b. revoke j e why t w b" "\<lambda>e. trunc w' \<le> e"
  by unfold_locales (rule revoke_then_revoked)


text \<open>
  \<^verbatim>\<open>require_auth\<close> guards the rest of the chain: it runs only for a bearer token that
  verifies, on the same request with the token's claims as its user; otherwise the chain does not
  run and the answer is 401 for a missing header or the error of the verification.
\<close>

theorem require_auth_guards:
  "(\<exists>token p st. bearer (fst r) = Inr token \<and>
      verify_token E a check (auth_clock (snd r)) token (auth_list (snd r)) = (Inr p, st) \<and>
      require_auth E scalars a check r next = next ((fst r)\<lparr>user := Some (scalars p)\<rparr>, (snd r)\<lparr>auth_list := st\<rparr>)) \<or>
   (\<exists>e st. require_auth E scalars a check r next = (Inl e, (fst r, (snd r)\<lparr>auth_list := st\<rparr>)) \<and>
      (bearer (fst r) = Inl e \<and> e = HTTPError 401 ''Missing bearer token'' [] \<or>
       (\<exists>token. bearer (fst r) = Inr token \<and>
          verify_token E a check (auth_clock (snd r)) token (auth_list (snd r)) = (Inl e, st))))"
proof (cases "bearer (fst r)")
  case (Inl e)
  then have "require_auth E scalars a check r next = (Inl e, (fst r, (snd r)\<lparr>auth_list := auth_list (snd r)\<rparr>))"
    by (simp add: require_auth_def)
  moreover have "e = HTTPError 401 ''Missing bearer token'' []"
    using Inl by (auto simp: bearer_def unauthorized_def Let_def split: if_splits)
  ultimately show ?thesis using Inl by blast
next
  case (Inr token)
  obtain res st where v: "verify_token E a check (auth_clock (snd r)) token (auth_list (snd r)) = (res, st)" by force
  show ?thesis
    using Inr v by (cases res) (auto simp: require_auth_def)
qed
subsection \<open>Concrete tokens\<close>

text \<open>A keyed hash that is short enough to compute with, and a service with one secret.\<close>

definition sample_auth :: auth_env where
  "sample_auth = \<lparr>hmac_sha256 = (\<lambda>k m. take 3 (rev m) @ take 3 k),
     float_int = (\<lambda>t. Inl (PyError ''ValueError'')), float_true = (\<lambda>t. True),
     wide_int = (\<lambda>t. Inl (PyError ''ValueError'')), other_str = (\<lambda>j. uni ''?'')\<rparr>"

definition sample_service :: "int \<Rightarrow> jwt" where
  "sample_service limit = \<lparr>jw_secrets = [(uni ''default'', uni ''s3cret'')], current_kid = uni ''default'',
     issuer = Some (uni ''me''), audience = None, expected_alg = uni ''HS256'', max_token_len = limit\<rparr>"

definition sample_claims :: claims where
  "sample_claims = token_claims (sample_service 0) [(uni ''sub'', JStr (uni ''ann''))] 3600 1000 (uni ''r1'')"

definition sample_token :: str where
  "sample_token =
     (let h = encode_part (token_header (sample_service 0) (uni ''default'')); b = encode_part (JObj sample_claims)
      in h @ ''.'' @ b @ ''.'' @ sign sample_auth (map char_of (uni ''s3cret'')) h b)"

text \<open>The longest token this service takes is as long as the sample.\<close>

definition sample_jwt :: jwt where
  "sample_jwt = sample_service (int (length sample_token))"

lemma sample_fields:
  "jw_secrets sample_jwt = [(uni ''default'', uni ''s3cret'')]" "current_kid sample_jwt = uni ''default''"
  "issuer sample_jwt = Some (uni ''me'')" "audience sample_jwt = None" "expected_alg sample_jwt = uni ''HS256''"
  "max_token_len sample_jwt = int (length sample_token)"
  by (simp_all add: sample_jwt_def sample_service_def)

lemma sample_header: "token_header sample_jwt k = token_header (sample_service 0) k"
  by (simp add: token_header_def sample_fields sample_service_def)

lemma sample_claims_eq: "token_claims sample_jwt [(uni ''sub'', JStr (uni ''ann''))] 3600 1000 (uni ''r1'') = sample_claims"
  by (simp add: sample_claims_def token_claims_def sample_fields sample_service_def)

lemma sample_key: "u8_encode (uni ''s3cret'') = Some (uni ''s3cret'')"
  by (rule u8_encode_ascii) (simp add: uni_def code_def)

lemma create_token_Inr:
  assumes "d_get (jw_secrets a) (current_kid a) = Some s" and "u8_encode s = Some key"
  shows "create_token E a payload secs None w rnd =
    Inr (let h = encode_part (token_header a (current_kid a)); b = encode_part (JObj (token_claims a payload secs w rnd))
         in h @ ''.'' @ b @ ''.'' @ sign E (map char_of key) h b)"
  using assms by (simp add: create_token_def given_def Let_def)

lemma sample_secret: "d_get (jw_secrets sample_jwt) (current_kid sample_jwt) = Some (uni ''s3cret'')"
  by (simp add: sample_fields)

lemma sample_token_created:
  "create_token sample_auth sample_jwt [(uni ''sub'', JStr (uni ''ann''))] 3600 None 1000 (uni ''r1'') = Inr sample_token"
  unfolding create_token_Inr [OF sample_secret sample_key] sample_fields sample_header sample_claims_eq
  by (simp only: sample_token_def)

lemma sample_claims_ok: "json_ok (JObj sample_claims)"
proof -
  have big: "(4600 :: int) < 10 ^ max_str_digits"
  proof -
    have "(10 :: int) ^ 4 \<le> 10 ^ max_str_digits" by (rule power_increasing) (simp_all add: max_str_digits_def)
    then show ?thesis by simp
  qed
  have "trunc 1000 = 1000" by (simp add: trunc_def)
  then show ?thesis
    using big by (simp add: sample_claims_def token_claims_def sample_service_def given_def uni_def code_def
        d_setdefault_def is_scalar_def d_ok_def Let_def)
qed

lemma sample_token_accepted:
  assumes "trunc w \<le> 4600"
  shows "\<exists>p. verify_text sample_auth sample_jwt w sample_token = Inr p \<and>
    (\<forall>c. d_get p c = map_option sort_json (d_get sample_claims c))"
  unfolding sample_claims_eq [symmetric]
proof (rule verify_created [OF sample_token_created])
  show "int (length sample_token) \<le> max_token_len sample_jwt"
    by (simp add: sample_fields)
  show "uni ''default'' = (case given None of Some k \<Rightarrow> k | None \<Rightarrow> current_kid sample_jwt)"
    by (simp add: given_def sample_fields)
  show "json_ok (JObj (token_claims sample_jwt [(uni ''sub'', JStr (uni ''ann''))] 3600 1000 (uni ''r1'')))"
    unfolding sample_claims_eq by (rule sample_claims_ok)
  show "trunc w \<le> trunc 1000 + 3600" using assms by (simp add: trunc_def)
qed (simp_all add: sample_fields uni_def code_def is_scalar_def d_ok_def)

lemma sample_verified:
  assumes "trunc w \<le> 4600"
  shows "\<exists>p. verify_text sample_auth sample_jwt w sample_token = Inr p \<and> d_get p (uni ''exp'') = Some (JInt 4600) \<and>
    d_get p (uni ''sub'') = Some (JStr (uni ''ann'')) \<and> jti_of sample_auth p = Some (uni ''r1'')"
proof -
  obtain p where p: "verify_text sample_auth sample_jwt w sample_token = Inr p"
      "\<forall>c. d_get p c = map_option sort_json (d_get sample_claims c)"
    using sample_token_accepted [OF assms] by blast
  have ne: "uni ''r1'' \<noteq> []" "trunc 1000 = 1000"
    by (simp_all add: uni_def trunc_def)
  have "d_get sample_claims (uni ''exp'') = Some (JInt 4600)" "d_get sample_claims (uni ''sub'') = Some (JStr (uni ''ann''))"
    "d_get sample_claims (uni ''jti'') = Some (JStr (uni ''r1''))"
    by (simp_all add: sample_claims_def token_claims_def sample_service_def given_def uni_def code_def d_setdefault_def Let_def trunc_def)
  then show ?thesis
    using p ne by (intro exI [of _ p]) (simp add: jti_of_def json_true_def str_of_json_def)
qed

text \<open>The empty blocklist accepts the token; after the logout it does not.\<close>

lemma not_revoked_yet: "\<not> fst (is_revoked j t w (Blocklist 5 []))"
  by (simp add: is_revoked_def Blocklist_def row_active_def Let_def)

lemma verify_token_sound_witness:
  "\<exists>p h b (key :: nat list). verify_token sample_auth sample_jwt (Some (\<lambda>j b. is_revoked j 7 2000 b)) 2000 sample_token (Blocklist 5 []) =
      (Inr p, snd (is_revoked (uni ''r1'') 7 2000 (Blocklist 5 []))) \<and>
     sample_token = h @ ''.'' @ b @ ''.'' @ sign sample_auth (map char_of key) h b \<and> decode_part b = Some (JObj p)"
proof -
  obtain p where p: "verify_text sample_auth sample_jwt 2000 sample_token = Inr p" "jti_of sample_auth p = Some (uni ''r1'')"
    using sample_verified [of 2000] by (auto simp: trunc_def)
  have v: "verify_token sample_auth sample_jwt (Some (\<lambda>j b. is_revoked j 7 2000 b)) 2000 sample_token (Blocklist 5 []) =
      (Inr p, snd (is_revoked (uni ''r1'') 7 2000 (Blocklist 5 [])))"
    using not_revoked_yet by (simp add: verify_token_def p Let_def case_prod_unfold)
  show ?thesis
    using verify_token_sound [OF v] v by blast
qed

lemma token_round_trip_witness:
  "\<exists>p. fst (verify_token sample_auth sample_jwt None 2000 sample_token ()) = Inr p \<and>
    (\<forall>c. d_get p c = map_option sort_json (d_get sample_claims c))"
  unfolding sample_claims_eq [symmetric]
proof (rule token_round_trip [OF sample_token_created])
  show "int (length sample_token) \<le> max_token_len sample_jwt" by (simp add: sample_fields)
  show "uni ''default'' = (case given None of Some k \<Rightarrow> k | None \<Rightarrow> current_kid sample_jwt)"
    by (simp add: given_def sample_fields)
  show "json_ok (JObj (token_claims sample_jwt [(uni ''sub'', JStr (uni ''ann''))] 3600 1000 (uni ''r1'')))"
    unfolding sample_claims_eq by (rule sample_claims_ok)
  show "trunc 2000 \<le> trunc 1000 + 3600" by (simp add: trunc_def)
qed (simp_all add: sample_fields uni_def code_def is_scalar_def d_ok_def)


end
