(* ===== verification/PyValue.thy ===== *)
theory PyValue
  imports Json
begin

section \<open>Python values and type hints\<close>

text \<open>
  What \<^verbatim>\<open>validation.py\<close> and \<^verbatim>\<open>orm.py\<close> work on: the values a JSON document, a query string or
  a table row can turn into, and the type hints of a dataclass. A float is a number, an infinity
  or not a number; reading one from text and rounding an integer to one are parameters of the
  environment, as are \<^verbatim>\<open>str\<close> of a value that is neither text nor a number and the declared
  dataclasses, which are taken to be plain (no \<^verbatim>\<open>__post_init__\<close>, no fields outside \<^verbatim>\<open>__init__\<close>).
  A sequence is listed in the order in which iterating yields it.
\<close>

datatype pyfloat = Finite rat | Infinite bool | NaN

datatype seq_kind = ListK | TupleK | SetK | FrozenK

datatype pyval =
    VNone
  | VBool bool
  | VInt int
  | VFloat pyfloat
  | VStr ustr
  | VBytes bytes
  | VSeq seq_kind "pyval list"
  | VDict "(pyval \<times> pyval) list"
  | VModel str "(ustr \<times> pyval) list"

text \<open>
  Type hints: the scalars, any other class, a dataclass, \<^verbatim>\<open>Union\<close> and \<^verbatim>\<open>|\<close>, the generic containers
  with their arguments, and any other form.
\<close>

datatype ty =
    TAny
  | TBool
  | TInt
  | TFloat
  | TStr
  | TBytes
  | TClass str
  | TModel str
  | TUnion "ty list"
  | TSeq seq_kind "ty list"
  | TDict "ty list"
  | TOther

abbreviation TNone :: ty where "TNone \<equiv> TClass ''NoneType''"

record field =
  f_name :: ustr
  f_type :: ty
  f_default :: "pyval option"

record class_info =
  c_fields :: "field list"
  c_hashable :: bool
  c_bases :: "str list"

record py_env =
  dataclasses :: "(str, class_info) dict"
  float_of_text :: "ustr \<Rightarrow> pyfloat option"
  float_of_bytes :: "bytes \<Rightarrow> pyfloat option"
  float_of_int :: "int \<Rightarrow> pyfloat option"
  int_of_text :: "ustr \<Rightarrow> int option"
  text_of :: "pyval \<Rightarrow> ustr"
  text_of_exn :: "exn \<Rightarrow> ustr"

subsection \<open>Equality, hashing and the dictionary\<close>

text \<open>
  Booleans, integers and floats compare by value; sequences of the same kind elementwise, sets as
  sets, dictionaries as maps, instances of a dataclass field by field.
\<close>

definition num_of :: "pyval \<Rightarrow> pyfloat option" where
  "num_of v =
     (case v of VBool b \<Rightarrow> Some (Finite (if b then 1 else 0)) | VInt i \<Rightarrow> Some (Finite (of_int i))
      | VFloat f \<Rightarrow> Some f | _ \<Rightarrow> None)"

lemma size_pairs:
  "(k, v) \<in> set d \<Longrightarrow> size k < Suc (size_list (size_prod size size) d) \<and> size v < Suc (size_list (size_prod size size) d)"
  by (induction d) auto

lemma size_fields: "(k, v) \<in> set d \<Longrightarrow> size v < Suc (size_list (size_prod (\<lambda>x. 0) size) d)"
  by (induction d) auto

lemma size_items: "v \<in> set vs \<Longrightarrow> size v < Suc (size_list size vs)"
  by (induction vs) auto

fun hashable :: "py_env \<Rightarrow> pyval \<Rightarrow> bool" where
  "hashable E (VSeq k vs) = (k = FrozenK \<or> k = TupleK \<and> (\<forall>v\<in>set vs. hashable E v))"
| "hashable E (VDict d) = False"
| "hashable E (VModel c fvs) =
     ((case d_get (dataclasses E) c of Some i \<Rightarrow> c_hashable i | None \<Rightarrow> False) \<and> (\<forall>(n, v)\<in>set fvs. hashable E v))"
| "hashable E _ = True"

function py_eq :: "pyval \<Rightarrow> pyval \<Rightarrow> bool" where
  "py_eq v w =
     (case (num_of v, num_of w) of
        (Some a, Some b) \<Rightarrow> a = b \<and> a \<noteq> NaN
      | _ \<Rightarrow>
          (case (v, w) of
             (VNone, VNone) \<Rightarrow> True
           | (VStr s, VStr t) \<Rightarrow> s = t
           | (VBytes s, VBytes t) \<Rightarrow> s = t
           | (VSeq k xs, VSeq l ys) \<Rightarrow>
               if k \<in> {SetK, FrozenK} \<and> l \<in> {SetK, FrozenK}
               then length xs = length ys \<and> (\<forall>x\<in>set xs. \<exists>y\<in>set ys. py_eq x y)
               else k = l \<and> length xs = length ys \<and> (\<forall>(x, y)\<in>set (zip xs ys). py_eq x y)
           | (VDict d, VDict e) \<Rightarrow>
               length d = length e \<and> (\<forall>(a, x)\<in>set d. \<exists>(b, y)\<in>set e. py_eq a b \<and> py_eq x y)
           | (VModel c xs, VModel c' ys) \<Rightarrow>
               c = c' \<and> length xs = length ys \<and>
               (\<forall>((m, x), (n, y))\<in>set (zip xs ys). m = n \<and> py_eq x y)
           | _ \<Rightarrow> False))"
  by pat_completeness auto
termination
  by (relation "measure (\<lambda>(v, w). size v)") (auto dest: size_items size_pairs size_fields dest!: set_zip_leftD)

declare py_eq.simps [simp del]

text \<open>\<open>py_set\<close> is \<^verbatim>\<open>set(items)\<close> (the first of equal items stays), \<open>py_put\<close> is \<^verbatim>\<open>d[k] = v\<close> (an equal key stays).\<close>

fun py_set :: "pyval list \<Rightarrow> pyval list \<Rightarrow> pyval list" where
  "py_set acc [] = acc"
| "py_set acc (v # vs) = py_set (if \<exists>w\<in>set acc. py_eq w v then acc else acc @ [v]) vs"

fun py_put :: "pyval \<Rightarrow> pyval \<Rightarrow> (pyval \<times> pyval) list \<Rightarrow> (pyval \<times> pyval) list" where
  "py_put k v [] = [(k, v)]"
| "py_put k v ((k', v') # d) = (if py_eq k' k then (k', v) # d else (k', v') # py_put k v d)"

subsection \<open>Text\<close>

text \<open>\<^verbatim>\<open>str.strip()\<close>, and \<^verbatim>\<open>str.lower()\<close> as far as its ASCII result goes.\<close>

definition u_space :: "nat \<Rightarrow> bool" where
  "u_space c =
     (if c < 0x80 then (9 \<le> c \<and> c \<le> 13) \<or> (28 \<le> c \<and> c \<le> 32)
      else c = 0x85 \<or> c = 0xA0 \<or> c = 0x1680 \<or> (0x2000 \<le> c \<and> c \<le> 0x200A) \<or>
        c = 0x2028 \<or> c = 0x2029 \<or> c = 0x202F \<or> c = 0x205F \<or> c = 0x3000)"

definition u_strip :: "ustr \<Rightarrow> ustr" where
  "u_strip s = rev (dropWhile u_space (rev (dropWhile u_space s)))"

definition u_lower :: "ustr \<Rightarrow> ustr" where
  "u_lower s = map (\<lambda>c. if 65 \<le> c \<and> c \<le> 90 then c + 32 else c) s"

text \<open>\<^verbatim>\<open>str(value)\<close>.\<close>

definition py_str :: "py_env \<Rightarrow> pyval \<Rightarrow> ustr" where
  "py_str E v =
     (case v of VStr s \<Rightarrow> s | VInt i \<Rightarrow> uni (show_int i) | VBool b \<Rightarrow> uni (if b then ''True'' else ''False'')
      | VNone \<Rightarrow> uni ''None'' | _ \<Rightarrow> text_of E v)"

subsection \<open>Classes\<close>

text \<open>The classes of a value, itself first: \<^verbatim>\<open>isinstance\<close> looks for a class among them.\<close>

definition seq_class :: "seq_kind \<Rightarrow> str" where
  "seq_class k = (case k of ListK \<Rightarrow> ''list'' | TupleK \<Rightarrow> ''tuple'' | SetK \<Rightarrow> ''set'' | FrozenK \<Rightarrow> ''frozenset'')"

definition class_names :: "py_env \<Rightarrow> pyval \<Rightarrow> str list" where
  "class_names E v =
     (case v of
        VNone \<Rightarrow> [''NoneType'', ''object'']
      | VBool b \<Rightarrow> [''bool'', ''int'', ''object'']
      | VInt i \<Rightarrow> [''int'', ''object'']
      | VFloat f \<Rightarrow> [''float'', ''object'']
      | VStr s \<Rightarrow> [''str'', ''object'']
      | VBytes b \<Rightarrow> [''bytes'', ''object'']
      | VSeq k vs \<Rightarrow> [seq_class k, ''object'']
      | VDict d \<Rightarrow> [''dict'', ''object'']
      | VModel c fvs \<Rightarrow> c # (case d_get (dataclasses E) c of Some i \<Rightarrow> c_bases i | None \<Rightarrow> []) @ [''object''])"

subsection \<open>What the program reads\<close>

fun of_json :: "py_env \<Rightarrow> json \<Rightarrow> pyval" where
  "of_json E JNull = VNone"
| "of_json E (JBool b) = VBool b"
| "of_json E (JInt i) = VInt i"
| "of_json E (JFloat t) = VFloat (case float_of_text E t of Some f \<Rightarrow> f | None \<Rightarrow> NaN)"
| "of_json E (JStr s) = VStr s"
| "of_json E (JArr js) = VSeq ListK (map (of_json E) js)"
| "of_json E (JObj d) = VDict (map (\<lambda>(k, j). (VStr k, of_json E j)) d)"

definition of_query :: "(ustr, qval) dict \<Rightarrow> (pyval \<times> pyval) list" where
  "of_query q = map (\<lambda>(k, v). (VStr k, case v of One s \<Rightarrow> VStr s | Many ss \<Rightarrow> VSeq ListK (map VStr ss))) q"

end
