(* ===== verification/Validation.thy ===== *)
theory Validation
  imports PyValue
begin

section \<open>Validation (\<^verbatim>\<open>validation.py\<close>)\<close>

text \<open>
  \<^verbatim>\<open>coerce_value\<close> turns a decoded value into one of the hinted type, \<^verbatim>\<open>validate_model\<close> a dictionary
  into an instance of a dataclass, \<^verbatim>\<open>validate_body\<close> and \<^verbatim>\<open>validate_query\<close> guard a handler, and
  \<^verbatim>\<open>schema_for_type\<close> publishes the types. \<open>Invalid\<close> is the \<^verbatim>\<open>ValidationError\<close> with its message,
  \<open>Raised\<close> any other exception, which the alternatives of a union do not catch.
\<close>

datatype verr = Invalid ustr | Raised exn

type_synonym 'a vresult = "verr + 'a"

definition invalid :: "ustr \<Rightarrow> str \<Rightarrow> 'a vresult" where
  "invalid name what = Inl (Invalid (name @ uni what))"

subsection \<open>Scalars\<close>

definition coerce_bool :: "pyval \<Rightarrow> ustr \<Rightarrow> pyval vresult" where
  "coerce_bool v name =
     (case v of
        VBool b \<Rightarrow> Inr v
      | VStr s \<Rightarrow>
          (let t = u_lower (u_strip s) in
           if t \<in> set (map uni [''1'', ''true'', ''yes'', ''on'']) then Inr (VBool True)
           else if t \<in> set (map uni [''0'', ''false'', ''no'', ''off'']) then Inr (VBool False)
           else invalid name '': expected bool'')
      | _ \<Rightarrow> invalid name '': expected bool'')"

text \<open>
  \<^verbatim>\<open>int(value)\<close>: a float loses its fraction, text is parsed; only \<^verbatim>\<open>TypeError\<close> and \<^verbatim>\<open>ValueError\<close> are
  turned into a validation error, not the \<^verbatim>\<open>OverflowError\<close> of an infinity.
\<close>

definition coerce_int :: "py_env \<Rightarrow> pyval \<Rightarrow> ustr \<Rightarrow> pyval vresult" where
  "coerce_int E v name =
     (let parsed = (\<lambda>r. case r of Some i \<Rightarrow> Inr (VInt i) | None \<Rightarrow> invalid name '': expected int'') in
      case v of
        VInt i \<Rightarrow> Inr v
      | VFloat (Finite q) \<Rightarrow> Inr (VInt (trunc q))
      | VFloat (Infinite b) \<Rightarrow> Inl (Raised (PyError ''OverflowError''))
      | VStr s \<Rightarrow> parsed (if list_all (\<lambda>c. c < 256) s then py_int (map char_of s) else int_of_text E s)
      | VBytes b \<Rightarrow> parsed (parse_int 10 (bstrip b))
      | _ \<Rightarrow> invalid name '': expected int'')"

definition coerce_float :: "py_env \<Rightarrow> pyval \<Rightarrow> ustr \<Rightarrow> pyval vresult" where
  "coerce_float E v name =
     (let parsed = (\<lambda>r. case r of Some f \<Rightarrow> Inr (VFloat f) | None \<Rightarrow> invalid name '': expected float'') in
      case v of
        VFloat f \<Rightarrow> Inr v
      | VInt i \<Rightarrow> (case float_of_int E i of Some f \<Rightarrow> Inr (VFloat f) | None \<Rightarrow> Inl (Raised (PyError ''OverflowError'')))
      | VStr s \<Rightarrow> parsed (float_of_text E s)
      | VBytes b \<Rightarrow> parsed (float_of_bytes E b)
      | _ \<Rightarrow> invalid name '': expected float'')"

definition coerce_bytes :: "pyval \<Rightarrow> ustr \<Rightarrow> pyval vresult" where
  "coerce_bytes v name =
     (case v of
        VBytes b \<Rightarrow> Inr v
      | VStr s \<Rightarrow>
          (case u8_encode s of Some b \<Rightarrow> Inr (VBytes (map char_of b))
           | None \<Rightarrow> Inl (Raised (PyError ''UnicodeEncodeError'')))
      | _ \<Rightarrow> invalid name '': expected bytes'')"

definition coerce_scalar :: "py_env \<Rightarrow> pyval \<Rightarrow> ty \<Rightarrow> ustr \<Rightarrow> pyval vresult" where
  "coerce_scalar E v tp name =
     (case tp of
        TAny \<Rightarrow> Inr v
      | TBool \<Rightarrow> coerce_bool v name
      | TInt \<Rightarrow> coerce_int E v name
      | TFloat \<Rightarrow> coerce_float E v name
      | TStr \<Rightarrow> Inr (VStr (py_str E v))
      | TBytes \<Rightarrow> coerce_bytes v name
      | TClass c \<Rightarrow> if c \<in> set (class_names E v) then Inr v else invalid name ('': expected '' @ c)
      | _ \<Rightarrow> Inr v)"

subsection \<open>Containers and models\<close>

text \<open>\<^verbatim>\<open>args[0] if args else Any\<close>, and the two arguments of \<^verbatim>\<open>dict\<close>.\<close>

fun item_type :: "ty list \<Rightarrow> ty" where
  "item_type [] = TAny"
| "item_type (t # ts) = t"

definition dict_types :: "ty list \<Rightarrow> ty \<times> ty" where
  "dict_types ts = (case ts of [k, v] \<Rightarrow> (k, v) | _ \<Rightarrow> (TAny, TAny))"

lemma item_type_size [simp]: "size (item_type ts) < Suc (size_list size ts)"
  by (cases ts) auto

lemma dict_types_size: "dict_types ts = (k, v) \<Longrightarrow> size k < Suc (size_list size ts) \<and> size v < Suc (size_list size ts)"
  by (auto simp: dict_types_def split: list.splits)

definition make_seq :: "py_env \<Rightarrow> seq_kind \<Rightarrow> pyval list \<Rightarrow> pyval vresult" where
  "make_seq E k vs =
     (if k \<in> {SetK, FrozenK} then
        (if list_all (hashable E) vs then Inr (VSeq k (py_set [] vs)) else Inl (Raised (PyError ''TypeError'')))
      else Inr (VSeq k vs))"

definition is_text :: "pyval \<Rightarrow> bool" where
  "is_text v = (case v of VStr s \<Rightarrow> True | _ \<Rightarrow> False)"

text \<open>The checks of \<^verbatim>\<open>validate_model\<close> before its loop: a dataclass, and no key outside its fields.\<close>

definition unknown_keys :: "field list \<Rightarrow> (pyval \<times> pyval) list \<Rightarrow> pyval list" where
  "unknown_keys fs d = filter (\<lambda>k. k \<notin> set (map (\<lambda>f. VStr (f_name f)) fs)) (map fst d)"

definition model_fields :: "py_env \<Rightarrow> str \<Rightarrow> (pyval \<times> pyval) list \<Rightarrow> field list vresult" where
  "model_fields E c d =
     (case d_get (dataclasses E) c of
        None \<Rightarrow> Inl (Raised (PyError ''TypeError''))
      | Some i \<Rightarrow>
          (let unknown = unknown_keys (c_fields i) d in
           if unknown = [] then Inr (c_fields i)
           else if list_ex (\<lambda>k. \<not> is_text k) unknown then Inl (Raised (PyError ''TypeError''))
           else Inl (Invalid (uni ''unknown field(s): '' @ join (uni '', '') (sort_key id (map (py_str E) unknown))))))"

text \<open>\<^verbatim>\<open>model_cls(**kwargs)\<close>: a field that was not passed takes its default.\<close>

definition construct :: "str \<Rightarrow> field list \<Rightarrow> pyval option list \<Rightarrow> pyval" where
  "construct c fs ws =
     VModel c (map2 (\<lambda>f w. (f_name f, case w of Some v \<Rightarrow> v
        | None \<Rightarrow> (case f_default f of Some v \<Rightarrow> v | None \<Rightarrow> VNone))) fs ws)"

lemma size_lookup: "d_get d k = Some v \<Longrightarrow> size v < size_list (size_prod size size) d"
  by (induction d) (auto split: if_splits)

function (sequential) coerce_value :: "py_env \<Rightarrow> pyval \<Rightarrow> ty \<Rightarrow> ustr \<Rightarrow> pyval vresult"
  and coerce_union :: "py_env \<Rightarrow> pyval \<Rightarrow> ty list \<Rightarrow> ustr \<Rightarrow> ustr list \<Rightarrow> pyval vresult"
  and coerce_items :: "py_env \<Rightarrow> pyval list \<Rightarrow> ty \<Rightarrow> ustr \<Rightarrow> pyval list vresult"
  and coerce_pairs :: "py_env \<Rightarrow> (pyval \<times> pyval) list \<Rightarrow> ty \<times> ty \<Rightarrow> ustr \<Rightarrow> (pyval \<times> pyval) list \<Rightarrow> (pyval \<times> pyval) list vresult"
  and validate_fields :: "py_env \<Rightarrow> field list \<Rightarrow> (pyval \<times> pyval) list \<Rightarrow> pyval option list vresult"
where
  "coerce_value E v (TUnion ts) name =
     (if TNone \<in> set ts \<and> v = VNone then Inr VNone else coerce_union E v ts name [])"
| "coerce_value E v (TSeq k ts) name =
     (case v of
        VSeq l vs \<Rightarrow> rbind (coerce_items E vs (item_type ts) (name @ uni ''[]'')) (make_seq E k)
      | _ \<Rightarrow> rbind (coerce_value E v (item_type ts) (name @ uni ''[]'')) (\<lambda>w. make_seq E k [w]))"
| "coerce_value E v (TDict ts) name =
     (case v of
        VDict d \<Rightarrow> rbind (coerce_pairs E d (dict_types ts) name []) (\<lambda>d'. Inr (VDict d'))
      | _ \<Rightarrow> invalid name '': expected object'')"
| "coerce_value E v (TModel c) name =
     (case v of
        VDict d \<Rightarrow>
          rbind (model_fields E c d) (\<lambda>fs. rbind (validate_fields E fs d) (\<lambda>ws. Inr (construct c fs ws)))
      | _ \<Rightarrow> invalid name '': expected object'')"
| "coerce_value E v tp name = coerce_scalar E v tp name"
| "coerce_union E v [] name errors =
     Inl (Invalid (name @ uni '': does not match any allowed type ('' @ join (uni ''; '') errors @ uni '')''))"
| "coerce_union E v (t # ts) name errors =
     (if t = TNone then coerce_union E v ts name errors
      else (case coerce_value E v t name of
              Inl (Invalid msg) \<Rightarrow> coerce_union E v ts name (errors @ [msg])
            | r \<Rightarrow> r))"
| "coerce_items E [] t name = Inr []"
| "coerce_items E (v # vs) t name =
     rbind (coerce_value E v t name) (\<lambda>w. rbind (coerce_items E vs t name) (\<lambda>ws. Inr (w # ws)))"
| "coerce_pairs E [] kv name acc = Inr acc"
| "coerce_pairs E ((k, v) # d) kv name acc =
     rbind (coerce_value E k (fst kv) (name @ uni ''.key'')) (\<lambda>k'.
     rbind (coerce_value E v (snd kv) (name @ uni ''.'' @ py_str E k)) (\<lambda>v'.
       if hashable E k' then coerce_pairs E d kv name (py_put k' v' acc) else Inl (Raised (PyError ''TypeError''))))"
| "validate_fields E [] d = Inr []"
| "validate_fields E (f # fs) d =
     (case d_get d (VStr (f_name f)) of
        Some v \<Rightarrow> rbind (coerce_value E v (f_type f) (f_name f)) (\<lambda>w. rbind (validate_fields E fs d) (\<lambda>ws. Inr (Some w # ws)))
      | None \<Rightarrow>
          if f_default f \<noteq> None then rbind (validate_fields E fs d) (\<lambda>ws. Inr (None # ws))
          else invalid (f_name f) '': field required'')"
  by pat_completeness auto

text \<open>
  Every call is on a smaller value, or on the same value and a smaller type, so validation ends
  even where dataclasses refer to each other.
\<close>

termination
  by (relation "inv_image (less_than <*lex*> less_than <*lex*> less_than)
      (\<lambda>x. case x of
          Inl (Inl (E, v, t, n)) \<Rightarrow> (size v, size t, 0)
        | Inl (Inr (E, v, ts, n, es)) \<Rightarrow> (size v, size_list size ts, 0)
        | Inr (Inl (E, vs, t, n)) \<Rightarrow> (size_list size vs, size t, 0)
        | Inr (Inr (Inl (E, d, kv, n, acc))) \<Rightarrow> (size_list (size_prod size size) d, 0, 0)
        | Inr (Inr (Inr (E, fs, d))) \<Rightarrow> (size_list (size_prod size size) d, 0, length fs))")
    (auto intro: size_lookup)

definition validate_model :: "py_env \<Rightarrow> str \<Rightarrow> (pyval \<times> pyval) list \<Rightarrow> pyval vresult" where
  "validate_model E c d =
     rbind (model_fields E c d) (\<lambda>fs. rbind (validate_fields E fs d) (\<lambda>ws. Inr (construct c fs ws)))"

subsection \<open>Guarded handlers\<close>

text \<open>
  \<open>BadRequest\<close> is \<^verbatim>\<open>HTTPError(400, text)\<close>; the text may hold any code point. \<open>Through\<close> is what the
  handler itself raises. The model is attached to the request, here handed to the handler.
\<close>

datatype refusal = BadRequest ustr | Through exn

definition text_of_verr :: "py_env \<Rightarrow> verr \<Rightarrow> ustr" where
  "text_of_verr E e = (case e of Invalid msg \<Rightarrow> msg | Raised x \<Rightarrow> text_of_exn E x)"

definition through :: "'r result \<Rightarrow> refusal + 'r" where
  "through r = (case r of Inl e \<Rightarrow> Inl (Through e) | Inr x \<Rightarrow> Inr x)"

definition body_model :: "py_env \<Rightarrow> str \<Rightarrow> request \<Rightarrow> pyval vresult" where
  "body_model E c req =
     (case request_json req of
        Inl e \<Rightarrow> Inl (Raised e)
      | Inr j \<Rightarrow>
          (case of_json E j of
             VDict d \<Rightarrow> validate_model E c d
           | _ \<Rightarrow> Inl (Invalid (uni ''JSON body must be an object''))))"

definition validate_body :: "py_env \<Rightarrow> str \<Rightarrow> (request \<Rightarrow> pyval \<Rightarrow> 'r result) \<Rightarrow> request \<Rightarrow> refusal + 'r" where
  "validate_body E c func req =
     (case body_model E c req of
        Inl (Raised (HTTPError s m hs)) \<Rightarrow> Inl (Through (HTTPError s m hs))
      | Inl e \<Rightarrow> Inl (BadRequest (uni ''Validation failed: '' @ text_of_verr E e))
      | Inr m \<Rightarrow> through (func req m))"

definition validate_query :: "py_env \<Rightarrow> str \<Rightarrow> (request \<Rightarrow> pyval \<Rightarrow> 'r result) \<Rightarrow> request \<Rightarrow> refusal + 'r" where
  "validate_query E c func req =
     (case validate_model E c (of_query (query req)) of
        Inl e \<Rightarrow> Inl (BadRequest (uni ''Query validation failed: '' @ text_of_verr E e))
      | Inr m \<Rightarrow> through (func req m))"

end
