(* ===== verification/Validation_Props.thy ===== *)
theory Validation_Props
  imports Validation
begin

section \<open>What validation promises\<close>

text \<open>
  The typing of values by hints as an inductive relation, the soundness of the coercion with
  respect to it, and what follows for the guarded handlers.
\<close>

inductive has_type :: "py_env \<Rightarrow> pyval \<Rightarrow> ty \<Rightarrow> bool" for E where
  has_any: "has_type E v TAny"
| has_other: "has_type E v TOther"
| has_bool: "has_type E (VBool b) TBool"
| has_int: "has_type E (VInt i) TInt"
| has_float: "has_type E (VFloat f) TFloat"
| has_str: "has_type E (VStr s) TStr"
| has_bytes: "has_type E (VBytes b) TBytes"
| has_instance: "c \<in> set (class_names E v) \<Longrightarrow> has_type E v (TClass c)"
| has_union: "t \<in> set ts \<Longrightarrow> has_type E v t \<Longrightarrow> has_type E v (TUnion ts)"
| has_seq: "\<forall>v\<in>set vs. has_type E v (item_type ts) \<Longrightarrow> has_type E (VSeq k vs) (TSeq k ts)"
| has_dict: "\<forall>(k, v)\<in>set d. has_type E k (fst (dict_types ts)) \<and> has_type E v (snd (dict_types ts)) \<Longrightarrow>
    has_type E (VDict d) (TDict ts)"
| has_model: "d_get (dataclasses E) c = Some i \<Longrightarrow>
    map fst fvs = map f_name (c_fields i) \<Longrightarrow>
    \<forall>x\<in>set (zip fvs (c_fields i)). has_type E (snd (fst x)) (f_type (snd x)) \<or> f_default (snd x) = Some (snd (fst x)) \<Longrightarrow>
    has_type E (VModel c fvs) (TModel c)"

inductive_cases has_type_modelE: "has_type E v (TModel c)"

subsection \<open>Sets and dictionaries keep what they are made of\<close>

lemma py_set_subset: "set (py_set acc vs) \<subseteq> set acc \<union> set vs"
proof (induction acc vs rule: py_set.induct)
  case (2 acc v vs)
  then show ?case by (simp split: if_splits) blast+
qed simp

lemma make_seq_Inr: "make_seq E k vs = Inr w \<Longrightarrow> \<exists>ws. w = VSeq k ws \<and> set ws \<subseteq> set vs"
  using py_set_subset [of "[]" vs] by (auto simp: make_seq_def split: if_splits)

lemma py_put_set: "(a, b) \<in> set (py_put k v d) \<Longrightarrow> (a = k \<or> a \<in> fst ` set d) \<and> (b = v \<or> b \<in> snd ` set d)"
proof (induction k v d rule: py_put.induct)
  case (2 k v k' v' d)
  then show ?case by (cases "py_eq k' k") (auto intro: rev_image_eqI)
qed auto

lemma scalar_typed: "coerce_scalar E v tp name = Inr w \<Longrightarrow>
    (\<forall>ts. tp \<noteq> TUnion ts) \<and> (\<forall>k ts. tp \<noteq> TSeq k ts) \<and> (\<forall>ts. tp \<noteq> TDict ts) \<and> (\<forall>c. tp \<noteq> TModel c) \<Longrightarrow> has_type E w tp"
  by (cases tp) (auto simp: coerce_scalar_def coerce_bool_def coerce_int_def coerce_float_def coerce_bytes_def invalid_def Let_def
      intro: has_type.intros split: pyval.splits pyfloat.splits if_splits option.splits)

lemma construct_fields:
  assumes "list_all2 (\<lambda>f w. case w of Some v \<Rightarrow> has_type E v (f_type f) | None \<Rightarrow> f_default f \<noteq> None) fs ws"
    and "construct c fs ws = VModel c' fvs"
  shows "c' = c" "map fst fvs = map f_name fs"
    "\<forall>x\<in>set (zip fvs fs). has_type E (snd (fst x)) (f_type (snd x)) \<or> f_default (snd x) = Some (snd (fst x))"
proof -
  show "c' = c" using assms(2) by (simp add: construct_def)
  have "map fst fvs = map f_name fs \<and>
      (\<forall>x\<in>set (zip fvs fs). has_type E (snd (fst x)) (f_type (snd x)) \<or> f_default (snd x) = Some (snd (fst x)))"
    using assms(1) assms(2) [symmetric] unfolding construct_def
    by (induction fs ws arbitrary: fvs rule: list_all2_induct) (auto split: option.splits)
  then show "map fst fvs = map f_name fs"
    "\<forall>x\<in>set (zip fvs fs). has_type E (snd (fst x)) (f_type (snd x)) \<or> f_default (snd x) = Some (snd (fst x))"
    by blast+
qed

lemma model_fields_Inr: "model_fields E c d = Inr fs \<Longrightarrow> \<exists>i. d_get (dataclasses E) c = Some i \<and> fs = c_fields i"
  by (auto simp: model_fields_def Let_def split: option.splits if_splits)

lemma coercion_typed:
  "coerce_value E v tp name = Inr w \<Longrightarrow> has_type E w tp"
  "coerce_union E v ts name errors = Inr w \<Longrightarrow> \<exists>t\<in>set ts. has_type E w t"
  "coerce_items E vs t name = Inr ws \<Longrightarrow> \<forall>w\<in>set ws. has_type E w t"
  "coerce_pairs E d kv name acc = Inr d' \<Longrightarrow>
     \<forall>(a, b)\<in>set acc. has_type E a (fst kv) \<and> has_type E b (snd kv) \<Longrightarrow>
     \<forall>(a, b)\<in>set d'. has_type E a (fst kv) \<and> has_type E b (snd kv)"
  "validate_fields E fs d = Inr xs \<Longrightarrow>
     list_all2 (\<lambda>f w. case w of Some v \<Rightarrow> has_type E v (f_type f) | None \<Rightarrow> f_default f \<noteq> None) fs xs"
proof (induction E v tp name and E v ts name errors and E vs t name and E d kv name acc and E fs d
    arbitrary: w and w and ws and d' and xs
    rule: coerce_value_coerce_union_coerce_items_coerce_pairs_validate_fields.induct)
  case (1 E v ts name)
  show ?case
  proof (cases "TNone \<in> set ts \<and> v = VNone")
    case True
    then show ?thesis using 1 by (auto intro!: has_union [of TNone] has_instance simp: class_names_def)
  next
    case False
    then show ?thesis using 1 by (auto intro: has_union)
  qed
next
  case (2 E v k ts name)
  have "has_type E w (TSeq k ts)" if "make_seq E k vs = Inr w" "\<forall>v\<in>set vs. has_type E v (item_type ts)" for vs
    using make_seq_Inr [OF that(1)] that(2) by (auto intro!: has_seq)
  then show ?case
    using 2 by (cases v) (auto simp: rbind_Inr_iff)
next
  case (3 E v ts name)
  then obtain d d' where d: "v = VDict d" "coerce_pairs E d (dict_types ts) name [] = Inr d'" "w = VDict d'"
    by (cases v) (auto simp: rbind_Inr_iff invalid_def)
  show ?case
    unfolding d(3) by (rule has_dict) (use 3 d(1,2) in simp)
next
  case (4 E v c name)
  then obtain d fs ws where d: "v = VDict d" "model_fields E c d = Inr fs" "validate_fields E fs d = Inr ws" "w = construct c fs ws"
    by (cases v) (auto simp: rbind_Inr_iff invalid_def)
  obtain i where i: "d_get (dataclasses E) c = Some i" "fs = c_fields i"
    using model_fields_Inr [OF d(2)] by blast
  obtain fvs where w: "construct c fs ws = VModel c fvs" by (simp add: construct_def)
  have "list_all2 (\<lambda>f w. case w of Some v \<Rightarrow> has_type E v (f_type f) | None \<Rightarrow> f_default f \<noteq> None) fs ws"
    using "4.IH" d by blast
  from construct_fields [OF this w] show ?case
    unfolding d(4) w by (intro has_model [OF i(1)]) (simp_all add: i(2))
next
  case (7 E v t ts name errors)
  then show ?case
    by (cases "t = TNone"; cases "coerce_value E v t name"; cases "projl (coerce_value E v t name)") auto
next
  case (11 E k v d kv name acc)
  obtain k' v' where kv': "coerce_value E k (fst kv) (name @ uni ''.key'') = Inr k'"
      "coerce_value E v (snd kv) (name @ uni ''.'' @ py_str E k) = Inr v'" "hashable E k'"
      "coerce_pairs E d kv name (py_put k' v' acc) = Inr d'"
    using "11.prems"(1) by (auto simp: rbind_Inr_iff split: if_splits)
  have "has_type E k' (fst kv)" "has_type E v' (snd kv)"
    using "11.IH"(1,2) kv' by auto
  then have "\<forall>(a, b)\<in>set (py_put k' v' acc). has_type E a (fst kv) \<and> has_type E b (snd kv)"
    using "11.prems"(2) py_put_set [of _ _ k' v' acc] by fastforce
  with "11.IH"(3) kv' show ?case by blast
qed (auto simp: rbind_Inr_iff invalid_def scalar_typed split: option.splits if_splits)


subsection \<open>Guarded handlers\<close>

text \<open>The other exceptions of a coercion are Python's own, never an \<^verbatim>\<open>HTTPError\<close>.\<close>

definition own_error :: "'a vresult \<Rightarrow> bool" where
  "own_error r = (\<forall>x. r = Inl (Raised x) \<longrightarrow> (\<exists>n. x = PyError n))"

lemma own_error_simps [simp]: "own_error (Inr w)" "own_error (Inl (Invalid m))" "own_error (Inl (Raised (PyError n)))"
  by (simp_all add: own_error_def)

lemma own_error_rbind: "own_error r \<Longrightarrow> (\<And>w. r = Inr w \<Longrightarrow> own_error (f w)) \<Longrightarrow> own_error (rbind r f)"
  by (cases r) (auto simp: own_error_def)

lemma own_error_scalar: "own_error (coerce_scalar E v tp name)"
  by (auto simp: coerce_scalar_def coerce_bool_def coerce_int_def coerce_float_def coerce_bytes_def invalid_def Let_def
      split: ty.splits pyval.splits pyfloat.splits option.splits)

lemma coercion_errors:
  "own_error (coerce_value E v tp name)"
  "own_error (coerce_union E v ts name errors)"
  "own_error (coerce_items E vs t name)"
  "own_error (coerce_pairs E d kv name acc)"
  "own_error (validate_fields E fs d)"
proof (induction E v tp name and E v ts name errors and E vs t name and E d kv name acc and E fs d
    rule: coerce_value_coerce_union_coerce_items_coerce_pairs_validate_fields.induct)
  case (4 E v c name)
  then show ?case
    by (auto simp: model_fields_def invalid_def Let_def intro!: own_error_rbind split: pyval.splits option.splits)
next
  case (7 E v t ts name errors)
  then show ?case
    by (cases "t = TNone"; cases "coerce_value E v t name"; cases "projl (coerce_value E v t name)") auto
qed (auto simp: make_seq_def invalid_def own_error_scalar intro!: own_error_rbind split: pyval.splits option.splits)

lemma validate_model_value: "validate_model E c d = coerce_value E (VDict d) (TModel c) name"
  by (simp add: validate_model_def)

lemma body_model_typed: "body_model E c req = Inr m \<Longrightarrow> has_type E m (TModel c)"
  unfolding body_model_def validate_model_value [where name = "[]"]
  by (auto dest: coercion_typed(1) simp del: coerce_value.simps split: sum.splits pyval.splits)

lemma body_model_error: "own_error (body_model E c req)"
  unfolding body_model_def validate_model_value [where name = "[]"]
  using coercion_errors(1)
  by (auto simp: request_json_def json_of_def simp del: coerce_value.simps split: sum.splits pyval.splits option.splits)

text \<open>
  \<^verbatim>\<open>validate_body\<close> guards its handler: the handler runs only for a JSON object that validates, on an
  instance of the declared dataclass each of whose fields has its declared type or its default;
  every other body is answered 400 and the handler does not run.
\<close>

theorem validate_body_guards:
  "(\<exists>m. body_model E c req = Inr m \<and> has_type E m (TModel c) \<and> validate_body E c func req = through (func req m)) \<or>
   (\<exists>e. body_model E c req = Inl e \<and>
      validate_body E c func req = Inl (BadRequest (uni ''Validation failed: '' @ text_of_verr E e)))"
proof (cases "body_model E c req")
  case (Inl e)
  have "validate_body E c func req = Inl (BadRequest (uni ''Validation failed: '' @ text_of_verr E e))"
  proof (cases e)
    case (Raised x)
    then obtain n where "x = PyError n" using body_model_error [of E c req] Inl by (auto simp: own_error_def)
    then show ?thesis using Inl Raised by (simp add: validate_body_def)
  qed (use Inl in \<open>simp add: validate_body_def\<close>)
  then show ?thesis using Inl by blast
next
  case (Inr m)
  then show ?thesis by (simp add: validate_body_def body_model_typed)
qed

subsection \<open>A concrete model\<close>

definition shop_env :: py_env where
  "shop_env = \<lparr>dataclasses =
      [(''Item'', \<lparr>c_fields = [\<lparr>f_name = uni ''id'', f_type = TInt, f_default = None\<rparr>,
          \<lparr>f_name = uni ''tags'', f_type = TSeq ListK [TStr], f_default = Some (VSeq ListK [])\<rparr>,
          \<lparr>f_name = uni ''note'', f_type = TUnion [TStr, TNone], f_default = Some VNone\<rparr>], c_hashable = False, c_bases = []\<rparr>)],
     float_of_text = (\<lambda>t. None), float_of_bytes = (\<lambda>t. None), float_of_int = (\<lambda>i. Some (Finite (of_int i))),
     int_of_text = (\<lambda>t. None), text_of = (\<lambda>v. uni ''?''), text_of_exn = (\<lambda>e. uni ''?'')\<rparr>"

lemma shop_item:
  "coerce_value shop_env (VDict [(VStr (uni ''id''), VStr (uni '' 7'')), (VStr (uni ''tags''), VStr (uni ''new''))]) (TModel ''Item'') [] =
   Inr (VModel ''Item'' [(uni ''id'', VInt 7), (uni ''tags'', VSeq ListK [VStr (uni ''new'')]), (uni ''note'', VNone)])"
  by code_simp


end
