(* ===== verification/Schema.thy ===== *)
theory Schema
  imports Validation_Props
begin

section \<open>Published schemas (\<^verbatim>\<open>schema_for_type\<close>)\<close>

text \<open>
  The JSON schema that \<^verbatim>\<open>validation.py\<close> publishes for a type hint, as a value of type \<open>json\<close>. A
  dataclass that refers to itself makes the code recurse without end; the first argument is the
  recursion limit, and \<open>None\<close> the \<^verbatim>\<open>RecursionError\<close>.
\<close>

definition type_schema :: "str \<Rightarrow> json" where
  "type_schema t = JObj [(uni ''type'', JStr (uni t))]"

definition any_of :: "json list \<Rightarrow> (ustr, json) dict" where
  "any_of ss =
     (case ss of [] \<Rightarrow> [] | [JObj d] \<Rightarrow> d | _ \<Rightarrow> [(uni ''anyOf'', JArr ss)])"

definition required_fields :: "field list \<Rightarrow> ustr list" where
  "required_fields fs = map f_name (filter (\<lambda>f. f_default f = None) fs)"

definition object_schema :: "(ustr, json) dict \<Rightarrow> ustr list \<Rightarrow> json" where
  "object_schema props required =
     JObj ([(uni ''type'', JStr (uni ''object'')), (uni ''properties'', JObj props), (uni ''additionalProperties'', JBool False)]
       @ (if required = [] then [] else [(uni ''required'', JArr (map JStr required))]))"

definition nullable :: "bool \<Rightarrow> (ustr, json) dict \<Rightarrow> (ustr, json) dict" where
  "nullable n d = (if n then d_set (uni ''nullable'') (JBool True) d else d)"

fun schema_for_type :: "py_env \<Rightarrow> nat \<Rightarrow> ty \<Rightarrow> json option" where
  "schema_for_type E 0 tp = None"
| "schema_for_type E (Suc n) tp =
     (case tp of
        TAny \<Rightarrow> Some (JObj [])
      | TUnion ts \<Rightarrow>
          map_option (\<lambda>ss. JObj (nullable (TNone \<in> set ts) (any_of ss)))
            (those (map (schema_for_type E n) (filter (\<lambda>t. t \<noteq> TNone) ts)))
      | TSeq k ts \<Rightarrow>
          map_option (\<lambda>s. JObj [(uni ''type'', JStr (uni ''array'')), (uni ''items'', s)]) (schema_for_type E n (item_type ts))
      | TDict ts \<Rightarrow>
          map_option (\<lambda>s. JObj [(uni ''type'', JStr (uni ''object'')), (uni ''additionalProperties'', s)])
            (schema_for_type E n (snd (dict_types ts)))
      | TModel c \<Rightarrow>
          (case d_get (dataclasses E) c of
             None \<Rightarrow> None
           | Some i \<Rightarrow>
               map_option (\<lambda>ss. object_schema (d_update [] (zip (map f_name (c_fields i)) ss)) (required_fields (c_fields i)))
                 (those (map (\<lambda>f. schema_for_type E n (f_type f)) (c_fields i))))
      | TStr \<Rightarrow> Some (type_schema ''string'')
      | TInt \<Rightarrow> Some (type_schema ''integer'')
      | TFloat \<Rightarrow> Some (type_schema ''number'')
      | TBool \<Rightarrow> Some (type_schema ''boolean'')
      | _ \<Rightarrow> Some (type_schema ''string''))"

definition schema_for_dataclass :: "py_env \<Rightarrow> nat \<Rightarrow> str \<Rightarrow> json option" where
  "schema_for_dataclass E n c = schema_for_type E (Suc n) (TModel c)"

subsection \<open>Reading a schema\<close>

text \<open>
  What a document must satisfy to match a schema of the OpenAPI subset the code writes:
  \<^verbatim>\<open>nullable\<close>, \<^verbatim>\<open>anyOf\<close>, \<^verbatim>\<open>type\<close>, \<^verbatim>\<open>items\<close>, \<^verbatim>\<open>properties\<close>, \<^verbatim>\<open>required\<close> and \<^verbatim>\<open>additionalProperties\<close>.
\<close>

definition props_of :: "(ustr, json) dict \<Rightarrow> (ustr, json) dict" where
  "props_of s = (case d_get s (uni ''properties'') of Some (JObj ps) \<Rightarrow> ps | _ \<Rightarrow> [])"

definition alternatives :: "(ustr, json) dict \<Rightarrow> json list option" where
  "alternatives s = (case d_get s (uni ''anyOf'') of Some (JArr ss) \<Rightarrow> Some ss | _ \<Rightarrow> None)"

definition required_of :: "(ustr, json) dict \<Rightarrow> json list" where
  "required_of s = (case d_get s (uni ''required'') of Some (JArr ks) \<Rightarrow> ks | _ \<Rightarrow> [])"

lemma json_size: "d_get s k = Some j \<Longrightarrow> size j < Suc (size_list (size_prod (\<lambda>x. 0) size) s)"
  by (induction s) (auto split: if_splits)

lemma alternatives_size: "alternatives s = Some ss \<Longrightarrow> t \<in> set ss \<Longrightarrow> size t < Suc (size_list (size_prod (\<lambda>x. 0) size) s)"
proof -
  assume a: "alternatives s = Some ss" "t \<in> set ss"
  then have "d_get s (uni ''anyOf'') = Some (JArr ss)" by (auto simp: alternatives_def split: option.splits json.splits)
  from json_size [OF this] size_list_estimation' [OF a(2), of "size t" size] show ?thesis by simp
qed

lemma props_size: "d_get (props_of s) k = Some t \<Longrightarrow> size t < Suc (size_list (size_prod (\<lambda>x. 0) size) s)"
proof -
  assume a: "d_get (props_of s) k = Some t"
  then have "d_get s (uni ''properties'') = Some (JObj (props_of s))" by (auto simp: props_of_def split: option.splits json.splits)
  from json_size [OF this] json_size [OF a] show ?thesis by simp
qed

function conforms :: "json \<Rightarrow> json \<Rightarrow> bool" where
  "conforms s j =
     (case s of JObj d \<Rightarrow>
        (d_get d (uni ''nullable'') = Some (JBool True) \<and> j = JNull) \<or>
        ((case alternatives d of Some ss \<Rightarrow> \<exists>t\<in>set ss. conforms t j | None \<Rightarrow> True) \<and>
         (case d_get d (uni ''type'') of
            None \<Rightarrow> True
          | Some t \<Rightarrow>
              (case j of
                 JStr x \<Rightarrow> t = JStr (uni ''string'')
               | JInt i \<Rightarrow> t = JStr (uni ''integer'') \<or> t = JStr (uni ''number'')
               | JFloat x \<Rightarrow> t = JStr (uni ''number'')
               | JBool b \<Rightarrow> t = JStr (uni ''boolean'')
               | JNull \<Rightarrow> False
               | JArr js \<Rightarrow>
                   t = JStr (uni ''array'') \<and>
                   (case d_get d (uni ''items'') of Some it \<Rightarrow> \<forall>x\<in>set js. conforms it x | None \<Rightarrow> True)
               | JObj o' \<Rightarrow>
                   t = JStr (uni ''object'') \<and> (\<forall>k\<in>set (required_of d). k \<in> set (map (\<lambda>(k, v). JStr k) o')) \<and>
                   (\<forall>(k, v)\<in>set o'.
                      (case d_get (props_of d) k of
                         Some ps \<Rightarrow> conforms ps v
                       | None \<Rightarrow>
                           (case d_get d (uni ''additionalProperties'') of
                              Some (JBool b) \<Rightarrow> b
                            | Some ps \<Rightarrow> conforms ps v
                            | None \<Rightarrow> True))))))
      | _ \<Rightarrow> False)"
  by pat_completeness auto
termination
  by (relation "measure (\<lambda>(s, j). size s)") (auto dest: json_size alternatives_size props_size)

declare conforms.simps [simp del]

subsection \<open>What the schema admits, the validator accepts\<close>

text \<open>
  Documents whose numbers have a finite floating-point value, and hints without \<^verbatim>\<open>bytes\<close>, sets or
  foreign classes: for those no coercion raises anything but a validation error.
\<close>

fun tame :: "py_env \<Rightarrow> pyval \<Rightarrow> bool" where
  "tame E (VFloat f) = (case f of Finite q \<Rightarrow> True | _ \<Rightarrow> False)"
| "tame E (VInt i) = (float_of_int E i \<noteq> None)"
| "tame E (VSeq k vs) = (k = ListK \<and> (\<forall>v\<in>set vs. tame E v))"
| "tame E (VDict d) = (\<forall>(k, v)\<in>set d. is_text k \<and> tame E v)"
| "tame E (VBytes b) = False"
| "tame E (VModel c fvs) = False"
| "tame E v = True"

fun plain :: "py_env \<Rightarrow> ty \<Rightarrow> bool" where
  "plain E TBytes = False"
| "plain E (TClass c) = False"
| "plain E (TModel c) = (d_get (dataclasses E) c \<noteq> None)"
| "plain E (TSeq k ts) = (k \<in> {ListK, TupleK} \<and> (\<forall>t\<in>set ts. plain E t))"
| "plain E (TDict ts) = (fst (dict_types ts) \<in> {TAny, TStr} \<and> (\<forall>t\<in>set ts. plain E t))"
| "plain E (TUnion ts) = ((\<forall>t\<in>set ts. t = TNone \<or> plain E t) \<and> (\<exists>t\<in>set ts. t \<noteq> TNone))"
| "plain E tp = True"

definition plain_env :: "py_env \<Rightarrow> bool" where
  "plain_env E = (\<forall>(c, i)\<in>set (dataclasses E). distinct (map f_name (c_fields i)) \<and> (\<forall>f\<in>set (c_fields i). plain E (f_type f)))"

definition quiet :: "'a vresult \<Rightarrow> bool" where
  "quiet r = (\<forall>x. r \<noteq> Inl (Raised x))"

lemma quiet_simps [simp]: "quiet (Inr w)" "quiet (Inl (Invalid m))" "quiet (invalid name what)"
  by (simp_all add: quiet_def invalid_def)

lemma quiet_rbind: "quiet r \<Longrightarrow> (\<And>w. r = Inr w \<Longrightarrow> quiet (f w)) \<Longrightarrow> quiet (rbind r f)"
  by (cases r) (auto simp: quiet_def)

lemma plain_item: "\<forall>t\<in>set ts. plain E t \<Longrightarrow> plain E (item_type ts)"
  by (cases ts) auto

lemma plain_value: "\<forall>t\<in>set ts. plain E t \<Longrightarrow> plain E (snd (dict_types ts))"
  by (auto simp: dict_types_def split: list.split)

lemma plain_fields: "plain_env E \<Longrightarrow> d_get (dataclasses E) c = Some i \<Longrightarrow>
    distinct (map f_name (c_fields i)) \<and> (\<forall>f\<in>set (c_fields i). plain E (f_type f))"
  by (drule d_get_SomeD) (auto simp: plain_env_def)

lemma tame_lookup: "\<forall>(k, v)\<in>set d. is_text k \<and> tame E v \<Longrightarrow> d_get d k = Some v \<Longrightarrow> tame E v"
  by (drule d_get_SomeD) auto

lemma text_key: "is_text k \<Longrightarrow> t \<in> {TAny, TStr} \<Longrightarrow> coerce_value E k t name = Inr k"
  by (cases k) (auto simp: is_text_def coerce_scalar_def py_str_def)

lemma text_hashable: "is_text k \<Longrightarrow> hashable E k"
  by (cases k) (auto simp: is_text_def)

lemma quiet_scalar: "plain E tp \<Longrightarrow> tame E v \<Longrightarrow> quiet (coerce_scalar E v tp name)"
  by (cases tp) (auto simp: coerce_scalar_def coerce_bool_def coerce_int_def coerce_float_def Let_def
      split: pyval.splits pyfloat.splits option.splits)

lemma quiet_model_fields:
  assumes "\<forall>(k, v)\<in>set d. is_text k \<and> tame E v" and "d_get (dataclasses E) c = Some i"
  shows "quiet (model_fields E c d)"
proof -
  have "\<not> list_ex (\<lambda>k. \<not> is_text k) (unknown_keys (c_fields i) d)"
    using assms(1) by (auto simp: unknown_keys_def list_ex_iff)
  then show ?thesis using assms(2) by (simp add: model_fields_def Let_def)
qed

lemma coercion_quiet:
  "plain_env E \<Longrightarrow> plain E tp \<Longrightarrow> tame E v \<Longrightarrow> quiet (coerce_value E v tp name)"
  "plain_env E \<Longrightarrow> \<forall>t\<in>set ts. t = TNone \<or> plain E t \<Longrightarrow> tame E v \<Longrightarrow> quiet (coerce_union E v ts name errors)"
  "plain_env E \<Longrightarrow> plain E t \<Longrightarrow> \<forall>v\<in>set vs. tame E v \<Longrightarrow> quiet (coerce_items E vs t name)"
  "plain_env E \<Longrightarrow> fst kv \<in> {TAny, TStr} \<and> plain E (snd kv) \<Longrightarrow> \<forall>(k, v)\<in>set d. is_text k \<and> tame E v \<Longrightarrow>
     quiet (coerce_pairs E d kv name acc)"
  "plain_env E \<Longrightarrow> \<forall>f\<in>set fs. plain E (f_type f) \<Longrightarrow> \<forall>(k, v)\<in>set d. is_text k \<and> tame E v \<Longrightarrow> quiet (validate_fields E fs d)"
proof (induction E v tp name and E v ts name errors and E vs t name and E d kv name acc and E fs d
    rule: coerce_value_coerce_union_coerce_items_coerce_pairs_validate_fields.induct)
  case (2 E v k ts name)
  then show ?case
    using plain_item [of ts E] by (auto simp: make_seq_def intro!: quiet_rbind split: pyval.splits)
next
  case (3 E v ts name)
  then show ?case
    using plain_value [of ts E] by (auto intro!: quiet_rbind split: pyval.splits)
next
  case (4 E v c name)
  then obtain i where i: "d_get (dataclasses E) c = Some i" by auto
  show ?case
  proof (cases v)
    case (VDict d)
    have d: "\<forall>(k, v)\<in>set d. is_text k \<and> tame E v" using "4.prems"(3) VDict by simp
    have "quiet (validate_fields E fs d)" if "model_fields E c d = Inr fs" for fs
      using "4.IH" [OF VDict that "4.prems"(1)] plain_fields [OF "4.prems"(1) i] d model_fields_Inr [OF that] i by auto
    then show ?thesis
      using quiet_model_fields [OF d i] by (auto simp: VDict intro!: quiet_rbind)
  qed simp_all
next
  case (7 E v t ts name errors)
  then show ?case
    by (cases "t = TNone"; cases "coerce_value E v t name"; cases "projl (coerce_value E v t name)") (auto simp: quiet_def)
next
  case (11 E k v d kv name acc)
  have k: "coerce_value E k (fst kv) (name @ uni ''.key'') = Inr k" "hashable E k"
    using "11.prems" by (auto intro!: text_key text_hashable)
  then show ?case
    using "11.IH"(2,3) "11.prems" by (auto intro!: quiet_rbind)
next
  case (13 E f fs d)
  then show ?case
    by (auto intro!: quiet_rbind split: option.splits dest: tame_lookup)
qed (auto intro!: quiet_rbind quiet_scalar)

lemma schema_obj: "schema_for_type E n tp = Some s \<Longrightarrow> \<exists>d. s = JObj d"
  by (cases n; cases tp) (auto simp: type_schema_def object_schema_def split: option.splits)

lemma those_Some: "those (map f ts) = Some ss \<Longrightarrow> map f ts = map Some ss"
  by (induction ts arbitrary: ss) (auto split: option.splits)

lemma schema_words:
  "uni ''nullable'' \<noteq> uni ''type''" "uni ''nullable'' \<noteq> uni ''anyOf''" "uni ''nullable'' \<noteq> uni ''items''"
  "uni ''nullable'' \<noteq> uni ''properties''" "uni ''nullable'' \<noteq> uni ''required''" "uni ''nullable'' \<noteq> uni ''additionalProperties''"
  "uni ''type'' \<noteq> uni ''items''" "uni ''type'' \<noteq> uni ''anyOf''" "uni ''type'' \<noteq> uni ''properties''" "uni ''type'' \<noteq> uni ''additionalProperties''"
  "uni ''type'' \<noteq> uni ''required''" "uni ''properties'' \<noteq> uni ''additionalProperties''" "uni ''properties'' \<noteq> uni ''required''"
  "uni ''required'' \<noteq> uni ''additionalProperties''" "uni ''anyOf'' \<noteq> uni ''properties''" "uni ''anyOf'' \<noteq> uni ''items''"
  "uni ''anyOf'' \<noteq> uni ''additionalProperties''" "uni ''anyOf'' \<noteq> uni ''required''"
  "uni ''string'' \<noteq> uni ''integer''" "uni ''string'' \<noteq> uni ''number''" "uni ''string'' \<noteq> uni ''boolean''" "uni ''string'' \<noteq> uni ''array''"
  "uni ''string'' \<noteq> uni ''object''" "uni ''integer'' \<noteq> uni ''number''" "uni ''integer'' \<noteq> uni ''boolean''" "uni ''integer'' \<noteq> uni ''array''"
  "uni ''integer'' \<noteq> uni ''object''" "uni ''number'' \<noteq> uni ''boolean''" "uni ''number'' \<noteq> uni ''array''" "uni ''number'' \<noteq> uni ''object''"
  "uni ''boolean'' \<noteq> uni ''array''" "uni ''boolean'' \<noteq> uni ''object''" "uni ''array'' \<noteq> uni ''object''"
  by (simp_all add: uni_def code_def)

lemmas schema_lookup = schema_words schema_words [symmetric] alternatives_def props_of_def required_of_def

lemma conforms_nullable:
  assumes "conforms (JObj (nullable b d)) j"
  shows "conforms (JObj d) j \<or> b \<and> j = JNull"
proof (cases "b \<and> j \<noteq> JNull")
  case True
  let ?d = "d_set (uni ''nullable'') (JBool True) d"
  have same: "alternatives ?d = alternatives d" "props_of ?d = props_of d" "required_of ?d = required_of d"
    "d_get ?d (uni ''type'') = d_get d (uni ''type'')" "d_get ?d (uni ''items'') = d_get d (uni ''items'')"
    "d_get ?d (uni ''additionalProperties'') = d_get d (uni ''additionalProperties'')"
    by (simp_all add: schema_lookup)
  have "conforms (JObj ?d) j"
    using assms True by (simp add: nullable_def)
  then have "conforms (JObj d) j"
    using True by (simp only: conforms.simps [of "JObj ?d" j] conforms.simps [of "JObj d" j] json.case same simp_thms)
  then show ?thesis ..
qed (use assms in \<open>cases b; auto simp: nullable_def\<close>)

lemma conforms_any_of:
  assumes "conforms (JObj (any_of ss)) j" and "ss \<noteq> []" and "\<forall>s\<in>set ss. \<exists>d. s = JObj d"
  shows "\<exists>s\<in>set ss. conforms s j"
proof (cases "\<exists>d. ss = [JObj d]")
  case True
  then show ?thesis using assms(1) by (auto simp: any_of_def)
next
  case False
  then have "any_of ss = [(uni ''anyOf'', JArr ss)]"
    using assms(2,3) by (cases ss rule: list.exhaust; cases "tl ss") (auto simp: any_of_def)
  then show ?thesis
    using assms(1) by (simp add: conforms.simps schema_lookup)
qed

lemma union_accepts:
  assumes "plain_env E" and "\<forall>t\<in>set ts. t = TNone \<or> plain E t" and "tame E v"
    and "t \<in> set ts" and "t \<noteq> TNone" and "\<And>name. \<exists>w. coerce_value E v t name = Inr w"
  shows "\<exists>w. coerce_union E v ts name errors = Inr w"
  using assms(2,4)
proof (induction ts arbitrary: errors)
  case (Cons u us)
  show ?case
  proof (cases "coerce_value E v u name")
    case (Inl e)
    have "quiet (coerce_value E v u name)" if "u \<noteq> TNone"
      using coercion_quiet(1) [OF assms(1) _ assms(3)] Cons.prems(1) that by auto
    moreover have "t \<noteq> u" using Inl assms(6) by (metis Inl_Inr_False)
    ultimately show ?thesis
      using Cons.IH Cons.prems Inl by (cases e) (auto simp: quiet_def)
  next
    case (Inr w)
    then show ?thesis using Cons assms(5) by (cases "u = TNone") auto
  qed
qed simp

lemma items_accept:
  "(\<And>v name. v \<in> set vs \<Longrightarrow> \<exists>w. coerce_value E v t name = Inr w) \<Longrightarrow> \<exists>ws. coerce_items E vs t name = Inr ws"
proof (induction vs)
  case (Cons v vs)
  from Cons.prems [of v name] Cons.IH [OF Cons.prems] show ?case by (auto simp: rbind_Inr_iff)
qed simp

lemma pairs_accept:
  assumes "fst kv \<in> {TAny, TStr}"
  shows "(\<And>k v name. (k, v) \<in> set d \<Longrightarrow> is_text k \<and> (\<exists>w. coerce_value E v (snd kv) name = Inr w)) \<Longrightarrow>
    \<exists>d'. coerce_pairs E d kv name acc = Inr d'"
proof (induction d arbitrary: acc)
  case (Cons x d)
  obtain k v where x: "x = (k, v)" by force
  have k: "is_text k" using Cons.prems [of k v] x by simp
  obtain w where w: "coerce_value E v (snd kv) (name @ uni ''.'' @ py_str E k) = Inr w"
    using Cons.prems [of k v] x by auto
  have "\<exists>d'. coerce_pairs E d kv name (py_put k w acc) = Inr d'"
    by (rule Cons.IH) (use Cons.prems in auto)
  then show ?case
    using text_key [OF k assms] text_hashable [OF k] w x by simp
qed simp

lemma fields_accept:
  "(\<And>f v name. f \<in> set fs \<Longrightarrow> d_get d (VStr (f_name f)) = Some v \<Longrightarrow> \<exists>w. coerce_value E v (f_type f) name = Inr w) \<Longrightarrow>
   (\<And>f. f \<in> set fs \<Longrightarrow> d_get d (VStr (f_name f)) = None \<Longrightarrow> f_default f \<noteq> None) \<Longrightarrow>
   \<exists>ws. validate_fields E fs d = Inr ws"
proof (induction fs)
  case (Cons f fs)
  have "\<exists>ws. validate_fields E fs d = Inr ws"
    by (rule Cons.IH) (use Cons.prems in auto)
  then show ?case
    using Cons.prems(1) [of f _ "f_name f"] Cons.prems(2) [of f]
    by (cases "d_get d (VStr (f_name f))") (fastforce simp: rbind_Inr_iff)+
qed simp

lemma conforms_array:
  assumes "conforms (JObj [(uni ''type'', JStr (uni ''array'')), (uni ''items'', s)]) j"
  shows "\<exists>js. j = JArr js \<and> (\<forall>x\<in>set js. conforms s x)"
  using assms by (cases j) (simp_all add: conforms.simps [of "JObj d" for d] schema_lookup)

lemma conforms_map:
  assumes "conforms (JObj [(uni ''type'', JStr (uni ''object'')), (uni ''additionalProperties'', s)]) j" and "\<And>b. s \<noteq> JBool b"
  shows "\<exists>d. j = JObj d \<and> (\<forall>(k, v)\<in>set d. conforms s v)"
  using assms by (cases j; cases s) (auto simp: conforms.simps [of "JObj d" for d] schema_lookup)

lemma conforms_object:
  assumes "conforms (object_schema ps ks) j"
  shows "\<exists>d. j = JObj d \<and> (\<forall>k\<in>set ks. k \<in> fst ` set d) \<and> (\<forall>(k, v)\<in>set d. \<exists>s. d_get ps k = Some s \<and> conforms s v)"
proof -
  let ?d = "[(uni ''type'', JStr (uni ''object'')), (uni ''properties'', JObj ps), (uni ''additionalProperties'', JBool False)]
      @ (if ks = [] then [] else [(uni ''required'', JArr (map JStr ks))])"
  have l: "alternatives ?d = None" "props_of ?d = ps" "required_of ?d = map JStr ks" "d_get ?d (uni ''nullable'') = None"
    "d_get ?d (uni ''type'') = Some (JStr (uni ''object''))" "d_get ?d (uni ''additionalProperties'') = Some (JBool False)"
    by (auto simp: schema_lookup)
  have c: "conforms (JObj ?d) j" using assms by (simp add: object_schema_def)
  show ?thesis
  proof (cases j)
    case (JObj d)
    have r: "k \<in> fst ` set d" if "k \<in> set ks" for k
      using c that unfolding JObj conforms.simps [of "JObj ?d" "JObj d"] json.case l by force
    have p: "\<exists>s. d_get ps k = Some s \<and> conforms s v" if "(k, v) \<in> set d" for k v
      using c that unfolding JObj conforms.simps [of "JObj ?d" "JObj d"] json.case l by (auto split: option.splits)
    show ?thesis using JObj r p by blast
  qed (use c l in \<open>simp_all add: conforms.simps [of "JObj d" for d] schema_lookup split: if_splits\<close>)
qed

lemma of_json_lookup: "d_get (map (\<lambda>(k, j). (VStr k, of_json E j)) d) (VStr n) = map_option (of_json E) (d_get d n)"
  by (induction d) auto

lemma zip_schemas:
  assumes "distinct (map f_name fs)" and "map g fs = map Some ss" and "d_get (d_update [] (zip (map f_name fs) ss)) k = Some s"
  shows "\<exists>f\<in>set fs. f_name f = k \<and> g f = Some s"
proof -
  have len: "length ss = length fs" using assms(2) map_eq_imp_length_eq by fastforce
  then have "d_ok (zip (map f_name fs) ss)" using assms(1) by (simp add: d_ok_def)
  then have "d_get (zip (map f_name fs) ss) k = Some s"
    using assms(3) by (simp add: d_get_update split: option.splits)
  then have "(k, s) \<in> set (zip (map f_name fs) ss)" by (rule d_get_SomeD)
  then obtain i where i: "i < length fs" "k = f_name (fs ! i)" "s = ss ! i"
    using len by (auto simp: in_set_zip)
  then have "g (fs ! i) = Some (ss ! i)" using assms(2) len by (metis nth_map)
  with i show ?thesis by auto
qed

lemma accepts_union:
  assumes env: "plain_env E" and "schema_for_type E (Suc n) (TUnion ts) = Some s" and "conforms s j" and "plain E (TUnion ts)"
    and "tame E (of_json E j)"
    and IH: "\<And>t s name. schema_for_type E n t = Some s \<Longrightarrow> conforms s j \<Longrightarrow> plain E t \<Longrightarrow> \<exists>w. coerce_value E (of_json E j) t name = Inr w"
  shows "\<exists>w. coerce_value E (of_json E j) (TUnion ts) name = Inr w"
proof -
  let ?ts = "filter (\<lambda>t. t \<noteq> TNone) ts"
  obtain ss where ss: "those (map (schema_for_type E n) ?ts) = Some ss"
      "s = JObj (nullable (TNone \<in> set ts) (any_of ss))"
    using assms(2) by auto
  note map = those_Some [OF ss(1)]
  have obj: "\<forall>s\<in>set ss. \<exists>d. s = JObj d"
  proof
    fix s assume "s \<in> set ss"
    then have "Some s \<in> set (map (schema_for_type E n) ?ts)" by (simp add: map)
    then show "\<exists>d. s = JObj d" using schema_obj by (metis (no_types, lifting) imageE set_map)
  qed
  have ne: "ss \<noteq> []" using assms(4) map by (auto simp: filter_empty_conv)
  show ?thesis
  proof (cases "TNone \<in> set ts \<and> j = JNull")
    case False
    then have "conforms (JObj (any_of ss)) j"
      using conforms_nullable assms(3) ss(2) by blast
    then obtain t' where t': "t' \<in> set ss" "conforms t' j"
      using conforms_any_of [OF _ ne obj] by blast
    then have "Some t' \<in> set (map (schema_for_type E n) ?ts)" by (simp add: map)
    then obtain t where t: "t \<in> set ts" "t \<noteq> TNone" "schema_for_type E n t = Some t'" by auto
    have "\<exists>w. coerce_union E (of_json E j) ts name [] = Inr w"
      by (rule union_accepts [OF env _ assms(5) t(1,2)]) (use assms(4) t t'(2) IH in auto)
    then show ?thesis by auto
  qed simp
qed

lemma accepts_model:
  assumes env: "plain_env E" and "schema_for_type E (Suc n) (TModel c) = Some s" and "conforms s j"
    and IH: "\<And>t s j' name. schema_for_type E n t = Some s \<Longrightarrow> conforms s j' \<Longrightarrow> plain E t \<Longrightarrow> tame E (of_json E j') \<Longrightarrow>
      \<exists>w. coerce_value E (of_json E j') t name = Inr w"
    and tame: "tame E (of_json E j)"
  shows "\<exists>w. coerce_value E (of_json E j) (TModel c) name = Inr w"
proof -
  obtain i ss where i: "d_get (dataclasses E) c = Some i"
      "those (map (\<lambda>f. schema_for_type E n (f_type f)) (c_fields i)) = Some ss"
      "s = object_schema (d_update [] (zip (map f_name (c_fields i)) ss)) (required_fields (c_fields i))"
    using assms(2) by (auto split: option.splits)
  note map = those_Some [OF i(2)]
  note pf = plain_fields [OF env i(1)]
  obtain d where d: "j = JObj d" "\<forall>k\<in>set (required_fields (c_fields i)). k \<in> fst ` set d"
      "\<forall>(k, v)\<in>set d. \<exists>s. d_get (d_update [] (zip (map f_name (c_fields i)) ss)) k = Some s \<and> conforms s v"
    using conforms_object assms(3) i(3) by blast
  let ?d = "map (\<lambda>(k, j). (VStr k, of_json E j)) d"
  have known: "\<exists>f\<in>set (c_fields i). f_name f = k \<and> (\<exists>s. schema_for_type E n (f_type f) = Some s \<and> conforms s v)"
    if "(k, v) \<in> set d" for k v
    using zip_schemas [OF conjunct1 [OF pf] map, of k] d(3) that by force
  have td: "tame E (of_json E v)" if "(k, v) \<in> set d" for k v
    using tame that d(1) by auto
  have "unknown_keys (c_fields i) ?d = []"
    using known by (force simp: unknown_keys_def filter_empty_conv)
  then have "model_fields E c ?d = Inr (c_fields i)" by (simp add: model_fields_def i(1))
  moreover have "\<exists>ws. validate_fields E (c_fields i) ?d = Inr ws"
  proof (rule fields_accept)
    fix f v name
    assume f: "f \<in> set (c_fields i)" and "d_get ?d (VStr (f_name f)) = Some v"
    then obtain j' where j': "d_get d (f_name f) = Some j'" "v = of_json E j'" by (auto simp: of_json_lookup)
    then have "(f_name f, j') \<in> set d" by (simp add: d_get_SomeD)
    moreover from known [OF this] obtain g s where "g \<in> set (c_fields i)" "f_name g = f_name f"
        "schema_for_type E n (f_type g) = Some s" "conforms s j'" by blast
    moreover then have "g = f" using f pf by (metis distinct_map inj_onD)
    ultimately show "\<exists>w. coerce_value E v (f_type f) name = Inr w"
      using IH td pf f j'(2) by blast
  next
    fix f
    assume "f \<in> set (c_fields i)" and "d_get ?d (VStr (f_name f)) = None"
    then show "f_default f \<noteq> None"
      using d(2) by (auto simp: of_json_lookup d_get_None_iff required_fields_def)
  qed
  ultimately show ?thesis by (auto simp: d(1))
qed

lemma schema_accepted:
  assumes "plain_env E"
  shows "schema_for_type E n tp = Some s \<Longrightarrow> conforms s j \<Longrightarrow> plain E tp \<Longrightarrow> tame E (of_json E j) \<Longrightarrow>
    \<exists>w. coerce_value E (of_json E j) tp name = Inr w"
proof (induction n arbitrary: tp s j name)
  case (Suc n)
  show ?case
  proof (cases tp)
    case (TUnion ts)
    show ?thesis
      unfolding TUnion by (rule accepts_union [OF assms]) (use Suc TUnion in blast)+
  next
    case (TModel c)
    show ?thesis
      unfolding TModel by (rule accepts_model [OF assms]) (use Suc TModel in blast)+
  next
    case (TSeq k ts)
    then obtain it js where "schema_for_type E n (item_type ts) = Some it" "j = JArr js" "\<forall>x\<in>set js. conforms it x"
      using Suc.prems(1,2) by (auto dest!: conforms_array)
    moreover from this have "\<exists>ws. coerce_items E (map (of_json E) js) (item_type ts) (name @ uni ''[]'') = Inr ws"
      using Suc.IH Suc.prems(3,4) TSeq by (intro items_accept) (auto simp: plain_item)
    ultimately show ?thesis
      using Suc.prems(3) TSeq by (auto simp: make_seq_def)
  next
    case (TDict ts)
    then obtain it where it: "schema_for_type E n (snd (dict_types ts)) = Some it"
        "s = JObj [(uni ''type'', JStr (uni ''object'')), (uni ''additionalProperties'', it)]"
      using Suc.prems(1) by auto
    then obtain d where d: "j = JObj d" "\<forall>(k, v)\<in>set d. conforms it v"
      using Suc.prems(2) conforms_map [of it j] schema_obj [OF it(1)] by auto
    have "\<exists>d'. coerce_pairs E (map (\<lambda>(k, j). (VStr k, of_json E j)) d) (dict_types ts) name [] = Inr d'"
    proof (rule pairs_accept)
      fix k v name
      assume "(k, v) \<in> set (map (\<lambda>(k, j). (VStr k, of_json E j)) d)"
      then obtain n' j' where "(n', j') \<in> set d" "k = VStr n'" "v = of_json E j'" by auto
      then show "is_text k \<and> (\<exists>w. coerce_value E v (snd (dict_types ts)) name = Inr w)"
        using Suc.IH [OF it(1), of j' name] d Suc.prems(3,4) TDict plain_value [of ts E] by (fastforce simp: is_text_def)
    qed (use Suc.prems(3) TDict in simp)
    then show ?thesis using TDict d(1) by auto
  qed (use Suc.prems in \<open>cases j; auto simp: type_schema_def conforms.simps schema_lookup coerce_scalar_def coerce_bool_def
      coerce_int_def coerce_float_def split: pyfloat.splits\<close>)+
qed simp


lemma shop_schema: "schema_for_dataclass shop_env 3 ''Item'' = Some
   (JObj [(uni ''type'', JStr (uni ''object'')), (uni ''properties'', JObj
      [(uni ''id'', type_schema ''integer''),
       (uni ''tags'', JObj [(uni ''type'', JStr (uni ''array'')), (uni ''items'', type_schema ''string'')]),
       (uni ''note'', JObj [(uni ''type'', JStr (uni ''string'')), (uni ''nullable'', JBool True)])]),
     (uni ''additionalProperties'', JBool False), (uni ''required'', JArr [JStr (uni ''id'')])])"
  by code_simp


end
