(* ===== verification/Template.thy ===== *)
theory Template
  imports Static PyValue
begin

section \<open>Templates (\<^verbatim>\<open>template.py\<close>)\<close>

text \<open>
  Rendering replaces every \<^verbatim>\<open>{{ name }}\<close> and \<^verbatim>\<open>{{ name | safe }}\<close> by the value the dotted name
  leads to. The context holds mappings, \<^verbatim>\<open>SafeString\<close>s and other objects, whose attributes and
  text are parameters.
\<close>

datatype 'o tval = Mapping "(ustr \<times> 'o tval) list" | SafeString ustr | Object 'o

record 'o template_env =
  attr :: "'o tval \<Rightarrow> ustr \<Rightarrow> 'o tval option"
  plain_text :: "'o tval \<Rightarrow> ustr"

definition tval_text :: "'o template_env \<Rightarrow> 'o tval \<Rightarrow> ustr" where
  "tval_text T v = (case v of SafeString s \<Rightarrow> s | _ \<Rightarrow> plain_text T v)"

definition safe :: "'o template_env \<Rightarrow> 'o tval \<Rightarrow> 'o tval" where
  "safe T v = SafeString (tval_text T v)"

subsection \<open>\<^verbatim>\<open>html.escape(text, quote=True)\<close>\<close>

definition html_char :: "nat \<Rightarrow> ustr" where
  "html_char c =
     (if c = 38 then uni ''&amp;'' else if c = 60 then uni ''&lt;'' else if c = 62 then uni ''&gt;''
      else if c = 34 then uni ''&quot;'' else if c = 39 then uni ''&#x27;'' else [c])"

definition html_escape :: "ustr \<Rightarrow> ustr" where
  "html_escape s = concat (map html_char s)"

subsection \<open>The expression pattern\<close>

text \<open>
  \<open>expr_at s\<close> is a match of \<^verbatim>\<open>_expr\<close> at the start of \<open>s\<close>: the name, whether it is marked, and the
  rest. The pattern never needs to backtrack: a name ends where its characters end, and what
  follows is a bar or the closing braces.
\<close>

definition t_name_start :: "nat \<Rightarrow> bool" where
  "t_name_start c = ((97 \<le> c \<and> c \<le> 122) \<or> (65 \<le> c \<and> c \<le> 90) \<or> c = 95)"

definition t_name_char :: "nat \<Rightarrow> bool" where
  "t_name_char c = (t_name_start c \<or> (48 \<le> c \<and> c \<le> 57) \<or> c = 46)"

definition t_space :: "ustr \<Rightarrow> ustr" where
  "t_space s = dropWhile u_space s"

definition after_prefix :: "ustr \<Rightarrow> ustr \<Rightarrow> ustr option" where
  "after_prefix p s = (if prefix p s then Some (drop (length p) s) else None)"

definition bar_safe :: "ustr \<Rightarrow> ustr option" where
  "bar_safe s =
     (case after_prefix (uni ''|'') (t_space s) of
        None \<Rightarrow> None | Some r \<Rightarrow> after_prefix (uni ''safe'') (t_space r))"

definition expr_at :: "ustr \<Rightarrow> (ustr \<times> bool \<times> ustr) option" where
  "expr_at s =
     (case after_prefix (uni ''{{'') s of
        None \<Rightarrow> None
      | Some r \<Rightarrow>
          (case t_space r of
             [] \<Rightarrow> None
           | c # cs \<Rightarrow>
               if \<not> t_name_start c then None
               else
                 (let name = c # takeWhile t_name_char cs; r = dropWhile t_name_char cs;
                      (marked, r) = (case bar_safe r of Some r' \<Rightarrow> (True, r') | None \<Rightarrow> (False, r))
                  in (case after_prefix (uni ''}}'') (t_space r) of
                        Some r' \<Rightarrow> Some (name, marked, r') | None \<Rightarrow> None))))"

lemma t_space_length: "length (t_space s) \<le> length s"
  by (simp add: t_space_def length_dropWhile_le)

lemma after_prefix_length: "after_prefix p s = Some r \<Longrightarrow> length s = length p + length r"
  by (auto simp: after_prefix_def prefix_def split: if_splits)

lemma bar_safe_length:
  assumes "bar_safe s = Some r"
  shows "length r \<le> length s"
proof -
  obtain r1 where r1: "after_prefix (uni ''|'') (t_space s) = Some r1" "after_prefix (uni ''safe'') (t_space r1) = Some r"
    using assms by (auto simp: bar_safe_def split: option.splits)
  show ?thesis
    using after_prefix_length [OF r1(1)] after_prefix_length [OF r1(2)] t_space_length [of s] t_space_length [of r1] by linarith
qed

lemma expr_at_length:
  assumes "expr_at s = Some (name, marked, r)"
  shows "length r < length s"
proof -
  obtain r0 c cs where r0: "after_prefix (uni ''{{'') s = Some r0" "t_space r0 = c # cs"
    using assms by (auto simp: expr_at_def split: option.splits list.splits)
  let ?r1 = "dropWhile t_name_char cs"
  let ?r2 = "case bar_safe ?r1 of Some r' \<Rightarrow> r' | None \<Rightarrow> ?r1"
  have r: "after_prefix (uni ''}}'') (t_space ?r2) = Some r"
    using assms r0 by (auto simp: expr_at_def Let_def split: option.splits if_splits)
  have "length ?r2 \<le> length ?r1" by (auto dest: bar_safe_length split: option.split)
  moreover have "length ?r1 \<le> length cs" by (rule length_dropWhile_le)
  moreover have "length (c # cs) \<le> length r0" using t_space_length [of r0] r0(2) by simp
  ultimately show ?thesis
    using after_prefix_length [OF r0(1)] after_prefix_length [OF r] t_space_length [of ?r2] by simp
qed

subsection \<open>Rendering\<close>

fun lookup :: "'o template_env \<Rightarrow> 'o tval \<Rightarrow> ustr list \<Rightarrow> 'o tval result" where
  "lookup T cur [] = Inr cur"
| "lookup T cur (p # ps) =
     (case cur of
        Mapping d \<Rightarrow> (case d_get d p of Some v \<Rightarrow> lookup T v ps | None \<Rightarrow> Inl (PyError ''KeyError''))
      | _ \<Rightarrow> (case attr T cur p of Some v \<Rightarrow> lookup T v ps | None \<Rightarrow> Inl (PyError ''AttributeError'')))"

definition is_safe :: "'o tval \<Rightarrow> bool" where
  "is_safe v = (case v of SafeString s \<Rightarrow> True | _ \<Rightarrow> False)"

definition repl :: "'o template_env \<Rightarrow> 'o tval \<Rightarrow> ustr \<Rightarrow> bool \<Rightarrow> ustr result" where
  "repl T data name marked =
     rbind (lookup T data (split_on [46] name)) (\<lambda>v.
       Inr (if marked \<or> is_safe v then tval_text T v else html_escape (tval_text T v)))"

text \<open>\<^verbatim>\<open>_expr.sub(repl, source)\<close>: from left to right, a replacement is not scanned again.\<close>

function expr_sub :: "'o template_env \<Rightarrow> 'o tval \<Rightarrow> ustr \<Rightarrow> ustr result" where
  "expr_sub T data s =
     (case s of
        [] \<Rightarrow> Inr []
      | c # cs \<Rightarrow>
          (case expr_at s of
             Some (name, marked, r) \<Rightarrow>
               rbind (repl T data name marked) (\<lambda>x. rbind (expr_sub T data r) (\<lambda>out. Inr (x @ out)))
           | None \<Rightarrow> rbind (expr_sub T data cs) (\<lambda>out. Inr (c # out))))"
  by pat_completeness auto
termination
  by (relation "measure (\<lambda>(T, data, s). length s)") (auto dest: expr_at_length)

declare expr_sub.simps [simp del]

definition render :: "'o template_env \<Rightarrow> ustr \<Rightarrow> (ustr, 'o tval) dict \<Rightarrow> (ustr, 'o tval) dict \<Rightarrow> ustr result" where
  "render T source context kwargs = expr_sub T (Mapping (d_update (d_update [] context) kwargs)) source"

subsection \<open>Template files\<close>

text \<open>Reading a text file turns every line ending into a line feed.\<close>

fun universal_newlines :: "ustr \<Rightarrow> ustr" where
  "universal_newlines [] = []"
| "universal_newlines [c] = [if c = 13 then 10 else c]"
| "universal_newlines (c # d # s) =
     (if c = 13 then (if d = 10 then 10 # universal_newlines s else 10 # universal_newlines (d # s))
      else c # universal_newlines (d # s))"

definition read_text :: "env \<Rightarrow> fpath \<Rightarrow> ustr result" where
  "read_text E p =
     (case node E p of
        Some (File content mtime) \<Rightarrow>
          (case u8_strict (map code content) of Some t \<Rightarrow> Inr (universal_newlines t)
           | None \<Rightarrow> Inl (PyError ''UnicodeDecodeError''))
      | Some Dir \<Rightarrow> Inl (PyError ''IsADirectoryError'')
      | None \<Rightarrow> Inl (PyError ''FileNotFoundError''))"

text \<open>An absolute name replaces the directory it is joined to.\<close>

definition get_template :: "env \<Rightarrow> fpath \<Rightarrow> ustr \<Rightarrow> ustr result" where
  "get_template E template_dir name =
     rbind (realpath E template_dir) (\<lambda>b.
     rbind (realpath E ((if prefix [SLASH] name then [] else b) @ path_parts name)) (\<lambda>candidate.
       if \<not> strict_prefix b candidate \<and> candidate \<noteq> b then Inl (PyError ''ValueError'') else read_text E candidate))"

definition TemplateResponse :: "'o template_env \<Rightarrow> env \<Rightarrow> ustr \<Rightarrow> (ustr, 'o tval) dict \<Rightarrow> fpath \<Rightarrow> int \<Rightarrow> (str, str) dict \<Rightarrow> response result" where
  "TemplateResponse T E name context template_dir status hs =
     rbind (get_template E template_dir name) (\<lambda>source.
     rbind (render T source context []) (\<lambda>text.
       case u8_encode text of
         Some b \<Rightarrow> Inr (Response (map char_of b) status hs ''text/html; charset=utf-8'')
       | None \<Rightarrow> Inl (PyError ''UnicodeEncodeError'')))"

subsection \<open>Only marked values reach the page unescaped\<close>

text \<open>
  A template as the sequence of its literal characters and expressions, and what each of them
  may contribute to the page: a literal itself, a marked value its text, any other value a text
  without markup characters from which unescaping recovers the value.
\<close>

datatype segment = Literal nat | Expr ustr bool

function segments :: "ustr \<Rightarrow> segment list" where
  "segments s =
     (case s of [] \<Rightarrow> []
      | c # cs \<Rightarrow>
          (case expr_at s of Some (name, marked, r) \<Rightarrow> Expr name marked # segments r | None \<Rightarrow> Literal c # segments cs))"
  by pat_completeness auto
termination
  by (relation "measure length") (auto dest: expr_at_length)

declare segments.simps [simp del]

definition entities :: "(ustr \<times> nat) list" where
  "entities = [(uni ''&amp;'', 38), (uni ''&lt;'', 60), (uni ''&gt;'', 62), (uni ''&quot;'', 34), (uni ''&#x27;'', 39)]"

definition entity_at :: "ustr \<Rightarrow> (nat \<times> ustr) option" where
  "entity_at s =
     (case filter (\<lambda>(e, c). prefix e s) entities of [] \<Rightarrow> None | (e, c) # _ \<Rightarrow> Some (c, drop (length e) s))"

lemma entity_at_length: "entity_at s = Some (c, r) \<Longrightarrow> length r < length s"
proof -
  assume "entity_at s = Some (c, r)"
  then obtain e es where f: "filter (\<lambda>(e, c). prefix e s) entities = (e, c) # es" and r: "r = drop (length e) s"
    by (auto simp: entity_at_def split: list.splits)
  from f have e: "(e, c) \<in> set (filter (\<lambda>(e, c). prefix e s) entities)" by simp
  then have "prefix e s" "(e, c) \<in> set entities" by simp_all
  moreover have "\<forall>x\<in>set entities. fst x \<noteq> []" by (simp add: entities_def uni_def)
  ultimately have "prefix e s" "e \<noteq> []" by force+
  then show ?thesis using r by (auto simp: prefix_def)
qed

function html_unescape :: "ustr \<Rightarrow> ustr" where
  "html_unescape s =
     (case s of [] \<Rightarrow> []
      | c # cs \<Rightarrow> (case entity_at s of Some (x, r) \<Rightarrow> x # html_unescape r | None \<Rightarrow> c # html_unescape cs))"
  by pat_completeness auto
termination
  by (relation "measure length") (auto dest: entity_at_length)

declare html_unescape.simps [simp del]

definition inert :: "ustr \<Rightarrow> bool" where
  "inert s = list_all (\<lambda>c. c \<notin> {60, 62, 34, 39}) s"

fun contributes :: "'o template_env \<Rightarrow> 'o tval \<Rightarrow> segment \<Rightarrow> ustr \<Rightarrow> bool" where
  "contributes T data (Literal c) x = (x = [c])"
| "contributes T data (Expr name marked) x =
     (case lookup T data (split_on [46] name) of
        Inl e \<Rightarrow> False
      | Inr v \<Rightarrow> if marked \<or> is_safe v then x = tval_text T v else inert x \<and> html_unescape x = tval_text T v)"

lemma html_char_words: "html_char 38 = [38, 97, 109, 112, 59]" "html_char 60 = [38, 108, 116, 59]" "html_char 62 = [38, 103, 116, 59]"
  "html_char 34 = [38, 113, 117, 111, 116, 59]" "html_char 39 = [38, 35, 120, 50, 55, 59]"
  "c \<notin> {38, 60, 62, 34, 39} \<Longrightarrow> html_char c = [c]"
  by (simp_all add: html_char_def uni_def code_def)

lemma entity_at_char:
  "c \<in> {38, 60, 62, 34, 39} \<Longrightarrow> entity_at (html_char c @ s) = Some (c, s)"
  "c \<noteq> 38 \<Longrightarrow> entity_at (c # s) = None"
  by (auto simp: entity_at_def entities_def html_char_words uni_def code_def)

lemma html_unescape_char: "html_unescape (html_char c @ s) = c # html_unescape s"
proof (cases "c \<in> {38, 60, 62, 34, 39}")
  case True
  then obtain d ds where "html_char c @ s = d # ds" by (auto simp: html_char_words)
  with entity_at_char(1) [OF True, of s] show ?thesis
    by (simp add: html_unescape.simps [of "d # ds"])
next
  case False
  then show ?thesis
    by (simp add: html_unescape.simps [of "c # s"] html_char_words(6) entity_at_char(2))
qed

lemma html_unescape_Nil: "html_unescape [] = []"
  by (simp add: html_unescape.simps)

lemma html_unescape_escape: "html_unescape (html_escape s) = s"
  by (induction s) (simp_all add: html_escape_def html_unescape_char html_unescape_Nil)

lemma inert_escape: "inert (html_escape s)"
proof -
  have "inert (html_char c)" for c
    by (cases "c \<in> {38, 60, 62, 34, 39}") (auto simp: html_char_words inert_def)
  then show ?thesis by (induction s) (auto simp: html_escape_def inert_def)
qed

lemma contributes_repl: "repl T data name marked = Inr x \<Longrightarrow> contributes T data (Expr name marked) x"
  by (auto simp: repl_def rbind_Inr_iff inert_escape html_unescape_escape)

lemma expr_sub_segments:
  "expr_sub T data s = Inr out \<Longrightarrow> \<exists>outs. out = concat outs \<and> list_all2 (contributes T data) (segments s) outs"
proof (induction "length s" arbitrary: s out rule: less_induct)
  case less
  show ?case
  proof (cases s)
    case Nil
    then show ?thesis using less.prems by (auto simp: expr_sub.simps segments.simps)
  next
    case (Cons c cs)
    show ?thesis
    proof (cases "expr_at s")
      case None
      then obtain o' where o': "expr_sub T data cs = Inr o'" "out = c # o'"
        using less.prems Cons by (auto simp: expr_sub.simps [of T data "c # cs"] rbind_Inr_iff)
      then obtain outs where "o' = concat outs" "list_all2 (contributes T data) (segments cs) outs"
        using less.hyps [of cs o'] Cons by auto
      with o'(2) None Cons show ?thesis
        by (intro exI [of _ "[c] # outs"]) (simp add: segments.simps [of "c # cs"])
    next
      case (Some x)
      obtain name marked r where x: "x = (name, marked, r)" by (cases x)
      obtain y o' where y: "repl T data name marked = Inr y" "expr_sub T data r = Inr o'" "out = y @ o'"
        using less.prems Cons Some x by (auto simp: expr_sub.simps [of T data "c # cs"] rbind_Inr_iff)
      then obtain outs where "o' = concat outs" "list_all2 (contributes T data) (segments r) outs"
        using less.hyps [of r o'] expr_at_length Some x by blast
      with y Some x Cons contributes_repl [OF y(1)] show ?thesis
        by (intro exI [of _ "y # outs"]) (simp add: segments.simps [of "c # cs"])
    qed
  qed
qed


subsection \<open>A concrete page\<close>

definition page_env :: env where
  "page_env = sample_env\<lparr>realpath := (\<lambda>p. Inr p),
     node := (\<lambda>p. if p = [uni ''t'', uni ''hi''] then Some (File ''<p>{{ u }}</p>'' 1) else None)\<rparr>"

definition text_env :: "ustr template_env" where
  "text_env = \<lparr>attr = (\<lambda>v n. None), plain_text = (\<lambda>v. case v of Object s \<Rightarrow> s | _ \<Rightarrow> [])\<rparr>"

lemma page_source: "get_template page_env [uni ''t''] (uni ''hi'') = Inr (uni ''<p>{{ u }}</p>'')"
  by code_simp

lemma page_text:
  "render text_env (uni ''<p>{{ u }}</p>'') [(uni ''u'', Object (uni ''<b>''))] [] = Inr (uni ''<p>&lt;b&gt;</p>'')"
  by code_simp

lemma page_rendered:
  "TemplateResponse text_env page_env (uni ''hi'') [(uni ''u'', Object (uni ''<b>''))] [uni ''t''] 200 [] =
   Inr (Response ''<p>&lt;b&gt;</p>'' 200 [] ''text/html; charset=utf-8'')"
proof -
  have "u8_encode (uni ''<p>&lt;b&gt;</p>'') = Some (uni ''<p>&lt;b&gt;</p>'')"
    by (rule u8_encode_ascii) (simp add: uni_def code_def)
  moreover have "map char_of (uni ''<p>&lt;b&gt;</p>'') = ''<p>&lt;b&gt;</p>''"
    by (simp add: uni_def)
  ultimately show ?thesis
    by (simp add: TemplateResponse_def page_source page_text)
qed


end
