(* ===== verification/Listener.thy ===== *)
theory Listener
  imports Server "HOL-Library.Multiset"
begin

section \<open>The listening server (\<^verbatim>\<open>SovereignServer\<close>)\<close>

text \<open>
  The accept loop, the bounded semaphore of connection slots, the thread pool and the shutdown of
  \<^verbatim>\<open>server.py\<close>. The pool is a list of waiting jobs and a list of running ones; connections and
  background tasks share it. What a connection does while it runs is theory Server; here only how
  it ends matters. \<open>lost\<close> holds the connections accepted while another thread shut the pool down:
  \<^verbatim>\<open>submit\<close> then raises and the slot is not given back.
\<close>

datatype job = Serve nat | Background nat

datatype ending = Served | TlsFailed | Crashed

record listener =
  max_slots :: nat
  pool_size :: nat
  permits :: nat
  backlog :: "job list"
  running :: "job list"
  accepted :: "nat list"
  closed_conns :: "nat list"
  lost :: "nat list"
  warnings :: nat
  errors :: nat
  stop_event :: bool
  listening :: bool
  pool_open :: bool

definition SovereignServer :: "nat \<Rightarrow> nat \<Rightarrow> listener" where
  "SovereignServer max_conns threads =
     \<lparr>max_slots = max_conns, pool_size = threads, permits = max_conns, backlog = [], running = [],
      accepted = [], closed_conns = [], lost = [], warnings = 0, errors = 0, stop_event = False, listening = True,
      pool_open = True\<rparr>"

text \<open>
  The body of the accept loop for a client: without a free slot it is closed at once, otherwise it
  is handed to the pool.
\<close>

definition accept_client :: "nat \<Rightarrow> listener \<Rightarrow> listener" where
  "accept_client c l =
     (let l = l\<lparr>accepted := c # accepted l\<rparr> in
      if permits l = 0 then l\<lparr>closed_conns := c # closed_conns l\<rparr>
      else
        (let l = l\<lparr>permits := permits l - 1\<rparr> in
         if pool_open l then l\<lparr>backlog := backlog l @ [Serve c]\<rparr> else l\<lparr>lost := c # lost l\<rparr>))"

text \<open>\<^verbatim>\<open>executor.submit\<close> of a background task; a pool that is shut down refuses it.\<close>

definition submit_background :: "nat \<Rightarrow> listener \<Rightarrow> unit result \<times> listener" where
  "submit_background t l =
     (if pool_open l then (Inr (), l\<lparr>backlog := backlog l @ [Background t]\<rparr>) else (Inl (PyError ''RuntimeError''), l))"

text \<open>An idle worker thread takes the first waiting job.\<close>

definition worker_start :: "listener \<Rightarrow> listener" where
  "worker_start l =
     (case backlog l of
        j # js \<Rightarrow> if length (running l) < pool_size l then l\<lparr>backlog := js, running := j # running l\<rparr> else l
      | [] \<Rightarrow> l)"

text \<open>
  \<^verbatim>\<open>handle_connection_safe\<close> ends: whether the connection was served, the TLS handshake failed or the
  handling raised, the client is closed and its slot released.
\<close>

definition handle_connection_safe :: "nat \<Rightarrow> ending \<Rightarrow> listener \<Rightarrow> listener" where
  "handle_connection_safe c how l =
     (let l = (case how of Served \<Rightarrow> l | TlsFailed \<Rightarrow> l\<lparr>warnings := warnings l + 1\<rparr> | Crashed \<Rightarrow> l\<lparr>errors := errors l + 1\<rparr>)
      in l\<lparr>closed_conns := c # closed_conns l, permits := permits l + 1\<rparr>)"

definition worker_finish :: "job \<Rightarrow> ending \<Rightarrow> listener \<Rightarrow> listener" where
  "worker_finish j how l =
     (let l = l\<lparr>running := remove1 j (running l)\<rparr>
      in case j of Serve c \<Rightarrow> handle_connection_safe c how l | Background t \<Rightarrow> l)"

text \<open>\<^verbatim>\<open>shutdown\<close>: the stop event, the listening socket, then the pool, which still runs what waits.\<close>

definition shutdown :: "listener \<Rightarrow> listener" where
  "shutdown l = l\<lparr>stop_event := True, listening := False, pool_open := False\<rparr>"

text \<open>
  The steps of the loop, the workers and whoever calls \<^verbatim>\<open>shutdown\<close>. A connection number stands for
  one accepted client; a client may be accepted although the shutdown has begun, since the loop
  tests the stop event only before it accepts.
\<close>

inductive listener_step :: "listener \<Rightarrow> listener \<Rightarrow> bool" where
  accept: "c \<notin> set (accepted l) \<Longrightarrow> listener_step l (accept_client c l)"
| background: "listener_step l (snd (submit_background t l))"
| start: "backlog l \<noteq> [] \<Longrightarrow> length (running l) < pool_size l \<Longrightarrow> listener_step l (worker_start l)"
| finish: "j \<in> set (running l) \<Longrightarrow> listener_step l (worker_finish j how l)"
| shutdown: "listener_step l (shutdown l)"

inductive_cases listener_stepE: "listener_step l l'"

inductive listener_reach :: "nat \<Rightarrow> nat \<Rightarrow> listener \<Rightarrow> bool" for m w where
  fresh: "listener_reach m w (SovereignServer m w)"
| step: "listener_reach m w l \<Longrightarrow> listener_step l l' \<Longrightarrow> listener_reach m w l'"

subsection \<open>Slots are conserved\<close>

definition serving :: "job list \<Rightarrow> nat list" where
  "serving js = concat (map (\<lambda>j. case j of Serve c \<Rightarrow> [c] | Background t \<Rightarrow> []) js)"

lemma serving_simps [simp]: "serving [] = []" "serving (Serve c # js) = c # serving js" "serving (Background t # js) = serving js"
  "serving (js @ ks) = serving js @ serving ks"
  by (simp_all add: serving_def)

lemma serving_remove1:
  "mset (serving (remove1 (Background t) js)) = mset (serving js)"
  "Serve c \<in> set js \<Longrightarrow> mset (serving js) = add_mset c (mset (serving (remove1 (Serve c) js)))"
  by (induction js) (auto simp: serving_def split: job.splits)

definition listener_inv :: "nat \<Rightarrow> nat \<Rightarrow> listener \<Rightarrow> bool" where
  "listener_inv m w l =
     (max_slots l = m \<and> pool_size l = w \<and>
      permits l + length (serving (backlog l)) + length (serving (running l)) + length (lost l) = m \<and>
      length (running l) \<le> w \<and> distinct (accepted l) \<and>
      mset (accepted l) = mset (serving (backlog l)) + mset (serving (running l)) + mset (closed_conns l) + mset (lost l))"

lemma listener_inv_step:
  assumes "listener_inv m w l" and "listener_step l l'"
  shows "listener_inv m w l'"
  using assms(2,1)
proof (cases rule: listener_step.cases)
  case (start)
  then show ?thesis
    using assms(1) by (cases "backlog l"; cases "hd (backlog l)") (auto simp: listener_inv_def worker_start_def)
next
  case (finish j how)
  show ?thesis
  proof (cases j)
    case (Serve c)
    note s = serving_remove1(2) [of c "running l"]
    have "length (serving (running l)) = Suc (length (serving (remove1 (Serve c) (running l))))"
      using finish Serve s by (metis size_add_mset size_mset)
    then show ?thesis
      using assms(1) finish Serve s
      by (auto simp: listener_inv_def worker_finish_def handle_connection_safe_def Let_def length_remove1 split: ending.split)
  next
    case (Background t)
    note s = serving_remove1(1) [of t "running l"]
    have "length (serving (remove1 (Background t) (running l))) = length (serving (running l))"
      using s by (metis size_mset)
    then show ?thesis
      using assms(1) finish Background s by (auto simp: listener_inv_def worker_finish_def length_remove1)
  qed
qed (auto simp: listener_inv_def accept_client_def submit_background_def shutdown_def Let_def)

lemma listener_reach_inv: "listener_reach m w l \<Longrightarrow> listener_inv m w l"
proof (induction rule: listener_reach.induct)
  case fresh
  then show ?case by (simp add: listener_inv_def SovereignServer_def)
next
  case (step l l')
  then show ?case by (rule_tac listener_inv_step)
qed

text \<open>
  C15. Connection slots are conserved whatever the order of accepts, jobs, endings and shutdown: the
  free slots, the connections waiting and served and those lost to a concurrent shutdown always
  add up to the limit, never more threads run than the pool has, and every accepted connection is
  in exactly one place, closed exactly once.
\<close>

theorem slots_conserved:
  assumes "listener_reach m w l"
  shows "permits l + length (serving (backlog l)) + length (serving (running l)) + length (lost l) = m \<and>
    length (running l) \<le> w \<and>
    distinct (serving (backlog l) @ serving (running l) @ closed_conns l @ lost l) \<and>
    set (accepted l) = set (serving (backlog l) @ serving (running l) @ closed_conns l @ lost l)"
proof -
  note inv = listener_reach_inv [OF assms, unfolded listener_inv_def]
  have m: "mset (accepted l) = mset (serving (backlog l) @ serving (running l) @ closed_conns l @ lost l)"
    using inv by (simp add: ac_simps)
  then have "distinct (serving (backlog l) @ serving (running l) @ closed_conns l @ lost l)"
    using inv mset_eq_imp_distinct_iff by blast
  then show ?thesis
    using inv mset_eq_setD [OF m] by blast
qed

definition busy_listener :: listener where
  "busy_listener = worker_finish (Serve 1) TlsFailed (worker_start (accept_client 2 (accept_client 1 (SovereignServer 2 1))))"

lemma busy_listener_reach: "listener_reach 2 1 busy_listener"
proof -
  let ?l = "accept_client 2 (accept_client 1 (SovereignServer 2 1))"
  have "listener_reach 2 1 (accept_client 1 (SovereignServer 2 1))"
    by (rule listener_reach.step [OF listener_reach.fresh listener_step.accept]) (simp add: SovereignServer_def)
  then have "listener_reach 2 1 ?l"
    by (rule listener_reach.step [OF _ listener_step.accept]) (simp add: SovereignServer_def accept_client_def Let_def)
  then have "listener_reach 2 1 (worker_start ?l)"
    by (rule listener_reach.step [OF _ listener_step.start]) (simp_all add: SovereignServer_def accept_client_def Let_def)
  then show ?thesis
    unfolding busy_listener_def
    by (rule listener_reach.step [OF _ listener_step.finish])
      (simp add: SovereignServer_def accept_client_def worker_start_def Let_def)
qed

lemma slots_conserved_witness: "permits busy_listener = 1 \<and> closed_conns busy_listener = [1] \<and> serving (backlog busy_listener) = [2]"
proof -
  have b: "backlog busy_listener = [Serve 2]" "running busy_listener = []" "lost busy_listener = []" "closed_conns busy_listener = [1]"
    by (simp_all add: busy_listener_def SovereignServer_def accept_client_def worker_start_def worker_finish_def
        handle_connection_safe_def Let_def)
  then show ?thesis
    using slots_conserved [OF busy_listener_reach] by simp
qed

subsection \<open>A shut-down server drains\<close>

text \<open>The steps of the worker threads alone, and how many of them are left at most.\<close>

inductive worker_step :: "listener \<Rightarrow> listener \<Rightarrow> bool" where
  "backlog l \<noteq> [] \<Longrightarrow> length (running l) < pool_size l \<Longrightarrow> worker_step l (worker_start l)"
| "j \<in> set (running l) \<Longrightarrow> worker_step l (worker_finish j how l)"

definition jobs_left :: "listener \<Rightarrow> nat" where
  "jobs_left l = 2 * length (backlog l) + length (running l)"

lemma worker_step_listener: "worker_step l l' \<Longrightarrow> listener_step l l'"
  by (auto elim!: worker_step.cases intro: listener_step.intros)

lemma worker_step_measure: "worker_step l l' \<Longrightarrow> jobs_left l' < jobs_left l"
proof (induction rule: worker_step.induct)
  case (1 l)
  then show ?case by (cases "backlog l") (auto simp: worker_start_def jobs_left_def)
next
  case (2 j l how)
  have "backlog (worker_finish j how l) = backlog l" "running (worker_finish j how l) = remove1 j (running l)"
    by (simp_all add: worker_finish_def handle_connection_safe_def Let_def split: job.split ending.split)
  moreover have "0 < length (running l)" using 2 by (rule length_pos_if_in_set)
  ultimately show ?case using 2 by (simp add: jobs_left_def length_remove1)
qed

lemma worker_runs_end: "(worker_step ^^ n) l l' \<Longrightarrow> n + jobs_left l' \<le> jobs_left l"
proof (induction n arbitrary: l')
  case (Suc n)
  then obtain k where "(worker_step ^^ n) l k" "worker_step k l'" by auto
  then show ?case using Suc.IH [of k] worker_step_measure [of k l'] by linarith
qed simp

lemma worker_runs_reach: "(worker_step ^^ n) l l' \<Longrightarrow> listener_reach m w l \<Longrightarrow> listener_reach m w l'"
  by (induction n arbitrary: l') (auto intro: listener_reach.step worker_step_listener)



end
