(* ===== verification/Async_Reader.thy ===== *)
theory Async_Reader
  imports Parser_Head
begin

section \<open>Reading requests on asyncio (\<^verbatim>\<open>async_server.py\<close>)\<close>

text \<open>
  \<open>areader\<close> is an \<^verbatim>\<open>asyncio.StreamReader\<close> with its configuration: what has been received and not
  read, what is still to arrive (theory Parser) and the clock. One buffer serves the whole
  connection. \<^verbatim>\<open>wait_for\<close> gives an operation one budget of seconds for all it waits.
\<close>

record areader = conn +
  abuf :: bytes
  acfg :: server_config

definition stream_limit :: nat where
  "stream_limit = 65536"

datatype fed = Fed rat areader | Eof | Late areader | Lost areader

definition feed :: "rat \<Rightarrow> areader \<Rightarrow> fed" where
  "feed budget rd =
     (case arrivals rd of
        [] \<Rightarrow> Eof
      | (d, ev) # rest \<Rightarrow>
          if budget < d then Late (rd\<lparr>arrivals := (d - budget, ev) # rest, now := now rd + budget\<rparr>)
          else (case ev of
                  Reset \<Rightarrow> Lost (rd\<lparr>arrivals := rest, now := now rd + d\<rparr>)
                | Data b \<Rightarrow> Fed (budget - d) (rd\<lparr>arrivals := rest, now := now rd + d, abuf := abuf rd @ b\<rparr>)))"

lemma feed_shrinks: "feed t rd = Fed t' rd' \<Longrightarrow> length (arrivals rd') < length (arrivals rd)"
  by (auto simp: feed_def split: list.splits if_splits arrival.splits)

text \<open>
  How a stream operation ends: with the bytes, at the end of the stream with what was left, over
  the limit after so many bytes, out of time, or with a lost connection.
\<close>

datatype awaited_read = Read bytes | Partial bytes | Overrun nat | Expired | Failed

function readuntil :: "bytes \<Rightarrow> rat \<Rightarrow> areader \<Rightarrow> awaited_read \<times> areader" where
  "readuntil sep budget rd =
     (case split1 sep (abuf rd) of
        Some (a, b) \<Rightarrow> if stream_limit < length a then (Overrun (length a), rd) else (Read (a @ sep), rd\<lparr>abuf := b\<rparr>)
      | None \<Rightarrow>
          (let scanned = length (abuf rd) + 1 - length sep in
           if stream_limit < scanned then (Overrun scanned, rd)
           else (case feed budget rd of
                   Eof \<Rightarrow> (Partial (abuf rd), rd\<lparr>abuf := []\<rparr>)
                 | Late rd' \<Rightarrow> (Expired, rd')
                 | Lost rd' \<Rightarrow> (Failed, rd')
                 | Fed t rd' \<Rightarrow> readuntil sep t rd')))"
  by pat_completeness auto
termination
  by (relation "measure (\<lambda>(s, t, rd). length (arrivals rd))") (auto dest: feed_shrinks)

declare readuntil.simps [simp del]

function readexactly :: "nat \<Rightarrow> rat \<Rightarrow> areader \<Rightarrow> awaited_read \<times> areader" where
  "readexactly n budget rd =
     (if n \<le> length (abuf rd) then (Read (take n (abuf rd)), rd\<lparr>abuf := drop n (abuf rd)\<rparr>)
      else (case feed budget rd of
              Eof \<Rightarrow> (Partial (abuf rd), rd\<lparr>abuf := []\<rparr>)
            | Late rd' \<Rightarrow> (Expired, rd')
            | Lost rd' \<Rightarrow> (Failed, rd')
            | Fed t rd' \<Rightarrow> readexactly n t rd'))"
  by pat_completeness auto
termination
  by (relation "measure (\<lambda>(n, t, rd). length (arrivals rd))") (auto dest: feed_shrinks)

declare readexactly.simps [simp del]

text \<open>
  \<^verbatim>\<open>readline\<close> gives what is left at the end of the stream and raises \<^verbatim>\<open>ValueError\<close> over the limit,
  dropping the line when its end is in the buffer and all of the buffer otherwise.
\<close>

definition readline :: "rat \<Rightarrow> areader \<Rightarrow> bytes result \<times> areader" where
  "readline budget rd =
     (case readuntil [LF] budget rd of
        (Read l, rd') \<Rightarrow> (Inr l, rd')
      | (Partial l, rd') \<Rightarrow> (Inr l, rd')
      | (Overrun k, rd') \<Rightarrow>
          (Inl (PyError ''ValueError''),
           rd'\<lparr>abuf := (if prefix [LF] (drop k (abuf rd')) then drop (k + 1) (abuf rd') else [])\<rparr>)
      | (Expired, rd') \<Rightarrow> (Inl (PyError ''TimeoutError''), rd')
      | (Failed, rd') \<Rightarrow> (Inl (PyError ''ConnectionResetError''), rd'))"

subsection \<open>\<^verbatim>\<open>AsyncBodyReader\<close>\<close>

definition a_read_headers :: "areader \<Rightarrow> bytes result \<times> areader" where
  "a_read_headers rd =
     (case readuntil (CRLF @ CRLF) (header_idle_timeout (acfg rd)) rd of
        (Read d, rd') \<Rightarrow>
          if max_header_bytes (acfg rd) + 4 < int (length d) then (Inl (err 431 ''Header block too large''), rd') else (Inr d, rd')
      | (Partial l, rd') \<Rightarrow> (Inl ClientClosed, rd')
      | (Overrun k, rd') \<Rightarrow> (Inl (err 431 ''Read limit exceeded''), rd')
      | (Expired, rd') \<Rightarrow> (Inl (err 408 ''Request Timeout''), rd')
      | (Failed, rd') \<Rightarrow> (Inl (PyError ''ConnectionResetError''), rd'))"

definition a_read_exact :: "int \<Rightarrow> areader \<Rightarrow> bytes result \<times> areader" where
  "a_read_exact n rd =
     (if n < 0 then (Inl (PyError ''ValueError''), rd)
      else (case readexactly (nat n) (body_idle_timeout (acfg rd)) rd of
              (Read d, rd') \<Rightarrow> (Inr d, rd')
            | (Partial l, rd') \<Rightarrow> (Inl ClientClosed, rd')
            | (Expired, rd') \<Rightarrow> (Inl (err 408 ''Request Timeout''), rd')
            | (_, rd') \<Rightarrow> (Inl (PyError ''ConnectionResetError''), rd')))"

definition a_read_exact_body :: "int \<Rightarrow> areader \<Rightarrow> bytes result \<times> areader" where
  "a_read_exact_body n rd =
     (if max_body_bytes (acfg rd) < n then (Inl (err 413 ''Payload Too Large''), rd) else a_read_exact n rd)"

definition a_pending :: "areader \<Rightarrow> bytes" where
  "a_pending rd = abuf rd @ incoming rd"

lemma feed_pending:
  "feed t rd = Fed t' rd' \<Longrightarrow> a_pending rd' = a_pending rd \<and> acfg rd' = acfg rd"
  "feed t rd = Late rd' \<Longrightarrow> a_pending rd' = a_pending rd \<and> acfg rd' = acfg rd"
  "feed t rd = Lost rd' \<Longrightarrow> a_pending rd' = a_pending rd \<and> acfg rd' = acfg rd"
  "feed t rd = Eof \<Longrightarrow> a_pending (rd\<lparr>abuf := []\<rparr>) = [] \<and> a_pending rd = abuf rd"
  by (auto simp: feed_def a_pending_def incoming_def split: list.splits if_splits arrival.splits)

lemma a_pending_abuf: "a_pending (rd\<lparr>abuf := b\<rparr>) = b @ incoming rd"
  by (simp add: a_pending_def incoming_def)

text \<open>What a stream operation returned and what is still pending are what was pending before.\<close>

fun taken :: "awaited_read \<Rightarrow> bytes" where
  "taken (Read d) = d"
| "taken (Partial d) = d"
| "taken _ = []"

lemma readuntil_pending:
  "readuntil sep t rd = (r, rd') \<Longrightarrow> a_pending rd = taken r @ a_pending rd' \<and> acfg rd' = acfg rd"
proof (induction sep t rd rule: readuntil.induct)
  case (1 sep t rd)
  note u = readuntil.simps [of sep t rd]
  show ?case
  proof (cases "split1 sep (abuf rd)")
    case None
    show ?thesis
    proof (cases "stream_limit < length (abuf rd) + 1 - length sep")
      case True
      then have "r = Overrun (length (abuf rd) + 1 - length sep)" "rd' = rd"
        using "1.prems" None by (auto simp: u Let_def)
      then show ?thesis by simp
    next
      case False
      show ?thesis
      proof (cases "feed t rd")
        case (Fed t' rd1)
        have "a_pending rd1 = taken r @ a_pending rd' \<and> acfg rd' = acfg rd1"
          by (rule "1.IH" [OF None refl False Fed]) (use "1.prems" None False Fed in \<open>simp add: u Let_def\<close>)
        then show ?thesis using feed_pending(1) [OF Fed] by simp
      next
        case Eof
        then have "r = Partial (abuf rd)" "rd' = rd\<lparr>abuf := []\<rparr>"
          using "1.prems" None False by (simp_all add: u Let_def)
        then show ?thesis using feed_pending(4) [OF Eof] by simp
      next
        case (Late rd1)
        then have "r = Expired" "rd' = rd1" using "1.prems" None False by (simp_all add: u Let_def)
        then show ?thesis using feed_pending(2) [OF Late] by simp
      next
        case (Lost rd1)
        then have "r = Failed" "rd' = rd1" using "1.prems" None False by (simp_all add: u Let_def)
        then show ?thesis using feed_pending(3) [OF Lost] by simp
      qed
    qed
  next
    case (Some ab)
    obtain a b where ab: "ab = (a, b)" by force
    have "abuf rd = a @ sep @ b" using split1_append [of sep "abuf rd"] Some ab by simp
    then show ?thesis
      using "1.prems" Some ab by (auto simp: u a_pending_def incoming_def split: if_splits)
  qed
qed

lemma readexactly_pending:
  "readexactly n t rd = (r, rd') \<Longrightarrow> a_pending rd = taken r @ a_pending rd' \<and> acfg rd' = acfg rd"
proof (induction n t rd rule: readexactly.induct)
  case (1 n t rd)
  note u = readexactly.simps [of n t rd]
  show ?case
  proof (cases "n \<le> length (abuf rd)")
    case True
    then have "r = Read (take n (abuf rd))" "rd' = rd\<lparr>abuf := drop n (abuf rd)\<rparr>"
      using "1.prems" by (simp_all add: u)
    then show ?thesis by (simp add: a_pending_abuf) (simp add: a_pending_def)
  next
    case False
    show ?thesis
    proof (cases "feed t rd")
      case (Fed t' rd1)
      have "a_pending rd1 = taken r @ a_pending rd' \<and> acfg rd' = acfg rd1"
        by (rule "1.IH" [OF False Fed]) (use "1.prems" False Fed in \<open>simp add: u\<close>)
      then show ?thesis using feed_pending(1) [OF Fed] by simp
    next
      case Eof
      then have "r = Partial (abuf rd)" "rd' = rd\<lparr>abuf := []\<rparr>"
        using "1.prems" False by (simp_all add: u)
      then show ?thesis using feed_pending(4) [OF Eof] by simp
    next
      case (Late rd1)
      then have "r = Expired" "rd' = rd1" using "1.prems" False by (simp_all add: u)
      then show ?thesis using feed_pending(2) [OF Late] by simp
    next
      case (Lost rd1)
      then have "r = Failed" "rd' = rd1" using "1.prems" False by (simp_all add: u)
      then show ?thesis using feed_pending(3) [OF Lost] by simp
    qed
  qed
qed

lemma readline_pending:
  assumes "readline t rd = (Inr l, rd')"
  shows "a_pending rd = l @ a_pending rd'" "acfg rd' = acfg rd"
proof -
  obtain r rd1 where "readuntil [LF] t rd = (r, rd1)" by force
  with assms readuntil_pending [OF this] show "a_pending rd = l @ a_pending rd'" "acfg rd' = acfg rd"
    by (cases r; simp add: readline_def)+
qed

lemma a_read_exact_sound:
  assumes "a_read_exact n rd = (Inr d, rd')"
  shows "a_pending rd = d @ a_pending rd'" "acfg rd' = acfg rd"
proof -
  obtain r rd1 where "readexactly (nat n) (body_idle_timeout (acfg rd)) rd = (r, rd1)" by force
  with assms readexactly_pending [OF this] show "a_pending rd = d @ a_pending rd'" "acfg rd' = acfg rd"
    by (cases r; simp add: a_read_exact_def split: if_splits)+
qed

lemma a_chunk_progress:
  assumes "(Inr line, rd1) = readline t rd" "line \<noteq> []" "(Inr part, rd2) = a_read_exact n rd1"
    "(Inr crlf, rd3) = a_read_exact 2 rd2"
  shows "length (a_pending rd3) < length (a_pending rd)"
  using readline_pending [OF assms(1) [symmetric]] assms(2)
    a_read_exact_sound [OF assms(3) [symmetric]] a_read_exact_sound [OF assms(4) [symmetric]] by simp

subsection \<open>Chunked bodies\<close>

text \<open>
  Lines end with a line feed here, the carriage return is optional. Neither the \<^verbatim>\<open>ValueError\<close> nor
  the \<^verbatim>\<open>TimeoutError\<close> of \<^verbatim>\<open>readline\<close> is turned into an HTTP error.
\<close>

definition rstrip_crlf :: "bytes \<Rightarrow> bytes" where
  "rstrip_crlf line = rev (dropWhile (\<lambda>c. c = CR \<or> c = LF) (rev line))"

function a_chunk_loop :: "bytes \<Rightarrow> int \<Rightarrow> areader \<Rightarrow> (bytes \<times> int) result \<times> areader" where
  "a_chunk_loop chunks tot rd =
     (case readline (body_idle_timeout (acfg rd)) rd of
        (Inl e, rd1) \<Rightarrow> (Inl e, rd1)
      | (Inr line, rd1) \<Rightarrow>
          if line = [] then (Inl ClientClosed, rd1)
          else (case chunk_size (rstrip_crlf line) of
             None \<Rightarrow> (Inl (err 400 ''Invalid chunk size''), rd1)
           | Some n \<Rightarrow>
               if n = 0 then
                 (case readline (body_idle_timeout (acfg rd1)) rd1 of
                    (Inl e, rd2) \<Rightarrow> (Inl e, rd2)
                  | (Inr _, rd2) \<Rightarrow> (Inr (chunks, tot), rd2))
               else if max_body_bytes (acfg rd1) < tot + n then
                 (Inl (err 413 ''Payload Too Large''), rd1)
               else
                 (case a_read_exact n rd1 of
                    (Inl e, rd2) \<Rightarrow> (Inl e, rd2)
                  | (Inr part, rd2) \<Rightarrow>
                      (case a_read_exact 2 rd2 of
                         (Inl e, rd3) \<Rightarrow> (Inl e, rd3)
                       | (Inr crlf, rd3) \<Rightarrow>
                           if crlf \<noteq> CRLF then (Inl (err 400 ''Malformed chunk terminator''), rd3)
                           else a_chunk_loop (chunks @ part) (tot + n) rd3))))"
  by pat_completeness auto
termination
  by (relation "measure (\<lambda>(s, t, rd). length (a_pending rd))") (auto dest: a_chunk_progress)

declare a_chunk_loop.simps [simp del]

definition a_read_chunked_body :: "areader \<Rightarrow> (bytes \<times> int) result \<times> areader" where
  "a_read_chunked_body rd = a_chunk_loop [] 0 rd"

subsection \<open>\<^verbatim>\<open>parse_async_request\<close>\<close>

definition a_read_body :: "(str, str) dict \<Rightarrow> areader \<Rightarrow> (bytes \<times> int) result \<times> areader" where
  "a_read_body hs rd =
     (if is_chunked hs then a_read_chunked_body rd
      else (case content_length hs of
          Inl e \<Rightarrow> (Inl e, rd)
        | Inr n \<Rightarrow>
            if n = 0 then (Inr ([], 0), rd)
            else (case a_read_exact_body n rd of
                (Inl e, rd') \<Rightarrow> (Inl e, rd')
              | (Inr b, rd') \<Rightarrow> (Inr (b, n), rd'))))"

definition parse_async_request ::
  "(str \<Rightarrow> bool) \<Rightarrow> areader \<Rightarrow> str \<times> int \<Rightarrow> server_config \<Rightarrow> request result \<times> areader" where
  "parse_async_request netloc_ok rd addr c =
     (case a_read_headers (rd\<lparr>acfg := c\<rparr>) of
        (Inl e, rd1) \<Rightarrow> (Inl e, rd1)
      | (Inr raw, rd1) \<Rightarrow>
          (case parse_header_block raw c of
             Inl e \<Rightarrow> (Inl e, rd1)
           | Inr (meth, tgt, ver, hs, raws) \<Rightarrow>
               (case a_read_body hs rd1 of
                  (Inl e, rd2) \<Rightarrow> (Inl e, rd2)
                | (Inr (b, n), rd2) \<Rightarrow> (Request netloc_ok meth tgt ver hs raws (InMemory b) n addr c, rd2))))"

end
