(* ===== verification/Async_Router.thy ===== *)
theory Async_Router
  imports Router_Props Middleware
begin

section \<open>The asynchronous pipeline (\<^verbatim>\<open>router.py\<close>)\<close>

text \<open>
  On the asyncio server a call may return an awaitable instead of a response: \<open>avalue\<close> is either,
  and a coroutine is a computation on the context that runs when it is awaited. Both kinds of
  middleware receive the coroutine that \<^verbatim>\<open>call_next(req)\<close> creates; an \<^verbatim>\<open>async def\<close> may await it, a
  plain one can only hand it back.
\<close>

datatype 'c avalue = Resp response | Awaitable "'c \<Rightarrow> (exn + 'c avalue) \<times> 'c"

type_synonym 'c coro = "'c \<Rightarrow> (exn + 'c avalue) \<times> 'c"

datatype 'c amiddleware = AsyncDef "'c coro \<Rightarrow> 'c coro" | PlainDef "'c coro \<Rightarrow> 'c coro"

text \<open>\<^verbatim>\<open>await result\<close> of what a call returned, once, if it is awaitable.\<close>

definition await_value :: "'c avalue \<Rightarrow> 'c coro" where
  "await_value v c = (case v of Resp r \<Rightarrow> (Inr v, c) | Awaitable f \<Rightarrow> f c)"

definition await_result :: "(exn + 'c avalue) \<times> 'c \<Rightarrow> (exn + 'c avalue) \<times> 'c" where
  "await_result x = (case x of (Inl e, c) \<Rightarrow> (Inl e, c) | (Inr v, c) \<Rightarrow> await_value v c)"

definition call_mw :: "'c amiddleware \<Rightarrow> 'c coro \<Rightarrow> 'c coro" where
  "call_mw m nxt = (case m of AsyncDef f \<Rightarrow> f nxt | PlainDef f \<Rightarrow> f nxt)"

text \<open>The coroutine \<^verbatim>\<open>build(i)\<close> of \<^verbatim>\<open>execute_async\<close>.\<close>

function build_async :: "'c amiddleware list \<Rightarrow> 'c coro \<Rightarrow> nat \<Rightarrow> 'c coro" where
  "build_async chain h i c =
     (if length chain \<le> i then await_result (h c)
      else await_result (call_mw (chain ! i) (\<lambda>c'. build_async chain h (Suc i) c') c))"
  by pat_completeness auto
termination
  by (relation "measure (\<lambda>(chain, h, i, c). length chain - i)") auto

declare build_async.simps [simp del]

definition execute_async :: "'c amiddleware list \<Rightarrow> 'c \<Rightarrow> 'c coro \<Rightarrow> 'c amiddleware list \<Rightarrow> (exn + 'c avalue) \<times> 'c" where
  "execute_async global c h route_mws = build_async (global @ route_mws) h 0 c"

text \<open>\<^verbatim>\<open>resolve_async\<close> repeats \<^verbatim>\<open>resolve\<close> for coroutine handlers.\<close>

fun resolve_async_loop ::
  "str \<Rightarrow> str \<Rightarrow> ('h, 'm) route list \<Rightarrow> str list \<Rightarrow> ('h target \<times> 'm list) result" where
  "resolve_async_loop meth p [] allowed =
     (if upper meth = ''OPTIONS'' then Inr (Noop, [])
      else if allowed \<noteq> [] then Inl (err 405 ''Method Not Allowed'')
      else Inl (err 404 ''Not Found''))"
| "resolve_async_loop meth p (rt # rts) allowed =
     (case rmatch (rt_regex rt) p of
        None \<Rightarrow> resolve_async_loop meth p rts allowed
      | Some bs \<Rightarrow>
          if rt_method rt = upper meth then Inr (Bound (rt_handler rt) (decode_params bs), rt_mws rt)
          else resolve_async_loop meth p rts (allowed @ [rt_method rt]))"

definition resolve_async :: "('h, 'm) router \<Rightarrow> str \<Rightarrow> str \<Rightarrow> ('h target \<times> 'm list) result" where
  "resolve_async r meth p =
     (if docs_path meth p then Inr (Docs, []) else resolve_async_loop meth p (routes r) [])"

lemma resolve_async_eq: "resolve_async r meth p = resolve r meth p"
proof -
  have "resolve_async_loop meth p rts allowed = resolve_loop meth p rts allowed" for rts :: "('a, 'b) route list" and allowed
    by (induction meth p rts allowed rule: resolve_loop.induct) (auto split: option.split)
  then show ?thesis by (simp add: resolve_async_def resolve_def)
qed

subsection \<open>The two pipelines agree\<close>

text \<open>
  The middlewares the asynchronous server documents as supported: one written as \<^verbatim>\<open>async def\<close>, which
  awaits the rest of the chain where the synchronous one calls it, and a plain one that only looks
  at the request and either answers or hands on.
\<close>

datatype 'w supported =
    Promoted "'w middleware"
  | Lightweight "'w ctx \<Rightarrow> response option result \<times> 'w ctx"

fun sync_form :: "'w supported \<Rightarrow> 'w middleware" where
  "sync_form (Promoted m) c next = m c next"
| "sync_form (Lightweight pre) c next =
     sbind (pre c) (\<lambda>x c. case x of Some resp \<Rightarrow> (Inr resp, c) | None \<Rightarrow> next c)"

text \<open>\<open>awaited\<close> is the response of an awaited coroutine as the code of a middleware sees it.\<close>

definition awaited :: "'w ctx coro \<Rightarrow> 'w handler" where
  "awaited f c =
     (case f c of (Inl e, c) \<Rightarrow> (Inl e, c) | (Inr (Resp r), c) \<Rightarrow> (Inr r, c)
      | (Inr (Awaitable g), c) \<Rightarrow> (Inl (PyError ''AttributeError''), c))"

definition responding :: "response result \<times> 'w ctx \<Rightarrow> (exn + 'w ctx avalue) \<times> 'w ctx" where
  "responding x = (map_sum id Resp (fst x), snd x)"

fun async_form :: "'w supported \<Rightarrow> 'w ctx amiddleware" where
  "async_form (Promoted m) = AsyncDef (\<lambda>nxt c. responding (m c (awaited nxt)))"
| "async_form (Lightweight pre) =
     PlainDef (\<lambda>nxt c. case pre c of (Inl e, c) \<Rightarrow> (Inl e, c) | (Inr (Some resp), c) \<Rightarrow> (Inr (Resp resp), c)
       | (Inr None, c) \<Rightarrow> (Inr (Awaitable nxt), c))"

text \<open>A handler of either kind: plain, run by \<^verbatim>\<open>to_thread\<close>, or returning a coroutine.\<close>

definition async_handler :: "bool \<Rightarrow> 'w handler \<Rightarrow> 'w ctx coro" where
  "async_handler plain h c = (if plain then responding (h c) else (Inr (Awaitable (\<lambda>c. responding (h c))), c))"

lemma await_responding [simp]: "await_result (responding x) = responding x"
  by (cases x; cases "fst x") (auto simp: await_result_def responding_def await_value_def)

lemma awaited_responding: "(\<And>c. f c = responding (g c)) \<Longrightarrow> awaited f = g"
proof (rule ext)
  fix c
  assume "\<And>c. f c = responding (g c)"
  then show "awaited f c = g c"
    by (cases "g c"; cases "fst (g c)") (auto simp: awaited_def responding_def)
qed

lemma await_handler: "await_result (async_handler plain h c) = responding (h c)"
  by (simp add: async_handler_def) (simp add: await_result_def await_value_def)

lemma call_async_form:
  assumes "\<And>c. nxt c = responding (next c)"
  shows "await_result (call_mw (async_form k) nxt c) = responding (sync_form k c next)"
proof (cases k)
  case (Promoted m)
  then show ?thesis by (simp add: call_mw_def awaited_responding [OF assms])
next
  case (Lightweight pre)
  obtain x c' where p: "pre c = (x, c')" by (cases "pre c")
  show ?thesis
    using assms p by (cases x; cases "projr x")
      (auto simp: Lightweight call_mw_def await_result_def await_value_def responding_def sbind_def)
qed

lemma build_async_eq:
  "build_async (map async_form ks) (async_handler plain h) i c = responding (build (map sync_form ks) h i c)"
proof (induction "length ks - i" arbitrary: i c rule: less_induct)
  case less
  show ?case
  proof (cases "length ks \<le> i")
    case True
    then show ?thesis by (simp add: build_async.simps [of _ _ i] build.simps [of _ _ i] await_handler)
  next
    case False
    have "build_async (map async_form ks) (async_handler plain h) (Suc i) c = responding (build (map sync_form ks) h (Suc i) c)" for c
      by (rule less.hyps) (use False in simp)
    from call_async_form [of "\<lambda>c'. build_async (map async_form ks) (async_handler plain h) (Suc i) c'", OF this]
    show ?thesis
      using False by (simp add: build_async.simps [of _ _ i] build.simps [of _ _ i])
  qed
qed

text \<open>
  C18. The asynchronous pipeline is the synchronous one: with middlewares of the supported kinds and
  a handler of either kind, \<^verbatim>\<open>execute_async\<close> gives the response or exception and leaves the context
  exactly as \<^verbatim>\<open>execute\<close> does.
\<close>

theorem execute_async_agrees:
  "execute_async (map async_form gs) c (async_handler plain h) (map async_form rs) =
   responding (execute (map sync_form gs) c h (map sync_form rs))"
  using build_async_eq [of "gs @ rs" plain h 0 c] by (simp add: execute_async_def execute_def)

subsection \<open>The library's own middlewares are not of these kinds\<close>

text \<open>
  \<^verbatim>\<open>CORSMiddleware\<close> and \<^verbatim>\<open>CompressionMiddleware\<close> as the asynchronous pipeline calls them: \<^verbatim>\<open>call_next(req)\<close>
  gives a coroutine, which has no \<^verbatim>\<open>headers\<close>.
\<close>

definition headers_of :: "'c avalue \<Rightarrow> response result" where
  "headers_of v = (case v of Resp r \<Rightarrow> Inr r | Awaitable f \<Rightarrow> Inl (PyError ''AttributeError''))"

definition cors_plain :: "cors \<Rightarrow> 'w ctx amiddleware" where
  "cors_plain k = PlainDef (\<lambda>nxt c.
     let origin = cors_origin k (fst c);
         resp = (if q_method (fst c) = ''OPTIONS'' then Resp (Response [] 204 [] HTML) else Awaitable nxt)
     in if origin = [] then (Inr resp, c)
        else (case headers_of resp of Inl e \<Rightarrow> (Inl e, c) | Inr r \<Rightarrow> (Inr (Resp (add_cors k origin r)), c)))"

text \<open>
  The bundled CORS middleware breaks the asynchronous server: with the default configuration
  every request but \<^verbatim>\<open>OPTIONS\<close> fails with an \<^verbatim>\<open>AttributeError\<close>, which the server answers 500, and neither
  the later middlewares nor the handler run.
\<close>

theorem cors_breaks_async:
  assumes "q_method (fst c) \<noteq> ''OPTIONS''"
  shows "execute_async (cors_plain (CORSMiddleware [''*''] methods hs False age) # ms) c h rs = (Inl (PyError ''AttributeError''), c)"
  using assms
  by (simp add: execute_async_def build_async.simps [of _ _ 0] call_mw_def cors_plain_def cors_origin_def CORSMiddleware_def
      headers_of_def await_result_def Let_def)

lemma cors_breaks_async_witness:
  "execute_async [cors_plain (CORSMiddleware [''*''] [''GET''] [] False 60)] (sample_request ''GET'' ''/'' [], ())
     (async_handler True (\<lambda>c. (Inr (Response ''ok'' 200 [] HTML), c))) [] =
   (Inl (PyError ''AttributeError''), sample_request ''GET'' ''/'' [], ())"
  by (rule cors_breaks_async) (simp add: sample_request_def)

end
