(* ===== verification/Async_Server.thy ===== *)
theory Async_Server
  imports Async_Reader Async_Router Server
begin

section \<open>The asyncio server (\<^verbatim>\<open>async_server.py\<close>)\<close>

text \<open>
  One client of \<^verbatim>\<open>AsyncSovereignServer\<close> on the \<open>link\<close> of theory Server, with the stream's buffer
  beside it: the buffer outlives a request. The writer has no case for \<^verbatim>\<open>HEAD\<close>, and the loop neither
  upgrades to WebSocket nor runs background tasks. Log lines are left out.
\<close>

subsection \<open>Writing\<close>

text \<open>\<^verbatim>\<open>writer.write(data)\<close> and \<^verbatim>\<open>await writer.drain()\<close>: the drain reports a lost connection.\<close>

definition write_drain :: "bytes \<Rightarrow> 'w link \<Rightarrow> unit result \<times> 'w link" where
  "write_drain data s =
     (case sendall data s of
        (Inl e, s') \<Rightarrow> (Inl (PyError ''ConnectionResetError''), s')
      | (Inr u, s') \<Rightarrow> (Inr u, s'))"

definition send_headers_async ::
  "env \<Rightarrow> server_config \<Rightarrow> int \<Rightarrow> (str, str) dict \<Rightarrow> bool \<Rightarrow> 'w link \<Rightarrow> unit result \<times> 'w link" where
  "send_headers_async E c status hs keep s =
     (case response_head (http_date E (now s)) c status hs keep of
        Inl e \<Rightarrow> (Inl e, s)
      | Inr raw \<Rightarrow> write_drain raw s)"

fun send_chunks_async :: "bytes list \<Rightarrow> 'w link \<Rightarrow> unit result \<times> 'w link" where
  "send_chunks_async [] s = (Inr (), s)"
| "send_chunks_async (c # cs) s =
     (if c \<noteq> [] then sbind (write_drain (chunk_frame c) s) (\<lambda>_ s. send_chunks_async cs s)
      else send_chunks_async cs s)"

definition write_response_async ::
  "env \<Rightarrow> request \<Rightarrow> server_config \<Rightarrow> response \<Rightarrow> bool \<Rightarrow> 'w link \<Rightarrow> unit result \<times> 'w link" where
  "write_response_async E req c resp keep s =
     (let hs = d_setdefault ''X-Request-Id'' (request_id req) (r_headers resp) in
      case r_body resp of
        Stream chunks fail \<Rightarrow>
          sbind (send_headers_async E c (r_status resp)
                   (d_update [(''Content-Type'', r_ctype resp), (''Transfer-Encoding'', ''chunked'')] hs) keep s)
            (\<lambda>_ s. sbind (send_chunks_async chunks s)
            (\<lambda>_ s. case fail of Some e \<Rightarrow> (Inl e, s) | None \<Rightarrow> write_drain (''0'' @ CRLF @ CRLF) s))
      | Full b \<Rightarrow>
          sbind (send_headers_async E c (r_status resp)
                   (d_update [(''Content-Type'', r_ctype resp), (''Content-Length'', show_nat (length b))] hs) keep s)
            (\<lambda>_ s. if b \<noteq> [] then write_drain b s else (Inr (), s)))"

subsection \<open>Dispatch\<close>

text \<open>
  A handler is its body, run when it is awaited or by \<^verbatim>\<open>to_thread\<close>; what the body returns is awaited
  once more if it is awaitable. The coroutine functions of \<^verbatim>\<open>resolve_async\<close> give awaitables.
\<close>

record 'w aendpoint =
  aep_router :: "('w ctx coro, 'w ctx amiddleware) router"
  aep_docs :: "'w ctx coro"

fun async_target :: "'w aendpoint \<Rightarrow> 'w ctx coro target \<Rightarrow> 'w ctx coro" where
  "async_target ep Docs r = (Inr (Awaitable (aep_docs ep)), r)"
| "async_target ep (Bound h params) r =
     (Inr (Awaitable (\<lambda>r. await_result (h ((fst r)\<lparr>route_params := params\<rparr>, snd r)))), r)"
| "async_target ep Noop r = (Inr (Awaitable (\<lambda>r. (Inr (Resp (Response [] 204 [] HTML)), r))), r)"

definition async_dispatch :: "env \<Rightarrow> 'w aendpoint \<Rightarrow> 'w ctx coro" where
  "async_dispatch E ep r =
     (let req = fst r; ms = middlewares (aep_router ep) in
      if prefix ''/static/'' (path req) \<and> q_method req = ''GET''
      then execute_async ms r (\<lambda>r. responding (static_response E (fst r) ''/static/'', r)) []
      else (case resolve_async (aep_router ep) (q_method req) (path req) of
              Inl e \<Rightarrow> (Inl e, r)
            | Inr (t, route_mws) \<Rightarrow> execute_async ms r (async_target ep t) route_mws))"

definition async_answer :: "env \<Rightarrow> 'w aendpoint \<Rightarrow> server_config \<Rightarrow> nat \<Rightarrow> request \<Rightarrow> 'w link
    \<Rightarrow> turn result \<times> request \<times> 'w link" where
  "async_answer E ep c seen req s =
     (let keep = keeps_alive c req seen in
      case async_dispatch E ep (req, app s) of
        (Inl e, req', w) \<Rightarrow> (Inl e, req', s\<lparr>app := w\<rparr>)
      | (Inr v, req', w) \<Rightarrow>
          (case headers_of v of
             Inl e \<Rightarrow> (Inl e, req', s\<lparr>app := w\<rparr>)
           | Inr resp \<Rightarrow>
               (let (r, s') = sbind (write_response_async E req' c resp keep (s\<lparr>app := w\<rparr>))
                                (\<lambda>_ s. (Inr (if keep then Keep else Done), s))
                in (r, req', s'))))"

definition async_on_error ::
  "env \<Rightarrow> server_config \<Rightarrow> str \<times> int \<Rightarrow> request option \<Rightarrow> exn \<Rightarrow> 'w link \<Rightarrow> unit result \<times> 'w link" where
  "async_on_error E c addr req e s =
     (case e of
        ClientClosed \<Rightarrow> (Inr (), s)
      | HTTPError status msg hs \<Rightarrow>
          (let (dummy, s') = dummy_request E c addr req s;
               resp = error_response status msg
           in write_response_async E dummy c (resp\<lparr>r_headers := d_update (r_headers resp) hs\<rparr>) False s')
      | _ \<Rightarrow>
          (let (dummy, s') = dummy_request E c addr req s
           in write_response_async E dummy c (error_response 500 ''Internal Server Error'') False s'))"

subsection \<open>The loop\<close>

definition areader_of :: "bytes \<Rightarrow> 'w link \<Rightarrow> server_config \<Rightarrow> areader" where
  "areader_of buf s c = \<lparr>arrivals = arrivals s, now = now s, abuf = buf, acfg = c\<rparr>"

definition of_areader :: "areader \<Rightarrow> 'w link \<Rightarrow> 'w link" where
  "of_areader rd s = s\<lparr>arrivals := arrivals rd, now := now rd\<rparr>"

text \<open>What the loop does with one request or with the exception of parsing it.\<close>

definition async_turn ::
  "env \<Rightarrow> 'w aendpoint \<Rightarrow> server_config \<Rightarrow> str \<times> int \<Rightarrow> nat \<Rightarrow> request result \<Rightarrow> 'w link \<Rightarrow> (turn \<times> unit result) \<times> 'w link" where
  "async_turn E ep c addr seen parsed s =
     (case parsed of
        Inl e \<Rightarrow> (let (r, s') = async_on_error E c addr None e s in ((Done, r), s'))
      | Inr req \<Rightarrow>
          (let (req', s1) = assign_id E req s in
           case async_answer E ep c (Suc seen) req' s1 of
             (Inl e, req'', s2) \<Rightarrow> (let (r, s') = async_on_error E c addr (Some req'') e s2 in ((Done, r), s'))
           | (Inr t, req'', s2) \<Rightarrow> ((t, Inr ()), s2)))"

function client_loop ::
  "env \<Rightarrow> 'w aendpoint \<Rightarrow> server_config \<Rightarrow> str \<times> int \<Rightarrow> nat \<Rightarrow> bytes \<Rightarrow> 'w link \<Rightarrow> unit result \<times> 'w link" where
  "client_loop E ep c addr seen buf s =
     (if int seen < max_keepalive_requests c then
        (case parse_async_request (netloc_ok E) (areader_of buf s c) addr c of
           (parsed, rd) \<Rightarrow>
             (case async_turn E ep c addr seen parsed (of_areader rd s) of
                ((Keep, _), s') \<Rightarrow> client_loop E ep c addr (Suc seen) (abuf rd) s'
              | ((Done, r), s') \<Rightarrow> (r, s')))
      else (Inr (), s))"
  by pat_completeness auto
termination
  by (relation "measure (\<lambda>(E, ep, c, addr, seen, buf, s). nat (max_keepalive_requests c - int seen))") auto

declare client_loop.simps [simp del]

text \<open>
  \<^verbatim>\<open>handle_client\<close> says whether it closed the writer: an exception that leaves the loop skips the
  closing.
\<close>

definition handle_client ::
  "env \<Rightarrow> 'w aendpoint \<Rightarrow> server_config \<Rightarrow> str \<times> int \<Rightarrow> 'w link \<Rightarrow> (unit result \<times> bool) \<times> 'w link" where
  "handle_client E ep c addr s =
     (case client_loop E ep c addr 0 [] s of
        (Inl e, s') \<Rightarrow> ((Inl e, False), s')
      | (Inr u, s') \<Rightarrow> ((Inr u, True), s'))"

end
