(* ===== verification/Lifecycle.thy ===== *)
theory Lifecycle
  imports Listener Tasks Async_Server
begin

section \<open>Starting and stopping the servers (\<^verbatim>\<open>server.py\<close>, \<^verbatim>\<open>async_server.py\<close>)\<close>

text \<open>
  The life of a server around its accept loop: the startup hooks of the router in their order, the
  task queue, the loop of theory Listener, the shutdown hooks in reverse order. A hook works on the
  application state. Creating directories, the socket, TLS and the log are left out.
\<close>

type_synonym 'w hook = "'w \<Rightarrow> unit result \<times> 'w"

fun run_startup :: "'w hook list \<Rightarrow> 'w \<Rightarrow> unit result \<times> 'w" where
  "run_startup [] w = (Inr (), w)"
| "run_startup (h # hs) w = sbind (h w) (\<lambda>_ w. run_startup hs w)"

text \<open>An exception of a shutdown hook is logged and the next hook runs.\<close>

fun run_hooks :: "'w hook list \<Rightarrow> 'w \<Rightarrow> 'w" where
  "run_hooks [] w = w"
| "run_hooks (h # hs) w = run_hooks hs (snd (h w))"

definition run_shutdown :: "'w hook list \<Rightarrow> 'w \<Rightarrow> 'w" where
  "run_shutdown hs w = run_hooks (rev hs) w"

record 'w server =
  sv_listener :: listener
  sv_queue :: queue
  sv_app :: 'w

text \<open>
  \<^verbatim>\<open>serve_forever\<close> up to the loop: an exception of a startup hook leaves it before the task queue is
  started and outside the \<^verbatim>\<open>try\<close> that would shut the server down.
\<close>

definition serve_start :: "'w hook list \<Rightarrow> 'w server \<Rightarrow> unit result \<times> 'w server" where
  "serve_start hs sv =
     (case run_startup hs (sv_app sv) of
        (Inl e, w) \<Rightarrow> (Inl e, sv\<lparr>sv_app := w\<rparr>)
      | (Inr _, w) \<Rightarrow> (Inr (), sv\<lparr>sv_app := w, sv_queue := start (sv_queue sv)\<rparr>))"

definition serve_stop :: "'w hook list \<Rightarrow> bool \<Rightarrow> 'w server \<Rightarrow> 'w server" where
  "serve_stop hs joined sv =
     sv\<lparr>sv_listener := shutdown (sv_listener sv), sv_app := run_shutdown hs (sv_app sv),
        sv_queue := stop joined (sv_queue sv)\<rparr>"

text \<open>The asyncio server awaits a hook that returned a coroutine and has no task queue.\<close>

datatype 'w ahook = Sync "'w hook" | Async "'w \<Rightarrow> (exn + 'w hook) \<times> 'w"

definition run_ahook :: "'w ahook \<Rightarrow> 'w hook" where
  "run_ahook h w = (case h of Sync f \<Rightarrow> f w | Async f \<Rightarrow> sbind (f w) (\<lambda>co w. co w))"

definition astart :: "'w ahook list \<Rightarrow> 'w \<Rightarrow> unit result \<times> 'w" where
  "astart hs w = run_startup (map run_ahook hs) w"

definition ashutdown :: "'w ahook list \<Rightarrow> 'w \<Rightarrow> 'w" where
  "ashutdown hs w = run_shutdown (map run_ahook hs) w"

lemma run_hooks_append: "run_hooks (hs @ ks) w = run_hooks ks (run_hooks hs w)"
  by (induction hs arbitrary: w) simp_all

text \<open>Every shutdown hook runs, the last registered first, and the failing ones stop nothing.\<close>

lemma run_shutdown_snoc: "run_shutdown (hs @ [h]) w = run_shutdown hs (snd (h w))"
  by (simp add: run_shutdown_def)

lemma serve_start_failed:
  "serve_start hs sv = (Inl e, sv') \<Longrightarrow> sv_queue sv' = sv_queue sv \<and> sv_listener sv' = sv_listener sv"
  by (auto simp: serve_start_def split: prod.splits sum.splits)

text \<open>After \<^verbatim>\<open>shutdown\<close> the pool refuses tasks and only its threads' steps are left to do.\<close>

lemma serve_stop_refuses:
  "submit_background t (sv_listener (serve_stop hs joined sv)) =
    (Inl (PyError ''RuntimeError''), sv_listener (serve_stop hs joined sv))"
  by (simp add: serve_stop_def submit_background_def shutdown_def)

end
