(* ===== verification/Async_Injection.thy ===== *)
theory Async_Injection
  imports Injection
begin

section \<open>Dependency injection on the event loop (\<^verbatim>\<open>router.py\<close>)\<close>

text \<open>
  A coroutine runs on the shared state until it returns or suspends with what is left of it; other
  tasks of the event loop run in between. Awaiting another coroutine suspends only where that one
  does.
\<close>

datatype ('s, 'a) co = Co (resume: "'s \<Rightarrow> ('a + ('s, 'a) co) \<times> 's")

definition co_done :: "'a \<Rightarrow> ('s, 'a) co" where
  "co_done a = Co (\<lambda>s. (Inl a, s))"

definition suspend :: "('s, 'a) co \<Rightarrow> ('s, 'a) co" where
  "suspend c = Co (\<lambda>s. (Inr c, s))"

primrec co_await :: "('s, 'a) co \<Rightarrow> ('a \<Rightarrow> ('s, 'b) co) \<Rightarrow> ('s, 'b) co" where
  "co_await (Co f) k = Co (\<lambda>s.
     case (map_prod (map_sum id (\<lambda>c. co_await c k)) id \<circ> f) s of
       (Inl a, s') \<Rightarrow> resume (k a) s'
     | (Inr c, s') \<Rightarrow> (Inr c, s'))"

text \<open>\<open>run_co\<close> runs a coroutine while nothing else does.\<close>

primrec run_co :: "('s, 'a) co \<Rightarrow> 's \<Rightarrow> 'a \<times> 's" where
  "run_co (Co f) = (\<lambda>s.
     case (map_prod (map_sum id run_co) id \<circ> f) s of
       (Inl a, s') \<Rightarrow> (a, s')
     | (Inr g, s') \<Rightarrow> g s')"

lemma run_co_simps [simp]:
  "run_co (co_done a) s = (a, s)" "run_co (suspend c) s = run_co c s"
  by (simp_all add: co_done_def suspend_def)

lemma run_co_resume: "run_co c s = (case resume c s of (Inl a, s') \<Rightarrow> (a, s') | (Inr c', s') \<Rightarrow> run_co c' s')"
  by (cases c) (auto split: prod.split sum.split)

lemma run_co_await: "run_co (co_await c k) s = (case run_co c s of (a, s') \<Rightarrow> run_co (k a) s')"
proof (induction c arbitrary: s)
  case (Co f)
  obtain x s' where f: "f s = (x, s')" by force
  show ?case
  proof (cases x)
    case (Inl a)
    with f show ?thesis by (simp add: run_co_resume [of "k a"] split: prod.split sum.split)
  next
    case (Inr c)
    have "run_co (co_await c k) s' = (case run_co c s' of (a, s'') \<Rightarrow> run_co (k a) s'')"
      by (rule Co.IH [of "f s" x c]) (use f Inr in \<open>auto simp: setr.simps intro: range_eqI [of _ f s, OF sym]\<close>)
    with f Inr show ?thesis by simp
  qed
qed

subsection \<open>The resolver\<close>

text \<open>
  A result travels with the request, which belongs to its task; the singletons are shared. \<open>co_try\<close>
  goes on unless the awaited coroutine raised, \<open>look\<close> reads the shared state without suspending.
\<close>

type_synonym ('w, 'a) dico = "('w di_world, 'a result \<times> request) co"

definition co_try :: "('w, 'a) dico \<Rightarrow> ('a \<Rightarrow> request \<Rightarrow> ('w, 'b) dico) \<Rightarrow> ('w, 'b) dico" where
  "co_try c f = co_await c (\<lambda>(x, req). case x of Inl e \<Rightarrow> co_done (Inl e, req) | Inr v \<Rightarrow> f v req)"

definition look :: "('s \<Rightarrow> ('s, 'a) co) \<Rightarrow> ('s, 'a) co" where
  "look g = Co (\<lambda>s. resume (g s) s)"

definition store :: "('s \<Rightarrow> 's) \<Rightarrow> 'a \<Rightarrow> ('s, 'a) co" where
  "store f a = Co (\<lambda>s. (Inl a, f s))"

text \<open>\<^verbatim>\<open>asyncio.to_thread\<close>: the call runs in another thread while the loop serves other tasks.\<close>

definition to_thread :: "('s, 'a) co \<Rightarrow> ('s, 'a) co" where
  "to_thread c = suspend (co_await c (\<lambda>a. suspend (co_done a)))"

record 'w aprovider =
  ap_params :: "(str \<times> param) list"
  ap_attr :: "str option"
  ap_async :: bool
  ap_call :: "kwargs \<Rightarrow> request \<Rightarrow> ('w, obj) dico"

fun gather_async :: "bool \<Rightarrow> (marker \<Rightarrow> request \<Rightarrow> ('w, obj) dico) \<Rightarrow> (str \<times> param) list \<Rightarrow> request \<Rightarrow> ('w, kwargs) dico" where
  "gather_async with_req res [] req = co_done (Inr [], req)"
| "gather_async with_req res ((name, p) # ps) req =
     (if name = ''req'' \<or> p = PReq then
        co_try (gather_async with_req res ps req) (\<lambda>kw req. co_done (Inr (if with_req then (name, AReq) # kw else kw), req))
      else (case p of
          PInject m \<Rightarrow> co_try (res m req) (\<lambda>v req.
            co_try (gather_async with_req res ps req) (\<lambda>kw req. co_done (Inr ((name, AObj v) # kw), req)))
        | _ \<Rightarrow> gather_async with_req res ps req))"

definition invoke_provider_async :: "(str \<Rightarrow> 'w aprovider) \<Rightarrow> (marker \<Rightarrow> request \<Rightarrow> ('w, obj) dico) \<Rightarrow>
    str \<Rightarrow> request \<Rightarrow> ('w, obj) dico" where
  "invoke_provider_async tbl res p req =
     co_try (gather_async True res (ap_params (tbl p)) req) (\<lambda>kw req.
       if ap_async (tbl p) then ap_call (tbl p) kw req else to_thread (ap_call (tbl p) kw req))"

text \<open>
  The same container on the threaded server, where \<^verbatim>\<open>asyncio.run\<close> runs a coroutine to its end.
\<close>

definition alone :: "('w, 'a) dico \<Rightarrow> 'w di_world \<Rightarrow> 'a result \<times> 'w di_world ctx" where
  "alone c w = (case run_co c w of ((x, req), w') \<Rightarrow> (x, (req, w')))"

definition threaded :: "(str \<Rightarrow> 'w aprovider) \<Rightarrow> str \<Rightarrow> 'w provider" where
  "threaded tbl p = \<lparr>p_params = ap_params (tbl p), p_attr = ap_attr (tbl p),
     p_call = (\<lambda>kw r. alone (ap_call (tbl p) kw (fst r)) (snd r))\<rparr>"

primrec resolve_dependency_async :: "nat \<Rightarrow> (str \<Rightarrow> 'w aprovider) \<Rightarrow> marker \<Rightarrow> request \<Rightarrow> ('w, obj) dico" where
  "resolve_dependency_async 0 tbl m req = co_done (Inl (PyError ''RecursionError''), req)"
| "resolve_dependency_async (Suc depth) tbl m req = look (\<lambda>w.
     let p = chosen w m; scope = effective_scope (threaded tbl) m p;
         make = invoke_provider_async tbl (resolve_dependency_async depth tbl) p req
     in if scope = ''singleton'' then
          (case d_get (singletons w) p of
             Some v \<Rightarrow> co_done (Inr v, req)
           | None \<Rightarrow> co_try make (\<lambda>v req. store (\<lambda>w. w\<lparr>singletons := d_set p v (singletons w)\<rparr>) (Inr v, req)))
        else if scope = ''request'' then
          (case d_get (di_cache req) p of
             Some v \<Rightarrow> co_done (Inr v, req)
           | None \<Rightarrow> co_try make (\<lambda>v req. co_done (Inr v, req\<lparr>di_cache := d_set p v (di_cache req)\<rparr>)))
        else make)"

text \<open>\<^verbatim>\<open>_call_handler_async\<close>.\<close>

record 'w adi_handler =
  ah_params :: "(str \<times> param) list"
  ah_async :: bool
  ah_call :: "kwargs \<Rightarrow> request \<Rightarrow> ('w, response) dico"

definition call_handler_async :: "nat \<Rightarrow> (str \<Rightarrow> 'w aprovider) \<Rightarrow> 'w adi_handler \<Rightarrow> request \<Rightarrow> ('w, response) dico" where
  "call_handler_async depth tbl h req =
     co_try (gather_async False (resolve_dependency_async depth tbl) (ah_params h) req) (\<lambda>kw req.
       if ah_async h then ah_call h kw req else to_thread (ah_call h kw req))"

definition threaded_handler :: "'w adi_handler \<Rightarrow> 'w di_handler" where
  "threaded_handler h = \<lparr>h_params = ah_params h, h_call = (\<lambda>kw r. alone (ah_call h kw (fst r)) (snd r))\<rparr>"

subsection \<open>Alone, a task resolves as a thread does\<close>

lemma alone_simps [simp]:
  "alone (co_done (x, req)) w = (x, (req, w))" "alone (suspend c) w = alone c w"
  "alone (to_thread c) w = alone c w" "alone (look g) w = alone (g w) w"
  "alone (store f (x, req)) w = (x, (req, f w))"
proof -
  show "alone (to_thread c) w = alone c w"
    by (simp add: alone_def to_thread_def run_co_await split: prod.split)
  show "alone (look g) w = alone (g w) w"
    by (simp add: alone_def look_def run_co_resume [of "g w"] split: prod.split sum.split)
qed (simp_all add: alone_def store_def)

lemma alone_try: "alone (co_try c f) w = sbind (alone c w) (\<lambda>v (req, w). alone (f v req) w)"
  by (cases "run_co c w"; cases "fst (fst (run_co c w))")
    (auto simp: alone_def co_try_def run_co_await split: prod.splits sum.splits)

lemma alone_gather:
  assumes "\<And>m req w. alone (res m req) w = res' m (req, w)"
  shows "alone (gather_async b res ps req) w = gather b res' ps (req, w)"
proof (induction ps arbitrary: req w)
  case (Cons x ps)
  obtain name p where x: "x = (name, p)" by force
  show ?case
    by (cases p) (auto simp: x alone_try assms Cons.IH intro!: arg_cong2 [of _ _ _ _ sbind] ext)
qed simp

lemma alone_resolve: "alone (resolve_dependency_async depth tbl m req) w = resolve_dependency depth (threaded tbl) m (req, w)"
proof (induction depth arbitrary: m req w)
  case (Suc depth)
  have i: "alone (invoke_provider_async tbl (resolve_dependency_async depth tbl) p req) w =
      invoke_provider (threaded tbl) (resolve_dependency depth (threaded tbl)) p (req, w)" for p req w
    unfolding invoke_provider_async_def invoke_provider_def alone_try alone_gather [OF Suc.IH]
    by (auto simp: threaded_def intro!: arg_cong2 [of _ _ _ _ sbind] ext)
  show ?case
    by (auto simp: Let_def alone_try i split: option.split intro!: arg_cong2 [of _ _ _ _ sbind] ext)
qed simp

text \<open>
  A request that has the event loop to itself gets the dependencies the threaded server would
  give it: the same objects or exception, the same caches and state, whether providers and handler
  are coroutine functions or plain ones run in a thread.
\<close>

theorem async_injection_agrees:
  "alone (call_handler_async depth tbl h req) w =
   call_handler depth (threaded tbl) (threaded_handler h) (req, w)"
  unfolding call_handler_async_def call_handler_def alone_try alone_gather [OF alone_resolve]
  by (auto simp: threaded_handler_def intro!: arg_cong2 [of _ _ _ _ sbind] ext)

subsection \<open>Tasks interleave where they suspend\<close>

definition task_step :: "nat \<Rightarrow> (('s, 'a) co + 'a) list \<times> 's \<Rightarrow> (('s, 'a) co + 'a) list \<times> 's" where
  "task_step i x =
     (case x of (ts, s) \<Rightarrow>
        (case ts ! i of
           Inr a \<Rightarrow> (ts, s)
         | Inl c \<Rightarrow> (case resume c s of
               (Inl a, s') \<Rightarrow> (ts[i := Inr a], s')
             | (Inr c', s') \<Rightarrow> (ts[i := Inl c'], s'))))"

definition pool_table :: "str \<Rightarrow> nat aprovider" where
  "pool_table p = \<lparr>ap_params = [], ap_attr = Some ''singleton'', ap_async = False,
     ap_call = (\<lambda>kw req. Co (\<lambda>w. (Inl (Inr (outer w), req), w\<lparr>outer := Suc (outer w)\<rparr>)))\<rparr>"

definition pool_marker :: marker where
  "pool_marker = \<lparr>m_provider = ''pool'', m_scope = None\<rparr>"

text \<open>
  Two requests that need the same singleton at the same time each make one: when the provider runs
  in a thread, the second task finds the cache empty while the first one waits, the two handlers get
  different objects, and the cache keeps the later one.
\<close>

theorem singleton_race:
  "fold task_step [0, 1, 0, 1, 0, 1]
     ([Inl (resolve_dependency_async (Suc depth) pool_table pool_marker req1),
       Inl (resolve_dependency_async (Suc depth) pool_table pool_marker req2)],
      \<lparr>singletons = [], overrides = [], outer = 0\<rparr>) =
   ([Inr (Inr 0, req1), Inr (Inr 1, req2)], \<lparr>singletons = [(''pool'', 1)], overrides = [], outer = 2\<rparr>)"
  by (simp add: task_step_def pool_marker_def look_def Let_def chosen_def effective_scope_def threaded_def pool_table_def
      invoke_provider_async_def to_thread_def co_try_def co_done_def suspend_def store_def d_set_def)

end
