(* ===== verification/Async_Reader_Props.thy ===== *)
theory Async_Reader_Props
  imports Async_Reader
begin

section \<open>The asyncio parser reads what the threaded parser reads\<close>

text \<open>
  An asyncio reader is \<open>a_prompt T\<close> when what is still to arrive is data, all of it within \<open>T\<close>
  seconds. Every stream operation with that budget is then a function of the pending bytes.
\<close>

definition is_data :: "rat \<times> arrival \<Rightarrow> bool" where
  "is_data a = (0 \<le> fst a \<and> snd a \<noteq> Reset)"

definition a_prompt :: "rat \<Rightarrow> areader \<Rightarrow> bool" where
  "a_prompt T rd = (list_all is_data (arrivals rd) \<and> sum_list (map fst (arrivals rd)) \<le> T)"

lemma a_prompt_abuf [simp]: "a_prompt T (rd\<lparr>abuf := b\<rparr>) = a_prompt T rd"
  by (simp add: a_prompt_def)

lemma sum_is_data: "list_all is_data xs \<Longrightarrow> 0 \<le> sum_list (map fst xs)"
  by (induction xs) (auto simp: is_data_def)

lemma a_prompt_mono: "a_prompt S rd \<Longrightarrow> S \<le> T \<Longrightarrow> a_prompt T rd"
  by (simp add: a_prompt_def)

lemma feed_prompt:
  assumes "a_prompt T rd" "T \<le> t" "incoming rd \<noteq> []"
  obtains d rd' where "feed t rd = Fed (t - d) rd'" "a_prompt (T - d) rd'" "T - d \<le> t - d" "0 \<le> d"
proof -
  from assms(3) obtain d ev rest where a: "arrivals rd = (d, ev) # rest"
    by (cases "arrivals rd") (auto simp: incoming_def)
  with assms(1) obtain b where b: "ev = Data b" "0 \<le> d" "list_all is_data rest" "d + sum_list (map fst rest) \<le> T"
    by (cases ev) (auto simp: a_prompt_def is_data_def)
  then have "\<not> t < d" using sum_is_data [of rest] assms(2) by linarith
  with a b assms(2) show thesis
    by (intro that [of d "rd\<lparr>arrivals := rest, now := now rd + d, abuf := abuf rd @ b\<rparr>"])
      (auto simp: feed_def a_prompt_def)
qed

lemma readuntil_complete:
  "\<lbrakk>a_prompt T rd; T \<le> t; sep \<noteq> []; split1 sep (a_pending rd) = Some (a, b); length a \<le> stream_limit\<rbrakk> \<Longrightarrow>
   \<exists>rd'. readuntil sep t rd = (Read (a @ sep), rd') \<and> a_pending rd' = b \<and> a_prompt T rd' \<and> acfg rd' = acfg rd"
proof (induction sep t rd arbitrary: T rule: readuntil.induct)
  case (1 sep t rd)
  note u = readuntil.simps [of sep t rd]
  show ?case
  proof (cases "split1 sep (abuf rd)")
    case None
    have "length (abuf rd) < length a + length sep"
      using split1_short [of sep "abuf rd" "incoming rd"] 1 None by (simp add: a_pending_def)
    then have lim: "\<not> stream_limit < length (abuf rd) + 1 - length sep" using "1.prems"(5) by linarith
    have "incoming rd \<noteq> []" using 1 None by (auto simp: a_pending_def)
    then obtain d rd1 where f: "feed t rd = Fed (t - d) rd1" "a_prompt (T - d) rd1" "T - d \<le> t - d" "0 \<le> d"
      using feed_prompt "1.prems"(1,2) by metis
    have p: "a_pending rd1 = a_pending rd" "acfg rd1 = acfg rd" using feed_pending(1) [OF f(1)] by simp_all
    have "\<exists>rd'. readuntil sep (t - d) rd1 = (Read (a @ sep), rd') \<and> a_pending rd' = b \<and>
        a_prompt (T - d) rd' \<and> acfg rd' = acfg rd1"
      by (rule "1.IH" [OF None refl lim f(1) f(2,3)]) (use 1 p in simp_all)
    then obtain rd' where "readuntil sep (t - d) rd1 = (Read (a @ sep), rd')" "a_pending rd' = b"
      "a_prompt (T - d) rd'" "acfg rd' = acfg rd1" by blast
    moreover from this f(4) have "a_prompt T rd'" using a_prompt_mono by auto
    ultimately show ?thesis using None lim f(1) p by (simp add: u Let_def)
  next
    case (Some q)
    obtain a' b' where q: "q = (a', b')" by force
    with Some 1 have "split1 sep (a_pending rd) = Some (a', b' @ incoming rd)"
      by (simp add: a_pending_def split1_extend)
    with 1 Some q show ?thesis by (simp add: u a_pending_abuf)
  qed
qed

lemma readexactly_complete:
  "\<lbrakk>a_prompt T rd; T \<le> t; n \<le> length (a_pending rd)\<rbrakk> \<Longrightarrow>
   \<exists>rd'. readexactly n t rd = (Read (take n (a_pending rd)), rd') \<and> a_pending rd' = drop n (a_pending rd) \<and>
     a_prompt T rd' \<and> acfg rd' = acfg rd"
proof (induction n t rd arbitrary: T rule: readexactly.induct)
  case (1 n t rd)
  note u = readexactly.simps [of n t rd]
  show ?case
  proof (cases "n \<le> length (abuf rd)")
    case True
    with 1 show ?thesis by (simp add: u a_pending_abuf) (simp add: a_pending_def)
  next
    case False
    then have "incoming rd \<noteq> []" using "1.prems"(3) by (auto simp: a_pending_def)
    then obtain d rd1 where f: "feed t rd = Fed (t - d) rd1" "a_prompt (T - d) rd1" "T - d \<le> t - d" "0 \<le> d"
      using feed_prompt "1.prems"(1,2) by metis
    have p: "a_pending rd1 = a_pending rd" "acfg rd1 = acfg rd" using feed_pending(1) [OF f(1)] by simp_all
    obtain rd' where "readexactly n (t - d) rd1 = (Read (take n (a_pending rd1)), rd')"
      "a_pending rd' = drop n (a_pending rd1)" "a_prompt (T - d) rd'" "acfg rd' = acfg rd1"
      using "1.IH" [OF False f(1) f(2,3)] "1.prems"(3) p by auto
    moreover from this f(4) have "a_prompt T rd'" using a_prompt_mono by auto
    ultimately show ?thesis using False f(1) p by (simp add: u)
  qed
qed

lemma a_read_exact_complete:
  assumes "a_prompt T rd" "T \<le> body_idle_timeout (acfg rd)" "a_pending rd = d @ rest"
  shows "\<exists>rd'. a_read_exact (int (length d)) rd = (Inr d, rd') \<and> a_pending rd' = rest \<and> a_prompt T rd' \<and>
     acfg rd' = acfg rd"
  using readexactly_complete [OF assms(1,2), of "length d"] assms(3) by (auto simp: a_read_exact_def)

lemma a_read_headers_complete:
  assumes p: "a_prompt T rd" and t: "T \<le> header_idle_timeout (acfg rd)"
    and w: "clean_head (acfg rd) m u hs" and l: "max_header_bytes (acfg rd) \<le> int stream_limit"
    and pd: "a_pending rd = request_head m u hs @ CRLF @ CRLF @ rest"
  shows "\<exists>rd'. a_read_headers rd = (Inr (request_head m u hs @ CRLF @ CRLF), rd') \<and>
     a_pending rd' = rest \<and> a_prompt T rd' \<and> acfg rd' = acfg rd"
proof -
  have len: "int (length (request_head m u hs)) \<le> max_header_bytes (acfg rd)"
    using w by (simp add: clean_head_def)
  have "split1 (CRLF @ CRLF) (a_pending rd) = Some (request_head m u hs, rest)"
    unfolding pd by (rule split1_request_head [OF w])
  then obtain rd' where "readuntil (CRLF @ CRLF) (header_idle_timeout (acfg rd)) rd =
      (Read (request_head m u hs @ CRLF @ CRLF), rd')" "a_pending rd' = rest" "a_prompt T rd'" "acfg rd' = acfg rd"
    using readuntil_complete [OF p t, of "CRLF @ CRLF"] len l by auto
  with len show ?thesis by (simp add: a_read_headers_def)
qed

lemma parse_async_request_complete:
  assumes "clean_head c m u hs" and "declared_body hs body"
    and "int (length body) \<le> max_body_bytes c" and "max_body_bytes c < 2 ^ 64"
    and "max_header_bytes c \<le> int stream_limit"
    and "a_prompt T rd" and "T \<le> header_idle_timeout c" and "T \<le> body_idle_timeout c"
    and "a_pending rd = request_head m u hs @ CRLF @ CRLF @ body @ rest"
  shows "\<exists>rd'. parse_async_request ok rd addr c =
      (Request ok (upper m) u ''HTTP/1.1'' hs hs (InMemory body) (int (length body)) addr c, rd') \<and>
      a_pending rd' = rest \<and> a_prompt T rd'"
proof -
  let ?rd = "rd\<lparr>acfg := c\<rparr>"
  have p: "a_prompt T ?rd" "a_pending ?rd = a_pending rd"
    using assms(6) by (simp_all add: a_prompt_def a_pending_def incoming_def)
  obtain rd1 where r1: "a_read_headers ?rd = (Inr (request_head m u hs @ CRLF @ CRLF), rd1)"
    "a_pending rd1 = body @ rest" "a_prompt T rd1" "acfg rd1 = c"
    using a_read_headers_complete [OF p(1), of m u hs "body @ rest"] p(2) assms by auto
  have cl: "content_length hs = Inr (int (length body))"
    using content_length_declared [OF assms(2)] assms(3,4) by simp
  have nc: "\<not> is_chunked hs"
    using assms(2) by (simp add: declared_body_def is_chunked_def lower_def)
  have "\<exists>rd'. a_read_body hs rd1 = (Inr (body, int (length body)), rd') \<and> a_pending rd' = rest \<and> a_prompt T rd'"
  proof (cases "body = []")
    case True
    with cl nc r1 show ?thesis by (simp add: a_read_body_def)
  next
    case False
    obtain rd' where "a_read_exact (int (length body)) rd1 = (Inr body, rd')" "a_pending rd' = rest" "a_prompt T rd'"
      using a_read_exact_complete [OF r1(3) _ r1(2)] r1(4) assms(8) by auto
    with False cl nc r1(4) assms(3) show ?thesis by (simp add: a_read_body_def a_read_exact_body_def)
  qed
  then show ?thesis
    using r1 parse_header_block_complete [OF assms(1)] by (auto simp: parse_async_request_def)
qed


definition slow_areader :: areader where
  "slow_areader = \<lparr>arrivals = [(1/4, Data (''1.1'' @ CRLF @ ''host: h'' @ CRLF)),
      (1/2, Data (''content-length: 2'' @ CRLF @ CRLF @ ''hiGET''))],
     now = 7, abuf = ''POST /a HTTP/'', acfg = DEFAULT_CONFIG\<rparr>"


end
