(* ===== verification/Async_Server_Props.thy ===== *)
theory Async_Server_Props
  imports Async_Reader_Props Async_Server Server_Props
begin

section \<open>What the asyncio server sends\<close>

subsection \<open>The writer\<close>

lemma write_drain_sendall: "takes s = None \<Longrightarrow> write_drain d s = sendall d s"
  by (simp add: write_drain_def sendall_def)

lemma takes_sendall: "takes s = None \<Longrightarrow> takes (snd (sendall d s)) = None \<and> fst (sendall d s) = Inr ()"
  by (simp add: sendall_def)

lemma send_chunks_async_eq: "takes s = None \<Longrightarrow> send_chunks_async cs s = send_chunks cs s"
proof (induction cs arbitrary: s)
  case (Cons c cs)
  then show ?case
    using takes_sendall [of s "chunk_frame c"]
    by (cases "sendall (chunk_frame c) s") (auto simp: write_drain_sendall)
qed simp

lemma send_headers_async_eq: "takes s = None \<Longrightarrow> send_headers_async E c st hs keep s = send_headers E c st hs keep s"
  by (simp add: send_headers_async_def send_headers_def write_drain_sendall split: sum.split)

lemma takes_send_headers: "takes s = None \<Longrightarrow> takes (snd (send_headers E c st hs keep s)) = None"
  using takes_sendall by (auto simp: send_headers_def split: sum.split)

lemma takes_send_chunks: "takes s = None \<Longrightarrow> takes (snd (send_chunks cs s)) = None"
proof (induction cs arbitrary: s)
  case (Cons c cs)
  then show ?case
    using takes_sendall [of s "chunk_frame c"] by (cases "sendall (chunk_frame c) s") auto
qed simp

lemma sbind_eq:
  assumes "\<And>a s. m = (Inr a, s) \<Longrightarrow> f a s = g a s"
  shows "sbind m f = sbind m g"
  using assms by (cases m; cases "fst m") auto

text \<open>
  The asyncio writer writes what the threaded one writes for a \<^verbatim>\<open>GET\<close>, whatever the method is: the
  same head and body on a sound connection, so the answer to a \<^verbatim>\<open>HEAD\<close> request carries the body.
\<close>

theorem async_writer_answers_as_get:
  assumes "takes s = None"
  shows "write_response_async E req c resp keep s = write_response E (req\<lparr>q_method := ''GET''\<rparr>) c resp keep s"
proof (cases "r_body resp")
  case (Full b)
  let ?h = "send_headers E c (r_status resp) (d_update [(''Content-Type'', r_ctype resp), (''Content-Length'', show_nat (length b))]
    (d_setdefault ''X-Request-Id'' (request_id req) (r_headers resp))) keep s"
  have "takes s' = None" if "?h = (Inr u, s')" for u s'
    using takes_send_headers [OF assms] that by (metis snd_conv)
  then show ?thesis
    unfolding write_response_async_def write_response_def Full Let_def send_headers_async_eq [OF assms]
    by (simp, intro sbind_eq) (auto simp: write_drain_sendall)
next
  case (Stream cs f)
  let ?h = "send_headers E c (r_status resp) (d_update [(''Content-Type'', r_ctype resp), (''Transfer-Encoding'', ''chunked'')]
    (d_setdefault ''X-Request-Id'' (request_id req) (r_headers resp))) keep s"
  have h: "takes s' = None" if "?h = (Inr u, s')" for u s'
    using takes_send_headers [OF assms] that by (metis snd_conv)
  have ch: "takes s2 = None" if "takes s1 = None" "send_chunks cs s1 = (Inr u, s2)" for s1 s2 u
    using takes_send_chunks that by (metis snd_conv)
  have "sbind (send_chunks_async cs s1) (\<lambda>_ s. case f of Some e \<Rightarrow> (Inl e, s) | None \<Rightarrow> write_drain (''0'' @ CRLF @ CRLF) s) =
      sbind (send_chunks cs s1) (\<lambda>_ s. case f of Some e \<Rightarrow> (Inl e, s) | None \<Rightarrow> sendall (''0'' @ CRLF @ CRLF) s)"
    if t: "takes s1 = None" for s1
    unfolding send_chunks_async_eq [OF t]
    by (rule sbind_eq) (use ch [OF t] in \<open>simp add: write_drain_sendall split: option.split\<close>)
  with h show ?thesis
    unfolding write_response_async_def write_response_def Stream Let_def send_headers_async_eq [OF assms]
    by (simp, intro sbind_eq) simp
qed

definition head_request :: request where
  "head_request = sample_request ''HEAD'' ''/'' []"

theorem async_writer_answers_as_get_witness:
  "write_response_async sample_env head_request DEFAULT_CONFIG (Response ''body'' 200 [] HTML) True sample_link =
   write_response sample_env (head_request\<lparr>q_method := ''GET''\<rparr>) DEFAULT_CONFIG (Response ''body'' 200 [] HTML) True sample_link"
  by (rule async_writer_answers_as_get) (simp add: sample_link_def)

subsection \<open>Pipelined requests\<close>

text \<open>With nothing more to arrive a stream operation changes the buffer only.\<close>

definition buffered :: "areader \<Rightarrow> areader \<Rightarrow> bool" where
  "buffered rd rd' = (arrivals rd' = [] \<and> now rd' = now rd \<and> acfg rd' = acfg rd)"

lemma readuntil_still: "arrivals rd = [] \<Longrightarrow> readuntil sep t rd = (r, rd') \<Longrightarrow> buffered rd rd'"
  by (auto simp: readuntil.simps [of sep t rd] Let_def feed_def buffered_def split: option.splits if_splits)

lemma readexactly_still: "arrivals rd = [] \<Longrightarrow> readexactly n t rd = (r, rd') \<Longrightarrow> buffered rd rd'"
  by (auto simp: readexactly.simps [of n t rd] feed_def buffered_def split: if_splits)

lemma a_read_headers_still:
  assumes "arrivals rd = []" "a_read_headers rd = (r, rd')"
  shows "buffered rd rd'"
proof -
  obtain x rd1 where x: "readuntil (CRLF @ CRLF) (header_idle_timeout (acfg rd)) rd = (x, rd1)" by force
  have "rd1 = rd'" using assms(2) x by (cases x) (auto simp: a_read_headers_def split: if_splits)
  with readuntil_still [OF assms(1) x] show ?thesis by simp
qed

lemma a_read_exact_still:
  assumes "arrivals rd = []" "a_read_exact n rd = (r, rd')"
  shows "buffered rd rd'"
proof (cases "n < 0")
  case False
  obtain x rd1 where x: "readexactly (nat n) (body_idle_timeout (acfg rd)) rd = (x, rd1)" by force
  have "rd1 = rd'" using assms(2) x False by (cases x) (auto simp: a_read_exact_def)
  with readexactly_still [OF assms(1) x] show ?thesis by simp
qed (use assms in \<open>simp add: a_read_exact_def buffered_def\<close>)

lemma a_read_body_still:
  assumes "arrivals rd = []" "\<not> is_chunked hs" "a_read_body hs rd = (r, rd')"
  shows "buffered rd rd'"
  using assms a_read_exact_still [OF assms(1)]
  by (auto simp: a_read_body_def a_read_exact_body_def buffered_def split: sum.splits if_splits prod.splits)

text \<open>A request as a client sends it, and the request record it stands for.\<close>

type_synonym sent = "str \<times> str \<times> (str, str) dict \<times> bytes"

definition sent_ok :: "server_config \<Rightarrow> sent \<Rightarrow> bool" where
  "sent_ok c = (\<lambda>(m, u, hs, body). clean_head c m u hs \<and> declared_body hs body \<and> int (length body) \<le> max_body_bytes c)"

definition sent_bytes :: "sent \<Rightarrow> bytes" where
  "sent_bytes = (\<lambda>(m, u, hs, body). request_head m u hs @ CRLF @ CRLF @ body)"

definition sent_request :: "(str \<Rightarrow> bool) \<Rightarrow> str \<times> int \<Rightarrow> server_config \<Rightarrow> sent \<Rightarrow> request result" where
  "sent_request ok addr c = (\<lambda>(m, u, hs, body).
     Request ok (upper m) u ''HTTP/1.1'' hs hs (InMemory body) (int (length body)) addr c)"

definition limits_ok :: "server_config \<Rightarrow> bool" where
  "limits_ok c = (max_body_bytes c < 2 ^ 64 \<and> max_header_bytes c \<le> int stream_limit \<and>
     0 \<le> header_idle_timeout c \<and> 0 \<le> body_idle_timeout c)"

lemma parse_buffered:
  assumes "sent_ok c q" "limits_ok c" "arrivals s = []"
  shows "parse_async_request ok (areader_of (sent_bytes q @ rest) s c) addr c =
    (sent_request ok addr c q, areader_of rest s c)"
proof -
  let ?rd = "areader_of (sent_bytes q @ rest) s c"
  obtain m u hs body where q: "q = (m, u, hs, body)" by (cases q)
  note w = assms(1) [unfolded sent_ok_def q prod.case] assms(2) [unfolded limits_ok_def]
  have a: "arrivals ?rd = []" "acfg ?rd = c" "now ?rd = now s" "?rd\<lparr>acfg := c\<rparr> = ?rd"
    using assms(3) by (simp_all add: areader_of_def)
  have p: "a_pending ?rd = request_head m u hs @ CRLF @ CRLF @ body @ rest" "a_prompt 0 ?rd"
    using a by (simp_all add: a_pending_def incoming_def a_prompt_def q sent_bytes_def) (simp add: areader_of_def)
  obtain rd' where r: "parse_async_request ok ?rd addr c =
      (Request ok (upper m) u ''HTTP/1.1'' hs hs (InMemory body) (int (length body)) addr c, rd')" "a_pending rd' = rest"
    using parse_async_request_complete [of c m u hs body 0 ?rd rest ok addr] w p by auto
  have ph: "parse_header_block (request_head m u hs @ CRLF @ CRLF) c = Inr (upper m, u, ''HTTP/1.1'', hs, hs)"
    by (rule parse_header_block_complete) (use w in simp)
  have nc: "\<not> is_chunked hs" using w by (simp add: declared_body_def is_chunked_def lower_def)
  obtain rd1 where h: "a_read_headers ?rd = (Inr (request_head m u hs @ CRLF @ CRLF), rd1)" "acfg rd1 = c"
    using a_read_headers_complete [OF p(2) _ _ _ p(1)] w a(2) by auto
  have b1: "buffered ?rd rd1" using a_read_headers_still [OF a(1) h(1)] .
  obtain x rd2 where x: "a_read_body hs rd1 = (x, rd2)" by force
  have b2: "buffered rd1 rd2" "acfg rd2 = c"
    using a_read_body_still [OF _ nc x] b1 h(2) by (simp_all add: buffered_def)
  have "rd' = rd2" using r(1) h(1) ph x a(4) by (auto simp: parse_async_request_def split: sum.splits prod.splits)
  with b1 b2 r(2) a(3) have "rd' = areader_of rest s c"
    using assms(3) by (cases rd2) (simp add: buffered_def areader_of_def a_pending_def incoming_def)
  with r(1) show ?thesis by (simp add: q sent_request_def)
qed

text \<open>Answering touches neither what is still to arrive nor the clock.\<close>

definition frames :: "'a conn_scheme \<Rightarrow> 'a conn_scheme \<Rightarrow> bool" where
  "frames s s' = (arrivals s' = arrivals s \<and> now s' = now s)"

lemma frames_refl [simp]: "frames s s"
  by (simp add: frames_def)

lemma frames_trans: "frames s s' \<Longrightarrow> frames s' s'' \<Longrightarrow> frames s s''"
  by (simp add: frames_def)

lemma frames_sbind:
  "frames s (snd m) \<Longrightarrow> (\<And>a s'. frames s' (snd (f a s'))) \<Longrightarrow> frames s (snd (sbind m f))"
  by (cases m; cases "fst m") (auto intro: frames_trans)

lemma frames_write_drain: "frames s (snd (write_drain d s))"
  by (auto simp: write_drain_def sendall_def frames_def split: option.split)

lemma frames_send_headers_async: "frames s (snd (send_headers_async E c st hs keep s))"
  using frames_write_drain by (auto simp: send_headers_async_def split: sum.split)

lemma frames_send_chunks_async: "frames s (snd (send_chunks_async cs s))"
proof (induction cs arbitrary: s)
  case (Cons c cs)
  then show ?case by (auto intro!: frames_sbind frames_write_drain)
qed simp

lemma frames_write_response_async: "frames s (snd (write_response_async E req c resp keep s))"
  by (auto simp: write_response_async_def Let_def split: rbody.split option.split
      intro!: frames_sbind frames_send_headers_async frames_send_chunks_async frames_write_drain)

lemma frames_dummy_request: "frames s (snd (dummy_request E c addr req s))"
  by (auto simp: dummy_request_def frames_def split: option.split sum.split)

lemma frames_async_on_error: "frames s (snd (async_on_error E c addr req e s))"
proof -
  obtain d s1 where d: "dummy_request E c addr req s = (d, s1)" by force
  then have "frames s s1" using frames_dummy_request [of s E c addr req] by simp
  then show ?thesis
    by (cases e) (auto simp: async_on_error_def d intro: frames_trans frames_write_response_async)
qed

lemma frames_async_answer:
  assumes "async_answer E ep c seen req s = (r, req', s')"
  shows "frames s s'"
proof -
  obtain v req1 w where d: "async_dispatch E ep (req, app s) = (v, req1, w)" by (metis prod_cases3)
  have f: "frames s (s\<lparr>app := w\<rparr>)" by (simp add: frames_def)
  show ?thesis
  proof (cases v)
    case (Inl e)
    with assms d f show ?thesis by (auto simp: async_answer_def Let_def)
  next
    case (Inr av)
    show ?thesis
    proof (cases "headers_of av")
      case (Inl e)
      with assms d f Inr show ?thesis by (auto simp: async_answer_def Let_def)
    next
      case Resp: (Inr resp)
      have "s' = snd (sbind (write_response_async E req1 c resp (keeps_alive c req seen) (s\<lparr>app := w\<rparr>))
          (\<lambda>_ s. (Inr (if keeps_alive c req seen then Keep else Done), s)))"
        using assms d Inr Resp by (auto simp: async_answer_def Let_def split: prod.splits split del: if_split)
      moreover have "frames (s\<lparr>app := w\<rparr>) \<dots>"
        by (intro frames_sbind frames_write_response_async) simp
      ultimately show ?thesis using f frames_trans by metis
    qed
  qed
qed

lemma frames_async_turn:
  assumes "async_turn E ep c addr seen parsed s = (t, s')"
  shows "frames s s'"
proof (cases parsed)
  case (Inl e)
  then show ?thesis
    using assms frames_async_on_error [of s E c addr None e] by (auto simp: async_turn_def split: prod.splits)
next
  case (Inr req)
  obtain req1 s1 where i: "assign_id E req s = (req1, s1)" by force
  then have f1: "frames s s1" by (auto simp: assign_id_def frames_def split: if_splits)
  obtain r req2 s2 where a: "async_answer E ep c (Suc seen) req1 s1 = (r, req2, s2)" by (metis prod_cases3)
  have f2: "frames s s2" using frames_trans [OF f1 frames_async_answer [OF a]] .
  show ?thesis
  proof (cases r)
    case (Inl e)
    have "s' = snd (async_on_error E c addr (Some req2) e s2)"
      using assms i a \<open>parsed = Inr req\<close> Inl by (simp add: async_turn_def split: prod.splits)
    then show ?thesis using frames_trans [OF f2 frames_async_on_error] by simp
  next
    case (Inr t')
    then show ?thesis using assms i a \<open>parsed = Inr req\<close> f2 by (simp add: async_turn_def)
  qed
qed

text \<open>The server without its network: the turns over a list of parsed requests.\<close>

fun serve_requests ::
  "env \<Rightarrow> 'w aendpoint \<Rightarrow> server_config \<Rightarrow> str \<times> int \<Rightarrow> nat \<Rightarrow> request result list \<Rightarrow> 'w link \<Rightarrow> unit result \<times> 'w link" where
  "serve_requests E ep c addr seen [] s = (Inr (), s)"
| "serve_requests E ep c addr seen (q # qs) s =
     (if int seen < max_keepalive_requests c then
        (case async_turn E ep c addr seen q s of
           ((Keep, _), s') \<Rightarrow> serve_requests E ep c addr (Suc seen) qs s'
         | ((Done, r), s') \<Rightarrow> (r, s'))
      else (Inr (), s))"

lemma parse_nothing:
  assumes "arrivals s = []"
  shows "parse_async_request ok (areader_of [] s c) addr c = (Inl ClientClosed, areader_of [] s c)"
proof -
  have "split1 (CRLF @ CRLF) [] = None" by code_simp
  then have "readuntil (CRLF @ CRLF) t (areader_of [] s c) = (Partial [], areader_of [] s c)" for t
    by (subst readuntil.simps) (use assms in \<open>simp add: areader_of_def feed_def\<close>)
  then show ?thesis
    by (simp add: parse_async_request_def a_read_headers_def) (simp add: areader_of_def)
qed

lemma of_areader_still [simp]: "arrivals s = [] \<Longrightarrow> of_areader (areader_of buf s c) s = s"
  by (simp add: of_areader_def areader_of_def)

lemma client_loop_buffered:
  assumes "limits_ok c" "list_all (sent_ok c) qs" "arrivals s = []"
  shows "client_loop E ep c addr seen (concat (map sent_bytes qs)) s =
    serve_requests E ep c addr seen (map (sent_request (netloc_ok E) addr c) qs) s"
  using assms(2,3)
proof (induction qs arbitrary: seen s)
  case Nil
  then show ?case
    by (simp add: client_loop.simps [of E ep c addr seen] parse_nothing async_turn_def async_on_error_def)
next
  case (Cons q qs)
  let ?p = "sent_request (netloc_ok E) addr c q"
  have p: "parse_async_request (netloc_ok E) (areader_of (sent_bytes q @ concat (map sent_bytes qs)) s c) addr c =
      (?p, areader_of (concat (map sent_bytes qs)) s c)"
    by (rule parse_buffered) (use Cons.prems assms(1) in simp_all)
  obtain t r s' where t: "async_turn E ep c addr seen ?p s = ((t, r), s')" by (metis prod.exhaust)
  have "arrivals s' = []" using frames_async_turn [OF t] Cons.prems(2) by (simp add: frames_def)
  then have "client_loop E ep c addr (Suc seen) (concat (map sent_bytes qs)) s' =
      serve_requests E ep c addr (Suc seen) (map (sent_request (netloc_ok E) addr c) qs) s'"
    by (intro Cons.IH) (use Cons.prems in simp_all)
  moreover have "abuf (areader_of (concat (map sent_bytes qs)) s c) = concat (map sent_bytes qs)"
    by (simp add: areader_of_def)
  ultimately show ?case
    using p t Cons.prems(2) by (simp add: client_loop.simps [of E ep c addr seen] split: turn.split)
qed

lemma readuntil_first_segment:
  assumes "arrivals s = [(d, Data b)]" "d \<le> t" "split1 sep b \<noteq> None" "split1 sep [] = None" "sep \<noteq> []"
  shows "readuntil sep t (areader_of [] s c) = readuntil sep t (areader_of b (s\<lparr>arrivals := [], now := now s + d\<rparr>) c)"
proof -
  let ?rd = "areader_of b (s\<lparr>arrivals := [], now := now s + d\<rparr>) c"
  have "feed t (areader_of [] s c) = Fed (t - d) ?rd"
    using assms(1,2) by (simp add: areader_of_def feed_def)
  moreover have "abuf (areader_of [] s c) = []" by (simp add: areader_of_def)
  moreover have "Suc 0 - length sep = 0" using assms(5) by (cases sep) simp_all
  ultimately have "readuntil sep t (areader_of [] s c) = readuntil sep (t - d) ?rd"
    using assms(4,5) by (simp add: readuntil.simps [of sep t "areader_of [] s c"] Let_def)
  moreover have ab: "abuf ?rd = b" by (simp add: areader_of_def)
  moreover have "readuntil sep u ?rd = (case split1 sep b of None \<Rightarrow> undefined | Some (x, y) \<Rightarrow>
      if stream_limit < length x then (Overrun (length x), ?rd) else (Read (x @ sep), ?rd\<lparr>abuf := y\<rparr>))" for u
    using assms(3) by (auto simp: readuntil.simps [of sep u ?rd] ab split: option.split)
  ultimately show ?thesis by simp
qed

lemma client_loop_first_segment:
  assumes "limits_ok c" "list_all (sent_ok c) qs" "qs \<noteq> []"
    and "arrivals s = [(d, Data (concat (map sent_bytes qs)))]" "d \<le> header_idle_timeout c"
    and "int seen < max_keepalive_requests c"
  shows "client_loop E ep c addr seen [] s =
    client_loop E ep c addr seen (concat (map sent_bytes qs)) (s\<lparr>arrivals := [], now := now s + d\<rparr>)"
proof -
  let ?b = "concat (map sent_bytes qs)" let ?s = "s\<lparr>arrivals := [], now := now s + d\<rparr>"
  obtain m u hs body qs' where q: "qs = (m, u, hs, body) # qs'" using assms(3) by (metis list.exhaust prod_cases4)
  have "split1 (CRLF @ CRLF) ?b = Some (request_head m u hs, body @ concat (map sent_bytes qs'))"
    using split1_request_head [of c m u hs "body @ concat (map sent_bytes qs')"] assms(2)
    by (simp add: q sent_bytes_def sent_ok_def)
  then have r: "readuntil (CRLF @ CRLF) t (areader_of [] s c) = readuntil (CRLF @ CRLF) t (areader_of ?b ?s c)"
    if "t = header_idle_timeout c" for t
    using assms(4,5) that by (intro readuntil_first_segment) simp_all
  have a: "(areader_of x y c)\<lparr>acfg := c\<rparr> = areader_of x y c" "acfg (areader_of x y c) = c" for x and y :: "'b link"
    by (simp_all add: areader_of_def)
  have "a_read_headers (areader_of [] s c) = a_read_headers (areader_of ?b ?s c)"
    unfolding a_read_headers_def a r [OF refl] by (rule refl)
  then have p: "parse_async_request ok (areader_of [] s c) addr c = parse_async_request ok (areader_of ?b ?s c) addr c" for ok
    by (simp add: parse_async_request_def a)
  have "of_areader rd s = of_areader rd ?s" for rd by (simp add: of_areader_def)
  with p assms(6) show ?thesis
    by (simp add: client_loop.simps [of E ep c addr seen])
qed

text \<open>
  C9. The asyncio server serves pipelined requests: when a client sends a burst of well-formed
  requests in one segment, \<^verbatim>\<open>handle_client\<close> does exactly what the network-free server does on the
  parsed requests, one turn each in their order, and closes the writer unless a turn raises. (The
  threaded server starts a new reader for each request and drops what the last one had buffered.)
\<close>

theorem pipelined_served:
  assumes "limits_ok c" "list_all (sent_ok c) qs" "qs \<noteq> []"
    and "arrivals s = [(d, Data (concat (map sent_bytes qs)))]" "d \<le> header_idle_timeout c"
    and "0 < max_keepalive_requests c"
  shows "handle_client E ep c addr s =
    (let (r, s') = serve_requests E ep c addr 0 (map (sent_request (netloc_ok E) addr c) qs)
                     (s\<lparr>arrivals := [], now := now s + d\<rparr>)
     in ((r, r = Inr ()), s'))"
  using client_loop_buffered [OF assms(1,2), of "s\<lparr>arrivals := [], now := now s + d\<rparr>"]
    client_loop_first_segment [OF assms(1-5), of 0] assms(6)
  by (auto simp: handle_client_def split: prod.split sum.split)

definition two_requests :: "sent list" where
  "two_requests = [(''GET'', ''/a'', [(''host'', ''h'')], []),
     (''POST'', ''/b'', [(''host'', ''h''), (''content-length'', ''2'')], ''hi'')]"

definition burst_link :: "unit link" where
  "burst_link = sample_link\<lparr>arrivals := [(1, Data (concat (map sent_bytes two_requests)))]\<rparr>"

definition silent_endpoint :: "unit aendpoint" where
  "silent_endpoint = \<lparr>aep_router = Router, aep_docs = \<lambda>c. (Inl ClientClosed, c)\<rparr>"

theorem pipelined_served_witness:
  "handle_client sample_env silent_endpoint DEFAULT_CONFIG (''h'', 1) burst_link =
    (let (r, s') = serve_requests sample_env silent_endpoint DEFAULT_CONFIG (''h'', 1) 0
                     (map (sent_request (netloc_ok sample_env) (''h'', 1) DEFAULT_CONFIG) two_requests)
                     (burst_link\<lparr>arrivals := [], now := now burst_link + 1\<rparr>)
     in ((r, r = Inr ()), s'))"
proof (rule pipelined_served)
  show "list_all (sent_ok DEFAULT_CONFIG) two_requests" by code_simp
  show "limits_ok DEFAULT_CONFIG" by (simp add: limits_ok_def DEFAULT_CONFIG_def stream_limit_def)
qed (simp_all add: two_requests_def burst_link_def DEFAULT_CONFIG_def)

end
