(* ===== verification/Orm.thy ===== *)
theory Orm
  imports Validation "HOL-Library.Product_Lexorder"
begin

section \<open>The SQLite mapper (\<^verbatim>\<open>orm.py\<close>)\<close>

text \<open>
  \<^verbatim>\<open>SQLiteORM\<close> over a model of the tables its statements work on: columns with their declared types,
  rows under their row numbers, and the counter of an \<^verbatim>\<open>AUTOINCREMENT\<close> key. Table and column names are
  taken to be identifiers SQLite accepts and tells apart; its implicit columns are left out. A value
  written to or compared with a column goes through the column's affinity, which with the text of a
  float and the letters beyond ASCII is a parameter. The lock makes every method one step.
  Of a statement with several faults the parameters' is raised first.
\<close>

datatype cell = Null | Integer int | Real pyfloat | Text ustr | Blob bytes

record orm_env =
  py :: py_env
  float_repr :: "pyfloat \<Rightarrow> ustr"
  affinity :: "str \<Rightarrow> cell \<Rightarrow> cell"
  is_letter :: "nat \<Rightarrow> bool"

record model =
  o_class :: str
  o_table :: str
  o_pk :: ustr

subsection \<open>Column types\<close>

fun ty_args :: "ty \<Rightarrow> ty list" where
  "ty_args (TUnion ts) = ts"
| "ty_args (TSeq k ts) = ts"
| "ty_args (TDict ts) = ts"
| "ty_args t = []"

text \<open>\<^verbatim>\<open>next(a for a in args if a is not NoneType)\<close>\<close>

definition some_arg :: "ty list \<Rightarrow> ty option" where
  "some_arg ts = List.find (\<lambda>a. a \<noteq> TNone) ts"

lemma some_arg_in: "some_arg ts = Some t \<Longrightarrow> t \<in> set ts"
  by (auto simp: some_arg_def find_Some_iff)

lemma size_arg: "t \<in> set ts \<Longrightarrow> size t < Suc (size_list size ts)"
  by (induction ts) auto

lemma size_ty_args: "t \<in> set (ty_args u) \<Longrightarrow> size t < size u"
  by (cases u) (auto dest: size_arg)

function sqlite_type :: "ty \<Rightarrow> str result" where
  "sqlite_type tp =
     (if TNone \<in> set (ty_args tp) then
        (case some_arg (ty_args tp) of None \<Rightarrow> Inl (PyError ''StopIteration'') | Some t \<Rightarrow> sqlite_type t)
      else if tp = TInt \<or> tp = TBool then Inr ''INTEGER''
      else if tp = TFloat then Inr ''REAL''
      else if tp = TBytes then Inr ''BLOB''
      else Inr ''TEXT'')"
  by pat_completeness auto
termination
  by (relation "measure size") (auto dest!: some_arg_in size_ty_args)

declare sqlite_type.simps [simp del]

subsection \<open>Values in the database\<close>

text \<open>\<^verbatim>\<open>dataclasses.asdict\<close> and what \<^verbatim>\<open>json.dumps\<close> takes; a set or an instance is a \<^verbatim>\<open>TypeError\<close>.\<close>

fun asdict :: "pyval \<Rightarrow> pyval" where
  "asdict (VModel c fvs) = VDict (map (\<lambda>(n, v). (VStr n, asdict v)) fvs)"
| "asdict (VSeq k vs) = (if k = ListK \<or> k = TupleK then VSeq k (map asdict vs) else VSeq k vs)"
| "asdict (VDict d) = VDict (map (\<lambda>(k, v). (asdict k, asdict v)) d)"
| "asdict v = v"

definition json_float :: "orm_env \<Rightarrow> pyfloat \<Rightarrow> json" where
  "json_float E f = JFloat (float_repr E f)"

definition json_key :: "orm_env \<Rightarrow> pyval \<Rightarrow> ustr option" where
  "json_key E k =
     (case k of VStr s \<Rightarrow> Some s | VBool b \<Rightarrow> Some (uni (if b then ''true'' else ''false'')) | VNone \<Rightarrow> Some (uni ''null'')
      | VInt i \<Rightarrow> Some (uni (show_int i)) | VFloat f \<Rightarrow> Some (float_repr E f) | _ \<Rightarrow> None)"

fun to_json :: "orm_env \<Rightarrow> pyval \<Rightarrow> json option" where
  "to_json E VNone = Some JNull"
| "to_json E (VBool b) = Some (JBool b)"
| "to_json E (VInt i) = Some (JInt i)"
| "to_json E (VFloat f) = Some (json_float E f)"
| "to_json E (VStr s) = Some (JStr s)"
| "to_json E (VSeq k vs) =
     (if k = ListK \<or> k = TupleK then map_option JArr (those (map (to_json E) vs)) else None)"
| "to_json E (VDict d) =
     map_option JObj (those (map (\<lambda>(k, v). case (json_key E k, to_json E v) of
       (Some k', Some j) \<Rightarrow> Some (k', j) | _ \<Rightarrow> None) d))"
| "to_json E _ = None"

definition json_text :: "orm_env \<Rightarrow> pyval \<Rightarrow> pyval result" where
  "json_text E v = (case to_json E v of None \<Rightarrow> Inl (PyError ''TypeError'') | Some j \<Rightarrow> Inr (VStr (dumps_compact j)))"

definition encode :: "orm_env \<Rightarrow> pyval \<Rightarrow> pyval result" where
  "encode E v =
     (case v of
        VModel c fvs \<Rightarrow> json_text E (asdict v)
      | VDict d \<Rightarrow> json_text E v
      | VSeq k vs \<Rightarrow> if k = FrozenK then Inr v else json_text E v
      | VBool b \<Rightarrow> Inr (VInt (if b then 1 else 0))
      | _ \<Rightarrow> Inr v)"

text \<open>Binding a parameter: what \<^verbatim>\<open>sqlite3\<close> makes of a Python value.\<close>

definition bind :: "pyval \<Rightarrow> cell result" where
  "bind v =
     (case v of
        VNone \<Rightarrow> Inr Null
      | VBool b \<Rightarrow> Inr (Integer (if b then 1 else 0))
      | VInt i \<Rightarrow> if - (2 ^ 63) \<le> i \<and> i < 2 ^ 63 then Inr (Integer i) else Inl (PyError ''OverflowError'')
      | VFloat f \<Rightarrow> Inr (if f = NaN then Null else Real f)
      | VStr s \<Rightarrow> if list_all is_scalar s then Inr (Text s) else Inl (PyError ''UnicodeEncodeError'')
      | VBytes b \<Rightarrow> Inr (Blob b)
      | _ \<Rightarrow> Inl (PyError ''ProgrammingError''))"

fun cell_value :: "cell \<Rightarrow> pyval" where
  "cell_value Null = VNone"
| "cell_value (Integer i) = VInt i"
| "cell_value (Real f) = VFloat f"
| "cell_value (Text s) = VStr s"
| "cell_value (Blob b) = VBytes b"

definition raise_value :: "'a option \<Rightarrow> 'a result" where
  "raise_value r = (case r of None \<Rightarrow> Inl (PyError ''ValueError'') | Some x \<Rightarrow> Inr x)"

fun cell_true :: "cell \<Rightarrow> bool" where
  "cell_true Null = False"
| "cell_true (Integer i) = (i \<noteq> 0)"
| "cell_true (Real f) = (f \<noteq> Finite 0)"
| "cell_true (Text s) = (s \<noteq> [])"
| "cell_true (Blob b) = (b \<noteq> [])"

text \<open>\<^verbatim>\<open>int(value)\<close> and \<^verbatim>\<open>float(value)\<close> of what a column holds.\<close>

definition cell_int :: "orm_env \<Rightarrow> cell \<Rightarrow> pyval result" where
  "cell_int E c =
     (case c of
        Integer i \<Rightarrow> Inr (VInt i)
      | Real (Finite q) \<Rightarrow> Inr (VInt (trunc q))
      | Real (Infinite b) \<Rightarrow> Inl (PyError ''OverflowError'')
      | Text s \<Rightarrow> map_sum id VInt (raise_value (if list_all (\<lambda>c. c < 256) s then py_int (map char_of s) else int_of_text (py E) s))
      | Blob b \<Rightarrow> map_sum id VInt (raise_value (parse_int 10 (bstrip b)))
      | _ \<Rightarrow> Inl (PyError ''ValueError''))"

definition cell_float :: "orm_env \<Rightarrow> cell \<Rightarrow> pyval result" where
  "cell_float E c =
     (case c of
        Integer i \<Rightarrow> (case float_of_int (py E) i of Some f \<Rightarrow> Inr (VFloat f) | None \<Rightarrow> Inl (PyError ''OverflowError''))
      | Real f \<Rightarrow> Inr (VFloat f)
      | Text s \<Rightarrow> map_sum id VFloat (raise_value (float_of_text (py E) s))
      | Blob b \<Rightarrow> map_sum id VFloat (raise_value (float_of_bytes (py E) b))
      | Null \<Rightarrow> Inl (PyError ''TypeError''))"

text \<open>\<^verbatim>\<open>json.loads(value)\<close>; bytes are read as UTF-8 text.\<close>

definition cell_json :: "orm_env \<Rightarrow> cell \<Rightarrow> pyval result" where
  "cell_json E c =
     (case c of
        Text s \<Rightarrow> (case loads s of None \<Rightarrow> Inl (PyError ''JSONDecodeError'') | Some j \<Rightarrow> Inr (of_json (py E) j))
      | Blob b \<Rightarrow> map_sum id (of_json (py E)) (json_of b)
      | _ \<Rightarrow> Inl (PyError ''TypeError''))"

text \<open>What iterating over a decoded JSON value yields.\<close>

definition iterate :: "pyval \<Rightarrow> pyval list result" where
  "iterate v =
     (case v of VSeq k vs \<Rightarrow> Inr vs | VDict d \<Rightarrow> Inr (map fst d) | VStr s \<Rightarrow> Inr (map (\<lambda>c. VStr [c]) s)
      | _ \<Rightarrow> Inl (PyError ''TypeError''))"

text \<open>\<^verbatim>\<open>cls(**data)\<close>: no unknown names, and every field without default given.\<close>

definition call_model :: "orm_env \<Rightarrow> str \<Rightarrow> (ustr \<times> pyval) list \<Rightarrow> pyval result" where
  "call_model E c kw =
     (case d_get (dataclasses (py E)) c of
        None \<Rightarrow> Inl (PyError ''TypeError'')
      | Some i \<Rightarrow>
          (let fs = c_fields i in
           if \<not> set (map fst kw) \<subseteq> set (map f_name fs) \<or>
              list_ex (\<lambda>f. d_get kw (f_name f) = None \<and> f_default f = None) fs
           then Inl (PyError ''TypeError'')
           else Inr (construct c fs (map (\<lambda>f. d_get kw (f_name f)) fs))))"

definition text_keys :: "pyval \<Rightarrow> (ustr \<times> pyval) list option" where
  "text_keys v =
     (case v of VDict d \<Rightarrow> those (map (\<lambda>(k, x). case k of VStr s \<Rightarrow> Some (s, x) | _ \<Rightarrow> None) d) | _ \<Rightarrow> None)"

definition unwrap :: "ty \<Rightarrow> ty result" where
  "unwrap tp =
     (if TNone \<in> set (ty_args tp) then
        (case some_arg (ty_args tp) of None \<Rightarrow> Inl (PyError ''StopIteration'') | Some t \<Rightarrow> Inr t)
      else Inr tp)"

definition decode :: "orm_env \<Rightarrow> cell \<Rightarrow> ty \<Rightarrow> pyval result" where
  "decode E c tp0 =
     (if c = Null then Inr VNone
      else rbind (unwrap tp0) (\<lambda>tp.
        case tp of
          TBool \<Rightarrow> Inr (VBool (cell_true c))
        | TInt \<Rightarrow> cell_int E c
        | TFloat \<Rightarrow> cell_float E c
        | TModel cls \<Rightarrow>
            rbind (cell_json E c) (\<lambda>d.
              case text_keys d of None \<Rightarrow> Inl (PyError ''TypeError'') | Some kw \<Rightarrow> call_model E cls kw)
        | TDict ts \<Rightarrow> cell_json E c
        | TSeq k ts \<Rightarrow>
            if k = FrozenK then Inr (cell_value c)
            else rbind (cell_json E c) (\<lambda>d.
              if k = ListK then Inr d
              else rbind (iterate d) (\<lambda>vs.
                if k = TupleK then Inr (VSeq TupleK vs)
                else if list_all (hashable (py E)) vs then Inr (VSeq SetK (py_set [] vs))
                else Inl (PyError ''TypeError'')))
        | _ \<Rightarrow> Inr (cell_value c)))"

subsection \<open>Tables\<close>

record table =
  columns :: "(ustr \<times> str) list"
  key_col :: "ustr option"
  auto_key :: bool
  tb_rows :: "(int \<times> (ustr, cell) dict) list"
  tb_seq :: int

type_synonym database = "(str, table) dict"

text \<open>
  \<^verbatim>\<open>CREATE TABLE IF NOT EXISTS\<close>: an existing table stays as it is, whatever its columns are. Types of
  class attributes are taken as the mapper lists them, one per dataclass field.
\<close>

fun column_types :: "field list \<Rightarrow> (ustr \<times> str) list result" where
  "column_types [] = Inr []"
| "column_types (f # fs) = rbind (sqlite_type (f_type f)) (\<lambda>t. rbind (column_types fs) (\<lambda>ts. Inr ((f_name f, t) # ts)))"

definition create_table :: "orm_env \<Rightarrow> model \<Rightarrow> database \<Rightarrow> unit result \<times> database" where
  "create_table E m db =
     (case d_get (dataclasses (py E)) (o_class m) of
        None \<Rightarrow> (Inl (PyError ''TypeError''), db)
      | Some i \<Rightarrow>
          (case column_types (c_fields i) of
             Inl e \<Rightarrow> (Inl e, db)
           | Inr cols \<Rightarrow>
               if cols = [] then (Inl (PyError ''OperationalError''), db)
               else if d_get db (o_table m) \<noteq> None then (Inr (), db)
               else (Inr (), d_set (o_table m)
                 \<lparr>columns = cols, key_col = (if d_get cols (o_pk m) = None then None else Some (o_pk m)),
                  auto_key = (d_get cols (o_pk m) = Some ''INTEGER''), tb_rows = [], tb_seq = 0\<rparr> db)))"

fun create_all :: "orm_env \<Rightarrow> model list \<Rightarrow> database \<Rightarrow> unit result \<times> database" where
  "create_all E [] db = (Inr (), db)"
| "create_all E (m # ms) db = sbind (create_table E m db) (\<lambda>_ db. create_all E ms db)"

definition column_of :: "(ustr, cell) dict \<Rightarrow> ustr \<Rightarrow> cell" where
  "column_of row k = (case d_get row k of None \<Rightarrow> Null | Some c \<Rightarrow> c)"

definition stored :: "orm_env \<Rightarrow> table \<Rightarrow> ustr \<Rightarrow> cell \<Rightarrow> cell" where
  "stored E tb k c = (case d_get (columns tb) k of None \<Rightarrow> c | Some t \<Rightarrow> if c = Null then Null else affinity E t c)"

text \<open>The operator \<^verbatim>\<open>=\<close>: numbers compare by value, \<^verbatim>\<open>NULL\<close> equals nothing.\<close>

definition cell_num :: "cell \<Rightarrow> pyfloat option" where
  "cell_num c = (case c of Integer i \<Rightarrow> Some (Finite (of_int i)) | Real f \<Rightarrow> Some f | _ \<Rightarrow> None)"

definition cell_eq :: "cell \<Rightarrow> cell \<Rightarrow> bool" where
  "cell_eq a b =
     (a \<noteq> Null \<and> b \<noteq> Null \<and>
      (case (cell_num a, cell_num b) of (Some x, Some y) \<Rightarrow> x = y | (None, None) \<Rightarrow> a = b | _ \<Rightarrow> False))"

definition row_matches :: "orm_env \<Rightarrow> table \<Rightarrow> (ustr \<times> cell) list \<Rightarrow> int \<times> (ustr, cell) dict \<Rightarrow> bool" where
  "row_matches E tb conds row = list_all (\<lambda>(k, c). cell_eq (column_of (snd row) k) (stored E tb k c)) conds"

text \<open>
  \<^verbatim>\<open>INSERT\<close>: the row number is the key of an \<^verbatim>\<open>AUTOINCREMENT\<close> table, which is full when its counter is
  used up, else one more than the largest; any other key must be new unless it is \<^verbatim>\<open>NULL\<close>.
\<close>

definition next_row :: "int list \<Rightarrow> int" where
  "next_row ids = foldr max ids 0 + 1"

definition make_row :: "orm_env \<Rightarrow> table \<Rightarrow> (ustr \<times> cell) list \<Rightarrow> (ustr, cell) dict" where
  "make_row E tb given = map (\<lambda>(k, t). (k, stored E tb k (column_of given k))) (columns tb)"

definition sql_insert :: "orm_env \<Rightarrow> (ustr \<times> cell) list \<Rightarrow> table \<Rightarrow> (int \<times> table) result" where
  "sql_insert E given tb =
     (let row = make_row E tb given; ids = map fst (tb_rows tb) in
      if given = [] \<or> list_ex (\<lambda>(k, c). d_get (columns tb) k = None) given then Inl (PyError ''OperationalError'')
      else (case key_col tb of
          Some p \<Rightarrow>
            if auto_key tb then
              (let put = (\<lambda>i. Inr (i, tb\<lparr>tb_rows := tb_rows tb @ [(i, d_set p (Integer i) row)], tb_seq := max (tb_seq tb) i\<rparr>))
               in case column_of row p of
                    Null \<Rightarrow>
                      (let i = max (tb_seq tb + 1) (next_row ids) in
                       if i < 2 ^ 63 then put i else Inl (PyError ''OperationalError''))
                  | Integer i \<Rightarrow> if i \<in> set ids then Inl (PyError ''IntegrityError'') else put i
                  | _ \<Rightarrow> Inl (PyError ''IntegrityError''))
            else if list_ex (\<lambda>r. cell_eq (column_of (snd r) p) (column_of row p)) (tb_rows tb)
            then Inl (PyError ''IntegrityError'')
            else Inr (next_row ids, tb\<lparr>tb_rows := tb_rows tb @ [(next_row ids, row)]\<rparr>)
        | None \<Rightarrow> Inr (next_row ids, tb\<lparr>tb_rows := tb_rows tb @ [(next_row ids, row)]\<rparr>)))"

subsection \<open>\<^verbatim>\<open>insert\<close>, \<^verbatim>\<open>save\<close> and \<^verbatim>\<open>delete\<close>\<close>

fun bind_all :: "orm_env \<Rightarrow> (ustr \<times> pyval) list \<Rightarrow> (ustr \<times> cell) list result" where
  "bind_all E [] = Inr []"
| "bind_all E ((k, v) # kvs) =
     rbind (encode E v) (\<lambda>w. rbind (bind w) (\<lambda>c. rbind (bind_all E kvs) (\<lambda>cs. Inr ((k, c) # cs))))"

type_synonym object = "(ustr \<times> pyval) list"

definition dict_of :: "object \<Rightarrow> object" where
  "dict_of obj = map (\<lambda>(k, v). (k, asdict v)) obj"

definition insert_obj :: "orm_env \<Rightarrow> model \<Rightarrow> object \<Rightarrow> database \<Rightarrow> object result \<times> database" where
  "insert_obj E m obj db =
     (case create_table E m db of
        (Inl e, db) \<Rightarrow> (Inl e, db)
      | (Inr _, db) \<Rightarrow>
          (let values = filter (\<lambda>(k, v). \<not> (k = o_pk m \<and> v = VNone)) (dict_of obj) in
           case (bind_all E values, d_get db (o_table m)) of
             (Inr given, Some tb) \<Rightarrow>
               (case sql_insert E given tb of
                  Inl e \<Rightarrow> (Inl e, db)
                | Inr (i, tb') \<Rightarrow>
                    (Inr (if d_get obj (o_pk m) = Some VNone then d_set (o_pk m) (VInt i) obj else obj),
                     d_set (o_table m) tb' db))
           | (Inl e, _) \<Rightarrow> (Inl e, db)
           | (_, None) \<Rightarrow> (Inl (PyError ''OperationalError''), db)))"

text \<open>\<^verbatim>\<open>UPDATE\<close>: every row that matches the key; without columns to set the statement is no SQL.\<close>

definition sql_update :: "orm_env \<Rightarrow> (ustr \<times> cell) list \<Rightarrow> ustr \<times> cell \<Rightarrow> table \<Rightarrow> (nat \<times> table) result" where
  "sql_update E sets key tb =
     (if sets = [] \<or> list_ex (\<lambda>(k, c). d_get (columns tb) k = None) (key # sets) then Inl (PyError ''OperationalError'')
      else (let hit = row_matches E tb [key];
                put = (\<lambda>row. d_update row (map (\<lambda>(k, c). (k, stored E tb k c)) sets))
            in Inr (length (filter hit (tb_rows tb)),
                    tb\<lparr>tb_rows := map (\<lambda>r. if hit r then (fst r, put (snd r)) else r) (tb_rows tb)\<rparr>)))"

definition save_obj :: "orm_env \<Rightarrow> model \<Rightarrow> object \<Rightarrow> database \<Rightarrow> object result \<times> database" where
  "save_obj E m obj db =
     (case d_get obj (o_pk m) of
        None \<Rightarrow> (Inl (PyError ''AttributeError''), db)
      | Some VNone \<Rightarrow> insert_obj E m obj db
      | Some key \<Rightarrow>
          (case create_table E m db of
             (Inl e, db) \<Rightarrow> (Inl e, db)
           | (Inr _, db) \<Rightarrow>
               (case (bind_all E (filter (\<lambda>(k, v). k \<noteq> o_pk m) (dict_of obj)), bind key, d_get db (o_table m)) of
                  (Inr sets, Inr c, Some tb) \<Rightarrow>
                    (case sql_update E sets (o_pk m, c) tb of
                       Inl e \<Rightarrow> (Inl e, db)
                     | Inr (n, tb') \<Rightarrow>
                         if n = 0 then insert_obj E m obj (d_set (o_table m) tb' db)
                         else (Inr obj, d_set (o_table m) tb' db))
                | (Inl e, _) \<Rightarrow> (Inl e, db)
                | (_, Inl e, _) \<Rightarrow> (Inl e, db)
                | _ \<Rightarrow> (Inl (PyError ''OperationalError''), db))))"

definition delete_obj :: "orm_env \<Rightarrow> model \<Rightarrow> object \<Rightarrow> database \<Rightarrow> nat result \<times> database" where
  "delete_obj E m obj db =
     (case d_get obj (o_pk m) of
        None \<Rightarrow> (Inl (PyError ''AttributeError''), db)
      | Some key \<Rightarrow>
          (case (bind key, d_get db (o_table m)) of
             (Inl e, _) \<Rightarrow> (Inl e, db)
           | (Inr c, Some tb) \<Rightarrow>
               if d_get (columns tb) (o_pk m) = None then (Inl (PyError ''OperationalError''), db)
               else (let hit = row_matches E tb [(o_pk m, c)] in
                 (Inr (length (filter hit (tb_rows tb))),
                  d_set (o_table m) (tb\<lparr>tb_rows := filter (\<lambda>r. \<not> hit r) (tb_rows tb)\<rparr>) db))
           | (_, None) \<Rightarrow> (Inl (PyError ''OperationalError''), db)))"

subsection \<open>Queries\<close>

record query_state =
  qs_where :: "(ustr, pyval) dict"
  qs_limit :: "int option"
  qs_order :: "(ustr \<times> bool) option"

definition Query :: query_state where
  "Query = \<lparr>qs_where = [], qs_limit = None, qs_order = None\<rparr>"

definition where_q :: "(ustr, pyval) dict \<Rightarrow> query_state \<Rightarrow> query_state" where
  "where_q kw q = q\<lparr>qs_where := d_update (qs_where q) kw\<rparr>"

definition limit_q :: "int \<Rightarrow> query_state \<Rightarrow> query_state" where
  "limit_q n q = q\<lparr>qs_limit := Some n\<rparr>"

text \<open>The guard \<^verbatim>\<open>field.replace("_", "").isalnum()\<close>.\<close>

definition alnum :: "orm_env \<Rightarrow> nat \<Rightarrow> bool" where
  "alnum E c = (if c < 128 then (48 \<le> c \<and> c \<le> 57) \<or> (65 \<le> c \<and> c \<le> 90) \<or> (97 \<le> c \<and> c \<le> 122) else is_letter E c)"

definition order_by :: "orm_env \<Rightarrow> ustr \<Rightarrow> bool \<Rightarrow> query_state \<Rightarrow> query_state result" where
  "order_by E f desc q =
     (let t = filter (\<lambda>c. c \<noteq> 95) f in
      if t = [] \<or> \<not> list_all (alnum E) t then Inl (PyError ''ValueError'') else Inr (q\<lparr>qs_order := Some (f, desc)\<rparr>))"

text \<open>SQLite's order of values: \<^verbatim>\<open>NULL\<close>, numbers, text by code points, blobs by bytes.\<close>

definition sort_rank :: "cell \<Rightarrow> nat \<times> int \<times> rat \<times> nat list" where
  "sort_rank c =
     (case c of
        Null \<Rightarrow> (0, 0, 0, [])
      | Text s \<Rightarrow> (2, 0, 0, s)
      | Blob b \<Rightarrow> (3, 0, 0, map code b)
      | _ \<Rightarrow> (case cell_num c of
            Some (Finite x) \<Rightarrow> (1, 0, x, [])
          | Some (Infinite neg) \<Rightarrow> (1, if neg then - 1 else 1, 0, [])
          | _ \<Rightarrow> (0, 0, 0, [])))"

definition order_rows :: "ustr \<Rightarrow> bool \<Rightarrow> (int \<times> (ustr, cell) dict) list \<Rightarrow> (int \<times> (ustr, cell) dict) list" where
  "order_rows k desc rows =
     (let key = (\<lambda>r. sort_rank (column_of (snd r) k)) in
      if desc then rev (sort_key key (rev rows)) else sort_key key rows)"

definition limited :: "int option \<Rightarrow> 'a list \<Rightarrow> 'a list result" where
  "limited n xs =
     (case n of
        None \<Rightarrow> Inr xs
      | Some k \<Rightarrow>
          if \<not> (- (2 ^ 63) \<le> k \<and> k < 2 ^ 63) then Inl (PyError ''OverflowError'')
          else Inr (if 0 \<le> k then take (nat k) xs else xs))"

text \<open>A row becomes an instance through all its columns.\<close>

fun decode_row :: "orm_env \<Rightarrow> field list \<Rightarrow> (ustr, cell) dict \<Rightarrow> object result" where
  "decode_row E fs [] = Inr []"
| "decode_row E fs ((k, c) # row) =
     rbind (decode E c (case d_get (map (\<lambda>f. (f_name f, f_type f)) fs) k of Some t \<Rightarrow> t | None \<Rightarrow> TAny)) (\<lambda>v.
     rbind (decode_row E fs row) (\<lambda>kvs. Inr ((k, v) # kvs)))"

fun load_rows :: "orm_env \<Rightarrow> model \<Rightarrow> field list \<Rightarrow> (int \<times> (ustr, cell) dict) list \<Rightarrow> pyval list result" where
  "load_rows E m fs [] = Inr []"
| "load_rows E m fs (r # rs) =
     rbind (decode_row E fs (snd r)) (\<lambda>kw. rbind (call_model E (o_class m) kw) (\<lambda>x.
     rbind (load_rows E m fs rs) (\<lambda>xs. Inr (x # xs))))"

text \<open>
  \<^verbatim>\<open>ORDER BY\<close> a number means the column at that position, from one.
\<close>

definition order_column :: "table \<Rightarrow> ustr \<Rightarrow> ustr option" where
  "order_column tb f =
     (if f \<noteq> [] \<and> list_all (\<lambda>c. 48 \<le> c \<and> c \<le> 57) f then
        (let n = foldl (\<lambda>n c. 10 * n + (c - 48)) 0 f in
         if 1 \<le> n \<and> n \<le> length (columns tb) then Some (fst (columns tb ! (n - 1))) else None)
      else if d_get (columns tb) f = None then None else Some f)"

definition select_rows :: "orm_env \<Rightarrow> query_state \<Rightarrow> table \<Rightarrow> (int \<times> (ustr, cell) dict) list result" where
  "select_rows E q tb =
     rbind (bind_all E (qs_where q)) (\<lambda>conds.
       if list_ex (\<lambda>(k, c). d_get (columns tb) k = None) conds then Inl (PyError ''OperationalError'')
       else (let rows = filter (row_matches E tb conds) (tb_rows tb) in
         case qs_order q of
           None \<Rightarrow> limited (qs_limit q) rows
         | Some (f, desc) \<Rightarrow>
             (case order_column tb f of
                None \<Rightarrow> Inl (PyError ''OperationalError'')
              | Some k \<Rightarrow> limited (qs_limit q) (order_rows k desc rows))))"

definition query_all :: "orm_env \<Rightarrow> model \<Rightarrow> query_state \<Rightarrow> database \<Rightarrow> pyval list result" where
  "query_all E m q db =
     (case (d_get (dataclasses (py E)) (o_class m), d_get db (o_table m)) of
        (Some i, Some tb) \<Rightarrow> rbind (select_rows E q tb) (load_rows E m (c_fields i))
      | _ \<Rightarrow> Inl (PyError ''OperationalError''))"

text \<open>\<^verbatim>\<open>first\<close> leaves its limit in the query, so a later \<^verbatim>\<open>all\<close> of the same query returns at most one instance.\<close>

definition first_q :: "query_state \<Rightarrow> query_state" where
  "first_q q = q\<lparr>qs_limit := Some 1\<rparr>"

definition query_first :: "orm_env \<Rightarrow> model \<Rightarrow> query_state \<Rightarrow> database \<Rightarrow> pyval option result" where
  "query_first E m q db =
     rbind (query_all E m (first_q q) db) (\<lambda>rows. Inr (case rows of [] \<Rightarrow> None | x # xs \<Rightarrow> Some x))"

definition get_obj :: "orm_env \<Rightarrow> model \<Rightarrow> pyval \<Rightarrow> database \<Rightarrow> pyval option result \<times> database" where
  "get_obj E m key db =
     (case create_table E m db of
        (Inl e, db) \<Rightarrow> (Inl e, db)
      | (Inr _, db) \<Rightarrow> (query_first E m (where_q [(o_pk m, key)] Query) db, db))"

end
