(* ===== verification/Orm_Props.thy ===== *)
theory Orm_Props
  imports Orm Json_Props
begin

section \<open>Objects survive the database\<close>

text \<open>
  What can be stored and read back (a predicate on type hints and values), the round trips of
  \<^verbatim>\<open>insert\<close> and \<^verbatim>\<open>save\<close> through \<^verbatim>\<open>get\<close>, and the keys a table gives out.
\<close>

subsection \<open>JSON columns\<close>

text \<open>The values JSON can carry: no floats, lists only, text keys that are distinct.\<close>

fun json_val :: "pyval \<Rightarrow> bool" where
  "json_val VNone = True"
| "json_val (VBool b) = True"
| "json_val (VInt i) = (\<bar>i\<bar> < 10 ^ max_str_digits)"
| "json_val (VStr s) = list_all is_scalar s"
| "json_val (VSeq k vs) = (k = ListK \<and> list_all json_val vs)"
| "json_val (VDict d) =
     (distinct (map fst d) \<and> list_all (\<lambda>(k, v). (case k of VStr s \<Rightarrow> list_all is_scalar s | _ \<Rightarrow> False) \<and> json_val v) d)"
| "json_val _ = False"

lemma those_map: "(\<And>x. x \<in> set xs \<Longrightarrow> f x = Some (g x)) \<Longrightarrow> those (map f xs) = Some (map g xs)"
  by (induction xs) auto

fun json_image :: "pyval \<Rightarrow> json" where
  "json_image (VBool b) = JBool b"
| "json_image (VInt i) = JInt i"
| "json_image (VStr s) = JStr s"
| "json_image (VSeq k vs) = JArr (map json_image vs)"
| "json_image (VDict d) = JObj (map (\<lambda>(k, v). (case k of VStr s \<Rightarrow> s | _ \<Rightarrow> [], json_image v)) d)"
| "json_image v = JNull"

lemma to_json_image: "json_val v \<Longrightarrow> to_json E v = Some (json_image v)"
proof (induction v rule: json_val.induct)
  case (5 k vs)
  then have "those (map (to_json E) vs) = Some (map json_image vs)"
    by (intro those_map) (auto simp: list_all_iff)
  with 5 show ?case by simp
next
  case (6 d)
  have "those (map (\<lambda>(k, v). case (json_key E k, to_json E v) of (Some k', Some j) \<Rightarrow> Some (k', j) | _ \<Rightarrow> None) d) =
      Some (map (\<lambda>(k, v). (case k of VStr s \<Rightarrow> s | _ \<Rightarrow> [], json_image v)) d)"
  proof (intro those_map)
    fix x assume x: "x \<in> set d"
    obtain k v where kv: "x = (k, v)" by force
    with x "6.prems" obtain s where "k = VStr s" "json_val v" by (auto simp: list_all_iff split: pyval.splits)
    with 6 x kv show "(case x of (k, v) \<Rightarrow> case (json_key E k, to_json E v) of (Some k', Some j) \<Rightarrow> Some (k', j) | _ \<Rightarrow> None) =
        Some (case x of (k, v) \<Rightarrow> (case k of VStr s \<Rightarrow> s | _ \<Rightarrow> [], json_image v))"
      by (auto simp: json_key_def list_all_iff)
  qed
  then show ?case by simp
qed simp_all

lemma of_json_image: "json_val v \<Longrightarrow> of_json P (json_image v) = v"
proof (induction v rule: json_val.induct)
  case (5 k vs)
  then show ?case by (auto simp: list_all_iff intro: map_idI)
next
  case (6 d)
  then show ?case by (auto simp: list_all_iff intro!: map_idI split: pyval.splits) 
qed simp_all

lemma asdict_json: "json_val v \<Longrightarrow> asdict v = v"
proof (induction v rule: json_val.induct)
  case (5 k vs)
  then show ?case by (auto simp: list_all_iff intro: map_idI)
next
  case (6 d)
  then show ?case by (auto simp: list_all_iff intro!: map_idI split: pyval.splits)
qed simp_all

lemma json_ok_image: "json_val v \<Longrightarrow> json_ok (json_image v)"
proof (induction v rule: json_val.induct)
  case (6 d)
  let ?key = "\<lambda>k. case k of VStr s \<Rightarrow> s | _ \<Rightarrow> []"
  have "inj_on ?key (set (map fst d))"
    using 6 by (auto simp: inj_on_def list_all_iff split: pyval.splits)
  then have "distinct (map ?key (map fst d))"
    using 6 by (simp only: json_val.simps distinct_map [of ?key "map fst d"])
  then have "d_ok (map (\<lambda>(k, v). (?key k, json_image v)) d)"
    by (simp add: d_ok_def comp_def case_prod_unfold)
  with 6 show ?case by (auto simp: list_all_iff split: pyval.splits)
qed (auto simp: list_all_iff)

lemma scalar_ascii: "c < 128 \<Longrightarrow> is_scalar c"
  by (simp add: is_scalar_def)

lemma scalar_show_int: "list_all is_scalar (uni (show_int i))"
proof -
  have "list_all is_scalar (uni (show_nat n))" for n
    using show_nat_digits [of n] by (auto simp: list_all_iff jdigit_def is_scalar_def)
  then show ?thesis by (auto simp: show_int_def uni_def is_scalar_def code_def)
qed

lemma scalar_escape: "is_scalar c \<Longrightarrow> list_all is_scalar (escape_code False c)"
  by (auto simp: escape_code_def u_escape_def hex_low_def is_scalar_def)

lemma scalar_json_string: "list_all is_scalar s \<Longrightarrow> list_all is_scalar (json_string False s)"
  using scalar_escape by (auto simp: json_string_def list_all_iff scalar_ascii)

lemma scalar_join: "list_all is_scalar sep \<Longrightarrow> (\<And>x. x \<in> set xs \<Longrightarrow> list_all is_scalar x) \<Longrightarrow> list_all is_scalar (join sep xs)"
proof (induction xs)
  case (Cons x xs)
  then show ?case by (cases xs) (auto simp: join_Cons)
qed simp

lemma scalar_dumps: "json_ok j \<Longrightarrow> list_all is_scalar (dumps False [44] [58] j)"
proof (induction False "[44::nat]" "[58::nat]" j rule: dumps.induct)
  case (2 b)
  then show ?case by (simp add: uni_def code_def is_scalar_def)
next
  case (3 i)
  then show ?case using scalar_show_int [of i] by simp
next
  case (5 s)
  then show ?case by (simp add: scalar_json_string)
next
  case (6 js)
  have "list_all is_scalar (join [44] (map (dumps False [44] [58]) js))"
    by (rule scalar_join) (use 6 in \<open>auto simp: list_all_iff is_scalar_def\<close>)
  then show ?case by (simp add: is_scalar_def)
next
  case (7 kvs)
  have "list_all is_scalar (join [44] (map (\<lambda>(k, v). json_string False k @ [58] @ dumps False [44] [58] v) kvs))"
  proof (rule scalar_join)
    fix x assume "x \<in> set (map (\<lambda>(k, v). json_string False k @ [58] @ dumps False [44] [58] v) kvs)"
    then obtain k v where kv: "(k, v) \<in> set kvs" "x = json_string False k @ [58] @ dumps False [44] [58] v" by auto
    then have "list_all is_scalar k" "json_ok v" using "7.prems" by (auto simp: list_all_iff)
    then show "list_all is_scalar x" using 7 kv scalar_json_string by (auto simp: scalar_ascii)
  qed (simp add: is_scalar_def)
  then show ?case by (simp add: is_scalar_def)
qed (simp_all add: uni_def code_def is_scalar_def)

text \<open>A JSON column: the text, that it can be bound, and what is read back.\<close>

definition json_cell :: "pyval \<Rightarrow> cell" where
  "json_cell v = Text (dumps_compact (json_image v))"

lemma json_text_ok:
  assumes "json_val v"
  shows "rbind (json_text E v) bind = Inr (json_cell v)" "cell_json E (json_cell v) = Inr v"
proof -
  note ok = json_ok_image [OF assms]
  show "rbind (json_text E v) bind = Inr (json_cell v)"
    using scalar_dumps [OF ok] by (simp add: json_text_def to_json_image [OF assms] json_cell_def bind_def dumps_compact_def)
  have "loads (dumps_compact (json_image v)) = Some (json_image v)"
    using loads_dumps [OF ok, of "[]" "[]" False] by (simp add: dumps_compact_def spaces_def)
  then show "cell_json E (json_cell v) = Inr v"
    by (simp add: json_cell_def cell_json_def of_json_image [OF assms])
qed

subsection \<open>What a column can hold\<close>

text \<open>
  SQLite keeps a value as it is in a column of its own class; this is all that is used of the
  parameter \<open>affinity\<close>.
\<close>

definition affinity_ok :: "orm_env \<Rightarrow> bool" where
  "affinity_ok E =
     ((\<forall>i. affinity E ''INTEGER'' (Integer i) = Integer i) \<and> (\<forall>f. affinity E ''REAL'' (Real f) = Real f) \<and>
      (\<forall>s. affinity E ''TEXT'' (Text s) = Text s) \<and> (\<forall>b. affinity E ''BLOB'' (Blob b) = Blob b))"

definition plain_fields :: "py_env \<Rightarrow> str \<Rightarrow> (ustr \<times> pyval) list \<Rightarrow> bool" where
  "plain_fields P c fvs =
     (case d_get (dataclasses P) c of None \<Rightarrow> False
      | Some i \<Rightarrow> distinct (map f_name (c_fields i)) \<and> map fst fvs = map f_name (c_fields i))"

text \<open>The values of a type without alternatives that come back as they went in.\<close>

definition keeps_plain :: "py_env \<Rightarrow> ty \<Rightarrow> pyval \<Rightarrow> bool" where
  "keeps_plain P t v =
     (TNone \<notin> set (ty_args t) \<and>
      (case t of
         TInt \<Rightarrow> (case v of VInt i \<Rightarrow> - (2 ^ 63) \<le> i \<and> i < 2 ^ 63 | _ \<Rightarrow> False)
       | TBool \<Rightarrow> (case v of VBool b \<Rightarrow> True | _ \<Rightarrow> False)
       | TFloat \<Rightarrow> (case v of VFloat f \<Rightarrow> f \<noteq> NaN | _ \<Rightarrow> False)
       | TStr \<Rightarrow> (case v of VStr s \<Rightarrow> list_all is_scalar s | _ \<Rightarrow> False)
       | TBytes \<Rightarrow> (case v of VBytes b \<Rightarrow> True | _ \<Rightarrow> False)
       | TSeq k ts \<Rightarrow> (case v of VSeq l vs \<Rightarrow> k \<in> {ListK, TupleK} \<and> l = k \<and> list_all json_val vs | _ \<Rightarrow> False)
       | TDict ts \<Rightarrow> (case v of VDict d \<Rightarrow> json_val v | _ \<Rightarrow> False)
       | TModel c \<Rightarrow>
           (case v of VModel c' fvs \<Rightarrow> c' = c \<and> plain_fields P c fvs \<and> json_val (VDict (map (\<lambda>(n, v). (VStr n, v)) fvs))
            | _ \<Rightarrow> False)
       | _ \<Rightarrow> False))"

text \<open>The type a hint stores as: the first alternative of an optional one.\<close>

definition column_ty :: "ty \<Rightarrow> ty option" where
  "column_ty tp = (if TNone \<in> set (ty_args tp) then some_arg (ty_args tp) else Some tp)"

definition keeps_value :: "py_env \<Rightarrow> ty \<Rightarrow> pyval \<Rightarrow> bool" where
  "keeps_value P tp v =
     (case column_ty tp of None \<Rightarrow> False
      | Some t \<Rightarrow> TNone \<notin> set (ty_args t) \<and> (v = VNone \<or> keeps_plain P t v))"

text \<open>The cell of a value in a column, and the way back.\<close>

definition cell_of :: "pyval \<Rightarrow> cell" where
  "cell_of v =
     (case v of
        VNone \<Rightarrow> Null | VBool b \<Rightarrow> Integer (if b then 1 else 0) | VInt i \<Rightarrow> Integer i | VFloat f \<Rightarrow> Real f
      | VStr s \<Rightarrow> Text s | VBytes b \<Rightarrow> Blob b | VSeq k vs \<Rightarrow> json_cell (VSeq ListK vs) | _ \<Rightarrow> json_cell (asdict v))"

lemma those_Some_map: "those (map Some xs) = Some xs"
  by (induction xs) auto

lemma asdict_items: "list_all json_val vs \<Longrightarrow> map asdict vs = vs"
  by (auto simp: list_all_iff asdict_json intro: map_idI)

lemma text_keys_fields: "text_keys (VDict (map (\<lambda>(n, v). (VStr n, v)) fvs)) = Some fvs"
  using those_Some_map [of fvs] by (simp add: text_keys_def comp_def case_prod_unfold)

lemma d_get_zip:
  assumes "distinct (map fst kvs)"
  shows "map (\<lambda>k. d_get kvs k) (map fst kvs) = map Some (map snd kvs)"
  using assms by (auto simp: d_get_def)

lemma call_model_fields:
  assumes "plain_fields (py E) c fvs"
  shows "call_model E c fvs = Inr (VModel c fvs)"
proof -
  obtain i where i: "d_get (dataclasses (py E)) c = Some i" "distinct (map f_name (c_fields i))" "map fst fvs = map f_name (c_fields i)"
    using assms by (auto simp: plain_fields_def split: option.splits)
  have d: "map (\<lambda>f. d_get fvs (f_name f)) (c_fields i) = map Some (map snd fvs)"
    using d_get_zip [of fvs] i(2,3) by (simp add: comp_def)
  then have n: "d_get fvs (f_name f) \<noteq> None" if "f \<in> set (c_fields i)" for f
    using that i(3) by (metis d_get_None_iff image_eqI list.set_map)
  have "map2 (\<lambda>f w. (f_name f, case w of Some v \<Rightarrow> v | None \<Rightarrow> (case f_default f of Some v \<Rightarrow> v | None \<Rightarrow> VNone)))
      fs (map Some (map snd kvs)) = kvs" if "map fst kvs = map f_name fs" for fs :: "field list" and kvs
    using that by (induction kvs arbitrary: fs) auto
  then have "construct c (c_fields i) (map Some (map snd fvs)) = VModel c fvs"
    using i(3) by (simp add: construct_def)
  with i d n show ?thesis
    by (auto simp: call_model_def Let_def list_ex_iff)
qed

lemma sqlite_type_plain:
  assumes "TNone \<notin> set (ty_args t)"
  shows "sqlite_type t = Inr (if t = TInt \<or> t = TBool then ''INTEGER'' else if t = TFloat then ''REAL''
    else if t = TBytes then ''BLOB'' else ''TEXT'')"
  using assms by (simp add: sqlite_type.simps [of t])

lemma asdict_model:
  assumes "json_val (VDict (map (\<lambda>(n, v). (VStr n, v)) fvs))"
  shows "asdict (VModel c fvs) = VDict (map (\<lambda>(n, v). (VStr n, v)) fvs)"
  using assms by (auto simp: list_all_iff asdict_json)

text \<open>One value in one column: how it is written, that the column keeps it, how it is read.\<close>

definition column_keeps :: "orm_env \<Rightarrow> ty \<Rightarrow> pyval \<Rightarrow> cell \<Rightarrow> bool" where
  "column_keeps E tp v c =
     (rbind (encode E (asdict v)) bind = Inr c \<and> decode E c tp = Inr v \<and>
      (\<exists>t. sqlite_type tp = Inr t \<and> (c = Null \<or> affinity E t c = c)))"

lemma keeps_plain_column:
  assumes a: "affinity_ok E" and k: "keeps_plain (py E) t v"
  shows "column_keeps E t v (cell_of v)"
proof -
  have n: "TNone \<notin> set (ty_args t)" using k by (simp add: keeps_plain_def)
  note ty = sqlite_type_plain [OF n]
  have u: "unwrap t = Inr t" using n by (simp add: unwrap_def)
  note af = a [unfolded affinity_ok_def]
  show ?thesis
  proof (cases t)
    case (TSeq k' ts)
    with k obtain vs where v: "v = VSeq k' vs" "k' \<in> {ListK, TupleK}" "list_all json_val vs"
      by (auto simp: keeps_plain_def split: pyval.splits)
    have j: "json_val (VSeq ListK vs)" using v by simp
    have i: "to_json E v = to_json E (VSeq ListK vs)" using v by auto
    then have t: "json_text E v = json_text E (VSeq ListK vs)" by (simp add: json_text_def)
    have e: "rbind (encode E (asdict v)) bind = Inr (cell_of v)"
      using json_text_ok(1) [OF j, of E] v t by (auto simp: asdict_items encode_def cell_of_def)
    moreover have "decode E (cell_of v) t = Inr v"
      using json_text_ok(2) [OF j, of E] v TSeq u
      by (auto simp: decode_def cell_of_def iterate_def json_cell_def)
    moreover have "affinity E ''TEXT'' (cell_of v) = cell_of v" using v af by (simp add: cell_of_def json_cell_def)
    ultimately show ?thesis using ty TSeq by (simp add: column_keeps_def)
  next
    case (TDict ts)
    with k obtain d where v: "v = VDict d" "json_val v"
      by (auto simp: keeps_plain_def split: pyval.splits)
    have "rbind (encode E (asdict v)) bind = Inr (cell_of v)" "decode E (cell_of v) t = Inr v"
      using json_text_ok [OF v(2), of E] asdict_json [OF v(2)] v(1) TDict u
      by (auto simp: encode_def cell_of_def decode_def json_cell_def)
    moreover have "affinity E ''TEXT'' (cell_of v) = cell_of v" using v af by (simp add: cell_of_def json_cell_def)
    ultimately show ?thesis using ty TDict by (simp add: column_keeps_def)
  next
    case (TModel c)
    with k obtain fvs where v: "v = VModel c fvs" "plain_fields (py E) c fvs"
      and j: "json_val (VDict (map (\<lambda>(n, v). (VStr n, v)) fvs))"
      by (auto simp: keeps_plain_def split: pyval.splits)
    note d = asdict_model [OF j, of c]
    have "rbind (encode E (asdict v)) bind = Inr (cell_of v)"
      using json_text_ok(1) [OF j, of E] d v(1) by (simp add: encode_def cell_of_def del: asdict.simps)
    moreover have "decode E (cell_of v) t = Inr v"
      using json_text_ok(2) [OF j, of E] d v TModel u call_model_fields [OF v(2)] text_keys_fields [of fvs]
      by (simp add: decode_def cell_of_def json_cell_def del: asdict.simps)
    moreover have "affinity E ''TEXT'' (cell_of v) = cell_of v" using v af by (simp add: cell_of_def json_cell_def)
    ultimately show ?thesis using ty TModel by (simp add: column_keeps_def)
  qed (use k u ty af in \<open>auto simp: keeps_plain_def column_keeps_def encode_def bind_def cell_of_def decode_def cell_int_def
      cell_float_def split: pyval.splits\<close>)
qed

lemma keeps_value_column:
  assumes a: "affinity_ok E" and k: "keeps_value (py E) tp v"
  shows "column_keeps E tp v (cell_of v)"
proof -
  from k obtain t where t: "column_ty tp = Some t" "TNone \<notin> set (ty_args t)" "v = VNone \<or> keeps_plain (py E) t v"
    by (auto simp: keeps_value_def split: option.splits)
  have s: "sqlite_type tp = sqlite_type t"
    using t(1) by (cases "TNone \<in> set (ty_args tp)") (auto simp: column_ty_def sqlite_type.simps [of tp])
  have u: "unwrap tp = unwrap t"
    using t(1,2) by (auto simp: column_ty_def unwrap_def split: if_splits option.splits)
  show ?thesis
  proof (cases "v = VNone")
    case True
    then show ?thesis
      using s sqlite_type_plain [OF t(2)] by (simp add: column_keeps_def encode_def bind_def cell_of_def decode_def)
  next
    case False
    with t(3) have "column_keeps E t v (cell_of v)" using keeps_plain_column [OF a] by simp
    moreover have "decode E c tp = decode E c t" for c by (simp only: decode_def u)
    ultimately show ?thesis using s by (simp add: column_keeps_def)
  qed
qed

subsection \<open>Rows\<close>

text \<open>
  A stored object: its fields are those of the class, every value one its column keeps, and the key
  an integer.
\<close>

definition fields_of :: "orm_env \<Rightarrow> model \<Rightarrow> field list" where
  "fields_of E m = (case d_get (dataclasses (py E)) (o_class m) of None \<Rightarrow> [] | Some i \<Rightarrow> c_fields i)"

definition storable :: "orm_env \<Rightarrow> model \<Rightarrow> object \<Rightarrow> bool" where
  "storable E m obj =
     (plain_fields (py E) (o_class m) obj \<and> length obj > 1 \<and>
      list_all2 (\<lambda>f kv. keeps_value (py E) (f_type f) (snd kv)) (fields_of E m) obj \<and>
      (\<exists>f\<in>set (fields_of E m). f_name f = o_pk m \<and> column_ty (f_type f) = Some TInt))"

definition cells_of :: "object \<Rightarrow> (ustr \<times> cell) list" where
  "cells_of obj = map (\<lambda>(k, v). (k, cell_of v)) obj"

lemma plain_fields_names:
  "plain_fields (py E) (o_class m) obj \<Longrightarrow> distinct (map fst obj) \<and> map fst obj = map f_name (fields_of E m)"
  by (auto simp: plain_fields_def fields_of_def split: option.splits)

lemma storable_column:
  assumes "affinity_ok E" "storable E m obj" "(k, v) \<in> set obj"
  obtains f where "f \<in> set (fields_of E m)" "f_name f = k" "column_keeps E (f_type f) v (cell_of v)"
proof -
  have l: "list_all2 (\<lambda>f kv. keeps_value (py E) (f_type f) (snd kv)) (fields_of E m) obj"
    and n: "map fst obj = map f_name (fields_of E m)"
    using assms(2) plain_fields_names [of E m obj] by (auto simp: storable_def)
  from assms(3) obtain i where i: "i < length obj" "obj ! i = (k, v)" by (auto simp: in_set_conv_nth)
  let ?f = "fields_of E m ! i"
  have len: "length (fields_of E m) = length obj" using l by (rule list_all2_lengthD)
  have "keeps_value (py E) (f_type ?f) v" using list_all2_nthD2 [OF l i(1)] i(2) by simp
  moreover have "f_name ?f = k" using n i len by (metis fst_conv nth_map)
  ultimately show thesis using keeps_value_column [OF assms(1)] i len by (intro that [of ?f]) auto
qed

lemma bind_all_cells:
  assumes "\<And>k v. (k, v) \<in> set kvs \<Longrightarrow> rbind (encode E (asdict v)) bind = Inr (cell_of v)"
  shows "bind_all E (map (\<lambda>(k, v). (k, asdict v)) kvs) = Inr (cells_of kvs)"
  using assms
proof (induction kvs)
  case (Cons x kvs)
  obtain k v where x: "x = (k, v)" by force
  have "rbind (encode E (asdict v)) bind = Inr (cell_of v)" by (rule Cons.prems [of k v]) (simp add: x)
  moreover have "bind_all E (map (\<lambda>(k, v). (k, asdict v)) kvs) = Inr (cells_of kvs)"
    using Cons.prems by (intro Cons.IH) (metis list.set_intros(2))
  ultimately show ?case
    by (auto simp: x cells_of_def rbind_Inr_iff)
qed (simp add: cells_of_def)

lemma cells_of_get: "d_get (cells_of obj) k = map_option cell_of (d_get obj k)"
  by (induction obj) (auto simp: cells_of_def)

text \<open>A row that holds the cells of an object, column by column, loads as that object.\<close>

definition holds :: "(ustr, cell) dict \<Rightarrow> object \<Rightarrow> bool" where
  "holds row obj = (map fst row = map fst obj \<and> (\<forall>(k, v) \<in> set obj. column_of row k = cell_of v))"

lemma decode_row_holds:
  assumes "\<And>k v. (k, v) \<in> set obj \<Longrightarrow> decode E (cell_of v) (case d_get (map (\<lambda>f. (f_name f, f_type f)) fs) k of Some t \<Rightarrow> t | None \<Rightarrow> TAny) = Inr v"
  shows "decode_row E fs (cells_of obj) = Inr obj"
  using assms by (induction obj) (auto simp: cells_of_def)

lemma holds_cells:
  assumes "holds row obj" "distinct (map fst obj)"
  shows "row = cells_of obj"
proof -
  have d: "distinct (map fst row)" and l: "length row = length obj"
    using assms by (simp_all add: holds_def) (metis length_map)
  have "row ! i = cells_of obj ! i" if i: "i < length row" for i
  proof -
    obtain k c where r: "row ! i = (k, c)" by force
    obtain k' v where o: "obj ! i = (k', v)" by force
    have "k' = k" using assms(1) i l r o by (metis fst_conv holds_def nth_map)
    have "d_get row k = Some c" using d i r by (metis d_get_def map_of_eq_Some_iff nth_mem)
    moreover have "column_of row k = cell_of v"
      using assms(1) nth_mem [of i obj] i l o \<open>k' = k\<close> by (auto simp: holds_def)
    ultimately show ?thesis using r o \<open>k' = k\<close> i l by (simp add: cells_of_def column_of_def)
  qed
  then show ?thesis by (intro nth_equalityI) (simp_all add: l cells_of_def)
qed

lemma field_type_of:
  assumes "distinct (map f_name fs)" "f \<in> set fs"
  shows "d_get (map (\<lambda>f. (f_name f, f_type f)) fs) (f_name f) = Some (f_type f)"
  using assms by (auto simp: d_get_def map_of_eq_Some_iff comp_def)

lemma load_holds:
  assumes "affinity_ok E" "storable E m obj" "holds row obj"
  shows "load_rows E m (fields_of E m) [(i, row)] = Inr [VModel (o_class m) obj]"
proof -
  have p: "plain_fields (py E) (o_class m) obj" using assms(2) by (simp add: storable_def)
  note n = plain_fields_names [OF p]
  have dn: "distinct (map f_name (fields_of E m))" using n by metis
  have "decode_row E (fields_of E m) (cells_of obj) = Inr obj"
  proof (rule decode_row_holds)
    fix k v assume "(k, v) \<in> set obj"
    with assms(1,2) obtain f where f: "f \<in> set (fields_of E m)" "f_name f = k" "column_keeps E (f_type f) v (cell_of v)"
      by (rule storable_column)
    then show "decode E (cell_of v) (case d_get (map (\<lambda>f. (f_name f, f_type f)) (fields_of E m)) k of Some t \<Rightarrow> t | None \<Rightarrow> TAny) = Inr v"
      using field_type_of [OF dn f(1)] by (simp add: column_keeps_def)
  qed
  then show ?thesis
    using holds_cells [OF assms(3) conjunct1 [OF n]] call_model_fields [OF p] by simp
qed

subsection \<open>Tables\<close>

text \<open>A table made for a model: its columns, an automatic key, rows of that shape under their keys.\<close>

definition table_fits :: "orm_env \<Rightarrow> model \<Rightarrow> table \<Rightarrow> bool" where
  "table_fits E m tb =
     (column_types (fields_of E m) = Inr (columns tb) \<and> key_col tb = Some (o_pk m) \<and> auto_key tb \<and>
      d_get (columns tb) (o_pk m) = Some ''INTEGER'' \<and> 0 \<le> tb_seq tb \<and> distinct (map fst (tb_rows tb)) \<and>
      list_all (\<lambda>(i, row). i \<le> tb_seq tb \<and> map fst row = map f_name (fields_of E m) \<and>
        column_of row (o_pk m) = Integer i) (tb_rows tb))"

lemma column_types_names: "column_types fs = Inr cols \<Longrightarrow> map fst cols = map f_name fs"
  by (induction fs arbitrary: cols) (auto simp: rbind_Inr_iff)

lemma column_types_get:
  assumes "column_types fs = Inr cols" "f \<in> set fs" "distinct (map f_name fs)" "sqlite_type (f_type f) = Inr t"
  shows "d_get cols (f_name f) = Some t"
  using assms
proof (induction fs arbitrary: cols)
  case (Cons g fs)
  show ?case
  proof (cases "f = g")
    case False
    then have "f \<in> set fs" using Cons.prems by simp
    moreover have "f_name g \<notin> f_name ` set fs" using Cons.prems(3) by simp
    ultimately have "f_name f \<noteq> f_name g" by (metis imageI)
    with Cons \<open>f \<in> set fs\<close> show ?thesis by (auto simp: rbind_Inr_iff)
  qed (use Cons.prems in \<open>auto simp: rbind_Inr_iff\<close>)
qed simp

lemma column_types_ok: "(\<And>f. f \<in> set fs \<Longrightarrow> \<exists>t. sqlite_type (f_type f) = Inr t) \<Longrightarrow> \<exists>cols. column_types fs = Inr cols"
  by (induction fs) fastforce+

lemma sqlite_type_key: "column_ty tp = Some TInt \<Longrightarrow> sqlite_type tp = Inr ''INTEGER''"
  by (auto simp: column_ty_def sqlite_type.simps [of tp] sqlite_type.simps [of TInt] split: if_splits)

lemma storable_types:
  assumes "affinity_ok E" "storable E m obj" "f \<in> set (fields_of E m)"
  shows "\<exists>t. sqlite_type (f_type f) = Inr t"
proof -
  have p: "map fst obj = map f_name (fields_of E m) \<and> distinct (map f_name (fields_of E m))"
    using assms(2) plain_fields_names [of E m obj] by (metis storable_def)
  then have "f_name f \<in> set (map fst obj)" using assms(3) by simp
  then obtain v where v: "(f_name f, v) \<in> set obj" by auto
  obtain g where g: "g \<in> set (fields_of E m)" "f_name g = f_name f" "column_keeps E (f_type g) v (cell_of v)"
    by (rule storable_column [OF assms(1,2) v])
  then have "g = f" using p assms(3) by (metis distinct_map inj_onD)
  then show ?thesis using g(3) by (auto simp: column_keeps_def)
qed

definition fresh_table :: "orm_env \<Rightarrow> model \<Rightarrow> table \<Rightarrow> bool" where
  "fresh_table E m tb = (table_fits E m tb \<and> tb_seq tb + 1 < 2 ^ 63)"

lemma create_table_fits:
  assumes a: "affinity_ok E" and s: "storable E m obj"
    and db: "\<And>tb. d_get db (o_table m) = Some tb \<Longrightarrow> fresh_table E m tb"
  obtains db' tb where "create_table E m db = (Inr (), db')" "d_get db' (o_table m) = Some tb" "fresh_table E m tb"
    "\<And>tb'. d_get db (o_table m) = Some tb' \<Longrightarrow> db' = db \<and> tb' = tb"
proof -
  obtain i where i: "d_get (dataclasses (py E)) (o_class m) = Some i" "fields_of E m = c_fields i"
    using s by (auto simp: storable_def plain_fields_def fields_of_def split: option.splits)
  obtain cols where c: "column_types (c_fields i) = Inr cols"
    using column_types_ok [of "c_fields i"] storable_types [OF a s] i(2) by auto
  have names: "distinct (map f_name (c_fields i))" "length (c_fields i) > 1"
    using s i by (auto simp: storable_def plain_fields_def) (metis length_map)+
  obtain f where f: "f \<in> set (c_fields i)" "f_name f = o_pk m" "column_ty (f_type f) = Some TInt"
    using s i(2) by (auto simp: storable_def)
  have pk: "d_get cols (o_pk m) = Some ''INTEGER''"
    using column_types_get [OF c f(1) names(1) sqlite_type_key [OF f(3)]] f(2) by simp
  have ne: "cols \<noteq> []" using pk by auto
  show thesis
  proof (cases "d_get db (o_table m)")
    case (Some tb)
    show thesis
      by (rule that [of db tb]) (use Some db i c ne in \<open>simp_all add: create_table_def\<close>)
  next
    case None
    let ?tb = "\<lparr>columns = cols, key_col = Some (o_pk m), auto_key = True, tb_rows = [], tb_seq = 0\<rparr>"
    have "fresh_table E m ?tb" using c pk i(2) by (simp add: fresh_table_def table_fits_def)
    moreover have "create_table E m db = (Inr (), d_set (o_table m) ?tb db)"
      using None i c ne pk by (simp add: create_table_def)
    ultimately show thesis using that None by simp
  qed
qed

lemma create_table_again:
  assumes "create_table E m db = (Inr (), db')" "d_get db2 (o_table m) \<noteq> None"
  shows "create_table E m db2 = (Inr (), db2)"
  using assms by (auto simp: create_table_def split: option.splits sum.splits if_splits)

text \<open>Selecting by key finds the row under that key.\<close>

definition in_range :: "int \<Rightarrow> bool" where
  "in_range i = (- (2 ^ 63) \<le> i \<and> i < 2 ^ 63)"

lemma row_matches_key:
  assumes "affinity_ok E" "table_fits E m tb" "r \<in> set (tb_rows tb)"
  shows "row_matches E tb [(o_pk m, Integer i)] r \<longleftrightarrow> fst r = i"
  using assms by (auto simp: row_matches_def table_fits_def stored_def affinity_ok_def list_all_iff cell_eq_def cell_num_def)

lemma filter_key:
  assumes "distinct (map fst rows)" "(i, row) \<in> set rows"
  shows "filter (\<lambda>r. fst r = i) rows = [(i, row)]"
  using assms
proof (induction rows)
  case (Cons r rows)
  show ?case
  proof (cases "fst r = i")
    case True
    with Cons.prems(1) have ni: "i \<notin> fst ` set rows" by auto
    then have "(i, row) \<notin> set rows" by (metis fst_conv imageI)
    then have "r = (i, row)" using Cons.prems by simp
    moreover have "filter (\<lambda>r. fst r = i) rows = []" using ni by (auto simp: filter_empty_conv)
    ultimately show ?thesis by simp
  qed (use Cons in auto)
qed simp

lemma get_by_key:
  assumes a: "affinity_ok E" and t: "table_fits E m tb" and c: "create_table E m db = (Inr (), db)"
    and db: "d_get db (o_table m) = Some tb" and i: "in_range i"
  shows "get_obj E m (VInt i) db =
    (rbind (load_rows E m (fields_of E m) (take 1 (filter (\<lambda>r. fst r = i) (tb_rows tb))))
       (\<lambda>xs. Inr (case xs of [] \<Rightarrow> None | x # _ \<Rightarrow> Some x)), db)"
proof -
  have b: "bind_all E [(o_pk m, VInt i)] = Inr [(o_pk m, Integer i)]"
    using i by (simp add: encode_def bind_def in_range_def)
  have k: "d_get (columns tb) (o_pk m) \<noteq> None" using t by (simp add: table_fits_def)
  have f: "filter (row_matches E tb [(o_pk m, Integer i)]) (tb_rows tb) = filter (\<lambda>r. fst r = i) (tb_rows tb)"
    using row_matches_key [OF a t] by (intro filter_cong refl) simp
  have w: "d_update [] [(o_pk m, VInt i)] = [(o_pk m, VInt i)]" by (simp add: d_set_def)
  obtain ci where ci: "d_get (dataclasses (py E)) (o_class m) = Some ci" "c_fields ci = fields_of E m"
    using c by (auto simp: create_table_def fields_of_def split: option.splits)
  have "select_rows E (where_q [(o_pk m, VInt i)] Query\<lparr>qs_limit := Some 1\<rparr>) tb =
      Inr (take 1 (filter (\<lambda>r. fst r = i) (tb_rows tb)))"
    using b k f w by (simp add: select_rows_def where_q_def Query_def limited_def del: bind_all.simps)
  then show ?thesis
    using c ci db by (simp add: get_obj_def query_first_def first_q_def query_all_def)
qed

lemma get_holding:
  assumes "affinity_ok E" "table_fits E m tb" "create_table E m db = (Inr (), db)" "d_get db (o_table m) = Some tb"
    and "in_range i" "storable E m obj" "(i, row) \<in> set (tb_rows tb)" "holds row obj"
  shows "get_obj E m (VInt i) db = (Inr (Some (VModel (o_class m) obj)), db)"
proof -
  have "distinct (map fst (tb_rows tb))" using assms(2) by (simp add: table_fits_def)
  then have "take 1 (filter (\<lambda>r. fst r = i) (tb_rows tb)) = [(i, row)]"
    using filter_key [OF _ assms(7)] by simp
  then show ?thesis
    using get_by_key [OF assms(1-5)] load_holds [OF assms(1,6,8)] by simp
qed

subsection \<open>\<^verbatim>\<open>insert\<close> and \<^verbatim>\<open>save\<close>\<close>

text \<open>The columns but the key, as the statements bind them.\<close>

definition others :: "model \<Rightarrow> object \<Rightarrow> object" where
  "others m obj = filter (\<lambda>(k, v). k \<noteq> o_pk m) obj"

lemma bind_others:
  assumes "affinity_ok E" "storable E m obj"
  shows "bind_all E (map (\<lambda>(k, v). (k, asdict v)) (others m obj)) = Inr (cells_of (others m obj))"
proof (rule bind_all_cells)
  fix k v assume "(k, v) \<in> set (others m obj)"
  then have "(k, v) \<in> set obj" by (simp add: others_def)
  with assms obtain f where "f \<in> set (fields_of E m)" "f_name f = k" "column_keeps E (f_type f) v (cell_of v)"
    by (rule storable_column)
  then show "rbind (encode E (asdict v)) bind = Inr (cell_of v)" by (simp add: column_keeps_def)
qed

lemma others_dict_of: "filter (\<lambda>(k, v). k \<noteq> o_pk m) (dict_of obj) = map (\<lambda>(k, v). (k, asdict v)) (others m obj)"
  by (simp add: dict_of_def others_def filter_map comp_def case_prod_unfold)

lemma others_nonempty:
  assumes "distinct (map fst obj)" "length obj > 1"
  shows "others m obj \<noteq> []"
proof -
  obtain x y rest where o: "obj = x # y # rest" using assms(2) by (cases obj; cases "tl obj") auto
  with assms(1) have "fst x \<noteq> o_pk m \<or> fst y \<noteq> o_pk m" by auto
  then show ?thesis by (auto simp: others_def o)
qed

lemma stored_cell:
  assumes a: "affinity_ok E" and s: "storable E m obj" and t: "table_fits E m tb" and v: "(k, v) \<in> set obj"
  shows "stored E tb k (cell_of v) = cell_of v" "d_get (columns tb) k \<noteq> None"
proof -
  from a s v obtain f where f: "f \<in> set (fields_of E m)" "f_name f = k" "column_keeps E (f_type f) v (cell_of v)"
    by (rule storable_column)
  then obtain ct where ct: "sqlite_type (f_type f) = Inr ct" "cell_of v = Null \<or> affinity E ct (cell_of v) = cell_of v"
    by (auto simp: column_keeps_def)
  have "distinct (map f_name (fields_of E m))" using s plain_fields_names [of E m obj] by (metis storable_def)
  then have "d_get (columns tb) k = Some ct"
    using column_types_get [OF _ f(1) _ ct(1)] t f(2) by (simp add: table_fits_def)
  with ct(2) show "stored E tb k (cell_of v) = cell_of v" "d_get (columns tb) k \<noteq> None"
    by (auto simp: stored_def)
qed

lemma d_set_map:
  "k \<in> set (map fst d) \<Longrightarrow> distinct (map fst d) \<Longrightarrow> d_set k w d = map (\<lambda>(k', v). (k', if k' = k then w else v)) d"
proof (induction d)
  case (Cons x d)
  obtain a b where x: "x = (a, b)" by force
  show ?case
  proof (cases "a = k")
    case True
    then have "k \<notin> fst ` set d" using Cons.prems(2) x by simp
    then have "map (\<lambda>(k', v). (k', if k' = k then w else v)) d = d" by (force intro: map_idI)
    then show ?thesis using True x by (simp add: d_set_def)
  next
    case False
    then show ?thesis using Cons x by (simp add: d_set_def)
  qed
qed simp

lemma storable_with_key:
  assumes "storable E m obj" "in_range i"
  shows "storable E m (d_set (o_pk m) (VInt i) obj)"
proof -
  have p: "plain_fields (py E) (o_class m) obj" using assms(1) by (simp add: storable_def)
  note n = plain_fields_names [OF p]
  obtain f where f: "f \<in> set (fields_of E m)" "f_name f = o_pk m" "column_ty (f_type f) = Some TInt"
    using assms(1) by (auto simp: storable_def)
  have mem: "o_pk m \<in> set (map fst obj)" using f(1,2) n by (metis image_eqI list.set_map)
  let ?o = "d_set (o_pk m) (VInt i) obj"
  have set_eq: "?o = map (\<lambda>(k, v). (k, if k = o_pk m then VInt i else v)) obj"
    by (rule d_set_map [OF mem conjunct1 [OF n]])
  have "list_all2 (\<lambda>f kv. keeps_value (py E) (f_type f) (snd kv)) (fields_of E m) ?o"
  proof (rule list_all2_all_nthI)
    have l: "list_all2 (\<lambda>f kv. keeps_value (py E) (f_type f) (snd kv)) (fields_of E m) obj"
      using assms(1) by (simp add: storable_def)
    note len = list_all2_lengthD [OF l]
    then show "length (fields_of E m) = length ?o" by (simp add: set_eq)
    fix j assume j: "j < length (fields_of E m)"
    let ?g = "fields_of E m ! j"
    have name: "fst (obj ! j) = f_name ?g" using n j len by (metis nth_map)
    have dn: "distinct (map f_name (fields_of E m))" using n by metis
    show "keeps_value (py E) (f_type ?g) (snd (?o ! j))"
    proof (cases "f_name ?g = o_pk m")
      case True
      then have "?g = f" using f dn j by (metis distinct_map inj_onD nth_mem)
      with True name f assms(2) j len show ?thesis
        by (auto simp: set_eq keeps_value_def keeps_plain_def in_range_def case_prod_unfold)
    next
      case False
      with name j len list_all2_nthD [OF l j] show ?thesis by (simp add: set_eq case_prod_unfold)
    qed
  qed
  moreover have "map fst ?o = map fst obj" by (simp add: set_eq comp_def case_prod_unfold)
  moreover have "length ?o = length obj" by (simp add: set_eq)
  ultimately show ?thesis
    using assms(1) by (simp add: storable_def plain_fields_def split: option.splits)
qed

lemma filter_none_key:
  assumes "storable E m obj" "d_get obj (o_pk m) = Some VNone"
  shows "filter (\<lambda>(k, v). \<not> (k = o_pk m \<and> v = VNone)) (dict_of obj) = filter (\<lambda>(k, v). k \<noteq> o_pk m) (dict_of obj)"
proof (rule filter_cong [OF refl])
  fix x assume x: "x \<in> set (dict_of obj)"
  have "distinct (map fst obj)" using assms(1) plain_fields_names [of E m obj] by (metis storable_def)
  then have v: "v = VNone" if "(o_pk m, v) \<in> set obj" for v
    using that assms(2) by (simp add: d_get_def map_of_is_SomeI)
  from x show "(case x of (k, v) \<Rightarrow> \<not> (k = o_pk m \<and> v = VNone)) = (case x of (k, v) \<Rightarrow> k \<noteq> o_pk m)"
    by (auto simp: dict_of_def dest!: v)
qed

text \<open>The row an \<^verbatim>\<open>INSERT\<close> without key makes, and what it makes of the table.\<close>

lemma d_get_columns: "d_get (map (\<lambda>(k, t). (k, g k)) cols) k = (if k \<in> set (map fst cols) then Some (g k) else None)"
proof (induction cols)
  case (Cons c cols)
  obtain a b where "c = (a, b)" by force
  then show ?case by (simp only: list.map prod.case d_get_Cons Cons.IH) auto
qed simp

lemma insert_row_holds:
  assumes a: "affinity_ok E" and s: "storable E m obj" and t: "table_fits E m tb" and i: "in_range i"
  shows "holds (d_set (o_pk m) (Integer i) (make_row E tb (cells_of (others m obj)))) (d_set (o_pk m) (VInt i) obj)"
    and "column_of (make_row E tb (cells_of (others m obj))) (o_pk m) = Null"
proof -
  let ?row = "make_row E tb (cells_of (others m obj))"
  have p: "plain_fields (py E) (o_class m) obj" using s by (simp add: storable_def)
  note n = plain_fields_names [OF p]
  have "column_types (fields_of E m) = Inr (columns tb)" using t by (simp add: table_fits_def)
  then have cols: "map fst (columns tb) = map fst obj" using column_types_names n by simp
  have names: "map fst ?row = map fst obj" using cols by (simp add: make_row_def comp_def case_prod_unfold)
  have "d_get (columns tb) (o_pk m) \<noteq> None" using t by (simp add: table_fits_def)
  then have pk: "o_pk m \<in> set (map fst obj)" by (simp only: d_get_None_iff cols not_not)
  have row: "column_of ?row k = stored E tb k (column_of (cells_of (others m obj)) k)" if "k \<in> set (map fst obj)" for k
  proof -
    have "k \<in> set (map fst (columns tb))" using that cols by simp
    then show ?thesis by (simp add: column_of_def make_row_def d_get_columns)
  qed
  have other: "d_get (others m obj) k = (if k = o_pk m then None else d_get obj k)" for k
    by (induction obj) (auto simp: others_def)
  show z: "column_of ?row (o_pk m) = Null"
    using row [OF pk] other [of "o_pk m"] by (simp add: column_of_def cells_of_get stored_def split: option.split)
  note setr = d_set_map [OF pk conjunct1 [OF n]]
  have setrow: "d_set (o_pk m) (Integer i) ?row = map (\<lambda>(k', v). (k', if k' = o_pk m then Integer i else v)) ?row"
    by (rule d_set_map) (simp_all only: names pk conjunct1 [OF n])
  show "holds (d_set (o_pk m) (Integer i) ?row) (d_set (o_pk m) (VInt i) obj)"
    unfolding holds_def
  proof (intro conjI ballI)
    show "map fst (d_set (o_pk m) (Integer i) ?row) = map fst (d_set (o_pk m) (VInt i) obj)"
      using names by (simp add: setr setrow comp_def case_prod_unfold)
    fix x assume x: "x \<in> set (d_set (o_pk m) (VInt i) obj)"
    then obtain k v where kv: "(k, v) \<in> set obj" "x = (k, if k = o_pk m then VInt i else v)" by (auto simp: setr)
    show "case x of (k, v) \<Rightarrow> column_of (d_set (o_pk m) (Integer i) ?row) k = cell_of v"
    proof (cases "k = o_pk m")
      case True
      then show ?thesis using kv by (simp add: column_of_def cell_of_def)
    next
      case False
      have "d_get obj k = Some v" using kv(1) conjunct1 [OF n] by (simp add: d_get_def map_of_is_SomeI)
      then have "column_of (cells_of (others m obj)) k = cell_of v" using other False by (simp add: column_of_def cells_of_get)
      then have "column_of ?row k = cell_of v" using row [of k] kv(1) stored_cell(1) [OF a s t kv(1)] by force
      then show ?thesis using kv False by (simp add: column_of_def)
    qed
  qed
qed

lemma get_created: "create_table E m db = (Inr (), db1) \<Longrightarrow> d_get db1 (o_table m) \<noteq> None \<Longrightarrow> get_obj E m k db = get_obj E m k db1"
  using create_table_again by (fastforce simp: get_obj_def)

lemma next_row_le: "(\<And>i. i \<in> set ids \<Longrightarrow> i \<le> n) \<Longrightarrow> 0 \<le> n \<Longrightarrow> next_row ids \<le> n + 1"
  by (induction ids) (auto simp: next_row_def)

text \<open>The whole \<^verbatim>\<open>INSERT\<close>: the next key, and a table that still fits, with one row more.\<close>

lemma sql_insert_row:
  assumes a: "affinity_ok E" and s: "storable E m obj" and f: "fresh_table E m tb"
  obtains row where "sql_insert E (cells_of (others m obj)) tb =
      Inr (tb_seq tb + 1, tb\<lparr>tb_rows := tb_rows tb @ [(tb_seq tb + 1, row)], tb_seq := tb_seq tb + 1\<rparr>)"
    "holds row (d_set (o_pk m) (VInt (tb_seq tb + 1)) obj)"
    "table_fits E m (tb\<lparr>tb_rows := tb_rows tb @ [(tb_seq tb + 1, row)], tb_seq := tb_seq tb + 1\<rparr>)"
proof -
  let ?i = "tb_seq tb + 1" let ?given = "cells_of (others m obj)" let ?mk = "make_row E tb ?given"
  let ?row = "d_set (o_pk m) (Integer ?i) ?mk"
  have t: "table_fits E m tb" "?i < 2 ^ 63" using f by (simp_all add: fresh_table_def)
  note tf = t(1) [unfolded table_fits_def]
  have r: "in_range ?i" using t tf by (simp add: in_range_def)
  note h = insert_row_holds [OF a s t(1) r]
  have p: "plain_fields (py E) (o_class m) obj" "length obj > 1" using s by (simp_all add: storable_def)
  note n = plain_fields_names [OF p(1)]
  have g: "?given \<noteq> []" using others_nonempty [OF conjunct1 [OF n] p(2)] by (simp add: cells_of_def)
  have c: "d_get (columns tb) k \<noteq> None" if kc: "(k, c) \<in> set ?given" for k c
  proof -
    obtain v where "(k, v) \<in> set obj" using kc by (auto simp: cells_of_def others_def)
    then show ?thesis by (rule stored_cell(2) [OF a s t(1)])
  qed
  then have cols: "\<not> list_ex (\<lambda>(k, c). d_get (columns tb) k = None) ?given" by (auto simp: list_ex_iff)
  have "j \<le> tb_seq tb" if "j \<in> set (map fst (tb_rows tb))" for j
    using tf that by (auto simp: list_all_iff)
  then have i: "max ?i (next_row (map fst (tb_rows tb))) = ?i"
    using next_row_le [of "map fst (tb_rows tb)" "tb_seq tb"] tf by simp
  have ins: "sql_insert E ?given tb = Inr (?i, tb\<lparr>tb_rows := tb_rows tb @ [(?i, ?row)], tb_seq := ?i\<rparr>)"
    using g cols tf h(2) i t(2) by (simp add: sql_insert_def Let_def)
  have "?i \<notin> set (map fst (tb_rows tb))" using tf by (auto simp: list_all_iff)
  moreover have "map fst ?row = map f_name (fields_of E m)"
    using h(1) storable_with_key [OF s r] plain_fields_names by (metis holds_def storable_def)
  moreover have "column_of ?row (o_pk m) = Integer ?i" by (simp add: column_of_def)
  ultimately have "table_fits E m (tb\<lparr>tb_rows := tb_rows tb @ [(?i, ?row)], tb_seq := ?i\<rparr>)"
    using tf by (auto simp: table_fits_def list_all_iff)
  with ins h(1) show thesis by (rule that)
qed

text \<open>
  C29. What is inserted is what is read: an object without key whose values its columns keep gets the
  next key of its table, \<^verbatim>\<open>get\<close> with that key gives an equal object, and every other key gives what it
  gave before.
\<close>

theorem insert_then_get:
  assumes "affinity_ok E" and "storable E m obj" and "d_get obj (o_pk m) = Some VNone"
    and "\<And>tb. d_get db (o_table m) = Some tb \<Longrightarrow> fresh_table E m tb"
  shows "\<exists>i db'. insert_obj E m obj db = (Inr (d_set (o_pk m) (VInt i) obj), db') \<and>
     get_obj E m (VInt i) db' = (Inr (Some (VModel (o_class m) (d_set (o_pk m) (VInt i) obj))), db') \<and>
     (\<forall>j. in_range j \<and> j \<noteq> i \<longrightarrow> fst (get_obj E m (VInt j) db') = fst (get_obj E m (VInt j) db))"
proof -
  obtain db1 tb where c: "create_table E m db = (Inr (), db1)" "d_get db1 (o_table m) = Some tb" "fresh_table E m tb"
    using create_table_fits [OF assms(1,2,4)] by metis
  have tf: "table_fits E m tb" using c(3) by (simp add: fresh_table_def)
  let ?i = "tb_seq tb + 1" let ?obj = "d_set (o_pk m) (VInt ?i) obj"
  obtain row where r: "sql_insert E (cells_of (others m obj)) tb =
      Inr (?i, tb\<lparr>tb_rows := tb_rows tb @ [(?i, row)], tb_seq := ?i\<rparr>)" "holds row ?obj"
    "table_fits E m (tb\<lparr>tb_rows := tb_rows tb @ [(?i, row)], tb_seq := ?i\<rparr>)"
    by (rule sql_insert_row [OF assms(1,2) c(3)])
  let ?tb = "tb\<lparr>tb_rows := tb_rows tb @ [(?i, row)], tb_seq := ?i\<rparr>" let ?db = "d_set (o_table m) ?tb db1"
  have ir: "in_range ?i" using c(3) tf by (simp add: fresh_table_def table_fits_def in_range_def)
  have "filter (\<lambda>(k, v). \<not> (k = o_pk m \<and> v = VNone)) (dict_of obj) = map (\<lambda>(k, v). (k, asdict v)) (others m obj)"
    using filter_none_key [OF assms(2,3)] others_dict_of [of m obj] by simp
  then have ins: "insert_obj E m obj db = (Inr ?obj, ?db)"
    using c(1,2) bind_others [OF assms(1,2)] r(1) assms(3) by (simp add: insert_obj_def Let_def)
  have again: "create_table E m ?db = (Inr (), ?db)" by (rule create_table_again [OF c(1)]) simp
  have get: "get_obj E m (VInt ?i) ?db = (Inr (Some (VModel (o_class m) ?obj)), ?db)"
    by (rule get_holding [OF assms(1) r(3) again _ ir storable_with_key [OF assms(2) ir] _ r(2)]) simp_all
  have "fst (get_obj E m (VInt j) ?db) = fst (get_obj E m (VInt j) db)" if j: "in_range j" "j \<noteq> ?i" for j
  proof -
    have "create_table E m db1 = (Inr (), db1)" by (rule create_table_again [OF c(1)]) (simp add: c(2))
    then show ?thesis
      using get_by_key [OF assms(1) tf _ c(2) j(1)] get_by_key [OF assms(1) r(3) again _ j(1)]
        get_created [OF c(1)] c(2) j(2) by simp
  qed
  with ins get show ?thesis by blast
qed

definition user_env :: orm_env where
  "user_env = \<lparr>py = \<lparr>dataclasses = [(''User'', \<lparr>c_fields =
        [\<lparr>f_name = uni ''id'', f_type = TUnion [TInt, TNone], f_default = Some VNone\<rparr>,
         \<lparr>f_name = uni ''name'', f_type = TStr, f_default = Some (VStr [])\<rparr>,
         \<lparr>f_name = uni ''active'', f_type = TBool, f_default = Some (VBool True)\<rparr>],
        c_hashable = False, c_bases = [''Model'']\<rparr>)],
      float_of_text = \<lambda>s. None, float_of_bytes = \<lambda>b. None, float_of_int = \<lambda>i. Some (Finite (of_int i)),
      int_of_text = \<lambda>s. None, text_of = \<lambda>v. [], text_of_exn = \<lambda>e. []\<rparr>,
     float_repr = \<lambda>f. [], affinity = \<lambda>t c. c, is_letter = \<lambda>c. False\<rparr>"

definition user_model :: model where
  "user_model = \<lparr>o_class = ''User'', o_table = ''user'', o_pk = uni ''id''\<rparr>"

definition ada :: "pyval \<Rightarrow> object" where
  "ada key = [(uni ''id'', key), (uni ''name'', VStr (uni ''Ada'')), (uni ''active'', VBool True)]"

lemma ada_storable: "storable user_env user_model (ada VNone)"
  by (simp add: storable_def plain_fields_def fields_of_def user_env_def user_model_def ada_def keeps_value_def keeps_plain_def
      column_ty_def some_arg_def uni_def code_def is_scalar_def)

lemma user_affinity: "affinity_ok user_env"
  by (simp add: affinity_ok_def user_env_def)

theorem insert_then_get_witness:
  "\<exists>i db'. insert_obj user_env user_model (ada VNone) [] = (Inr (d_set (o_pk user_model) (VInt i) (ada VNone)), db') \<and>
     get_obj user_env user_model (VInt i) db' =
       (Inr (Some (VModel (o_class user_model) (d_set (o_pk user_model) (VInt i) (ada VNone)))), db') \<and>
     (\<forall>j. in_range j \<and> j \<noteq> i \<longrightarrow>
        fst (get_obj user_env user_model (VInt j) db') = fst (get_obj user_env user_model (VInt j) []))"
  by (rule insert_then_get [OF user_affinity ada_storable]) (simp_all add: ada_def user_model_def)

subsection \<open>\<^verbatim>\<open>save\<close> of an object that is there\<close>

lemma d_update_keys: "set (map fst es) \<subseteq> set (map fst d) \<Longrightarrow> map fst (d_update d es) = map fst d"
proof (induction d es rule: d_update.induct)
  case (2 d k v es)
  then have "map fst (d_set k v d) = map fst d" by (simp add: d_set_def update_keys)
  with 2 show ?case by simp
qed simp

lemma others_get: "d_get (others m obj) k = (if k = o_pk m then None else d_get obj k)"
  by (induction obj) (auto simp: others_def)

lemma stored_others:
  assumes "affinity_ok E" "storable E m obj" "table_fits E m tb"
  shows "map (\<lambda>(k, c). (k, stored E tb k c)) (cells_of (others m obj)) = cells_of (others m obj)"
  using stored_cell(1) [OF assms] by (auto simp: cells_of_def others_def intro: map_idI)

text \<open>The row an \<^verbatim>\<open>UPDATE\<close> makes of the row under the object's key.\<close>

lemma updated_row_holds:
  assumes s: "storable E m obj" and k: "d_get obj (o_pk m) = Some (VInt i)"
    and row: "map fst row = map f_name (fields_of E m)" "column_of row (o_pk m) = Integer i"
  shows "holds (d_update row (cells_of (others m obj))) obj"
proof -
  have p: "plain_fields (py E) (o_class m) obj" using s by (simp add: storable_def)
  note n = plain_fields_names [OF p]
  have "map fst (cells_of (others m obj)) = filter (\<lambda>k. k \<noteq> o_pk m) (map fst obj)"
    by (simp add: cells_of_def others_def filter_map comp_def case_prod_unfold)
  then have sub: "set (map fst (cells_of (others m obj))) \<subseteq> set (map fst row)"
    using row(1) conjunct2 [OF n] by simp
  have "distinct (map fst (others m obj))"
    using conjunct1 [OF n] by (simp add: others_def distinct_map_filter)
  then have ok: "d_ok (cells_of (others m obj))" by (simp add: d_ok_def cells_of_def comp_def case_prod_unfold)
  show ?thesis
    unfolding holds_def
  proof (intro conjI ballI)
    show "map fst (d_update row (cells_of (others m obj))) = map fst obj"
      using d_update_keys [OF sub] row(1) conjunct2 [OF n] by simp
    fix x assume x: "x \<in> set obj"
    obtain c v where kv: "x = (c, v)" by force
    then have v: "d_get obj c = Some v" using x conjunct1 [OF n] by (simp add: d_get_def map_of_is_SomeI)
    show "case x of (k, v) \<Rightarrow> column_of (d_update row (cells_of (others m obj))) k = cell_of v"
    proof (cases "c = o_pk m")
      case True
      then have "v = VInt i" using v k by simp
      with True kv row(2) show ?thesis
        by (simp add: column_of_def d_get_update [OF ok] cells_of_get others_get cell_of_def)
    next
      case False
      then show ?thesis using kv v by (simp add: column_of_def d_get_update [OF ok] cells_of_get others_get)
    qed
  qed
qed

text \<open>The whole \<^verbatim>\<open>UPDATE\<close>: the one row under the key now holds the object, the others are untouched.\<close>

lemma sql_update_row:
  assumes a: "affinity_ok E" and s: "storable E m obj" and key: "d_get obj (o_pk m) = Some (VInt k)"
    and t: "table_fits E m tb" and k: "k \<in> set (map fst (tb_rows tb))"
  obtains tb' row' where "sql_update E (cells_of (others m obj)) (o_pk m, Integer k) tb = Inr (1, tb')"
    "table_fits E m tb'" "(k, row') \<in> set (tb_rows tb')" "holds row' obj"
    "\<And>j. j \<noteq> k \<Longrightarrow> filter (\<lambda>r. fst r = j) (tb_rows tb') = filter (\<lambda>r. fst r = j) (tb_rows tb)"
proof -
  let ?sets = "cells_of (others m obj)" let ?hit = "\<lambda>r. fst r = k"
  let ?put = "\<lambda>r. if ?hit r then (fst r, d_update (snd r) ?sets) else r"
  let ?tb = "tb\<lparr>tb_rows := map ?put (tb_rows tb)\<rparr>"
  note tf = t [unfolded table_fits_def]
  have p: "plain_fields (py E) (o_class m) obj" "length obj > 1" using s by (simp_all add: storable_def)
  obtain row where row: "(k, row) \<in> set (tb_rows tb)" using k by auto
  have shape: "map fst row = map f_name (fields_of E m)" "column_of row (o_pk m) = Integer k"
    using tf row by (auto simp: list_all_iff)
  have ne: "?sets \<noteq> []"
    using others_nonempty [OF conjunct1 [OF plain_fields_names [OF p(1)]] p(2)] by (simp add: cells_of_def)
  have cols: "d_get (columns tb) c \<noteq> None" if kc: "(c, x) \<in> set ?sets" for c x
  proof -
    obtain v where "(c, v) \<in> set obj" using kc by (auto simp: cells_of_def others_def)
    then show ?thesis by (rule stored_cell(2) [OF a s t])
  qed
  have hit: "row_matches E tb [(o_pk m, Integer k)] r = ?hit r" if "r \<in> set (tb_rows tb)" for r
    by (rule row_matches_key [OF a t that])
  then have f: "filter (row_matches E tb [(o_pk m, Integer k)]) (tb_rows tb) = filter ?hit (tb_rows tb)"
    by (intro filter_cong refl) simp
  have one: "filter ?hit (tb_rows tb) = [(k, row)]" using filter_key [OF _ row] tf by simp
  have upd: "sql_update E ?sets (o_pk m, Integer k) tb = Inr (1, ?tb)"
    using ne cols tf hit f one stored_others [OF a s t] by (auto simp: sql_update_def Let_def list_ex_iff)
  have holds: "holds (d_update row ?sets) obj" by (rule updated_row_holds [OF s key shape])
  have "r = (k, row)" if "r \<in> set (tb_rows tb)" "?hit r" for r
  proof -
    have "r \<in> set (filter ?hit (tb_rows tb))" using that by simp
    then show ?thesis by (simp only: one) simp
  qed
  moreover have "map fst (d_update row ?sets) = map f_name (fields_of E m)"
    using holds plain_fields_names [OF p(1)] by (simp add: holds_def)
  moreover have "(o_pk m, VInt k) \<in> set obj" using key by (simp add: d_get_def map_of_SomeD)
  then have "column_of (d_update row ?sets) (o_pk m) = cell_of (VInt k)" using holds unfolding holds_def by blast
  then have "column_of (d_update row ?sets) (o_pk m) = Integer k" by (simp add: cell_of_def)
  moreover have "map fst (map ?put (tb_rows tb)) = map fst (tb_rows tb)" by simp
  then have "distinct (map fst (map ?put (tb_rows tb)))" using tf by metis
  ultimately have fits: "table_fits E m ?tb" using tf by (auto simp: table_fits_def list_all_iff)
  have "(k, d_update row ?sets) \<in> set (map ?put (tb_rows tb))" using row by (force simp: image_iff)
  moreover have "filter (\<lambda>r. fst r = j) (map ?put rows) = filter (\<lambda>r. fst r = j) rows" if "j \<noteq> k" for j rows
    using that by (induction rows) auto
  ultimately show thesis using that [OF upd fits _ holds] by simp
qed

text \<open>
  \<^verbatim>\<open>save\<close> writes through: saving an object under a key that is there makes \<^verbatim>\<open>get\<close> give the saved
  object, and nothing else in the table changes: every other key gives what it gave before.
\<close>

theorem save_then_get:
  assumes "affinity_ok E" and "storable E m obj" and "d_get obj (o_pk m) = Some (VInt k)" and "in_range k"
    and "d_get db (o_table m) = Some tb" and "table_fits E m tb" and "k \<in> set (map fst (tb_rows tb))"
  shows "\<exists>db'. save_obj E m obj db = (Inr obj, db') \<and>
     get_obj E m (VInt k) db' = (Inr (Some (VModel (o_class m) obj)), db') \<and>
     (\<forall>j. in_range j \<and> j \<noteq> k \<longrightarrow> fst (get_obj E m (VInt j) db') = fst (get_obj E m (VInt j) db))"
proof -
  obtain tb' row' where u: "sql_update E (cells_of (others m obj)) (o_pk m, Integer k) tb = Inr (1, tb')"
    "table_fits E m tb'" "(k, row') \<in> set (tb_rows tb')" "holds row' obj"
    "\<And>j. j \<noteq> k \<Longrightarrow> filter (\<lambda>r. fst r = j) (tb_rows tb') = filter (\<lambda>r. fst r = j) (tb_rows tb)"
    by (rule sql_update_row [OF assms(1-3,6,7)]) blast
  let ?db = "d_set (o_table m) tb' db"
  obtain i where i: "d_get (dataclasses (py E)) (o_class m) = Some i" "fields_of E m = c_fields i"
    using assms(2) by (auto simp: storable_def plain_fields_def fields_of_def split: option.splits)
  have c: "create_table E m db = (Inr (), db)"
    using i assms(5,6) by (auto simp: create_table_def table_fits_def)
  have save: "save_obj E m obj db = (Inr obj, ?db)"
    using assms(3,4,5) c bind_others [OF assms(1,2)] u(1) others_dict_of [of m obj]
    by (simp add: save_obj_def bind_def in_range_def)
  have again: "create_table E m ?db = (Inr (), ?db)" by (rule create_table_again [OF c]) simp
  have "get_obj E m (VInt k) ?db = (Inr (Some (VModel (o_class m) obj)), ?db)"
    by (rule get_holding [OF assms(1) u(2) again _ assms(4,2) u(3,4)]) simp
  moreover have "fst (get_obj E m (VInt j) ?db) = fst (get_obj E m (VInt j) db)" if j: "in_range j" "j \<noteq> k" for j
    using get_by_key [OF assms(1,6) c assms(5) j(1)] get_by_key [OF assms(1) u(2) again _ j(1)] u(5) [OF j(2)] by simp
  ultimately show ?thesis using save by blast
qed

text \<open>The database after the insertion of the sample object.\<close>

definition user_table :: table where
  "user_table = \<lparr>columns = [(uni ''id'', ''INTEGER''), (uni ''name'', ''TEXT''), (uni ''active'', ''INTEGER'')],
     key_col = Some (uni ''id''), auto_key = True,
     tb_rows = [(1, [(uni ''id'', Integer 1), (uni ''name'', Text (uni ''Bob'')), (uni ''active'', Integer 0)])], tb_seq = 1\<rparr>"

theorem save_then_get_witness:
  "\<exists>db'. save_obj user_env user_model (ada (VInt 1)) [(''user'', user_table)] = (Inr (ada (VInt 1)), db') \<and>
     get_obj user_env user_model (VInt 1) db' = (Inr (Some (VModel (o_class user_model) (ada (VInt 1)))), db') \<and>
     (\<forall>j. in_range j \<and> j \<noteq> 1 \<longrightarrow>
        fst (get_obj user_env user_model (VInt j) db') = fst (get_obj user_env user_model (VInt j) [(''user'', user_table)]))"
proof (rule save_then_get [OF user_affinity])
  show "storable user_env user_model (ada (VInt 1))"
    using storable_with_key [OF ada_storable, of 1] by (simp add: in_range_def ada_def user_model_def d_set_def)
  show "table_fits user_env user_model user_table"
    by (simp add: table_fits_def user_table_def user_env_def user_model_def fields_of_def sqlite_type.simps some_arg_def
        uni_def code_def column_of_def)
qed (simp_all add: ada_def user_model_def in_range_def user_table_def)

subsection \<open>Keys are given out once\<close>

text \<open>What the mapper may do to a database, with any objects of any models.\<close>

inductive orm_step :: "orm_env \<Rightarrow> database \<Rightarrow> database \<Rightarrow> bool" for E where
  "orm_step E db (snd (create_table E m db))"
| "orm_step E db (snd (insert_obj E m obj db))"
| "orm_step E db (snd (save_obj E m obj db))"
| "orm_step E db (snd (delete_obj E m obj db))"

definition later :: "table \<Rightarrow> table \<Rightarrow> bool" where
  "later tb tb' = (columns tb' = columns tb \<and> key_col tb' = key_col tb \<and> auto_key tb' = auto_key tb \<and> tb_seq tb \<le> tb_seq tb')"

definition later_db :: "database \<Rightarrow> database \<Rightarrow> bool" where
  "later_db db db' = (\<forall>t tb. d_get db t = Some tb \<longrightarrow> (\<exists>tb'. d_get db' t = Some tb' \<and> later tb tb'))"

lemma later_refl [simp]: "later tb tb"
  by (simp add: later_def)

lemma later_db_refl [simp]: "later_db db db"
  by (simp add: later_db_def)

lemma later_trans: "later a b \<Longrightarrow> later b c \<Longrightarrow> later a c"
  by (auto simp: later_def)

lemma later_db_trans:
  assumes "later_db a b" "later_db b c"
  shows "later_db a c"
  unfolding later_db_def
proof (intro allI impI)
  fix t tb assume "d_get a t = Some tb"
  then obtain tb1 where "d_get b t = Some tb1" "later tb tb1" using assms(1) unfolding later_db_def by blast
  moreover from this obtain tb2 where "d_get c t = Some tb2" "later tb1 tb2" using assms(2) unfolding later_db_def by blast
  ultimately show "\<exists>tb'. d_get c t = Some tb' \<and> later tb tb'" using later_trans by blast
qed

lemma later_db_set: "d_get db t = Some tb \<Longrightarrow> later tb tb' \<Longrightarrow> later_db db (d_set t tb' db)"
  by (auto simp: later_db_def)

lemma create_table_later: "later_db db (snd (create_table E m db))"
  by (auto simp: create_table_def later_db_def split: option.split sum.split)

lemma sql_insert_later: "sql_insert E given tb = Inr (i, tb') \<Longrightarrow> later tb tb'"
  by (auto simp: sql_insert_def Let_def later_def split: if_splits option.splits cell.splits)

lemma sql_update_later: "sql_update E sets key tb = Inr (n, tb') \<Longrightarrow> later tb tb'"
  by (auto simp: sql_update_def Let_def later_def split: if_splits)

lemma insert_obj_later: "later_db db (snd (insert_obj E m obj db))"
proof -
  obtain r db1 where c: "create_table E m db = (r, db1)" by force
  have l: "later_db db db1" using create_table_later [of db E m] c by simp
  have "later_db db1 (snd (insert_obj E m obj db)) \<or> snd (insert_obj E m obj db) = db1"
    using c by (auto simp: insert_obj_def Let_def split: sum.split option.split intro!: later_db_set dest: sql_insert_later)
  then show ?thesis using l later_db_trans by metis
qed

lemma save_obj_keyed:
  assumes "d_get obj (o_pk m) = Some key" "key \<noteq> VNone" "create_table E m db = (Inr u, db1)"
  shows "save_obj E m obj db =
    (case (bind_all E (filter (\<lambda>(k, v). k \<noteq> o_pk m) (dict_of obj)), bind key, d_get db1 (o_table m)) of
       (Inr sets, Inr c, Some tb) \<Rightarrow>
         (case sql_update E sets (o_pk m, c) tb of
            Inl e \<Rightarrow> (Inl e, db1)
          | Inr (n, tb') \<Rightarrow>
              if n = 0 then insert_obj E m obj (d_set (o_table m) tb' db1)
              else (Inr obj, d_set (o_table m) tb' db1))
     | (Inl e, _) \<Rightarrow> (Inl e, db1)
     | (_, Inl e, _) \<Rightarrow> (Inl e, db1)
     | _ \<Rightarrow> (Inl (PyError ''OperationalError''), db1))"
  using assms by (cases key) (simp_all add: save_obj_def)

lemma save_obj_later: "later_db db (snd (save_obj E m obj db))"
proof (cases "d_get obj (o_pk m) \<in> {None, Some VNone}")
  case True
  then show ?thesis using insert_obj_later by (auto simp: save_obj_def)
next
  case False
  then obtain key where k: "d_get obj (o_pk m) = Some key" "key \<noteq> VNone" by auto
  obtain r db1 where c: "create_table E m db = (r, db1)" by force
  have l: "later_db db db1" using create_table_later [of db E m] c by simp
  have u: "later_db db1 (d_set (o_table m) tb' db1)"
    if "d_get db1 (o_table m) = Some tb" "sql_update E sets x tb = Inr (n, tb')" for tb tb' sets x n
    using that by (intro later_db_set sql_update_later)
  have "later_db db1 (snd (save_obj E m obj db))"
  proof (cases r)
    case (Inl e)
    then show ?thesis using k c by (cases key) (simp_all add: save_obj_def)
  next
    case (Inr x)
    show ?thesis
      unfolding save_obj_keyed [OF k c [unfolded Inr]]
      by (auto split: sum.split option.split intro: u later_db_trans [OF u insert_obj_later])
  qed
  then show ?thesis using l later_db_trans by metis
qed

lemma delete_obj_later: "later_db db (snd (delete_obj E m obj db))"
  by (auto simp: delete_obj_def Let_def later_def split: option.split sum.split intro!: later_db_set)

lemma orm_steps_later: "(orm_step E)\<^sup>*\<^sup>* db db' \<Longrightarrow> later_db db db'"
proof (induction rule: rtranclp_induct)
  case (step db1 db2)
  from step(2) have "later_db db1 db2"
    by cases (simp_all add: create_table_later insert_obj_later save_obj_later delete_obj_later)
  with step(3) show ?case by (rule later_db_trans)
qed simp

lemma bind_all_keys: "bind_all E kvs = Inr cs \<Longrightarrow> map fst cs = map fst kvs"
  by (induction kvs arbitrary: cs) (auto simp: rbind_Inr_iff)

lemma make_row_no_key:
  assumes "bind_all E (filter (\<lambda>(k, v). \<not> (k = o_pk m \<and> v = VNone)) (dict_of obj)) = Inr given"
    and "d_get obj (o_pk m) = Some VNone" "distinct (map fst obj)"
  shows "column_of (make_row E tb given) (o_pk m) = Null"
proof -
  let ?given0 = "filter (\<lambda>(k, v). \<not> (k = o_pk m \<and> v = VNone)) (dict_of obj)"
  have v: "v = VNone" if "(o_pk m, v) \<in> set obj" for v
    using that assms(2,3) by (simp add: d_get_def map_of_is_SomeI)
  have "o_pk m \<notin> set (map fst ?given0)" by (auto simp: dict_of_def dest!: v)
  then have "d_get given (o_pk m) = None" using bind_all_keys [OF assms(1)] by (simp add: d_get_None_iff)
  then show ?thesis
    by (simp add: column_of_def make_row_def d_get_columns stored_def split: option.split)
qed

text \<open>A key from an \<^verbatim>\<open>AUTOINCREMENT\<close> table lies above its counter before and not above it after.\<close>

lemma insert_key_new:
  assumes "insert_obj E m obj db = (Inr obj', db')" "d_get obj (o_pk m) = Some VNone" "distinct (map fst obj)"
    and "d_get db' (o_table m) = Some tb'" "auto_key tb'" "key_col tb' = Some (o_pk m)"
    and "d_get obj' (o_pk m) = Some (VInt i)"
  shows "i \<le> tb_seq tb'" "d_get db (o_table m) = Some tb \<Longrightarrow> tb_seq tb < i"
proof -
  let ?given0 = "filter (\<lambda>(k, v). \<not> (k = o_pk m \<and> v = VNone)) (dict_of obj)"
  obtain db1 given tb1 j where s: "create_table E m db = (Inr (), db1)" "bind_all E ?given0 = Inr given"
    "d_get db1 (o_table m) = Some tb1" "sql_insert E given tb1 = Inr (j, tb')" "obj' = d_set (o_pk m) (VInt j) obj"
    using assms(1,2,4)
    by (auto simp: insert_obj_def Let_def split: prod.splits sum.splits option.splits)
  have i: "i = j" using assms(7) s(5) by simp
  have n: "column_of (make_row E tb1 given) (o_pk m) = Null" by (rule make_row_no_key [OF s(2) assms(2,3)])
  have k: "auto_key tb1" "key_col tb1 = Some (o_pk m)" using sql_insert_later [OF s(4)] assms(5,6) by (auto simp: later_def)
  then have b: "tb_seq tb1 < j" "j \<le> tb_seq tb'"
    using s(4) n by (auto simp: sql_insert_def Let_def split: if_splits)
  then show "i \<le> tb_seq tb'" using i by simp
  have "later_db db db1" using create_table_later [of db E m] s(1) by simp
  then show "tb_seq tb < i" if "d_get db (o_table m) = Some tb"
    using that s(3) b(1) i unfolding later_db_def by (fastforce simp: later_def)
qed

text \<open>
  A key is never given out twice: whatever is inserted, saved or deleted in between, through any
  models, a later object without key gets a larger key than an earlier one of its table did, even
  when that one is long deleted.
\<close>

theorem keys_never_reused:
  assumes "insert_obj E m obj1 db = (Inr obj1', db1)" "d_get obj1 (o_pk m) = Some VNone" "distinct (map fst obj1)"
    and "d_get db1 (o_table m) = Some tb" "auto_key tb" "key_col tb = Some (o_pk m)"
    and "(orm_step E)\<^sup>*\<^sup>* db1 db2"
    and "insert_obj E m obj2 db2 = (Inr obj2', db3)" "d_get obj2 (o_pk m) = Some VNone" "distinct (map fst obj2)"
    and "d_get obj1' (o_pk m) = Some (VInt i1)" "d_get obj2' (o_pk m) = Some (VInt i2)"
  shows "i1 < i2"
proof -
  obtain tb2 where t2: "d_get db2 (o_table m) = Some tb2" "later tb tb2"
    using orm_steps_later [OF assms(7)] assms(4) by (auto simp: later_db_def)
  obtain tb3 where t3: "d_get db3 (o_table m) = Some tb3" "later tb2 tb3"
    using insert_obj_later [of db2 E m obj2] assms(8) t2(1) by (auto simp: later_db_def)
  have k: "auto_key tb3" "key_col tb3 = Some (o_pk m)" using assms(5,6) t2(2) t3(2) by (auto simp: later_def)
  have "i1 \<le> tb_seq tb" by (rule insert_key_new(1) [OF assms(1-6,11)])
  moreover have "tb_seq tb2 < i2" by (rule insert_key_new(2) [OF assms(8-10) t3(1) k assms(12) t2(1)])
  ultimately show ?thesis using t2(2) by (simp add: later_def)
qed

definition users :: "(int \<times> (ustr, cell) dict) list \<Rightarrow> int \<Rightarrow> database" where
  "users rows n = [(''user'', user_table\<lparr>tb_rows := rows, tb_seq := n\<rparr>)]"

definition ada_row :: "int \<Rightarrow> int \<times> (ustr, cell) dict" where
  "ada_row i = (i, [(uni ''id'', Integer i), (uni ''name'', Text (uni ''Ada'')), (uni ''active'', Integer 1)])"

lemma user_texts: "uni ''id'' = [105, 100]" "uni ''name'' = [110, 97, 109, 101]" "uni ''active'' = [97, 99, 116, 105, 118, 101]"
  "uni ''Ada'' = [65, 100, 97]"
  by (simp_all add: uni_def code_def)

lemma create_user: "create_table user_env user_model [] = (Inr (), users [] 0)"
  "create_table user_env user_model (users rows n) = (Inr (), users rows n)"
  by (simp_all add: create_table_def users_def user_table_def user_env_def user_model_def sqlite_type.simps some_arg_def user_texts d_set_def)

lemma insert_user:
  assumes "create_table user_env user_model db = (Inr (), users [] n)" "0 \<le> n" "n < 5"
  shows "insert_obj user_env user_model (ada VNone) db = (Inr (ada (VInt (n + 1))), users [ada_row (n + 1)] (n + 1))"
  using assms(2,3)
  by (simp add: insert_obj_def assms(1))
    (simp add: users_def user_table_def user_env_def user_model_def user_texts ada_def ada_row_def
      dict_of_def encode_def bind_def is_scalar_def sql_insert_def make_row_def column_of_def stored_def next_row_def d_set_def Let_def)

theorem keys_never_reused_witness:
  "\<exists>i1 i2 db1 db3. insert_obj user_env user_model (ada VNone) [] = (Inr (ada (VInt i1)), db1) \<and>
     insert_obj user_env user_model (ada VNone) (snd (delete_obj user_env user_model (ada (VInt i1)) db1)) =
       (Inr (ada (VInt i2)), db3) \<and> i1 < i2"
proof -
  have a: "insert_obj user_env user_model (ada VNone) [] = (Inr (ada (VInt 1)), users [ada_row 1] 1)"
    using insert_user [OF create_user(1)] by simp
  have b: "insert_obj user_env user_model (ada VNone) (users [] 1) = (Inr (ada (VInt 2)), users [ada_row 2] 2)"
    using insert_user [OF create_user(2), of 1] by simp
  have d: "snd (delete_obj user_env user_model (ada (VInt 1)) (users [ada_row 1] 1)) = users [] 1"
    by (simp add: delete_obj_def users_def user_table_def user_env_def user_model_def user_texts ada_def ada_row_def bind_def
        row_matches_def cell_eq_def cell_num_def column_of_def stored_def d_set_def Let_def)
  then have r: "(orm_step user_env)\<^sup>*\<^sup>* (users [ada_row 1] 1) (users [] 1)"
    using orm_step.intros(4) [of user_env "users [ada_row 1] 1" user_model "ada (VInt 1)"] by (simp add: r_into_rtranclp)
  have "(1 :: int) < 2"
    by (rule keys_never_reused [OF a _ _ _ _ _ r b, where tb = "user_table\<lparr>tb_rows := [ada_row 1], tb_seq := 1\<rparr>"])
      (simp_all add: users_def ada_def user_model_def user_table_def user_texts)
  with a b d show ?thesis by metis
qed

subsection \<open>A key that is no integer is not given out\<close>

text \<open>
  A model whose key column is not an integer loses objects inserted without a key: the row is stored
  with a \<^verbatim>\<open>NULL\<close> key that no \<^verbatim>\<open>get\<close>, \<^verbatim>\<open>save\<close> or \<^verbatim>\<open>delete\<close> can match, while the object is handed back with
  the hidden row number as its key.
\<close>

theorem text_key_lost:
  assumes "insert_obj E m obj db = (Inr obj', db')" "d_get obj (o_pk m) = Some VNone" "distinct (map fst obj)"
    and "d_get db' (o_table m) = Some tb'" "\<not> auto_key tb'"
  shows "\<exists>i row. d_get obj' (o_pk m) = Some (VInt i) \<and> (i, row) \<in> set (tb_rows tb') \<and>
    (\<forall>c. \<not> row_matches E tb' [(o_pk m, c)] (i, row))"
proof -
  obtain db1 given tb1 j where s: "bind_all E (filter (\<lambda>(k, v). \<not> (k = o_pk m \<and> v = VNone)) (dict_of obj)) = Inr given"
    "sql_insert E given tb1 = Inr (j, tb')" "obj' = d_set (o_pk m) (VInt j) obj"
    using assms(1,2,4)
    by (auto simp: insert_obj_def Let_def split: prod.splits sum.splits option.splits)
  let ?row = "make_row E tb1 given"
  have n: "column_of ?row (o_pk m) = Null" by (rule make_row_no_key [OF s(1) assms(2,3)])
  have "\<not> auto_key tb1" using sql_insert_later [OF s(2)] assms(5) by (simp add: later_def)
  then have "(j, ?row) \<in> set (tb_rows tb')"
    using s(2) by (auto simp: sql_insert_def Let_def split: if_splits option.splits)
  moreover have "\<not> row_matches E tb' [(o_pk m, c)] (j, ?row)" for c
    using n by (simp add: row_matches_def cell_eq_def)
  ultimately show ?thesis using s(3) by auto
qed

definition note_env :: orm_env where
  "note_env = user_env\<lparr>py := (py user_env)\<lparr>dataclasses := [(''Note'', \<lparr>c_fields =
        [\<lparr>f_name = uni ''id'', f_type = TUnion [TStr, TNone], f_default = Some VNone\<rparr>,
         \<lparr>f_name = uni ''name'', f_type = TStr, f_default = Some (VStr [])\<rparr>], c_hashable = False, c_bases = [''Model'']\<rparr>)]\<rparr>\<rparr>"

definition note_model :: model where
  "note_model = \<lparr>o_class = ''Note'', o_table = ''note'', o_pk = uni ''id''\<rparr>"

theorem text_key_lost_witness:
  "\<exists>db' tb' i row. insert_obj note_env note_model [(uni ''id'', VNone), (uni ''name'', VStr [])] [] =
       (Inr [(uni ''id'', VInt i), (uni ''name'', VStr [])], db') \<and>
     d_get db' ''note'' = Some tb' \<and> (i, row) \<in> set (tb_rows tb') \<and>
     (\<forall>c. \<not> row_matches note_env tb' [(o_pk note_model, c)] (i, row))"
proof -
  let ?tb = "\<lparr>columns = [(uni ''id'', ''TEXT''), (uni ''name'', ''TEXT'')], key_col = Some (uni ''id''), auto_key = False,
    tb_rows = [(1, [(uni ''id'', Null), (uni ''name'', Text [])])], tb_seq = 0\<rparr>"
  have a: "insert_obj note_env note_model [(uni ''id'', VNone), (uni ''name'', VStr [])] [] =
      (Inr [(uni ''id'', VInt 1), (uni ''name'', VStr [])], [(''note'', ?tb)])"
    by (simp add: insert_obj_def create_table_def note_env_def note_model_def user_env_def user_texts sqlite_type.simps some_arg_def
        dict_of_def encode_def bind_def sql_insert_def make_row_def column_of_def stored_def next_row_def d_set_def cell_eq_def Let_def)
  obtain i row where "d_get [(uni ''id'', VInt 1), (uni ''name'', VStr [])] (o_pk note_model) = Some (VInt i)"
    "(i, row) \<in> set (tb_rows ?tb)" "\<forall>c. \<not> row_matches note_env ?tb [(o_pk note_model, c)] (i, row)"
    using text_key_lost [OF a, of ?tb] by (auto simp: note_model_def user_texts)
  with a show ?thesis by (auto simp: note_model_def)
qed

end
