(* ===== verification/Crypto.thy ===== *)
theory Crypto
  imports Auth
begin

section \<open>Password hashes (\<^verbatim>\<open>crypto.py\<close>)\<close>

text \<open>
  \<^verbatim>\<open>hash_password\<close>, \<^verbatim>\<open>verify_password\<close> and \<^verbatim>\<open>needs_rehash\<close>. The key derivation \<^verbatim>\<open>hashlib.scrypt\<close> is a
  parameter of its password, salt, cost parameters, length and memory bound, without a value where
  it raises; the random salt is an argument. Hashes are texts of characters below 256.
\<close>

record scrypt_params =
  sp_n :: int
  sp_r :: int
  sp_p :: int
  sp_dklen :: int
  sp_salt_bytes :: int
  sp_maxmem :: int

definition ScryptParams :: scrypt_params where
  "ScryptParams = \<lparr>sp_n = 2 ^ 14, sp_r = 8, sp_p = 1, sp_dklen = 64, sp_salt_bytes = 32, sp_maxmem = 64 * 1024 * 1024\<rparr>"

type_synonym kdf = "bytes \<Rightarrow> bytes \<Rightarrow> int \<Rightarrow> int \<Rightarrow> int \<Rightarrow> int \<Rightarrow> int \<Rightarrow> bytes option"

definition param_text :: "scrypt_params \<Rightarrow> str" where
  "param_text P = ''n='' @ show_int (sp_n P) @ '',r='' @ show_int (sp_r P) @ '',p='' @ show_int (sp_p P) @
     '',dklen='' @ show_int (sp_dklen P)"

definition hash_password :: "kdf \<Rightarrow> bytes \<Rightarrow> bytes \<Rightarrow> scrypt_params \<Rightarrow> str result" where
  "hash_password scrypt plain salt P =
     (case scrypt plain salt (sp_n P) (sp_r P) (sp_p P) (sp_dklen P) (sp_maxmem P) of
        None \<Rightarrow> Inl (PyError ''ValueError'')
      | Some digest \<Rightarrow> Inr (''$scrypt$'' @ param_text P @ ''$'' @ b64e salt @ ''$'' @ b64e digest))"

text \<open>\<^verbatim>\<open>s.split(sep, k)\<close>: at most \<open>k\<close> cuts.\<close>

fun split_max :: "nat \<Rightarrow> str \<Rightarrow> str \<Rightarrow> str list" where
  "split_max 0 sep s = [s]"
| "split_max (Suc k) sep s = (case split1 sep s of None \<Rightarrow> [s] | Some (a, b) \<Rightarrow> a # split_max k sep b)"

text \<open>\<^verbatim>\<open>dict(part.split("=", 1) for part in text.split(","))\<close>, which raises for a part without the sign.\<close>

fun pairs_of :: "str list \<Rightarrow> (str, str) dict \<Rightarrow> (str, str) dict option" where
  "pairs_of [] d = Some d"
| "pairs_of (part # parts) d =
     (case split1 ''='' part of None \<Rightarrow> None | Some (k, v) \<Rightarrow> pairs_of parts (d_set k v d))"

definition int_at :: "(str, str) dict \<Rightarrow> str \<Rightarrow> int option" where
  "int_at d k = Option.bind (d_get d k) py_int"

text \<open>The parameters, salt and digest of a hash; every exception on the way is \<open>None\<close>.\<close>

definition parse_hash :: "str \<Rightarrow> (str \<times> str \<times> str \<times> str) option" where
  "parse_hash hashed =
     (case split_max 4 ''$'' hashed of [x, scheme, ptext, salt, digest] \<Rightarrow> Some (scheme, ptext, salt, digest) | _ \<Rightarrow> None)"

definition verify_password :: "kdf \<Rightarrow> bytes \<Rightarrow> str \<Rightarrow> bool" where
  "verify_password scrypt plain hashed =
     (case parse_hash hashed of
        None \<Rightarrow> False
      | Some (scheme, ptext, salt_b64, digest_b64) \<Rightarrow>
          if scheme \<noteq> ''scrypt'' then False
          else (case pairs_of (split_on '','' ptext) [] of
              None \<Rightarrow> False
            | Some ps \<Rightarrow>
                (case (int_at ps ''n'', int_at ps ''r'', int_at ps ''p'', int_at ps ''dklen'', b64d salt_b64, b64d digest_b64) of
                   (Some n, Some r, Some p, Some dklen, Some salt, Some expected) \<Rightarrow>
                     (case scrypt plain salt n r p dklen (max (64 * 1024 * 1024) (n * r * p * 256)) of
                        None \<Rightarrow> False
                      | Some actual \<Rightarrow> actual = expected)
                 | _ \<Rightarrow> False)))"

text \<open>\<^verbatim>\<open>any\<close> stops at the first parameter that differs; a missing one raises and counts as \<^verbatim>\<open>True\<close>.\<close>

definition needs_rehash :: "str \<Rightarrow> scrypt_params \<Rightarrow> bool" where
  "needs_rehash hashed P =
     (case parse_hash hashed of
        None \<Rightarrow> True
      | Some (scheme, ptext, salt_b64, digest_b64) \<Rightarrow>
          scheme \<noteq> ''scrypt'' \<or>
          (case pairs_of (split_on '','' ptext) [] of
             None \<Rightarrow> True
           | Some ps \<Rightarrow>
               list_ex (\<lambda>(k, v). int_at ps k \<noteq> Some v)
                 [(''n'', sp_n P), (''r'', sp_r P), (''p'', sp_p P), (''dklen'', sp_dklen P)]))"

subsection \<open>A hash is read as it was written\<close>

lemma show_int_chars: "c \<in> set (show_int i) \<Longrightarrow> c \<notin> set ''$,=''"
proof -
  have "c \<notin> set ''$,=''" if "c \<in> set (show_nat n)" for n
    using show_nat_chars [OF that] by (auto simp: code_def)
  then show "c \<in> set (show_int i) \<Longrightarrow> c \<notin> set ''$,=''"
    by (auto simp: show_int_def split: if_splits)
qed

lemma b64e_no_dollar: "CHR ''$'' \<notin> set (b64e b)"
proof -
  have "sextet_char URL v \<noteq> CHR ''$''" if "v < 64" for v
  proof -
    have "code (CHR ''$'') = 36" by (simp add: code_def)
    then show ?thesis using that code_alphabet by (auto simp: sextet_char_def char_eq_code URL_def)
  qed
  then show ?thesis using to_sextets_lt [of _ b] by (force simp: b64e_eq)
qed

lemma param_text_no_dollar: "CHR ''$'' \<notin> set (param_text P)"
  using show_int_chars by (auto simp: param_text_def)

lemma parse_hash_written:
  "parse_hash (''$scrypt$'' @ param_text P @ ''$'' @ b64e salt @ ''$'' @ b64e digest) =
     Some (''scrypt'', param_text P, b64e salt, b64e digest)"
proof -
  have s: "split1 ''$'' (a @ ''$'' @ r) = Some (a, r)" if "CHR ''$'' \<notin> set a" for a r :: str
    by (rule split1_hd_notin) (use that in simp_all)
  have "split_max 4 ''$'' ([] @ ''$'' @ ''scrypt'' @ ''$'' @ param_text P @ ''$'' @ b64e salt @ ''$'' @ b64e digest) =
      [[], ''scrypt'', param_text P, b64e salt, b64e digest]"
    using s [of "[]"] s [of "''scrypt''"] s [OF param_text_no_dollar] s [OF b64e_no_dollar]
    by (simp add: numeral_eq_Suc)
  then show ?thesis by (simp add: parse_hash_def)
qed

lemma split_fields:
  "split_on '','' (param_text P) =
     [''n='' @ show_int (sp_n P), ''r='' @ show_int (sp_r P), ''p='' @ show_int (sp_p P), ''dklen='' @ show_int (sp_dklen P)]"
proof -
  let ?fs = "[''n='' @ show_int (sp_n P), ''r='' @ show_int (sp_r P), ''p='' @ show_int (sp_p P), ''dklen='' @ show_int (sp_dklen P)]"
  have "CHR '','' \<notin> set (show_int i)" for i using show_int_chars [of "CHR '',''" i] by auto
  then have "split_on '','' (join '','' ?fs) = ?fs"
    by (intro split_on_join) auto
  then show ?thesis by (simp add: param_text_def)
qed

lemma pairs_written:
  "pairs_of (split_on '','' (param_text P)) [] =
     Some [(''n'', show_int (sp_n P)), (''r'', show_int (sp_r P)), (''p'', show_int (sp_p P)), (''dklen'', show_int (sp_dklen P))]"
proof -
  have s: "split1 ''='' (k @ ''='' @ v) = Some (k, v)" if "CHR ''='' \<notin> set k" for k v :: str
    by (rule split1_hd_notin) (use that in simp_all)
  show ?thesis
    using s [of "''n''"] s [of "''r''"] s [of "''p''"] s [of "''dklen''"]
    by (simp add: split_fields d_set_def)
qed

definition printable :: "scrypt_params \<Rightarrow> bool" where
  "printable P = list_all (\<lambda>i. \<bar>i\<bar> < 10 ^ max_str_digits) [sp_n P, sp_r P, sp_p P, sp_dklen P]"

text \<open>
  What is used of \<^verbatim>\<open>scrypt\<close>: its memory bound decides whether there is a result, not which one, and
  the bound of \<^verbatim>\<open>verify_password\<close> is large enough for what \<^verbatim>\<open>hash_password\<close> computed.
\<close>

definition bound_only :: "kdf \<Rightarrow> scrypt_params \<Rightarrow> bool" where
  "bound_only scrypt P =
     (\<forall>pw salt. scrypt pw salt (sp_n P) (sp_r P) (sp_p P) (sp_dklen P)
         (max (64 * 1024 * 1024) (sp_n P * sp_r P * sp_p P * 256)) =
       scrypt pw salt (sp_n P) (sp_r P) (sp_p P) (sp_dklen P) (sp_maxmem P))"


definition length_kdf :: kdf where
  "length_kdf pw salt n r p dklen maxmem = Some (salt @ pw)"


end
