(* ===== verification/OpenApi.thy ===== *)
theory OpenApi
  imports Router_Props Schema
begin

section \<open>The OpenAPI document (\<^verbatim>\<open>Router.openapi\<close>)\<close>

text \<open>
  What \<^verbatim>\<open>/openapi.json\<close> and \<^verbatim>\<open>/docs\<close> answer. \<open>handler_info\<close> is what the code reads from a handler:
  its \<^verbatim>\<open>__name__\<close>, if it has one, and the dataclasses the validation decorators attached to it. The
  number is the recursion limit of the schemas.
\<close>

record handler_info =
  hi_name :: "str option"
  hi_body :: "str option"
  hi_query :: "str option"

text \<open>\<^verbatim>\<open>_ROUTE_PARAM.sub\<close> with the name in braces.\<close>

function path_template :: "str \<Rightarrow> str" where
  "path_template s =
     (case s of
        [] \<Rightarrow> []
      | c # cs \<Rightarrow>
          if c = CHR ''<'' then
            (case angle_param cs of
               Some (Seg n, rest) \<Rightarrow> ''{'' @ n @ ''}'' @ path_template rest
             | _ \<Rightarrow> c # path_template cs)
          else c # path_template cs)"
  by pat_completeness auto
termination
  by (relation "measure length") (auto dest!: angle_param_length)

declare path_template.simps [simp del]

text \<open>\<^verbatim>\<open>re.findall(r"{([^}]+)}", path)\<close>.\<close>

function find_braces :: "str \<Rightarrow> str list" where
  "find_braces s =
     (case s of
        [] \<Rightarrow> []
      | c # cs \<Rightarrow>
          (let n = takeWhile (\<lambda>c. c \<noteq> CHR ''}'') cs; rest = dropWhile (\<lambda>c. c \<noteq> CHR ''}'') cs
           in if c = CHR ''{'' \<and> n \<noteq> [] \<and> rest \<noteq> [] then n # find_braces (tl rest) else find_braces cs))"
  by pat_completeness auto
termination
  by (relation "measure length") (auto simp: Let_def less_Suc_eq_le intro: le_trans [OF diff_le_self length_dropWhile_le])

declare find_braces.simps [simp del]

definition path_params :: "str \<Rightarrow> str list" where
  "path_params tpl = map (before '':'') (find_braces tpl)"

definition parameter :: "ustr \<Rightarrow> str \<Rightarrow> bool \<Rightarrow> json \<Rightarrow> json" where
  "parameter name place required schema =
     JObj [(uni ''name'', JStr name), (uni ''in'', JStr (uni place)), (uni ''required'', JBool required),
       (uni ''schema'', schema)]"

definition query_parameters :: "json \<Rightarrow> json list" where
  "query_parameters schema =
     (case schema of
        JObj d \<Rightarrow> map (\<lambda>(name, spec). parameter name ''query'' (JStr name \<in> set (required_of d)) spec) (props_of d)
      | _ \<Rightarrow> [])"

definition model_schema :: "py_env \<Rightarrow> nat \<Rightarrow> str option \<Rightarrow> json option result" where
  "model_schema E n m =
     (case m of
        None \<Rightarrow> Inr None
      | Some c \<Rightarrow>
          (case schema_for_dataclass E n c of None \<Rightarrow> Inl (PyError ''RecursionError'') | Some s \<Rightarrow> Inr (Some s)))"

definition request_body :: "json \<Rightarrow> json" where
  "request_body s =
     JObj [(uni ''required'', JBool True),
       (uni ''content'', JObj [(uni ''application/json'', JObj [(uni ''schema'', s)])])]"

text \<open>
  The operation of a route, from its handler's name and the schemas of its body and query; the
  parameters are absent when there is no query model and none in the path.
\<close>

definition operation_object :: "str \<Rightarrow> json option \<Rightarrow> json option \<Rightarrow> str \<Rightarrow> str \<Rightarrow> json" where
  "operation_object nm bs qs meth tpl =
     JObj (
       [(uni ''operationId'', JStr (uni (nm @ ''_'' @ lower meth))),
        (uni ''responses'', JObj [(uni ''200'', JObj [(uni ''description'', JStr (uni ''Successful Response''))])])] @
       (case bs of None \<Rightarrow> [] | Some s \<Rightarrow> [(uni ''requestBody'', request_body s)]) @
       (if qs = None \<and> path_params tpl = [] then []
        else [(uni ''parameters'', JArr (
          (case qs of None \<Rightarrow> [] | Some s \<Rightarrow> query_parameters s) @
          map (\<lambda>x. parameter (uni x) ''path'' True (type_schema ''string'')) (path_params tpl)))]))"

definition operation :: "py_env \<Rightarrow> nat \<Rightarrow> handler_info \<Rightarrow> str \<Rightarrow> str \<Rightarrow> json result" where
  "operation E n hi meth tpl =
     (case hi_name hi of
        None \<Rightarrow> Inl (PyError ''AttributeError'')
      | Some nm \<Rightarrow>
          rbind (model_schema E n (hi_body hi)) (\<lambda>bs.
          rbind (model_schema E n (hi_query hi)) (\<lambda>qs.
            Inr (operation_object nm bs qs meth tpl))))"

type_synonym paths = "(str, (str, json) dict) dict"

fun openapi_paths :: "py_env \<Rightarrow> nat \<Rightarrow> ('h \<Rightarrow> handler_info) \<Rightarrow> ('h, 'm) route list \<Rightarrow> paths \<Rightarrow> paths result" where
  "openapi_paths E n info [] ps = Inr ps"
| "openapi_paths E n info (rt # rts) ps =
     (let tpl = path_template (rt_pattern rt);
          ops = (case d_get ps tpl of Some d \<Rightarrow> d | None \<Rightarrow> [])
      in rbind (operation E n (info (rt_handler rt)) (rt_method rt) tpl) (\<lambda>op.
           openapi_paths E n info rts (d_set tpl (d_set (lower (rt_method rt)) op ops) ps)))"

definition paths_json :: "paths \<Rightarrow> json" where
  "paths_json ps = JObj (map (\<lambda>(p, ops). (uni p, JObj (map (\<lambda>(m, op). (uni m, op)) ops))) ps)"

definition openapi :: "py_env \<Rightarrow> nat \<Rightarrow> ('h \<Rightarrow> handler_info) \<Rightarrow> ('h, 'm) router \<Rightarrow> json result" where
  "openapi E n info r =
     rbind (openapi_paths E n info (routes r) []) (\<lambda>ps.
       Inr (JObj [(uni ''openapi'', JStr (uni ''3.0.3'')),
         (uni ''info'', JObj [(uni ''title'', JStr (uni ''Sovereign API'')), (uni ''version'', JStr (uni ''1.0.0''))]),
         (uni ''paths'', paths_json ps)]))"

text \<open>The handler that \<^verbatim>\<open>resolve\<close> returns for the documentation paths.\<close>

definition docs_handler :: "py_env \<Rightarrow> nat \<Rightarrow> ('h \<Rightarrow> handler_info) \<Rightarrow> ('h, 'm) router \<Rightarrow> 'w handler" where
  "docs_handler E n info r ctx = (rbind (openapi E n info r) (\<lambda>j. JSONResponse j 200 []), ctx)"

subsection \<open>The path parameters of a template are those of the pattern\<close>

lemma path_template_Nil [simp]: "path_template [] = []"
  by (simp add: path_template.simps)

lemma path_template_other: "c \<noteq> CHR ''<'' \<Longrightarrow> path_template (c # cs) = c # path_template cs"
  by (simp add: path_template.simps)

lemma path_template_append: "CHR ''<'' \<notin> set a \<Longrightarrow> path_template (a @ b) = a @ path_template b"
  by (induction a) (auto simp: path_template_other)

lemma find_braces_Nil [simp]: "find_braces [] = []"
  by (simp add: find_braces.simps)

lemma find_braces_other: "c \<noteq> CHR ''{'' \<Longrightarrow> find_braces (c # cs) = find_braces cs"
  by (simp add: find_braces.simps Let_def)

lemma find_braces_group:
  assumes "n \<noteq> []" and "CHR ''}'' \<notin> set n"
  shows "find_braces (CHR ''{'' # n @ CHR ''}'' # t) = n # find_braces t"
proof -
  have "takeWhile (\<lambda>c. c \<noteq> CHR ''}'') (n @ CHR ''}'' # t) = n"
    "dropWhile (\<lambda>c. c \<noteq> CHR ''}'') (n @ CHR ''}'' # t) = CHR ''}'' # t"
    using assms(2) by (induction n) auto
  then show ?thesis using assms(1) by (simp add: find_braces.simps)
qed

lemma name_char_not: "name_char c \<Longrightarrow> c \<noteq> CHR ''}'' \<and> c \<noteq> CHR '':'' \<and> c \<noteq> CHR ''<''"
  by (auto simp: name_char_def name_start_def code_def)

lemma take_name_SomeD:
  assumes "take_name s = Some (n, rest)"
  shows "n \<noteq> []" "s = n @ rest" "CHR ''}'' \<notin> set n" "CHR '':'' \<notin> set n" "CHR ''<'' \<notin> set n"
proof -
  have *: "s \<noteq> []" "name_start (hd s)" "n = takeWhile name_char s" "rest = dropWhile name_char s"
    using assms by (auto simp: take_name_def split: if_splits)
  show "s = n @ rest" using * by simp
  show "n \<noteq> []" using * by (cases s) (auto simp: name_char_def)
  show "CHR ''}'' \<notin> set n" "CHR '':'' \<notin> set n" "CHR ''<'' \<notin> set n"
    using name_char_not by (auto simp: *(3) dest!: set_takeWhileD)
qed

lemma before_colon:
  assumes "CHR '':'' \<notin> set n"
  shows "before '':'' n = n" and "before '':'' (n @ CHR '':'' # t) = n"
  using split1_hd_notin [of "'':''" n t] split1_hd_notin_None [of "'':''" n] assms
  by (simp_all add: before_def)

lemma template_params:
  "parse_pattern p = Some is \<Longrightarrow> path_params (path_template p) = item_names is"
proof (induction p arbitrary: "is" rule: measure_induct_rule [of length])
  case (less s)
  have group: "path_params (CHR ''{'' # n @ CHR ''}'' # path_template rest) = before '':'' n # item_names js"
    if "parse_pattern rest = Some js" "length rest < length s" "n \<noteq> []" "CHR ''}'' \<notin> set n" for n rest js
    using less.IH [OF that(2,1)] that(3,4) by (simp add: path_params_def find_braces_group)
  show ?case
  proof (cases s)
    case Nil
    with less.prems show ?thesis by (simp add: parse_pattern.simps path_params_def)
  next
    case (Cons c cs)
    note p = less.prems [unfolded Cons parse_pattern.simps [of "c # cs"], simplified]
    have skip: "path_params (c # path_template cs) = item_names js"
      if "parse_pattern cs = Some js" "c \<noteq> CHR ''{''" for js
      using less.IH [of cs js] that Cons by (simp add: path_params_def find_braces_other)
    consider (angle) i rest where "c = CHR ''<''" "angle_param cs = Some (i, rest)"
      | (brace) "c = CHR ''{''" | (plain) "c \<noteq> CHR ''<'' \<or> angle_param cs = None" "c \<noteq> CHR ''{''"
      by (cases "angle_param cs") auto
    then show ?thesis
    proof cases
      case angle
      then obtain n js where n: "take_name cs = Some (n, CHR ''>'' # rest)" "i = Seg n"
        "parse_pattern rest = Some js" "is = Seg n # js"
        using p by (auto simp: angle_param_def split: option.splits list.splits if_splits)
      note n' = take_name_SomeD [OF n(1)]
      show ?thesis
        using group [of rest js n] n n' before_colon [OF n'(4)] angle Cons by (simp add: path_template.simps)
    next
      case brace
      then obtain i rest js where b: "brace_param cs = Some (i, rest)" "parse_pattern rest = Some js" "is = i # js"
        using p by (auto split: option.splits)
      then obtain n r where n: "take_name cs = Some (n, r)"
        and r: "(i = Seg n \<and> r = ''}'' @ rest) \<or> (i = Rest n \<and> r = '':path}'' @ rest)"
        by (auto simp: brace_param_def prefix_def split: option.splits if_splits)
      note n' = take_name_SomeD [OF n]
      show ?thesis
        using r group [of rest js n] group [of rest js "n @ '':path''"] b n' before_colon [OF n'(4)] brace Cons
          path_template_append [OF n'(5)]
        by (auto simp: path_template_other)
    next
      case plain
      then have "path_template (c # cs) = c # path_template cs"
        by (auto simp: path_template.simps)
      with plain p skip Cons show ?thesis by (auto split: if_splits)
    qed
  qed
qed

subsection \<open>Every operation of the document is a route and every route is in it\<close>

definition member_of :: "json \<Rightarrow> str \<Rightarrow> json option" where
  "member_of j k = (case j of JObj d \<Rightarrow> d_get d (uni k) | _ \<Rightarrow> None)"

definition documented :: "json \<Rightarrow> str \<Rightarrow> str \<Rightarrow> json option" where
  "documented doc t m =
     Option.bind (member_of doc ''paths'') (\<lambda>ps. Option.bind (member_of ps t) (\<lambda>ops. member_of ops m))"

text \<open>The names of the parameters of an operation that are in the path.\<close>

definition path_names :: "json \<Rightarrow> json option list" where
  "path_names op =
     (case member_of op ''parameters'' of
        Some (JArr ps) \<Rightarrow>
          map (\<lambda>p. member_of p ''name'') (filter (\<lambda>p. member_of p ''in'' = Some (JStr (uni ''path''))) ps)
      | _ \<Rightarrow> [])"

definition entry :: "paths \<Rightarrow> str \<Rightarrow> str \<Rightarrow> json option" where
  "entry ps t m = Option.bind (d_get ps t) (\<lambda>ops. d_get ops m)"

definition last_route :: "('h, 'm) route list \<Rightarrow> str \<Rightarrow> str \<Rightarrow> ('h, 'm) route option" where
  "last_route rts t m = find (\<lambda>rt. path_template (rt_pattern rt) = t \<and> lower (rt_method rt) = m) (rev rts)"

lemma find_snoc: "find P (xs @ [x]) = (case find P xs of Some y \<Rightarrow> Some y | None \<Rightarrow> if P x then Some x else None)"
  by (induction xs) (auto split: option.split)

lemma last_route_Nil [simp]: "last_route [] t m = None"
  by (simp add: last_route_def)

lemma last_route_Cons [simp]:
  "last_route (rt # rts) t m =
     (case last_route rts t m of
        Some x \<Rightarrow> Some x
      | None \<Rightarrow> if path_template (rt_pattern rt) = t \<and> lower (rt_method rt) = m then Some rt else None)"
  by (simp add: last_route_def find_snoc)

lemma last_routeD: "last_route rts t m = Some rt \<Longrightarrow>
    rt \<in> set rts \<and> path_template (rt_pattern rt) = t \<and> lower (rt_method rt) = m"
  by (induction rts) (auto split: option.splits if_splits)

lemma entry_set: "entry (d_set t (d_set m op (case d_get ps t of Some d \<Rightarrow> d | None \<Rightarrow> [])) ps) t' m' =
    (if t' = t \<and> m' = m then Some op else entry ps t' m')"
  by (auto simp: entry_def split: option.split)

lemma openapi_paths_entry:
  "openapi_paths E n info rts ps = Inr ps' \<Longrightarrow>
   (case last_route rts t m of
      None \<Rightarrow> entry ps' t m = entry ps t m
    | Some rt \<Rightarrow> \<exists>op. operation E n (info (rt_handler rt)) (rt_method rt) t = Inr op \<and> entry ps' t m = Some op)"
proof (induction rts arbitrary: ps)
  case (Cons rt rts)
  let ?t = "path_template (rt_pattern rt)"
  from Cons.prems obtain op where op: "operation E n (info (rt_handler rt)) (rt_method rt) ?t = Inr op"
    and rest: "openapi_paths E n info rts
      (d_set ?t (d_set (lower (rt_method rt)) op (case d_get ps ?t of Some d \<Rightarrow> d | None \<Rightarrow> [])) ps) = Inr ps'"
    by (auto simp: Let_def rbind_Inr_iff)
  from Cons.IH [OF rest] op show ?case
    by (auto simp: entry_set split: option.splits)
qed simp

lemma uni_eq_iff [simp]: "uni a = uni b \<longleftrightarrow> a = b"
  by (auto simp: uni_def code_def inj_map_eq_map inj_def)

lemma d_get_uni: "d_get (map (\<lambda>(k, v). (uni k, f v)) d) (uni k) = map_option f (d_get d k)"
  by (induction d) auto

lemma documented_entry: "openapi_paths E n info (routes r) [] = Inr ps \<Longrightarrow> openapi E n info r = Inr doc \<Longrightarrow>
    documented doc t m = entry ps t m"
  by (cases "d_get ps t")
    (auto simp: openapi_def documented_def member_of_def paths_json_def entry_def d_get_uni
      d_get_uni [where f = "\<lambda>x. x", simplified] option.map_ident)

lemma query_names: "filter (\<lambda>p. member_of p ''in'' = Some (JStr (uni ''path''))) (query_parameters s) = []"
  by (auto simp: query_parameters_def parameter_def member_of_def filter_empty_conv split: json.split)

lemma path_parameter_names:
  "filter (\<lambda>p. member_of p ''in'' = Some (JStr (uni ''path''))) (map (\<lambda>x. parameter (uni x) ''path'' True s) xs) =
     map (\<lambda>x. parameter (uni x) ''path'' True s) xs"
  "member_of (parameter v pl b s) ''name'' = Some (JStr v)"
  by (auto simp: parameter_def member_of_def filter_id_conv)

lemma operation_reads:
  assumes "operation E n hi meth tpl = Inr op"
  shows "\<exists>nm. hi_name hi = Some nm \<and> member_of op ''operationId'' = Some (JStr (uni (nm @ ''_'' @ lower meth)))"
    and "member_of op ''requestBody'' = Option.bind (hi_body hi) (\<lambda>c. map_option request_body (schema_for_dataclass E n c))"
    and "path_names op = map (\<lambda>x. Some (JStr (uni x))) (path_params tpl)"
proof -
  from assms obtain nm bs qs where
    nm: "hi_name hi = Some nm" and bs: "model_schema E n (hi_body hi) = Inr bs"
    and qs: "model_schema E n (hi_query hi) = Inr qs"
    and op: "op = operation_object nm bs qs meth tpl"
    by (auto simp: operation_def rbind_Inr_iff split: option.splits)
  show "\<exists>nm. hi_name hi = Some nm \<and> member_of op ''operationId'' = Some (JStr (uni (nm @ ''_'' @ lower meth)))"
    by (simp add: nm op operation_object_def member_of_def)
  show "member_of op ''requestBody'' = Option.bind (hi_body hi) (\<lambda>c. map_option request_body (schema_for_dataclass E n c))"
    using bs by (auto simp: op operation_object_def member_of_def model_schema_def split: option.splits)
  show "path_names op = map (\<lambda>x. Some (JStr (uni x))) (path_params tpl)"
  proof -
    have "member_of op ''parameters'' =
        (if qs = None \<and> path_params tpl = [] then None
         else Some (JArr ((case qs of None \<Rightarrow> [] | Some s \<Rightarrow> query_parameters s) @
           map (\<lambda>x. parameter (uni x) ''path'' True (type_schema ''string'')) (path_params tpl))))"
      by (auto simp: op operation_object_def member_of_def split: option.split)
    then show ?thesis
      by (auto simp: path_names_def query_names path_parameter_names split: option.split)
  qed
qed

text \<open>
  C38. The OpenAPI document describes the registered routes: under a path template and a method stands
  an operation exactly when a route has them. It names the handler of the last such route, holds the
  published schema of its body model, and its path parameters are the groups of the route's pattern in their order.
\<close>

theorem openapi_describes_routes:
  assumes "openapi E n info r = Inr doc"
    and "list_all (\<lambda>rt. compile_pattern (rt_pattern rt) = Some (rt_regex rt)) (routes r)"
  shows "case last_route (routes r) t m of
      None \<Rightarrow> documented doc t m = None
    | Some rt \<Rightarrow> \<exists>op nm. documented doc t m = Some op \<and> hi_name (info (rt_handler rt)) = Some nm \<and>
        member_of op ''operationId'' = Some (JStr (uni (nm @ ''_'' @ m))) \<and>
        member_of op ''requestBody'' =
          Option.bind (hi_body (info (rt_handler rt))) (\<lambda>c. map_option request_body (schema_for_dataclass E n c)) \<and>
        path_names op = map (\<lambda>x. Some (JStr (uni x))) (item_names (rt_regex rt))"
proof -
  from assms(1) obtain ps where ps: "openapi_paths E n info (routes r) [] = Inr ps"
    by (auto simp: openapi_def rbind_Inr_iff)
  note d = documented_entry [OF ps assms(1), of t m] and e = openapi_paths_entry [OF ps, of t m]
  show ?thesis
  proof (cases "last_route (routes r) t m")
    case None
    with d e show ?thesis by (simp add: entry_def)
  next
    case (Some rt)
    with e obtain op where op: "operation E n (info (rt_handler rt)) (rt_method rt) t = Inr op" "entry ps t m = Some op"
      by auto
    have rt: "rt \<in> set (routes r)" "path_template (rt_pattern rt) = t" "lower (rt_method rt) = m"
      using last_routeD [OF Some] by auto
    then have "parse_pattern (rt_pattern rt) = Some (rt_regex rt)"
      using assms(2) by (auto simp: list_all_iff compile_pattern_def split: option.splits if_splits)
    then have "path_params t = item_names (rt_regex rt)"
      using template_params rt(2) by blast
    with operation_reads [OF op(1)] op(2) d rt(3) Some show ?thesis by auto
  qed
qed

definition items_router :: "(str, unit) router" where
  "items_router = (case add ''GET'' ''/items/<id>'' ''show_item'' [] Router of
      None \<Rightarrow> Router
    | Some r \<Rightarrow> (case add ''get'' ''/items/{id}/'' ''find_item'' [] r of None \<Rightarrow> r | Some r' \<Rightarrow> r'))"

definition item_info :: "str \<Rightarrow> handler_info" where
  "item_info h = \<lparr>hi_name = Some h, hi_body = (if h = ''find_item'' then Some ''Item'' else None), hi_query = None\<rparr>"

text \<open>Two routes of one template and method: the document describes the second, requests reach the first.\<close>

lemma items_shadowed:
  "resolve items_router ''GET'' ''/items/7'' = Inr (Bound ''show_item'' [(''id'', [55])], [])"
  by code_simp

theorem openapi_describes_routes_witness:
  "\<exists>doc op. openapi shop_env 3 item_info items_router = Inr doc \<and> documented doc ''/items/{id}'' ''get'' = Some op \<and>
     member_of op ''operationId'' = Some (JStr (uni ''find_item_get'')) \<and> path_names op = [Some (JStr (uni ''id''))]"
proof -
  have "case openapi shop_env 3 item_info items_router of Inl e \<Rightarrow> False | Inr doc \<Rightarrow> True" by code_simp
  then obtain doc where doc: "openapi shop_env 3 item_info items_router = Inr doc" by (auto split: sum.splits)
  have c: "list_all (\<lambda>rt. compile_pattern (rt_pattern rt) = Some (rt_regex rt)) (routes items_router)" by code_simp
  have l: "map_option rt_handler (last_route (routes items_router) ''/items/{id}'' ''get'') = Some ''find_item''"
    "map_option (item_names \<circ> rt_regex) (last_route (routes items_router) ''/items/{id}'' ''get'') = Some [''id'']"
    by code_simp+
  show ?thesis
    using openapi_describes_routes [OF doc c, of "''/items/{id}''" "''get''"] doc l
    by (auto simp: item_info_def split: option.splits)
qed

end
