(* ===== verification/Testing.thy ===== *)
theory Testing
  imports Server_Props Json_Props
begin

section \<open>The test client (\<^verbatim>\<open>testing.py\<close>)\<close>

text \<open>
  \<^verbatim>\<open>SovereignTestClient\<close> builds a request and runs it through the router without a socket. The
  endpoint is the one of theory Server, the last component of the result the application state. The
  content and the text of a streamed answer are what its generator yields.
\<close>

record test_response =
  tr_response :: response
  tr_status :: int
  tr_headers :: "(str, str) dict"
  tr_content :: bytes
  tr_text :: ustr

definition content_of :: "rbody \<Rightarrow> bytes result" where
  "content_of b =
     (case b of
        Full d \<Rightarrow> Inr d
      | Stream chunks fail \<Rightarrow> (case fail of Some e \<Rightarrow> Inl e | None \<Rightarrow> Inr (concat chunks)))"

definition TestResponse :: "response \<Rightarrow> test_response result" where
  "TestResponse resp =
     rbind (content_of (r_body resp)) (\<lambda>d.
       Inr \<lparr>tr_response = resp, tr_status = r_status resp, tr_headers = r_headers resp, tr_content = d,
            tr_text = u8_replace (map code d)\<rparr>)"

definition response_json :: "test_response \<Rightarrow> json result" where
  "response_json t = json_of (tr_content t)"

text \<open>A JSON body of \<^verbatim>\<open>None\<close> counts as absent.\<close>

definition test_body :: "json \<Rightarrow> bytes option \<Rightarrow> bytes result" where
  "test_body j data =
     (if j \<noteq> JNull then
        (case u8_encode (dumps True (uni '', '') (uni '': '') j) of
           None \<Rightarrow> Inl (PyError ''UnicodeEncodeError'')
         | Some b \<Rightarrow> Inr (map char_of b))
      else (case data of Some d \<Rightarrow> Inr d | None \<Rightarrow> Inr []))"

definition test_headers :: "json \<Rightarrow> (str, str) dict \<Rightarrow> (str, str) dict" where
  "test_headers j hs =
     (let hdr = d_update [] (map (\<lambda>(k, v). (lower k, v)) hs)
      in d_setdefault ''host'' ''testserver''
           (if j \<noteq> JNull then d_setdefault ''content-type'' ''application/json'' hdr else hdr))"

definition test_request ::
  "env \<Rightarrow> server_config \<Rightarrow> str \<Rightarrow> str \<Rightarrow> json \<Rightarrow> bytes option \<Rightarrow> (str, str) dict \<Rightarrow> request result" where
  "test_request E c meth tgt j data hs =
     rbind (test_body j data) (\<lambda>b.
       Request (netloc_ok E) (upper meth) tgt ''HTTP/1.1'' (test_headers j hs) (test_headers j hs)
         (InMemory b) (int (length b)) (''127.0.0.1'', 50000) c)"

definition client_request ::
  "env \<Rightarrow> 'w endpoint \<Rightarrow> server_config \<Rightarrow> 'w \<Rightarrow> str \<Rightarrow> str \<Rightarrow> json \<Rightarrow> bytes option \<Rightarrow> (str, str) dict
    \<Rightarrow> test_response result \<times> 'w" where
  "client_request E ep c w meth tgt j data hs =
     (case test_request E c meth tgt j data hs of
        Inl e \<Rightarrow> (Inl e, w)
      | Inr req \<Rightarrow>
          (let (r, req', w') =
             (case resolve (ep_router ep) (upper meth) (path req) of
                Inl e \<Rightarrow> (Inl e, req, w)
              | Inr (t, mws) \<Rightarrow> execute (middlewares (ep_router ep)) (req, w) (target_handler ep t) mws)
           in (case r of
                 Inr resp \<Rightarrow> TestResponse resp
               | Inl (HTTPError st msg eh) \<Rightarrow> TestResponse (Response (utf8 msg) st eh HTML)
               | Inl e \<Rightarrow> Inl e, w')))"

text \<open>The client's verbs; the options of a call are the JSON value, the data and the headers.\<close>

definition test_get :: "env \<Rightarrow> 'w endpoint \<Rightarrow> server_config \<Rightarrow> 'w \<Rightarrow> str \<Rightarrow> json \<Rightarrow> bytes option \<Rightarrow> (str, str) dict \<Rightarrow> test_response result \<times> 'w" where
  "test_get E ep c w = client_request E ep c w ''GET''"

definition test_post :: "env \<Rightarrow> 'w endpoint \<Rightarrow> server_config \<Rightarrow> 'w \<Rightarrow> str \<Rightarrow> json \<Rightarrow> bytes option \<Rightarrow> (str, str) dict \<Rightarrow> test_response result \<times> 'w" where
  "test_post E ep c w = client_request E ep c w ''POST''"

definition test_put :: "env \<Rightarrow> 'w endpoint \<Rightarrow> server_config \<Rightarrow> 'w \<Rightarrow> str \<Rightarrow> json \<Rightarrow> bytes option \<Rightarrow> (str, str) dict \<Rightarrow> test_response result \<times> 'w" where
  "test_put E ep c w = client_request E ep c w ''PUT''"

definition test_delete :: "env \<Rightarrow> 'w endpoint \<Rightarrow> server_config \<Rightarrow> 'w \<Rightarrow> str \<Rightarrow> json \<Rightarrow> bytes option \<Rightarrow> (str, str) dict \<Rightarrow> test_response result \<times> 'w" where
  "test_delete E ep c w = client_request E ep c w ''DELETE''"

subsection \<open>What a test sees is what a client of the server sees\<close>

lemma test_request_method: "test_request E c meth tgt j data hs = Inr req \<Longrightarrow> q_method req = upper meth"
  by (auto simp: test_request_def rbind_Inr_iff dest: Request_fields)

lemma u8_char_byte: "is_scalar n \<Longrightarrow> b \<in> set (u8_char n) \<Longrightarrow> b < 256"
  by (auto simp: u8_char_def is_scalar_def split: if_splits)

text \<open>A JSON body arrives as the value it was, announced as JSON unless the test chose otherwise.\<close>

lemma posted_json_arrives:
  assumes "test_request E c meth tgt j data hs = Inr req" and "json_ok j" and "j \<noteq> JNull"
  shows "request_json req = Inr j" and "d_get (headers req) ''content-type'' \<noteq> None"
proof -
  from assms(1,3) obtain b where b: "u8_encode (dumps True (44 # uni '' '') (58 # uni '' '') j) = Some b"
    and q: "q_body req = InMemory (map char_of b)" and h: "headers req = test_headers j hs"
    by (auto simp: test_request_def test_body_def rbind_Inr_iff uni_def code_def dest: Request_fields split: option.splits)
  have "x < 256" if x: "x \<in> set b" for x
  proof -
    obtain n where "is_scalar n" "x \<in> set (u8_char n)"
      using b x by (auto simp: u8_encode_def list_all_iff split: if_splits) blast
    then show ?thesis by (rule u8_char_byte)
  qed
  then have "map (code \<circ> char_of) b = b" by (simp add: map_idI)
  moreover have "spaces (uni '' '')" by code_simp
  ultimately show "request_json req = Inr j"
    using u8_strict_encode [OF b] loads_dumps [OF assms(2)] by (simp add: request_json_def json_of_def q)
  show "d_get (headers req) ''content-type'' \<noteq> None"
    using assms(3) by (auto simp: h test_headers_def Let_def split: option.split)
qed

lemma client_dispatch:
  assumes "test_request E c meth tgt j data hs = Inr req"
    and "\<not> (prefix ''/static/'' (path req) \<and> upper meth \<in> {''GET'', ''HEAD''})"
    and "dispatch E ep (req, w) = (r, req', w')"
  shows "client_request E ep c w meth tgt j data hs =
    (case r of
       Inr resp \<Rightarrow> TestResponse resp
     | Inl (HTTPError st msg eh) \<Rightarrow> TestResponse (Response (utf8 msg) st eh HTML)
     | Inl e \<Rightarrow> Inl e, w')"
  using assms test_request_method [OF assms(1)]
  by (auto simp: client_request_def dispatch_def Let_def split: sum.splits)

text \<open>The turn of a connection after its request has been read.\<close>

definition finish_turn :: "env \<Rightarrow> 'w endpoint \<Rightarrow> server_config \<Rightarrow> str \<times> int \<Rightarrow> nat \<Rightarrow> request \<Rightarrow> 'w link \<Rightarrow> 'w link" where
  "finish_turn E ep c addr seen req s =
     (case answer E ep c seen req s of
        (Inl e, req', s') \<Rightarrow> snd (on_error E c addr (Some req') e s')
      | (Inr t, req', s') \<Rightarrow> s')"

lemma finish_turn_serves:
  assumes "parse_request (netloc_ok E) (SocketReader \<lparr>arrivals = arrivals s, now = now s\<rparr> c) addr c = (Inr req, rd)"
    and "assign_id E req (of_reader rd s) = (req1, s1)"
  shows "snd (serve_turn E ep c addr seen s) = finish_turn E ep c addr (Suc seen) req1 s1"
  using assms by (auto simp: serve_turn_def finish_turn_def split: prod.splits sum.splits)

text \<open>An outcome whose headers can be written and whose persistent tasks can be stored.\<close>

definition writable :: "env \<Rightarrow> response result \<times> request \<times> 'w \<Rightarrow> bool" where
  "writable E out =
     (case out of (r, req', w') \<Rightarrow>
        \<not> has_break (request_id req') \<and> list_all (\<lambda>t. bg_persistent t \<longrightarrow> task_ok E t) (background_tasks req') \<and>
        (case r of
           Inr resp \<Rightarrow> clean_headers (r_headers resp) \<and> \<not> has_break (r_ctype resp)
         | Inl (HTTPError st msg eh) \<Rightarrow> clean_headers eh
         | Inl e \<Rightarrow> True))"

lemma tasks_run:
  "list_all (\<lambda>t. bg_persistent t \<longrightarrow> task_ok E t) ts \<Longrightarrow>
   \<exists>s'. run_background_tasks E ts s = (Inr (), s') \<and> wire s' = wire s \<and> app s' = app s"
proof (induction ts arbitrary: s)
  case (Cons t ts)
  from Cons.prems Cons.IH [of "s\<lparr>submitted := submitted s @ [t]\<rparr>"] Cons.IH [of "s\<lparr>enqueued := enqueued s @ [t]\<rparr>"]
  show ?case by auto
qed simp

text \<open>The two ends of a turn: the handlers answered, or an \<^verbatim>\<open>HTTPError\<close> is answered for them.\<close>

definition answer_body :: "request \<Rightarrow> response \<Rightarrow> bytes" where
  "answer_body req resp =
     (case r_body resp of
        Full d \<Rightarrow> if q_method req = ''HEAD'' then [] else d
      | Stream cs fail \<Rightarrow> chunk_body cs @ ''0'' @ CRLF @ CRLF)"

lemma turn_answered:
  assumes "plain_env E c" and "takes s = None" and "\<not> is_websocket_upgrade req"
    and out: "dispatch E ep (req, app s) = (Inr resp, req', w')"
    and "writable E (dispatch E ep (req, app s))" and t: "TestResponse resp = Inr t"
  shows "\<exists>h. wire (finish_turn E ep c addr seen req s) = wire s @ h @ answer_body req' resp \<and>
    app (finish_turn E ep c addr seen req s) = w' \<and> prefix (status_line (tr_status t)) h"
proof -
  let ?s = "s\<lparr>app := w'\<rparr>" and ?k = "keeps_alive c req seen" and ?b = "answer_body req' resp"
  have tk: "takes ?s = None" using assms(2) by simp
  have ok: "\<not> has_break (request_id req')" "list_all (\<lambda>t. bg_persistent t \<longrightarrow> task_ok E t) (background_tasks req')"
    using assms(5) by (simp_all add: writable_def out)
  obtain h where h: "head_of E c req' resp ?k (now ?s) = Inr h"
    using head_of_clean [OF assms(1) ok(1)] assms(5) by (fastforce simp: writable_def out)
  have w: "write_response E req' c resp ?k ?s = (Inr (), ?s\<lparr>wire := wire ?s @ h @ ?b\<rparr>)"
    using t h write_full [OF tk, of resp _ E req' c ?k] write_stream [OF tk, of resp _ _ E req' c ?k]
    by (auto simp: TestResponse_def content_of_def rbind_Inr_iff answer_body_def split: rbody.splits option.splits)
  obtain s' where "run_background_tasks E (background_tasks req') (?s\<lparr>wire := wire ?s @ h @ ?b\<rparr>) = (Inr (), s')"
    "wire s' = wire s @ h @ ?b" "app s' = w'"
    using tasks_run [OF ok(2), of "?s\<lparr>wire := wire ?s @ h @ ?b\<rparr>"] by auto
  then have "finish_turn E ep c addr seen req s = s'" "wire s' = wire s @ h @ ?b" "app s' = w'"
    using assms(3) w by (simp_all add: finish_turn_def answer_def out Let_def)
  moreover have "prefix (status_line (tr_status t)) h"
    using response_head_first [OF h] t by (auto simp: TestResponse_def rbind_Inr_iff)
  ultimately show ?thesis by auto
qed

lemma turn_refused:
  assumes "plain_env E c" and "takes s = None" and "\<not> is_websocket_upgrade req"
    and out: "dispatch E ep (req, app s) = (Inl (HTTPError st msg eh), req', w')"
    and "writable E (dispatch E ep (req, app s))"
  shows "\<exists>h b. wire (finish_turn E ep c addr seen req s) = wire s @ h @ b \<and>
    app (finish_turn E ep c addr seen req s) = w' \<and> prefix (status_line st) h"
proof -
  let ?s = "s\<lparr>app := w'\<rparr>" and ?resp = "(error_response st msg)\<lparr>r_headers := d_update [] eh\<rparr>"
  have tk: "takes ?s = None" using assms(2) by simp
  have ok: "\<not> has_break (request_id req')" using assms(5) by (simp add: writable_def out)
  obtain b where b: "r_body ?resp = Full b" by (simp add: error_response_def Response_def)
  have "clean_headers []" "\<not> has_break HTML" by (simp_all add: clean_headers_def has_break_def)
  then have "clean_headers (d_update [] eh)" "\<not> has_break HTML"
    using assms(5) clean_headers_update by (auto simp: writable_def out)
  then obtain h where h: "head_of E c req' ?resp False (now ?s) = Inr h"
    using head_of_clean [OF assms(1) ok, where resp = ?resp] by auto
  have "finish_turn E ep c addr seen req s = ?s\<lparr>wire := wire s @ h @ (if q_method req' = ''HEAD'' then [] else b)\<rparr>"
    using assms(3) h write_full [OF tk b, of E req' c False]
    by (simp add: finish_turn_def answer_def out on_error_def dummy_request_def Let_def)
  with response_head_first [OF h] show ?thesis
    by (intro exI [of _ h] exI [of _ "if q_method req' = ''HEAD'' then [] else b"]) simp
qed


definition greeting :: "test_response \<Rightarrow> bool" where
  "greeting t = (tr_status t = 200 \<and> tr_content t = ''hi'' \<and> tr_text t = uni ''hi'')"


end
