(* ===== verification/Acme.thy ===== *)
theory Acme
  imports Server Router_Props
begin

section \<open>Certificates (\<^verbatim>\<open>acme.py\<close>)\<close>

text \<open>
  The store of HTTP-01 challenges with the route that answers them, and the certificate manager. The
  store is part of the application state and is reached through \<open>get\<close>. \<^verbatim>\<open>openssl\<close> is a parameter that
  maps a command and the files to the files it leaves, \<open>None\<close> where it fails; the temporary
  configuration of a request is an argument of its command. Files are known by their paths.
\<close>

type_synonym challenges = "(ustr, ustr) dict"

definition put_challenge :: "ustr \<Rightarrow> ustr \<Rightarrow> challenges \<Rightarrow> challenges" where
  "put_challenge token key_auth cs = d_set token key_auth cs"

definition remove_challenge :: "ustr \<Rightarrow> challenges \<Rightarrow> challenges" where
  "remove_challenge token cs = d_pop token cs"

definition get_challenge :: "ustr \<Rightarrow> challenges \<Rightarrow> ustr option" where
  "get_challenge token cs = d_get cs token"

subsection \<open>\<^verbatim>\<open>ACMERouteInstaller\<close>\<close>

definition PLAIN :: str where
  "PLAIN = ''text/plain; charset=utf-8''"

definition acme_challenge :: "('w \<Rightarrow> challenges) \<Rightarrow> 'w handler" where
  "acme_challenge get r =
     (case d_get (route_params (fst r)) ''token'' of
        None \<Rightarrow> Inl (PyError ''KeyError'')
      | Some token \<Rightarrow>
          (case get_challenge token (get (snd r)) of
             None \<Rightarrow> Inr (Response ''not found'' 404 [] PLAIN)
           | Some v \<Rightarrow>
               (case u8_encode v of
                  None \<Rightarrow> Inl (PyError ''UnicodeEncodeError'')
                | Some b \<Rightarrow> Inr (Response (map char_of b) 200 [] PLAIN))), r)"

definition CHALLENGES :: str where
  "CHALLENGES = ''/.well-known/acme-challenge/''"

definition acme_install :: "('w \<Rightarrow> challenges) \<Rightarrow> ('w handler, 'w middleware) router \<times> bool
    \<Rightarrow> (('w handler, 'w middleware) router \<times> bool) option" where
  "acme_install get = (\<lambda>(r, installed).
     if installed then Some (r, True)
     else (case add_methods [''GET''] (CHALLENGES @ ''{token}'') (acme_challenge get) [] r of
             None \<Rightarrow> None
           | Some r' \<Rightarrow> Some (r', True)))"

subsection \<open>\<^verbatim>\<open>OpenSSL\<close> and \<^verbatim>\<open>CertificateManager\<close>\<close>

datatype openssl_command =
    Genrsa str int
  | Req str str str str

type_synonym 'c files = "str \<rightharpoonup> 'c"
type_synonym 'c openssl = "openssl_command \<Rightarrow> 'c files \<Rightarrow> 'c files option"

definition generate_account_key :: "'c openssl \<Rightarrow> str \<Rightarrow> 'c files \<Rightarrow> 'c files option" where
  "generate_account_key run p fs = run (Genrsa p 4096) fs"

definition generate_private_key :: "'c openssl \<Rightarrow> str \<Rightarrow> 'c files \<Rightarrow> 'c files option" where
  "generate_private_key run p fs = run (Genrsa p 2048) fs"

text \<open>The key, the subject, the text of the configuration and the output.\<close>

definition csr_config :: "str list \<Rightarrow> str" where
  "csr_config domains =
     ''[req]'' @ [LF] @ ''distinguished_name=req'' @ [LF] @ ''[ext]'' @ [LF] @ ''subjectAltName='' @
     join '','' (map (\<lambda>d. ''DNS:'' @ d) domains) @ [LF]"

definition create_csr :: "'c openssl \<Rightarrow> str \<Rightarrow> str \<Rightarrow> str list \<Rightarrow> 'c files \<Rightarrow> 'c files option" where
  "create_csr run key csr domains fs =
     run (Req key (''/CN='' @ hd domains) (csr_config domains) csr) fs"

record manager =
  cm_domains :: "str list"
  cm_account_key :: str
  cm_private_key :: str
  cm_csr :: str
  cm_cert :: str

definition CertificateManager :: "str list \<Rightarrow> str \<Rightarrow> manager result" where
  "CertificateManager domains cert_dir =
     (case domains of
        [] \<Rightarrow> Inl (PyError ''ValueError'')
      | d # ds \<Rightarrow> Inr \<lparr>cm_domains = domains, cm_account_key = cert_dir @ ''/account.key'',
          cm_private_key = cert_dir @ ''/'' @ d @ ''.key'', cm_csr = cert_dir @ ''/'' @ d @ ''.csr'',
          cm_cert = cert_dir @ ''/'' @ d @ ''.crt''\<rparr>)"

definition prepare_keys :: "'c openssl \<Rightarrow> manager \<Rightarrow> 'c files \<Rightarrow> 'c files option" where
  "prepare_keys run m fs =
     Option.bind (if fs (cm_account_key m) = None then generate_account_key run (cm_account_key m) fs else Some fs) (\<lambda>fs.
     Option.bind (if fs (cm_private_key m) = None then generate_private_key run (cm_private_key m) fs else Some fs) (\<lambda>fs.
       create_csr run (cm_private_key m) (cm_csr m) (cm_domains m) fs))"

text \<open>The modification time of the certificate, if it exists, and the clock.\<close>

definition should_renew :: "rat option \<Rightarrow> rat \<Rightarrow> int \<Rightarrow> bool" where
  "should_renew mtime t min_days =
     (case mtime of
        None \<Rightarrow> True
      | Some m \<Rightarrow> t - m > of_int (max 1 (90 - min_days) * 86400))"

subsection \<open>\<^verbatim>\<open>ACMEClient\<close>\<close>

text \<open>\<open>fetch\<close> is the answer of the authority, a dictionary; an empty one is false.\<close>

definition client_ready :: "('k, 'v) dict result \<Rightarrow> ('k, 'v) dict option \<Rightarrow> bool result \<times> ('k, 'v) dict option" where
  "client_ready fetch directory =
     (case directory of
        Some (e # es) \<Rightarrow> (Inr True, directory)
      | _ \<Rightarrow> (case fetch of Inl e \<Rightarrow> (Inl e, directory) | Inr d \<Rightarrow> (Inr (d \<noteq> []), Some d)))"

subsection \<open>Challenges are answered\<close>

lemma rmatch_Lit [simp]: "rmatch (Lit c # is) (c # s) = rmatch is s"
  by simp

lemma rmatch_AnyChar [simp]: "c \<noteq> LF \<Longrightarrow> rmatch (AnyChar # is) (c # s) = rmatch is s"
  by simp

lemma rmatch_last_segment:
  assumes "v \<noteq> []" and "CHR ''/'' \<notin> set v"
  shows "rmatch [Seg n] v = Some [(n, v)]"
proof -
  have "length (takeWhile (\<lambda>c. c \<noteq> CHR ''/'') v) = length v"
    using assms(2) by (subst takeWhile_eq_all_conv [THEN iffD2]) auto
  moreover have "rev [1..<Suc (length v)] = length v # rev [1..<length v]"
    using assms(1) by (cases v) auto
  ultimately show ?thesis by (simp add: tail_ok_def at_end_def)
qed

abbreviation challenge_items :: "ritem list" where
  "challenge_items \<equiv> Lit (CHR ''/'') # AnyChar # map Lit ''well-known/acme-challenge/'' @ [Seg ''token'']"

lemma challenge_compiled:
  "norm_pattern (CHALLENGES @ ''{token}'') = CHALLENGES @ ''{token}''"
  "compile_pattern (CHALLENGES @ ''{token}'') = Some challenge_items"
  by code_simp+

lemma challenge_matches:
  "v \<noteq> [] \<Longrightarrow> CHR ''/'' \<notin> set v \<Longrightarrow> rmatch challenge_items (CHALLENGES @ v) = Some [(''token'', v)]"
  using rmatch_last_segment [of v "''token''"] by (simp add: CHALLENGES_def del: rmatch.simps(2))

lemma challenge_not_docs:
  assumes "v \<noteq> []" and "CHR ''/'' \<notin> set v"
  shows "\<not> docs_path m (CHALLENGES @ v)"
proof -
  from assms have "rev v \<noteq> []" "hd (rev v) \<noteq> CHR ''/''"
    by (simp, metis hd_in_set rev_is_Nil_conv set_rev)
  then have "dropWhile (\<lambda>c. c = CHR ''/'') (rev v @ rev CHALLENGES) = rev v @ rev CHALLENGES"
    by (cases "rev v") auto
  then have "rstrip_slash (CHALLENGES @ v) = CHALLENGES @ v"
    by (simp add: rstrip_slash_def rstrip_by_def)
  then show ?thesis by (simp add: docs_path_def CHALLENGES_def)
qed

lemma resolve_loop_last:
  "\<forall>rt\<in>set rts. rt_method rt = upper m \<longrightarrow> rmatch (rt_regex rt) p = None \<Longrightarrow>
   rmatch (rt_regex x) p = Some bs \<Longrightarrow> rt_method x = upper m \<Longrightarrow>
   resolve_loop m p (rts @ [x]) allowed = Inr (Bound (rt_handler x) (decode_params bs), rt_mws x)"
  by (induction rts arbitrary: allowed) (auto split: option.split)

lemma installed_router:
  "acme_install get (r, False) = Some (r', b) \<Longrightarrow>
   b \<and> r' = r\<lparr>routes := routes r @ [\<lparr>rt_method = ''GET'', rt_pattern = CHALLENGES @ ''{token}'', rt_regex = challenge_items,
     rt_handler = acme_challenge get, rt_mws = []\<rparr>]\<rparr>"
proof -
  have "upper ''GET'' = ''GET''" by code_simp
  then show "acme_install get (r, False) = Some (r', b) \<Longrightarrow>
   b \<and> r' = r\<lparr>routes := routes r @ [\<lparr>rt_method = ''GET'', rt_pattern = CHALLENGES @ ''{token}'', rt_regex = challenge_items,
     rt_handler = acme_challenge get, rt_mws = []\<rparr>]\<rparr>"
    by (simp add: acme_install_def add_def challenge_compiled Let_def)
qed

text \<open>
  The authority reads the challenges that were put: on a router where no earlier \<^verbatim>\<open>GET\<close> route takes the
  path of a token, the installed route answers the key authorization last put under the token, 404
  once it has been removed, and leaves the store as it is; installing the route again changes nothing.
\<close>

theorem challenge_answered:
  assumes "acme_install get (r, False) = Some (r', b)" and "middlewares r = []"
    and "\<forall>rt\<in>set (routes r). rt_method rt = ''GET'' \<longrightarrow> rmatch (rt_regex rt) (CHALLENGES @ tok) = None"
    and "tok \<noteq> []" and "CHR ''/'' \<notin> set tok" and "q_method req = ''GET''" and "path req = CHALLENGES @ tok"
    and "ep_router ep = r'" and "u8_encode ka = Some bs"
  shows "acme_install get (r', b) = Some (r', b) \<and> snd (snd (dispatch E ep (req, w))) = w \<and>
    (get w = put_challenge (unquote (uni tok)) ka cs \<longrightarrow>
       fst (dispatch E ep (req, w)) = Inr (Response (map char_of bs) 200 [] PLAIN)) \<and>
    (get w = remove_challenge (unquote (uni tok)) cs \<longrightarrow>
       fst (dispatch E ep (req, w)) = Inr (Response ''not found'' 404 [] PLAIN))"
proof -
  note r' = installed_router [OF assms(1)]
  have u: "upper ''GET'' = ''GET''" by code_simp
  have "resolve r' ''GET'' (CHALLENGES @ tok) = Inr (Bound (acme_challenge get) [(''token'', unquote (uni tok))], [])"
    using assms(3) u challenge_matches [OF assms(4,5)] challenge_not_docs [OF assms(4,5)] r'
    by (simp add: resolve_def resolve_loop_last decode_params_def)
  moreover have "\<not> prefix ''/static/'' (path req)" by (simp add: assms(7) CHALLENGES_def)
  ultimately have "dispatch E ep (req, w) = acme_challenge get (req\<lparr>route_params := [(''token'', unquote (uni tok))]\<rparr>, w)"
    using assms(2,6-8) r' by (simp add: dispatch_def Let_def execute_def build.simps)
  then show ?thesis
    using r' assms(9) by (simp add: acme_challenge_def acme_install_def get_challenge_def put_challenge_def remove_challenge_def)
qed

definition get_store :: "challenges \<Rightarrow> challenges" where
  "get_store w = w"

definition acme_request :: request where
  "acme_request = sample_request ''GET'' (CHALLENGES @ ''t0'') []"

theorem challenge_answered_witness:
  "\<exists>r b. acme_install get_store (Router, False) = Some (r, b) \<and>
     (\<forall>ep w. ep_router ep = r \<and> w = put_challenge (uni ''t0'') (uni ''t0.k'') [] \<longrightarrow>
       fst (dispatch sample_env ep (acme_request, w)) = Inr (Response ''t0.k'' 200 [] PLAIN))"
proof -
  have "acme_install get_store (Router, False) \<noteq> None"
    using challenge_compiled by (simp add: acme_install_def add_def Let_def)
  then obtain r b where rb: "acme_install get_store (Router, False) = Some (r, b)" by auto
  have u: "u8_encode (uni ''t0.k'') = Some (uni ''t0.k'')"
    by (rule u8_encode_ascii) (simp add: uni_def code_def)
  have v: "unquote (uni ''t0'') = uni ''t0''" by code_simp
  have "fst (dispatch sample_env ep (acme_request, w)) = Inr (Response ''t0.k'' 200 [] PLAIN)"
    if "ep_router ep = r" "w = put_challenge (uni ''t0'') (uni ''t0.k'') []" for ep :: "challenges endpoint" and w
  proof -
    have "middlewares (Router :: (challenges handler, challenges middleware) router) = []"
      "\<forall>rt\<in>set (routes (Router :: (challenges handler, challenges middleware) router)).
         rt_method rt = ''GET'' \<longrightarrow> rmatch (rt_regex rt) (CHALLENGES @ ''t0'') = None"
      by (simp_all add: Router_def)
    moreover have "''t0'' \<noteq> []" "CHR ''/'' \<notin> set ''t0''" "q_method acme_request = ''GET''" "path acme_request = CHALLENGES @ ''t0''"
      by (simp_all add: acme_request_def sample_request_def)
    ultimately have "get_store w = put_challenge (unquote (uni ''t0'')) (uni ''t0.k'') [] \<longrightarrow>
        fst (dispatch sample_env ep (acme_request, w)) = Inr (Response (map char_of (uni ''t0.k'')) 200 [] PLAIN)"
      using challenge_answered [OF rb _ _ _ _ _ _ that(1) u, where tok = "''t0''" and req = acme_request and E = sample_env and w = w and cs = "[]"] by blast
    moreover have "map char_of (uni ''t0.k'') = ''t0.k''" by (simp add: uni_def)
    ultimately show ?thesis using that(2) v by (simp only: get_store_def simp_thms)
  qed
  with rb show ?thesis by blast
qed

subsection \<open>Keys are made once\<close>

fun output_of :: "openssl_command \<Rightarrow> str" where
  "output_of (Genrsa p n) = p"
| "output_of (Req k sbj conf p) = p"

definition writes_output :: "'c openssl \<Rightarrow> bool" where
  "writes_output run =
     (\<forall>cmd fs fs'. run cmd fs = Some fs' \<longrightarrow> fs' (output_of cmd) \<noteq> None \<and> (\<forall>p. p \<noteq> output_of cmd \<longrightarrow> fs' p = fs p))"

lemma writes_outputD:
  "writes_output run \<Longrightarrow> run cmd fs = Some fs' \<Longrightarrow>
   fs' (output_of cmd) \<noteq> None \<and> (\<forall>p. p \<noteq> output_of cmd \<longrightarrow> fs' p = fs p)"
  unfolding writes_output_def by blast

lemma manager_paths:
  assumes "CertificateManager ds dir = Inr m"
  shows "cm_csr m \<noteq> cm_account_key m" and "cm_csr m \<noteq> cm_private_key m"
proof -
  have "last (cm_csr m) = CHR ''r''" "last (cm_account_key m) = CHR ''y''" "last (cm_private_key m) = CHR ''y''"
    using assms by (auto simp: CertificateManager_def split: list.splits)
  then show "cm_csr m \<noteq> cm_account_key m" "cm_csr m \<noteq> cm_private_key m" by auto
qed

text \<open>
  A key is generated once: if \<^verbatim>\<open>openssl\<close> writes no file but its output, preparing the keys leaves an account
  key and a private key that exist, and every file but the request, as they are; afterwards both keys
  and the request exist, and preparing them again writes only the request.
\<close>

theorem keys_generated_once:
  assumes "CertificateManager ds dir = Inr m" and "writes_output run" and "prepare_keys run m fs = Some fs'"
  shows "(\<forall>p. fs p \<noteq> None \<and> p \<noteq> cm_csr m \<longrightarrow> fs' p = fs p) \<and>
    (\<forall>p. p \<notin> {cm_account_key m, cm_private_key m, cm_csr m} \<longrightarrow> fs' p = fs p) \<and>
    fs' (cm_account_key m) \<noteq> None \<and> fs' (cm_private_key m) \<noteq> None \<and> fs' (cm_csr m) \<noteq> None \<and>
    prepare_keys run m fs' = create_csr run (cm_private_key m) (cm_csr m) (cm_domains m) fs'"
proof -
  note W = writes_outputD [OF assms(2)] and paths = manager_paths [OF assms(1)]
  have step: "fs2 q \<noteq> None \<and> (\<forall>p. fs1 p \<noteq> None \<or> p \<noteq> q \<longrightarrow> fs2 p = fs1 p)"
    if s: "(if fs1 q = None then run (Genrsa q n) fs1 else Some fs1) = Some fs2" for q n fs1 fs2
  proof (cases "fs1 q = None")
    case True
    with s W [of "Genrsa q n" fs1 fs2] have "fs2 q \<noteq> None" "\<forall>p. p \<noteq> q \<longrightarrow> fs2 p = fs1 p" by simp_all
    with True show ?thesis by metis
  qed (use s in auto)
  from assms(3) obtain a b where
    a: "(if fs (cm_account_key m) = None then run (Genrsa (cm_account_key m) 4096) fs else Some fs) = Some a"
    and b: "(if a (cm_private_key m) = None then run (Genrsa (cm_private_key m) 2048) a else Some a) = Some b"
    and c: "create_csr run (cm_private_key m) (cm_csr m) (cm_domains m) b = Some fs'"
    unfolding prepare_keys_def generate_account_key_def generate_private_key_def by (auto simp: bind_eq_Some_conv)
  have c': "fs' (cm_csr m) \<noteq> None" "\<And>p. p \<noteq> cm_csr m \<Longrightarrow> fs' p = b p"
    using W [OF c [unfolded create_csr_def]] by auto
  note A = step [OF a] and B = step [OF b]
  have keys: "fs' (cm_account_key m) \<noteq> None" "fs' (cm_private_key m) \<noteq> None"
    using A B c'(2) paths by metis+
  then have "prepare_keys run m fs' = create_csr run (cm_private_key m) (cm_csr m) (cm_domains m) fs'"
    by (auto simp: prepare_keys_def)
  with A B c' keys show ?thesis by (metis insert_iff)
qed

definition write_output :: "unit openssl" where
  "write_output cmd fs = Some (fs(output_of cmd \<mapsto> ()))"

theorem keys_generated_once_witness:
  "\<exists>m fs'. CertificateManager [''a.example''] ''certs'' = Inr m \<and> prepare_keys write_output m Map.empty = Some fs' \<and>
     fs' (cm_private_key m) = Some () \<and> fs' ''certs/account.key'' = Some ()"
proof -
  obtain m where m: "CertificateManager [''a.example''] ''certs'' = Inr m" by (simp add: CertificateManager_def)
  then have k: "cm_account_key m = ''certs/account.key''" by (auto simp: CertificateManager_def)
  have w: "writes_output write_output" by (simp add: writes_output_def write_output_def)
  obtain fs' where fs': "prepare_keys write_output m Map.empty = Some fs'"
    by (cases "cm_private_key m = cm_account_key m")
      (simp_all add: prepare_keys_def generate_account_key_def generate_private_key_def create_csr_def write_output_def)
  from keys_generated_once [OF m w fs'] m fs' k show ?thesis by auto
qed

text \<open>
  Renewal: for certificates that live 90 days from the time they were written, a renewal is due when fewer
  than the asked number of days remain, for every number below 90.
\<close>

theorem renewal_due:
  assumes "min_days < 90"
  shows "should_renew (Some m) t min_days \<longleftrightarrow> (m + of_int (90 * 86400)) - t < of_int (min_days * 86400)"
  using assms by (auto simp: should_renew_def max_def)

end
