(* ===== verification/Served.thy ===== *)
theory Served
  imports Server_Props
begin

section \<open>From the bytes of a request to the bytes of its answer\<close>

text \<open>
  The reader, the parser, dispatching, the handlers and the writer of the threaded server put together:
  what one connection does with one well-formed request. \<open>answers\<close> says what the application does
  with a request object, apart from whether its body was spooled.
\<close>

definition chosen_id :: "env \<Rightarrow> (str, str) dict \<Rightarrow> nat \<Rightarrow> str" where
  "chosen_id E hs n =
     (if header_of hs ''x-request-id'' \<noteq> [] then header_of hs ''x-request-id''
      else if header_of hs ''traceparent'' \<noteq> [] then header_of hs ''traceparent'' else new_id E n)"

definition answers :: "env \<Rightarrow> 'w endpoint \<Rightarrow> request \<Rightarrow> 'w \<Rightarrow> response \<Rightarrow> 'w \<Rightarrow> bool" where
  "answers E ep req w resp w' =
     (case dispatch E ep (req, w) of
        (Inr resp', req', w1) \<Rightarrow>
          resp' = resp \<and> w1 = w' \<and> background_tasks req' = [] \<and> request_id req' = request_id req \<and> q_method req' = q_method req
      | (Inl e, req', w1) \<Rightarrow> False)"

lemma answersD:
  assumes "answers E ep req w resp w'"
  obtains req' where "dispatch E ep (req, w) = (Inr resp, req', w')" "background_tasks req' = []"
    "request_id req' = request_id req" "q_method req' = q_method req"
  using assms by (auto simp: answers_def split: prod.splits sum.splits)

text \<open>Headers a handler leaves to the server.\<close>

definition plain_response :: "response \<Rightarrow> bool" where
  "plain_response resp =
     (d_ok (r_headers resp) \<and> clean_headers (r_headers resp) \<and> \<not> has_break (r_ctype resp) \<and>
      list_all (\<lambda>k. d_get (r_headers resp) k = None) [''Content-Length'', ''X-Request-Id'', ''Connection''])"

lemma assign_chosen: "assign_id E req s = (req1, s1) \<Longrightarrow> headers req = hs \<Longrightarrow>
    req1 = req\<lparr>request_id := chosen_id E hs (next_id s)\<rparr> \<and> (\<exists>n. s1 = s\<lparr>next_id := n\<rparr>)"
  by (auto simp: assign_id_def chosen_id_def header_def intro: exI [of _ "next_id s"] split: if_splits)

lemma closing_connection:
  assumes "headers req = hs" and "lower (header_of hs ''connection'') = ''close''"
  shows "\<not> is_websocket_upgrade req" and "\<not> keeps_alive c req n"
proof -
  have "\<not> sublist ''upgrade'' ''close''" by (auto dest: sublist_length_le)
  then show "\<not> is_websocket_upgrade req" "\<not> keeps_alive c req n"
    using assms by (auto simp: is_websocket_upgrade_def keeps_alive_def header_def)
qed

lemma sent_headers_plain:
  assumes "plain_response resp" and "r_body resp = Full b"
    and "m = merged_headers date c st (sent_headers req resp) False"
  shows "d_get m ''Content-Length'' = Some (show_nat (length b))"
    and "d_get m ''X-Request-Id'' = Some (request_id req)"
    and "d_get m ''Connection'' = Some ''close''"
proof -
  have ok: "d_ok (r_headers resp)" using assms(1) by (simp add: plain_response_def)
  have g: "d_get (sent_headers req resp) k =
      (case d_get (d_setdefault ''X-Request-Id'' (request_id req) (r_headers resp)) k of
         Some v \<Rightarrow> Some v
       | None \<Rightarrow> d_get [(''Content-Type'', r_ctype resp), (''Content-Length'', show_nat (length b))] k)" for k
    unfolding sent_headers_get [OF ok] assms(2) by (simp split: option.split)
  show "d_get m ''Content-Length'' = Some (show_nat (length b))" "d_get m ''X-Request-Id'' = Some (request_id req)"
    unfolding assms(3) by (rule merged_get [OF sent_headers_ok]; use assms(1) in \<open>simp add: g plain_response_def\<close>)+
  show "d_get m ''Connection'' = Some ''close''"
    unfolding assms(3) merged_headers_def Let_def d_get_update [OF sent_headers_ok]
    using assms(1) by (simp add: g d_get_update d_ok_def security_headers_def plain_response_def)
qed

text \<open>
  C1. A request that was sent is answered: however the network cuts and delays the bytes of a well-formed
  request that asks to close, if the application answers it with a response of known length, the
  connection writes exactly one answer, the head of that response with its status, length and
  request id, and its body (none for \<^verbatim>\<open>HEAD\<close>), then ends with the application's state as the handlers left it.
\<close>

theorem request_served:
  assumes "plain_env E c" and "takes s = None" and "0 < max_keepalive_requests c" and "max_body_bytes c < 2 ^ 64"
    and "clean_head c m t hs" and "declared_body hs body" and "int (length body) \<le> max_body_bytes c"
    and "prompt i (SocketReader \<lparr>arrivals = arrivals s, now = now s\<rparr> c)"
    and "i \<le> header_idle_timeout c" and "i \<le> body_idle_timeout c"
    and "pending (SocketReader \<lparr>arrivals = arrivals s, now = now s\<rparr> c) = request_head m t hs @ CRLF @ CRLF @ body @ rest"
    and "lower (header_of hs ''connection'') = ''close''" and "\<not> has_break (chosen_id E hs (next_id s))"
    and "url_split (netloc_ok E) t = Inr u"
    and "\<And>b req. body_bytes_of b = body \<Longrightarrow>
        Request (netloc_ok E) (upper m) t ''HTTP/1.1'' hs hs b (int (length body)) addr c = Inr req \<Longrightarrow>
        answers E ep (req\<lparr>request_id := chosen_id E hs (next_id s)\<rparr>) (app s) resp w'"
    and "r_body resp = Full d" and "plain_response resp"
  shows "\<exists>s' h mh. handle_connection E ep c addr (\<lambda>k. False) 0 s = (Inr (), s') \<and> app s' = w' \<and>
    wire s' = wire s @ h @ (if upper m = ''HEAD'' then [] else d) \<and>
    split_on CRLF h = status_line (r_status resp) # map field_line mh @ [[], []] \<and>
    d_get mh ''Content-Length'' = Some (show_nat (length d)) \<and> d_get mh ''Connection'' = Some ''close'' \<and>
    d_get mh ''X-Request-Id'' = Some (chosen_id E hs (next_id s))"
proof -
  let ?rd = "SocketReader \<lparr>arrivals = arrivals s, now = now s\<rparr> c"
  obtain b rd where rd: "parse_request (netloc_ok E) ?rd addr c =
      (Request (netloc_ok E) (upper m) t ''HTTP/1.1'' hs hs b (int (length body)) addr c, rd)" "body_bytes_of b = body"
    using parse_request_clean [OF assms(5-7,4,8-10) _ assms(11), of "netloc_ok E" addr] by (auto simp: SocketReader_def)
  obtain req where req: "Request (netloc_ok E) (upper m) t ''HTTP/1.1'' hs hs b (int (length body)) addr c = Inr req"
    using assms(14) by (cases u) (auto simp: Request_def)
  note f = Request_fields [OF req]
  let ?id = "chosen_id E hs (next_id s)" and ?s0 = "of_reader rd s"
  obtain req1 s1 where a: "assign_id E req ?s0 = (req1, s1)" by force
  then obtain n where r1: "req1 = req\<lparr>request_id := ?id\<rparr>" and s1: "s1 = ?s0\<lparr>next_id := n\<rparr>"
    using assign_chosen [OF a f(4)] by (auto simp: of_reader_def)
  have h1: "headers req1 = hs" using r1 f(4) by simp
  obtain req2 where d: "dispatch E ep (req1, app s) = (Inr resp, req2, w')" "background_tasks req2 = []"
    "request_id req2 = ?id" "q_method req2 = upper m"
    using answersD [OF assms(15) [OF rd(2) req]] r1 f(1) by auto
  let ?s2 = "s1\<lparr>app := w'\<rparr>"
  have s2: "takes ?s2 = None" "wire ?s2 = wire s" "app s1 = app s" using s1 assms(2) by (simp_all add: of_reader_def)
  obtain h where h: "head_of E c req2 resp False (now ?s2) = Inr h"
    using head_of_clean [OF assms(1), where req = req2 and resp = resp and keep = False and t = "now ?s2"] assms(13,17) d(3) by (auto simp: plain_response_def)
  let ?s3 = "?s2\<lparr>wire := wire s @ h @ (if upper m = ''HEAD'' then [] else d)\<rparr>"
  have "write_response E req2 c resp False ?s2 = (Inr (), ?s3)"
    using write_full [OF s2(1) assms(16), of E req2 c False] h d(4) s2(2) by simp
  then have "answer E ep c (Suc 0) req1 s1 = (Inr Done, req2, ?s3)"
    using closing_connection [OF h1 assms(12)] d s2(3) by (simp add: answer_def)
  then have "serve_turn E ep c addr 0 s = ((Done, Inr ()), ?s3)"
    using rd(1) req a by (simp add: serve_turn_def)
  then have "handle_connection E ep c addr (\<lambda>k. False) 0 s = (Inr (), ?s3)"
    by (rule handle_Done [rotated 2]) (use assms(3) in simp_all)
  moreover note response_head_split(1) [OF h] sent_headers_plain [OF assms(17,16) refl, of "http_date E (now ?s2)" c "r_status resp" req2]
  ultimately show ?thesis using d(3) by (intro exI [of _ ?s3] exI [of _ h]) auto
qed

text \<open>
  The same for a request that the application refuses with an \<^verbatim>\<open>HTTPError\<close>, whatever it says about the
  connection: one answer with the status and the headers of the error, then the end of the connection.
\<close>

definition refuses :: "env \<Rightarrow> 'w endpoint \<Rightarrow> request \<Rightarrow> 'w \<Rightarrow> int \<Rightarrow> str \<Rightarrow> (str, str) dict \<Rightarrow> 'w \<Rightarrow> bool" where
  "refuses E ep req w st msg eh w' =
     (case dispatch E ep (req, w) of
        (Inl e, req', w1) \<Rightarrow>
          e = HTTPError st msg eh \<and> w1 = w' \<and> request_id req' = request_id req \<and> q_method req' = q_method req
      | (Inr resp, req', w1) \<Rightarrow> False)"

lemma request_refused:
  assumes "plain_env E c" and "takes s = None" and "0 < max_keepalive_requests c" and "max_body_bytes c < 2 ^ 64"
    and "clean_head c m t hs" and "declared_body hs body" and "int (length body) \<le> max_body_bytes c"
    and "prompt i (SocketReader \<lparr>arrivals = arrivals s, now = now s\<rparr> c)"
    and "i \<le> header_idle_timeout c" and "i \<le> body_idle_timeout c"
    and "pending (SocketReader \<lparr>arrivals = arrivals s, now = now s\<rparr> c) = request_head m t hs @ CRLF @ CRLF @ body @ rest"
    and "lower (header_of hs ''upgrade'') \<noteq> ''websocket''" and "\<not> has_break (chosen_id E hs (next_id s))"
    and "url_split (netloc_ok E) t = Inr u"
    and "\<And>b req. body_bytes_of b = body \<Longrightarrow>
        Request (netloc_ok E) (upper m) t ''HTTP/1.1'' hs hs b (int (length body)) addr c = Inr req \<Longrightarrow>
        refuses E ep (req\<lparr>request_id := chosen_id E hs (next_id s)\<rparr>) (app s) st msg eh w'"
    and "clean_headers eh"
  shows "\<exists>s' h b mh. handle_connection E ep c addr (\<lambda>k. False) 0 s = (Inr (), s') \<and> app s' = w' \<and>
    wire s' = wire s @ h @ b \<and> split_on CRLF h = status_line st # map field_line mh @ [[], []]"
proof -
  let ?rd = "SocketReader \<lparr>arrivals = arrivals s, now = now s\<rparr> c"
  obtain b rd where rd: "parse_request (netloc_ok E) ?rd addr c =
      (Request (netloc_ok E) (upper m) t ''HTTP/1.1'' hs hs b (int (length body)) addr c, rd)" "body_bytes_of b = body"
    using parse_request_clean [OF assms(5-7,4,8-10) _ assms(11), of "netloc_ok E" addr] by (auto simp: SocketReader_def)
  obtain req where req: "Request (netloc_ok E) (upper m) t ''HTTP/1.1'' hs hs b (int (length body)) addr c = Inr req"
    using assms(14) by (cases u) (auto simp: Request_def)
  note f = Request_fields [OF req]
  let ?id = "chosen_id E hs (next_id s)" and ?s0 = "of_reader rd s"
  obtain req1 s1 where a: "assign_id E req ?s0 = (req1, s1)" by force
  then obtain n where r1: "req1 = req\<lparr>request_id := ?id\<rparr>" and s1: "s1 = ?s0\<lparr>next_id := n\<rparr>"
    using assign_chosen [OF a f(4)] by (auto simp: of_reader_def)
  have up: "\<not> is_websocket_upgrade req1" using r1 f(4) assms(12) by (simp add: is_websocket_upgrade_def header_def)
  obtain req2 where d: "dispatch E ep (req1, app s) = (Inl (HTTPError st msg eh), req2, w')" "request_id req2 = ?id"
    using assms(15) [OF rd(2) req] r1 by (auto simp: refuses_def split: prod.splits sum.splits)
  let ?s2 = "s1\<lparr>app := w'\<rparr>" and ?resp = "(error_response st msg)\<lparr>r_headers := d_update [] eh\<rparr>"
  have s2: "takes ?s2 = None" "wire ?s2 = wire s" "app s1 = app s" using s1 assms(2) by (simp_all add: of_reader_def)
  obtain e where e: "r_body ?resp = Full e" by (simp add: error_response_def Response_def)
  have "clean_headers (d_update [] eh)" "\<not> has_break HTML"
    using clean_headers_update [of "[]" eh] assms(16) by (simp_all add: clean_headers_def has_break_def)
  then obtain h where h: "head_of E c req2 ?resp False (now ?s2) = Inr h"
    using head_of_clean [OF assms(1), where req = req2 and resp = ?resp] assms(13) d(2) by auto
  let ?s3 = "?s2\<lparr>wire := wire s @ h @ (if q_method req2 = ''HEAD'' then [] else e)\<rparr>"
  have "answer E ep c (Suc 0) req1 s1 = (Inl (HTTPError st msg eh), req2, ?s2)"
    using up d(1) s2(3) by (simp add: answer_def Let_def)
  moreover have "on_error E c addr (Some req2) (HTTPError st msg eh) ?s2 = (Inr (), ?s3)"
    using write_full [OF s2(1) e, of E req2 c False] h s2(2) by (simp add: on_error_def dummy_request_def Let_def)
  ultimately have "serve_turn E ep c addr 0 s = ((Done, Inr ()), ?s3)"
    using rd(1) req a by (simp add: serve_turn_def)
  then have "handle_connection E ep c addr (\<lambda>k. False) 0 s = (Inr (), ?s3)"
    by (rule handle_Done [rotated 2]) (use assms(3) in simp_all)
  moreover have "app ?s3 = w'" "wire ?s3 = wire s @ h @ (if q_method req2 = ''HEAD'' then [] else e)" "r_status ?resp = st"
    by simp_all
  ultimately show ?thesis using response_head_split(1) [OF h] by metis
qed

definition hi_headers :: "(str, str) dict" where
  "hi_headers = [(''host'', ''h''), (''connection'', ''Close'')]"

definition hi_link :: "unit link" where
  "hi_link = sample_link\<lparr>arrivals := [(1, Data ''GET /hi HT''),
     (2, Data (''TP/1.1'' @ CRLF @ ''host: h'' @ CRLF @ ''connection: Close'' @ CRLF @ CRLF @ ''GET''))]\<rparr>"

lemma hi_answers:
  assumes "body_bytes_of b = []"
    and "Request (netloc_ok sample_env) (upper ''GET'') ''/hi'' ''HTTP/1.1'' hi_headers hi_headers b (int (length ([] :: bytes)))
      (''10.0.0.9'', 1) DEFAULT_CONFIG = Inr req"
  shows "answers sample_env sample_ep (req\<lparr>request_id := chosen_id sample_env hi_headers (next_id hi_link)\<rparr>) (app hi_link)
    (Response ''hi'' 200 [] HTML) ()"
proof -
  have "case Request (netloc_ok sample_env) (upper ''GET'') ''/hi'' ''HTTP/1.1'' hi_headers hi_headers x (int (length ([] :: bytes)))
      (''10.0.0.9'', 1) DEFAULT_CONFIG of
        Inl e \<Rightarrow> False
      | Inr req \<Rightarrow> answers sample_env sample_ep (req\<lparr>request_id := chosen_id sample_env hi_headers (next_id hi_link)\<rparr>) (app hi_link)
           (Response ''hi'' 200 [] HTML) ()" if "x = InMemory [] \<or> x = Spooled []" for x
    using that by (elim disjE; hypsubst; code_simp)
  from this [of b, unfolded assms(2) sum.case] show ?thesis using assms(1) by (cases b) simp_all
qed

theorem request_served_witness:
  "\<exists>s' h. handle_connection sample_env sample_ep DEFAULT_CONFIG (''10.0.0.9'', 1) (\<lambda>k. False) 0 hi_link = (Inr (), s') \<and>
     wire s' = h @ ''hi'' \<and> ''HTTP/1.1 200 OK'' \<in> set (split_on CRLF h)"
proof -
  let ?rd = "SocketReader \<lparr>arrivals = arrivals hi_link, now = now hi_link\<rparr> DEFAULT_CONFIG"
  have u: "url_split (netloc_ok sample_env) ''/hi'' = Inr (''/hi'', [])" by code_simp
  have st: "status_line 200 = ''HTTP/1.1 200 OK''" by code_simp
  have p: "prompt 2 ?rd" "pending ?rd = request_head ''GET'' ''/hi'' hi_headers @ CRLF @ CRLF @ [] @ ''GET''"
    "clean_head DEFAULT_CONFIG ''GET'' ''/hi'' hi_headers" "declared_body hi_headers []"
    "lower (header_of hi_headers ''connection'') = ''close''"
    "\<not> has_break (chosen_id sample_env hi_headers (next_id hi_link))"
    "plain_response (Response ''hi'' 200 [] HTML)" "upper ''GET'' \<noteq> ''HEAD''"
    by code_simp+
  have "takes hi_link = None" "wire hi_link = []" by (simp_all add: hi_link_def sample_link_def)
  with request_served [OF sample_plain _ _ _ p(3,4) _ p(1) _ _ p(2,5,6) u hi_answers _ p(7), where d = "''hi''"] p(8) st show ?thesis
    by (force simp: DEFAULT_CONFIG_def Response_def)
qed

end
