(* ===== verification/Assets.thy ===== *)
theory Assets
  imports Html5 Json Base64
begin

section \<open>The asset manifest (\<^verbatim>\<open>AssetManifest\<close>)\<close>

text \<open>
  What \<^verbatim>\<open>/__assets.json\<close> lists: every file below the root with its size, digest, subresource integrity
  and content type. \<open>entries\<close> is \<^verbatim>\<open>root.rglob("*")\<close>. Links are followed to the file they lead to.
\<close>

record asset_info =
  ai_path :: ustr
  ai_size :: int
  ai_sha256 :: str
  ai_integrity :: str
  ai_type :: str

definition stat :: "env \<Rightarrow> fpath \<Rightarrow> fnode option" where
  "stat E p = (case realpath E p of Inr q \<Rightarrow> node E q | Inl e \<Rightarrow> None)"

text \<open>\<^verbatim>\<open>bytes.fromhex\<close> of a text without spaces, as \<^verbatim>\<open>hexdigest\<close> makes it.\<close>

fun fromhex :: "str \<Rightarrow> bytes option" where
  "fromhex [] = Some []"
| "fromhex [c] = None"
| "fromhex (a # b # s) =
     (case (digit_val a, digit_val b, fromhex s) of
        (Some x, Some y, Some r) \<Rightarrow> Some (char_of (16 * x + y) # r)
      | _ \<Rightarrow> None)"

definition rel_path :: "fpath \<Rightarrow> fpath \<Rightarrow> ustr" where
  "rel_path base p = SLASH # join [SLASH] (drop (length base) p)"

definition asset_info_of :: "env \<Rightarrow> fpath \<Rightarrow> fpath \<Rightarrow> bytes \<Rightarrow> asset_info result" where
  "asset_info_of E base p content =
     (let digest = sha256_hex E content in
      case fromhex digest of
        None \<Rightarrow> Inl (PyError ''ValueError'')
      | Some d \<Rightarrow> Inr \<lparr>ai_path = rel_path base p, ai_size = int (length content), ai_sha256 = digest,
          ai_integrity = ''sha256-'' @ b64encode STD d, ai_type = guess_html5_type E (last p)\<rparr>)"

text \<open>The loop over the sorted paths; what is no regular file is left out.\<close>

fun scan_files :: "env \<Rightarrow> fpath \<Rightarrow> fpath list \<Rightarrow> (ustr, asset_info) dict \<Rightarrow> (ustr, asset_info) dict result" where
  "scan_files E base [] m = Inr m"
| "scan_files E base (p # ps) m =
     (case stat E p of
        Some (File content t) \<Rightarrow>
          rbind (asset_info_of E base p content) (\<lambda>i. scan_files E base ps (d_set (rel_path base p) i m))
      | _ \<Rightarrow> scan_files E base ps m)"

definition scan :: "env \<Rightarrow> (fpath \<Rightarrow> fpath list) \<Rightarrow> fpath \<Rightarrow> (ustr, asset_info) dict result" where
  "scan E entries base =
     (if stat E base = None then Inr [] else scan_files E base (sort (entries base)) [])"

definition info_json :: "asset_info \<Rightarrow> json" where
  "info_json i = JObj
     [(uni ''path'', JStr (ai_path i)), (uni ''size'', JInt (ai_size i)), (uni ''sha256'', JStr (uni (ai_sha256 i))),
      (uni ''integrity'', JStr (uni (ai_integrity i))), (uni ''content_type'', JStr (uni (ai_type i)))]"

definition as_jsonable :: "(ustr, asset_info) dict \<Rightarrow> json" where
  "as_jsonable m = JObj (map (\<lambda>(k, i). (k, info_json i)) m)"

text \<open>The handler of \<^verbatim>\<open>/__assets.json\<close>, which \<open>mount\<close> takes as an argument.\<close>

definition assets_manifest :: "env \<Rightarrow> (fpath \<Rightarrow> fpath list) \<Rightarrow> fpath \<Rightarrow> 'w handler" where
  "assets_manifest E entries dir r =
     (rbind (realpath E dir) (\<lambda>base. rbind (scan E entries base) (\<lambda>m. JSONResponse (as_jsonable m) 200 [])), r)"

subsection \<open>What the manifest lists is what is served\<close>

lemma scan_files_get:
  "scan_files E base ps m = Inr m' \<Longrightarrow> d_get m' k = Some i \<Longrightarrow>
   d_get m k = Some i \<or>
   (\<exists>p\<in>set ps. \<exists>content t. k = rel_path base p \<and> stat E p = Some (File content t) \<and> asset_info_of E base p content = Inr i)"
proof (induction ps arbitrary: m)
  case (Cons p ps)
  show ?case
  proof (cases "\<exists>content t. stat E p = Some (File content t)")
    case True
    then obtain content t j where j: "stat E p = Some (File content t)" "asset_info_of E base p content = Inr j"
      "scan_files E base ps (d_set (rel_path base p) j m) = Inr m'"
      using Cons.prems(1) by (auto simp: rbind_Inr_iff)
    from Cons.IH [OF j(3) Cons.prems(2)] j(1,2) show ?thesis by (auto split: if_splits)
  next
    case False
    then have "scan_files E base ps m = Inr m'"
      using Cons.prems(1) by (auto split: option.splits fnode.splits)
    from Cons.IH [OF this Cons.prems(2)] show ?thesis by auto
  qed
qed simp

text \<open>A component that means itself in a URL path and can stand in a header.\<close>

definition url_comp :: "ustr \<Rightarrow> bool" where
  "url_comp c = (plain_comp c \<and> 37 \<notin> set c \<and> 92 \<notin> set c \<and> list_all (\<lambda>x. x < 256) c)"

lemma walk_own: "\<forall>c\<in>set cs. plain_comp c \<Longrightarrow> walk here cs = here @ cs"
  by (induction cs arbitrary: here) (auto simp: plain_comp_def)

lemma in_join: "x \<in> set (join sep cs) \<Longrightarrow> x \<in> set sep \<or> (\<exists>c\<in>set cs. x \<in> set c)"
  by (induction sep cs rule: join.induct) auto

lemma safe_join_own:
  assumes "\<forall>c\<in>set cs. url_comp c" and "rp base = Inr base" and "rp (base @ cs) = Inr (base @ cs)"
  shows "safe_join rp base (join [SLASH] cs) = Inr (base @ cs)"
proof -
  have p: "\<forall>c\<in>set cs. plain_comp c" using assms(1) by (simp add: url_comp_def)
  let ?j = "join [SLASH] cs"
  have n: "37 \<notin> set ?j" "92 \<notin> set ?j"
    using assms(1) in_join [of 37 "[SLASH]" cs] in_join [of 92 "[SLASH]" cs] by (auto simp: url_comp_def)
  have "unslash ?j = ?j" using n(2) unfolding unslash_def by (intro map_idI) auto
  moreover have "unquote ?j = ?j" using n(1) by (rule unquote_no_pct)
  moreover have "walk [] (split_on [SLASH] ?j) = cs"
  proof (cases "cs = []")
    case False
    then have "split_on [SLASH] ?j = cs" using p by (intro split_on_join) (auto simp: plain_comp_def)
    then show ?thesis using walk_own [OF p] by simp
  qed (simp add: split_on.simps [of "[SLASH]" "[]"] del: split_on.simps)
  ultimately have "path_parts (clean_user_path ?j) = cs" by (simp add: clean_user_path_parts)
  then show ?thesis using assms(2,3) by (simp add: safe_join_def strict_prefix_def)
qed

text \<open>The manifest of a directory whose entries are plain: what a URL path names is the entry, and no link.\<close>

definition plain_tree :: "env \<Rightarrow> (fpath \<Rightarrow> fpath list) \<Rightarrow> fpath \<Rightarrow> bool" where
  "plain_tree E entries base =
     (realpath E base = Inr base \<and>
      list_all (\<lambda>p. prefix base p \<and> p \<noteq> base \<and> realpath E p = Inr p \<and> list_all url_comp (drop (length base) p)) (entries base))"

text \<open>
  The manifest tells the truth about what the asset handler serves: for a file it lists, an unconditional
  request without a range and without compression is answered 200 with bytes of the listed size,
  digest and content type, and the listed integrity is the encoding of that digest.
\<close>

theorem manifest_is_served:
  assumes "plain_tree E entries base" and "scan E entries base = Inr m" and "d_get m k = Some i"
    and "header req ''if-none-match'' = []" and "header req ''range'' = []"
    and "\<not> in_text ''gzip'' (header req ''accept-encoding'')"
  shows "\<exists>content hs d. serve_html5_file E z ao req base k = Inr (Response content 200 hs (ai_type i)) \<and>
    ai_path i = k \<and> ai_size i = int (length content) \<and> ai_sha256 i = sha256_hex E content \<and>
    fromhex (ai_sha256 i) = Some d \<and> ai_integrity i = ''sha256-'' @ b64encode STD d"
proof -
  obtain p content t where p: "p \<in> set (entries base)" "k = rel_path base p" "stat E p = Some (File content t)"
    and i: "asset_info_of E base p content = Inr i"
    using assms(2,3) scan_files_get [of E base "sort (entries base)" "[]" m k i] by (auto simp: scan_def split: if_splits)
  have r: "realpath E p = Inr p" "realpath E base = Inr base" and q: "prefix base p" "p \<noteq> base"
    "\<forall>c\<in>set (drop (length base) p). url_comp c"
    using assms(1) p(1) by (simp_all add: plain_tree_def list_all_iff)
  then obtain cs where cs: "p = base @ cs" "cs \<noteq> []" and u: "\<forall>c\<in>set cs. url_comp c"
    by (auto simp: prefix_def)
  have n: "node E p = Some (File content t)" using p(3) r(1) by (simp add: stat_def)
  let ?j = "join [SLASH] cs"
  have pc: "\<forall>c\<in>set cs. plain_comp c" using u by (simp add: url_comp_def)
  have "lstrip_slash k = ?j"
    using lstrip_slash_join [OF pc, of 1] p(2) cs(1) by (simp add: rel_path_def)
  moreover have "?j \<noteq> []" using cs(2) pc path_parts_join [OF pc] by (auto simp: path_parts_def split_on.simps [of "[SLASH]" "[]"])
  ultimately have cand: "candidate E ao req base k = Inr p"
    using safe_join_own [OF u, of "realpath E" base] r n cs(1) by (simp add: candidate_def is_file_def)
  have "x < 256" if x: "x \<in> set ?j" for x
    using in_join [OF x] u by (auto simp: url_comp_def list_all_iff)
  then have "list_all (\<lambda>x. x < 256) ?j" by (simp add: list_all_iff)
  then have "\<exists>h. asset_header (drop (length base) p) = Inr h" using cs(1) by (simp add: asset_header_def)
  moreover have "etag_of E content t \<noteq> []" by (simp add: etag_of_def)
  moreover have "ai_type i = guess_html5_type E (last p)" "ai_path i = k" "ai_size i = int (length content)"
    "ai_sha256 i = sha256_hex E content" "\<exists>d. fromhex (ai_sha256 i) = Some d \<and> ai_integrity i = ''sha256-'' @ b64encode STD d"
    using i p(2) by (auto simp: asset_info_of_def Let_def split: option.splits)
  ultimately show ?thesis
    using assms(4-6) cand n r(2) by (auto simp: serve_html5_file_def range_response_def Let_def) blast
qed

definition site_env :: env where
  "site_env = sample_env\<lparr>realpath := Inr,
     node := (\<lambda>p. if p = [uni ''web''] then Some Dir else if p = [uni ''web'', uni ''app.js''] then Some (File ''x=1'' 7) else None),
     sha256_hex := (\<lambda>b. replicate 64 (CHR ''a''))\<rparr>"

definition site_entries :: "fpath \<Rightarrow> fpath list" where
  "site_entries base = [base @ [uni ''app.js'']]"

definition plain_options :: asset_options where
  "plain_options = \<lparr>ao_index = uni ''index.html'', ao_fallback = True, ao_immutable = True, ao_max_age = 3600\<rparr>"

theorem manifest_is_served_witness:
  "\<exists>m i content hs. scan site_env site_entries [uni ''web''] = Inr m \<and> d_get m (uni ''/app.js'') = Some i \<and>
     serve_html5_file site_env tag_compressors plain_options (sample_request ''GET'' ''/app.js'' []) [uni ''web''] (uni ''/app.js'') =
       Inr (Response content 200 hs ''text/javascript; charset=utf-8'') \<and> ai_size i = int (length content)"
proof -
  let ?q = "sample_request ''GET'' ''/app.js'' []"
  have "case scan site_env site_entries [uni ''web''] of
      Inr m \<Rightarrow> (case d_get m (uni ''/app.js'') of Some i \<Rightarrow> ai_type i = ''text/javascript; charset=utf-8'' | None \<Rightarrow> False)
    | Inl e \<Rightarrow> False"
    by code_simp
  then obtain m i where m: "scan site_env site_entries [uni ''web''] = Inr m" "d_get m (uni ''/app.js'') = Some i"
    "ai_type i = ''text/javascript; charset=utf-8''" by (auto split: sum.splits option.splits)
  have t: "plain_tree site_env site_entries [uni ''web'']" by code_simp
  have h: "header ?q k = []" for k by (simp add: sample_request_def header_def header_of_def)
  have g: "\<not> in_text ''gzip'' []" by code_simp
  show ?thesis
    using manifest_is_served [OF t m(1,2) h h, of tag_compressors plain_options] h g m by auto
qed

end
