(* ===== verification/Sandbox.thy ===== *)
theory Sandbox
  imports PyInt
begin

section \<open>Container hardening (\<^verbatim>\<open>sandbox.py\<close>)\<close>

text \<open>
  The declarative profiles, the health check they use and the inspection of the running container. The
  environment of the process (its user, its variables, whether writing below the root raises, the
  text of \<^verbatim>\<open>/proc/self/status\<close>) is the record \<open>container\<close>; texts are of characters below 256.
\<close>

record policy =
  p_user :: str
  p_read_only :: bool
  p_no_new_privileges :: bool
  p_cap_drop :: "str list"
  p_pids_limit :: int
  p_memory :: str
  p_cpus :: str
  p_tmpfs :: "str list"
  p_security_opt :: "str list"
  p_environment :: "(str, str) dict"

definition SandboxPolicy :: policy where
  "SandboxPolicy = \<lparr>
     p_user = ''10001:10001'', p_read_only = True, p_no_new_privileges = True, p_cap_drop = [''ALL''],
     p_pids_limit = 256, p_memory = ''256m'', p_cpus = ''1.0'',
     p_tmpfs = [''/tmp:rw,noexec,nosuid,nodev,size=64m'', ''/app/var:rw,nosuid,nodev,size=128m''],
     p_security_opt = [''no-new-privileges:true'', ''seccomp=./deploy/docker/seccomp-paranoid.json''],
     p_environment = [(''PYTHONDONTWRITEBYTECODE'', ''1''), (''PYTHONUNBUFFERED'', ''1''), (''SOVEREIGN_SANDBOX'', ''docker'')]\<rparr>"

definition DistrolessSandboxPolicy :: policy where
  "DistrolessSandboxPolicy = SandboxPolicy\<lparr>
     p_user := ''65532:65532'', p_pids_limit := 192,
     p_environment := [(''PYTHONDONTWRITEBYTECODE'', ''1''), (''PYTHONUNBUFFERED'', ''1''), (''PYTHONPATH'', ''/app''),
       (''SOVEREIGN_SANDBOX'', ''distroless'')]\<rparr>"

datatype setting = Text str | Flag bool | Number int | Texts "str list" | Table "(str, str) dict"

definition compose_service_overrides :: "policy \<Rightarrow> (str, setting) dict" where
  "compose_service_overrides p =
     [(''user'', Text (p_user p)), (''read_only'', Flag (p_read_only p)), (''cap_drop'', Texts (p_cap_drop p)),
      (''security_opt'', Texts (p_security_opt p)), (''pids_limit'', Number (p_pids_limit p)),
      (''mem_limit'', Text (p_memory p)), (''cpus'', Text (p_cpus p)), (''tmpfs'', Texts (p_tmpfs p)),
      (''environment'', Table (p_environment p))]"

definition docker_healthcheck_command :: "str \<Rightarrow> int \<Rightarrow> str \<Rightarrow> str list" where
  "docker_healthcheck_command path port executable =
     [''CMD'', executable, ''-c'',
      ''import urllib.request,sys;'' @
      ''r=urllib.request.urlopen('' @ [CHR 0x27] @ ''http://127.0.0.1:'' @ show_int port @ path @ [CHR 0x27] @ '',timeout=2);'' @
      ''sys.exit(0 if 200<=r.status<500 else 1)'']"

definition healthcheck :: "str \<Rightarrow> int \<Rightarrow> str list" where
  "healthcheck path port = docker_healthcheck_command path port ''python3''"

subsection \<open>\<^verbatim>\<open>validate_runtime_environment\<close>\<close>

record container =
  c_euid :: "int option"
  c_sandbox :: "str option"
  c_write_fails :: bool
  c_status :: "str option"

record facts =
  f_euid :: "int option"
  f_non_root :: bool
  f_sandbox_env :: "str option"
  f_read_only :: bool
  f_no_new_privileges :: "bool option"
  f_seccomp :: "str option"

text \<open>\<^verbatim>\<open>str.splitlines\<close> below code point 256.\<close>

definition line_end :: "char \<Rightarrow> bool" where
  "line_end c = (code c \<in> {10, 11, 12, 13, 28, 29, 30, 133})"

function splitlines :: "str \<Rightarrow> str list" where
  "splitlines s =
     (if s = [] then []
      else (let l = takeWhile (\<lambda>c. \<not> line_end c) s; r = dropWhile (\<lambda>c. \<not> line_end c) s
            in l # splitlines (if take 2 r = CRLF then drop 2 r else drop 1 r)))"
  by pat_completeness auto
termination
proof (relation "measure length")
  fix s l r :: str
  assume "s \<noteq> []" "l = takeWhile (\<lambda>c. \<not> line_end c) s" "r = dropWhile (\<lambda>c. \<not> line_end c) s"
  then show "((if take 2 r = CRLF then drop 2 r else drop 1 r), s) \<in> measure length"
    using length_dropWhile_le [of "\<lambda>c. \<not> line_end c" s] length_greater_0_conv [of s]
    by (simp del: length_greater_0_conv) linarith
qed simp

declare splitlines.simps [simp del]

definition after_colon :: "str \<Rightarrow> str" where
  "after_colon line = strip (case split1 '':'' line of Some (a, b) \<Rightarrow> b | None \<Rightarrow> [])"

fun read_status :: "str list \<Rightarrow> facts \<Rightarrow> facts" where
  "read_status [] f = f"
| "read_status (line # ls) f =
     read_status ls
       (if prefix ''NoNewPrivs:'' line then f\<lparr>f_no_new_privileges := Some (after_colon line = ''1'')\<rparr>
        else if prefix ''Seccomp:'' line then f\<lparr>f_seccomp := Some (after_colon line)\<rparr>
        else f)"

definition runtime_facts :: "container \<Rightarrow> facts" where
  "runtime_facts c =
     (let f = \<lparr>f_euid = c_euid c, f_non_root = (c_euid c \<notin> {Some 0, None}), f_sandbox_env = c_sandbox c,
               f_read_only = c_write_fails c, f_no_new_privileges = None, f_seccomp = None\<rparr>
      in case c_status c of None \<Rightarrow> f | Some data \<Rightarrow> read_status (splitlines data) f)"

definition failures :: "facts \<Rightarrow> str list" where
  "failures f =
     (if f_non_root f then [] else [''process must not run as root'']) @
     (if f_read_only f then [] else [''root filesystem must be read-only'']) @
     (if f_no_new_privileges f = Some False then [''no-new-privileges must be enabled''] else []) @
     (if f_seccomp f \<in> {None, Some ''0''} then [''seccomp must be enabled''] else [])"

text \<open>The left result is the message of the \<^verbatim>\<open>RuntimeError\<close>.\<close>

definition validate_runtime_environment :: "bool \<Rightarrow> container \<Rightarrow> str + facts" where
  "validate_runtime_environment strict c =
     (let f = runtime_facts c
      in if strict \<and> failures f \<noteq> [] then Inl (join ''; '' (failures f)) else Inr f)"

subsection \<open>What a strict check guarantees\<close>

text \<open>The text of \<^verbatim>\<open>/proc/self/status\<close>: a name, a colon, a tab and a value on each line.\<close>

definition status_line_of :: "str \<times> str \<Rightarrow> str" where
  "status_line_of = (\<lambda>(n, v). n @ '':'' @ CHR 0x09 # v)"

definition status_text :: "(str, str) dict \<Rightarrow> str" where
  "status_text fs = concat (map (\<lambda>p. status_line_of p @ [LF]) fs)"

definition status_field :: "str \<times> str \<Rightarrow> bool" where
  "status_field = (\<lambda>(n, v). CHR '':'' \<notin> set n \<and> list_all (\<lambda>c. \<not> line_end c) (n @ v) \<and> strip v = v)"

lemma splitlines_line: "list_all (\<lambda>c. \<not> line_end c) l \<Longrightarrow> splitlines (l @ LF # s) = l # splitlines s"
proof -
  assume l: "list_all (\<lambda>c. \<not> line_end c) l"
  have e: "line_end LF" by (simp add: line_end_def code_def)
  have "takeWhile (\<lambda>c. \<not> line_end c) (l @ LF # s) = l" "dropWhile (\<lambda>c. \<not> line_end c) (l @ LF # s) = LF # s"
    using l e by (induction l) auto
  then show ?thesis by (subst splitlines.simps) (simp add: Let_def)
qed

lemma splitlines_status: "list_all status_field fs \<Longrightarrow> splitlines (status_text fs) = map status_line_of fs"
proof (induction fs)
  case (Cons p fs)
  have "\<not> line_end (CHR '':'')" "\<not> line_end (CHR 0x09)" by (simp_all add: line_end_def code_def)
  with Cons.prems have "list_all (\<lambda>c. \<not> line_end c) (status_line_of p)"
    by (auto simp: status_field_def status_line_of_def split: prod.splits)
  from splitlines_line [OF this] Cons show ?case by (simp add: status_text_def)
qed (simp add: status_text_def splitlines.simps)

lemma prefix_field: "CHR '':'' \<notin> set n \<Longrightarrow> CHR '':'' \<notin> set k \<Longrightarrow> prefix (k @ '':'') (n @ CHR '':'' # x) \<longleftrightarrow> n = k"
proof (induction n arbitrary: k)
  case Nil
  then show ?case by (cases k) auto
next
  case (Cons a n)
  then show ?case by (cases k) auto
qed

lemma after_colon_field: "status_field (n, v) \<Longrightarrow> after_colon (n @ CHR '':'' # CHR 0x09 # v) = v"
proof -
  assume f: "status_field (n, v)"
  then have "split1 '':'' (n @ '':'' @ CHR 0x09 # v) = Some (n, CHR 0x09 # v)"
    by (intro split1_hd_notin) (simp_all add: status_field_def)
  moreover have "strip (CHR 0x09 # v) = v"
    using f by (simp add: status_field_def strip_def strip_by_def is_space_def code_def)
  ultimately show ?thesis by (simp add: after_colon_def)
qed

lemma read_status_fields:
  "list_all status_field fs \<Longrightarrow> d_ok fs \<Longrightarrow>
   read_status (map status_line_of fs) f =
     f\<lparr>f_no_new_privileges := (case d_get fs ''NoNewPrivs'' of None \<Rightarrow> f_no_new_privileges f | Some v \<Rightarrow> Some (v = ''1'')),
       f_seccomp := (case d_get fs ''Seccomp'' of None \<Rightarrow> f_seccomp f | Some v \<Rightarrow> Some v)\<rparr>"
proof (induction fs arbitrary: f)
  case (Cons p fs)
  obtain n v where p: "p = (n, v)" by force
  have n: "CHR '':'' \<notin> set n" and a: "after_colon (n @ CHR '':'' # CHR 0x09 # v) = v"
    using Cons.prems(1) after_colon_field [of n v] by (simp_all add: p status_field_def)
  have k: "prefix ''NoNewPrivs:'' (n @ CHR '':'' # CHR 0x09 # v) \<longleftrightarrow> n = ''NoNewPrivs''"
    "prefix ''Seccomp:'' (n @ CHR '':'' # CHR 0x09 # v) \<longleftrightarrow> n = ''Seccomp''"
    using prefix_field [OF n, of "''NoNewPrivs''"] prefix_field [OF n, of "''Seccomp''"] by simp_all
  have none: "d_get fs n = None" and fs: "list_all status_field fs" "d_ok fs"
    using Cons.prems by (simp_all add: p d_ok_def d_get_None_iff)
  have step: "read_status (map status_line_of (p # fs)) f = read_status (map status_line_of fs)
      (if n = ''NoNewPrivs'' then f\<lparr>f_no_new_privileges := Some (v = ''1'')\<rparr>
       else if n = ''Seccomp'' then f\<lparr>f_seccomp := Some v\<rparr> else f)"
    by (simp only: p list.map read_status.simps status_line_of_def prod.case append_Cons append_Nil k a)
  consider (priv) "n = ''NoNewPrivs''" | (sec) "n = ''Seccomp''" | (other) "n \<noteq> ''NoNewPrivs''" "n \<noteq> ''Seccomp''" by blast
  then show ?case
  proof cases
    case priv
    then show ?thesis using none unfolding step Cons.IH [OF fs] by (simp add: p split: option.split)
  next
    case sec
    then show ?thesis using none unfolding step Cons.IH [OF fs] by (simp add: p split: option.split)
  next
    case other
    then show ?thesis unfolding step Cons.IH [OF fs] by (simp add: p split: option.split)
  qed
qed simp

text \<open>
  A strict check accepts a process exactly when the invariants hold that it reads: given the kernel's
  status file, it passes if and only if the process runs under a known user other than root, writing
  below the root fails, new privileges are ruled out or not reported, and the reported seccomp mode is on.
\<close>

theorem strict_check_exact:
  assumes "list_all status_field fs" and "d_ok fs" and "c_status c = Some (status_text fs)"
  shows "validate_runtime_environment True c = Inr f \<longleftrightarrow>
    f = runtime_facts c \<and> (\<exists>u. c_euid c = Some u \<and> u \<noteq> 0) \<and> c_write_fails c \<and>
    d_get fs ''NoNewPrivs'' \<in> {None, Some ''1''} \<and> (\<exists>m. d_get fs ''Seccomp'' = Some m \<and> m \<noteq> ''0'')"
proof -
  let ?f = "\<lparr>f_euid = c_euid c, f_non_root = (c_euid c \<notin> {Some 0, None}), f_sandbox_env = c_sandbox c,
               f_read_only = c_write_fails c, f_no_new_privileges = None, f_seccomp = None\<rparr>"
  have r: "runtime_facts c = ?f\<lparr>f_no_new_privileges := map_option (\<lambda>v. v = ''1'') (d_get fs ''NoNewPrivs''),
      f_seccomp := d_get fs ''Seccomp''\<rparr>"
    using splitlines_status [OF assms(1)] read_status_fields [OF assms(1,2)]
    by (auto simp: runtime_facts_def assms(3) Let_def split: option.splits)
  have "failures (runtime_facts c) = [] \<longleftrightarrow> (\<exists>u. c_euid c = Some u \<and> u \<noteq> 0) \<and> c_write_fails c \<and>
    d_get fs ''NoNewPrivs'' \<in> {None, Some ''1''} \<and> (\<exists>m. d_get fs ''Seccomp'' = Some m \<and> m \<noteq> ''0'')"
    unfolding r failures_def by (cases "c_euid c"; cases "d_get fs ''NoNewPrivs''"; cases "d_get fs ''Seccomp''") auto
  then show ?thesis by (auto simp: validate_runtime_environment_def Let_def)
qed

definition kernel_status :: "(str, str) dict" where
  "kernel_status = [(''Name'', ''python3''), (''NoNewPrivs'', ''1''), (''Seccomp'', ''2''), (''Seccomp_filters'', ''1'')]"

theorem strict_check_exact_witness:
  "\<exists>f. validate_runtime_environment True
         \<lparr>c_euid = Some 10001, c_sandbox = Some ''docker'', c_write_fails = True, c_status = Some (status_text kernel_status)\<rparr> = Inr f \<and>
       f_seccomp f = Some ''2''"
proof -
  have k: "list_all status_field kernel_status" "d_ok kernel_status"
    "d_get kernel_status ''NoNewPrivs'' = Some ''1''" "d_get kernel_status ''Seccomp'' = Some ''2''"
    by code_simp+
  let ?c = "\<lparr>c_euid = Some 10001, c_sandbox = Some ''docker'', c_write_fails = True, c_status = Some (status_text kernel_status)\<rparr>"
  have "f_seccomp (runtime_facts ?c) = Some ''2''" by code_simp
  with strict_check_exact [OF k(1,2), of ?c "runtime_facts ?c"] k(3,4) show ?thesis by auto
qed

end
