(* ===== verification/Logging.thy ===== *)
theory Logging
  imports Json_Props
begin

section \<open>Log lines (\<^verbatim>\<open>logging_utils.py\<close>)\<close>

text \<open>
  The request id of the running context, the filter that stamps it on a record, the two formatters and the
  configuration of the program's logger. Times, exceptions and messages come as the texts the
  standard library makes of them; the context variable and the logger are states.
\<close>

record log_record =
  lr_time :: ustr
  lr_level :: ustr
  lr_logger :: ustr
  lr_message :: ustr
  lr_process :: int
  lr_thread :: ustr
  lr_exception :: "ustr option"
  lr_request_id :: "ustr option"

definition set_request_id :: "ustr \<Rightarrow> ustr option \<Rightarrow> ustr option" where
  "set_request_id v ctx = Some v"

definition get_request_id :: "ustr option \<Rightarrow> ustr" where
  "get_request_id ctx = (case ctx of Some v \<Rightarrow> v | None \<Rightarrow> uni ''-'')"

definition request_id_filter :: "ustr option \<Rightarrow> log_record \<Rightarrow> bool \<times> log_record" where
  "request_id_filter ctx r = (True, r\<lparr>lr_request_id := Some (get_request_id ctx)\<rparr>)"

definition log_object :: "log_record \<Rightarrow> json" where
  "log_object r = JObj (
     [(uni ''timestamp'', JStr (lr_time r)), (uni ''level'', JStr (lr_level r)), (uni ''logger'', JStr (lr_logger r)),
      (uni ''message'', JStr (lr_message r)),
      (uni ''request_id'', JStr (case lr_request_id r of Some v \<Rightarrow> v | None \<Rightarrow> uni ''-'')),
      (uni ''process'', JInt (lr_process r)), (uni ''thread'', JStr (lr_thread r))] @
     (case lr_exception r of Some e \<Rightarrow> [(uni ''exception'', JStr e)] | None \<Rightarrow> []))"

definition json_format :: "log_record \<Rightarrow> ustr" where
  "json_format r = dumps False [44] [58] (log_object r)"

text \<open>The plain format, which raises for a record that the filter has not stamped.\<close>

definition plain_format :: "log_record \<Rightarrow> ustr option" where
  "plain_format r =
     (case lr_request_id r of
        None \<Rightarrow> None
      | Some i \<Rightarrow> Some (lr_time r @ [32] @ lr_level r @ uni '' ['' @ i @ uni ''] '' @ lr_message r @
          (case lr_exception r of Some e \<Rightarrow> 10 # e | None \<Rightarrow> [])))"

record log_handler =
  lh_filters :: "ustr option \<Rightarrow> log_record \<Rightarrow> bool \<times> log_record"
  lh_format :: "log_record \<Rightarrow> ustr option"

record logger =
  lg_handlers :: "log_handler list"
  lg_level :: int

definition configure_logging :: "bool \<Rightarrow> int \<Rightarrow> logger \<Rightarrow> logger" where
  "configure_logging as_json level lg =
     lg\<lparr>lg_handlers := [\<lparr>lh_filters = request_id_filter,
          lh_format = (if as_json then Some \<circ> json_format else plain_format)\<rparr>], lg_level := level\<rparr>"

text \<open>The lines a record leads to: each handler filters and formats it, unless its level is too low.\<close>

definition emitted :: "ustr option \<Rightarrow> logger \<Rightarrow> int \<Rightarrow> log_record \<Rightarrow> ustr option list" where
  "emitted ctx lg level r =
     (if level < lg_level lg then []
      else map (\<lambda>h. lh_format h (snd (lh_filters h ctx r))) (filter (\<lambda>h. fst (lh_filters h ctx r)) (lg_handlers lg)))"

subsection \<open>One record, one line\<close>

definition printable_text :: "ustr \<Rightarrow> bool" where
  "printable_text s = list_all (\<lambda>c. 32 \<le> c) s"

lemma printable_join: "printable_text sep \<Longrightarrow> list_all printable_text ps \<Longrightarrow> printable_text (join sep ps)"
  by (induction sep ps rule: join.induct) (auto simp: printable_text_def)

lemma printable_string: "printable_text (json_string False s)"
proof -
  have h: "d < 16 \<Longrightarrow> 32 \<le> hex_low d" for d by (simp add: hex_low_def)
  have "printable_text (escape_code False c)" for c
    by (auto simp: escape_code_def printable_text_def u_escape_def uni_def code_def intro!: h)
  then show ?thesis by (auto simp: json_string_def printable_text_def list_all_iff)
qed

lemma printable_int: "printable_text (uni (show_int i))"
proof -
  have "32 \<le> code c" if "c \<in> set (show_nat n)" for c n
    using show_nat_chars [OF that] by simp
  then show ?thesis by (auto simp: printable_text_def show_int_def uni_def code_def list_all_iff split: if_splits)
qed

text \<open>
  A JSON log cannot be forged: after \<^verbatim>\<open>configure_logging\<close> with JSON logs a record at or above the level
  leads to exactly one line, which holds no control character whatever the message and the request id
  are, and a reader of the line gets back the object of the record under the current request id.
\<close>

theorem json_log_faithful:
  assumes "level \<le> n" and "json_ok (log_object (snd (request_id_filter ctx r)))"
  shows "\<exists>line. emitted ctx (configure_logging True level lg) n r = [Some line] \<and> printable_text line \<and>
    loads line = Some (log_object (r\<lparr>lr_request_id := Some (get_request_id ctx)\<rparr>))"
proof -
  let ?r = "r\<lparr>lr_request_id := Some (get_request_id ctx)\<rparr>"
  have "loads (dumps False (44 # []) (58 # []) (log_object ?r)) = Some (log_object ?r)"
    by (rule loads_dumps) (use assms(2) in \<open>simp_all add: request_id_filter_def spaces_def\<close>)
  moreover have "printable_text (json_format ?r)"
  proof -
    have c: "printable_text (a @ b) \<longleftrightarrow> printable_text a \<and> printable_text b" "printable_text (x # b) \<longleftrightarrow> 32 \<le> x \<and> printable_text b"
      "printable_text []" for a b x by (simp_all add: printable_text_def)
    show ?thesis
      unfolding json_format_def log_object_def dumps.simps c
      by (auto intro!: printable_join simp: c printable_string printable_int split: option.split)
  qed
  ultimately show ?thesis
    using assms(1) by (simp add: emitted_def configure_logging_def request_id_filter_def json_format_def)
qed

lemma scalar_uni: "list_all is_scalar (uni s)"
proof -
  have "is_scalar (code c)" for c using code_less [of c] by (simp add: is_scalar_def)
  then show ?thesis by (simp add: list_all_iff uni_def)
qed

lemma log_object_ok:
  assumes "list_all (list_all is_scalar) [lr_time r, lr_level r, lr_logger r, lr_message r, lr_thread r]"
    and "pred_option (list_all is_scalar) (lr_exception r)" and "pred_option (list_all is_scalar) (lr_request_id r)"
    and "\<bar>lr_process r\<bar> < 10 ^ max_str_digits"
  shows "json_ok (log_object r)"
proof -
  have "distinct (map uni [''timestamp'', ''level'', ''logger'', ''message'', ''request_id'', ''process'', ''thread'', ''exception''])"
    by code_simp
  then show ?thesis
    using assms scalar_uni by (auto simp: log_object_def d_ok_def split: option.split)
qed

definition sample_record :: log_record where
  "sample_record = \<lparr>lr_time = uni ''t'', lr_level = uni ''INFO'', lr_logger = uni ''sovereign'',
     lr_message = uni ''a'' @ [10] @ uni ''b'', lr_process = 7, lr_thread = uni ''main'', lr_exception = None,
     lr_request_id = None\<rparr>"

text \<open>The plain format writes a line break of a message as it is.\<close>

lemma plain_log_forged:
  "emitted (Some (uni ''r'')) (configure_logging False 20 \<lparr>lg_handlers = [], lg_level = 0\<rparr>) 20 sample_record =
     [Some (uni ''t INFO [r] a'' @ [10] @ uni ''b'')]"
  by code_simp

theorem json_log_faithful_witness:
  "\<exists>line. emitted (Some (uni ''r'')) (configure_logging True 20 \<lparr>lg_handlers = [], lg_level = 0\<rparr>) 20 sample_record = [Some line] \<and>
     10 \<notin> set line"
proof -
  have "(10 :: int) ^ 1 \<le> 10 ^ max_str_digits"
    by (rule power_increasing) (simp_all add: max_str_digits_def)
  then have "\<bar>7 :: int\<bar> < 10 ^ max_str_digits" by simp
  then have "json_ok (log_object (snd (request_id_filter (Some (uni ''r'')) sample_record)))"
    by (intro log_object_ok)
      (simp_all add: request_id_filter_def get_request_id_def sample_record_def scalar_uni, simp add: is_scalar_def)
  from json_log_faithful [OF order_refl this, of 20] show ?thesis
    by (fastforce simp: printable_text_def list_all_iff)
qed

end
