(* ===== verification/Guarded.thy ===== *)
theory Guarded
  imports Served Auth_Props
begin

section \<open>A protected route, from the bytes of a request to those of its answer\<close>

text \<open>
  The parser, the router, the middleware chain, \<^verbatim>\<open>require_auth\<close> and the writer together: what a client
  without a valid token gets from a route behind the middleware.
\<close>

text \<open>What \<^verbatim>\<open>require_auth\<close> raises for the headers of a request, and the state it leaves; \<open>None\<close> lets it pass.\<close>

definition auth_refusal ::
  "auth_env \<Rightarrow> jwt \<Rightarrow> (ustr \<Rightarrow> 'b \<Rightarrow> bool \<times> 'b) option \<Rightarrow> (str, str) dict \<Rightarrow> 'b auth_world \<Rightarrow> (exn \<times> 'b auth_world) option" where
  "auth_refusal A a check hs w =
     (if \<not> prefix ''Bearer '' (header_of hs ''authorization'') then Some (unauthorized ''Missing bearer token'', w)
      else (case verify_token A a check (auth_clock w) (strip (drop 7 (header_of hs ''authorization''))) (auth_list w) of
              (Inl e, st) \<Rightarrow> Some (e, w\<lparr>auth_list := st\<rparr>)
            | (Inr p, st) \<Rightarrow> None))"

lemma require_auth_refuses:
  "auth_refusal A a check (headers req) w = Some (e, w') \<Longrightarrow>
   require_auth A sc a check (req, w) next = (Inl e, (req, w'))"
  by (auto simp: auth_refusal_def require_auth_def bearer_def header_def Let_def split: if_splits prod.splits sum.splits)

lemma protected_dispatch:
  assumes "resolve (ep_router ep) (q_method req) (path req) = Inr (tgt, require_auth A sc a check # mws)"
    and "middlewares (ep_router ep) = []" and "\<not> prefix ''/static/'' (path req)"
    and "auth_refusal A a check (headers req) w = Some (e, w')"
  shows "dispatch E ep (req, w) = (Inl e, (req, w'))"
proof -
  have "execute [] (req, w) h (require_auth A sc a check # mws) = (Inl e, (req, w'))" for h
    unfolding execute_def by (subst build.simps) (simp add: require_auth_refuses [OF assms(4)])
  then show ?thesis using assms(1-3) by (simp add: dispatch_def Let_def)
qed

text \<open>
  C2. A protected route is closed to clients without a valid token: when the route that resolution finds has
  \<^verbatim>\<open>require_auth\<close> as its first middleware, a well-formed request that carries no bearer token or one that
  does not verify is answered with the error's status, whatever its method, body and other headers
  are; no handler or other middleware runs, so only what the verification did changes the state.
\<close>

theorem protected_route_refuses:
  assumes "plain_env E c" and "takes s = None" and "0 < max_keepalive_requests c" and "max_body_bytes c < 2 ^ 64"
    and "clean_head c m t hs" and "declared_body hs body" and "int (length body) \<le> max_body_bytes c"
    and "prompt i (SocketReader \<lparr>arrivals = arrivals s, now = now s\<rparr> c)"
    and "i \<le> header_idle_timeout c" and "i \<le> body_idle_timeout c"
    and "pending (SocketReader \<lparr>arrivals = arrivals s, now = now s\<rparr> c) = request_head m t hs @ CRLF @ CRLF @ body @ rest"
    and "lower (header_of hs ''upgrade'') \<noteq> ''websocket''" and "\<not> has_break (chosen_id E hs (next_id s))"
    and "url_split (netloc_ok E) t = Inr (p, qs)" and "p \<noteq> []" and "\<not> prefix ''/static/'' p"
    and "middlewares (ep_router ep) = []"
    and "resolve (ep_router ep) (upper m) p = Inr (tgt, require_auth A sc a check # mws)"
    and "auth_refusal A a check hs (app s) = Some (HTTPError st msg [], w')"
  shows "\<exists>s' h b mh. handle_connection E ep c addr (\<lambda>k. False) 0 s = (Inr (), s') \<and> app s' = w' \<and>
    wire s' = wire s @ h @ b \<and> split_on CRLF h = status_line st # map field_line mh @ [[], []]"
proof (rule request_refused [OF assms(1-14)])
  fix b req
  assume req: "Request (netloc_ok E) (upper m) t ''HTTP/1.1'' hs hs b (int (length body)) addr c = Inr req"
  let ?req = "req\<lparr>request_id := chosen_id E hs (next_id s)\<rparr>"
  have "path req = p" "q_method req = upper m" "headers req = hs"
    using req assms(14,15) by (auto simp: Request_def)
  then have "dispatch E ep (?req, app s) = (Inl (HTTPError st msg []), ?req, w')"
    using assms(16-19) by (intro protected_dispatch) simp_all
  then show "refuses E ep ?req (app s) st msg [] w'" by (simp add: refuses_def)
qed (simp add: clean_headers_def)

definition users_headers :: "(str, str) dict" where
  "users_headers = [(''host'', ''h''), (''authorization'', ''Bearer x'')]"

definition users_ep :: "unit auth_world endpoint" where
  "users_ep = \<lparr>
     ep_router = \<lparr>routes = [\<lparr>rt_method = ''GET'', rt_pattern = ''/users'', rt_regex = map Lit ''/users'',
           rt_handler = (\<lambda>r. (Inr (Response ''users'' 200 [] HTML), r)),
           rt_mws = [require_auth sample_auth (\<lambda>c. []) (sample_service 100) None]\<rparr>],
       middlewares = [], startup_handlers = [], shutdown_handlers = []\<rparr>,
     ep_docs = (\<lambda>r. (Inr (Response [] 200 [] HTML), r)), ep_ws = None\<rparr>"

definition users_link :: "unit auth_world link" where
  "users_link = \<lparr>arrivals = [(1, Data (''GET /users HTTP/1.1'' @ CRLF @ ''host: h'' @ CRLF @ ''authorization: Bearer x'' @ CRLF @ CRLF))],
     now = 0, wire = [], takes = None, next_id = 0, submitted = [], enqueued = [],
     app = \<lparr>auth_clock = 1000, auth_list = ()\<rparr>\<rparr>"

theorem protected_route_refuses_witness:
  "\<exists>s' h b. handle_connection sample_env users_ep DEFAULT_CONFIG (''10.0.0.9'', 1) (\<lambda>k. False) 0 users_link = (Inr (), s') \<and>
     wire s' = h @ b \<and> ''HTTP/1.1 401 Unauthorized'' \<in> set (split_on CRLF h) \<and> app s' = app users_link"
proof -
  let ?rd = "SocketReader \<lparr>arrivals = arrivals users_link, now = now users_link\<rparr> DEFAULT_CONFIG"
  have u: "url_split (netloc_ok sample_env) ''/users'' = Inr (''/users'', [])" by code_simp
  have st: "status_line 401 = ''HTTP/1.1 401 Unauthorized''" by code_simp
  have p: "prompt 1 ?rd" "pending ?rd = request_head ''GET'' ''/users'' users_headers @ CRLF @ CRLF @ [] @ []"
    "clean_head DEFAULT_CONFIG ''GET'' ''/users'' users_headers" "declared_body users_headers []"
    "lower (header_of users_headers ''upgrade'') \<noteq> ''websocket''"
    "\<not> has_break (chosen_id sample_env users_headers (next_id users_link))" "\<not> prefix ''/static/'' ''/users''"
    by code_simp+
  have "rmatch (map Lit ''/users'') ''/users'' = Some []" "\<not> docs_path (upper ''GET'') ''/users''" "upper (upper ''GET'') = ''GET''"
    by code_simp+
  then have r: "resolve (ep_router users_ep) (upper ''GET'') ''/users'' =
      Inr (Bound (\<lambda>r. (Inr (Response ''users'' 200 [] HTML), r)) [],
        [require_auth sample_auth (\<lambda>c. []) (sample_service 100) None])"
    by (simp add: resolve_def users_ep_def decode_params_def del: rmatch.simps upper_def)
  have "case auth_refusal sample_auth (sample_service 100) None users_headers (app users_link) of
      Some (e, w) \<Rightarrow> w = app users_link \<and> (case e of HTTPError s m eh \<Rightarrow> s = 401 \<and> eh = [] | _ \<Rightarrow> False) | None \<Rightarrow> False"
    by code_simp
  then obtain m where a: "auth_refusal sample_auth (sample_service 100) None users_headers (app users_link) =
      Some (HTTPError 401 m [], app users_link)"
    by (auto split: option.splits exn.splits)
  have "takes users_link = None" "wire users_link = []" "middlewares (ep_router users_ep) = []"
    by (simp_all add: users_link_def users_ep_def)
  with protected_route_refuses [OF sample_plain _ _ _ p(3,4) _ p(1) _ _ p(2,5,6) u _ p(7) _ r a, of "(''10.0.0.9'', 1)"] st
  show ?thesis by (fastforce simp: DEFAULT_CONFIG_def)
qed

end
