(* ===== verification/Orm_Query.thy ===== *)
theory Orm_Query
  imports Orm_Props "HOL-Library.Multiset"
begin

section \<open>What a query returns (\<^verbatim>\<open>orm.py\<close>)\<close>

text \<open>
  The order of SQLite's values as an instance of the library's class, and with it what \<^verbatim>\<open>Query.all\<close> and
  \<^verbatim>\<open>Query.first\<close> promise about filters, order and limit, from the rows of the table to the instances.
\<close>

instantiation cell :: preorder
begin

definition less_eq_cell :: "cell \<Rightarrow> cell \<Rightarrow> bool" where
  "less_eq_cell c d = (sort_rank c \<le> sort_rank d)"

definition less_cell :: "cell \<Rightarrow> cell \<Rightarrow> bool" where
  "less_cell c d = (sort_rank c < sort_rank d)"

instance
  by standard (auto simp: less_eq_cell_def less_cell_def)

end

lemma cell_le_total: "c \<le> d \<or> d \<le> (c :: cell)"
  by (simp add: less_eq_cell_def linear)

lemma Null_le [simp]: "Null \<le> c"
proof -
  have "(0, 0, 0, []) \<le> sort_rank c"
    by (cases c) (auto simp: sort_rank_def cell_num_def less_eq_prod_def split: pyfloat.split)
  then show ?thesis by (simp add: less_eq_cell_def sort_rank_def)
qed

lemma cell_order [simp]:
  "Integer i \<le> Integer j \<longleftrightarrow> i \<le> j" "Integer i \<le> Text s" "Integer i \<le> Blob b" "Text s \<le> Blob b"
  "Text s \<le> Text t \<longleftrightarrow> s \<le> t"
  by (auto simp: less_eq_cell_def sort_rank_def cell_num_def less_eq_prod_def)

subsection \<open>\<^verbatim>\<open>create_all\<close>\<close>

lemma create_table_keeps: "d_get db t = Some tb \<Longrightarrow> d_get (snd (create_table E m db)) t = Some tb"
  by (auto simp: create_table_def split: option.split sum.split)

lemma create_all_keeps: "d_get db t = Some tb \<Longrightarrow> d_get (snd (create_all E ms db)) t = Some tb"
proof (induction ms arbitrary: db)
  case (Cons m ms)
  then show ?case
    using create_table_keeps [OF Cons.prems, of E m] by (auto simp: sbind_def split: prod.split sum.split)
qed simp

text \<open>Without an exception every model has its table afterwards, and no table that was there is touched.\<close>

lemma create_all_tables: "create_all E ms db = (Inr (), db') \<Longrightarrow> m \<in> set ms \<Longrightarrow> d_get db' (o_table m) \<noteq> None"
proof (induction ms arbitrary: db)
  case (Cons x ms)
  obtain db1 where c: "create_table E x db = (Inr (), db1)" "create_all E ms db1 = (Inr (), db')"
    using Cons.prems(1) by (auto simp: sbind_Inr_iff)
  show ?case
  proof (cases "m = x")
    case True
    then obtain tb where "d_get db1 (o_table m) = Some tb"
      using c(1) by (auto simp: create_table_def split: option.splits sum.splits if_splits)
    then show ?thesis using create_all_keeps [of db1 "o_table m" tb E ms] c(2) by simp
  qed (use Cons.IH [OF c(2)] Cons.prems(2) in simp)
qed simp

subsection \<open>The rows\<close>

text \<open>The row \<open>r\<close> may stand before the row \<open>s\<close> under an \<^verbatim>\<open>ORDER BY\<close> clause.\<close>

definition precedes :: "table \<Rightarrow> (ustr \<times> bool) option \<Rightarrow> int \<times> (ustr, cell) dict \<Rightarrow> int \<times> (ustr, cell) dict \<Rightarrow> bool" where
  "precedes tb ord r s =
     (case ord of
        None \<Rightarrow> True
      | Some (f, desc) \<Rightarrow>
          (case order_column tb f of
             None \<Rightarrow> False
           | Some k \<Rightarrow> if desc then column_of (snd s) k \<le> column_of (snd r) k else column_of (snd r) k \<le> column_of (snd s) k))"

lemma precedes_column:
  "order_column tb f = Some k \<Longrightarrow> precedes tb (Some (f, desc)) =
     (\<lambda>r s. if desc then column_of (snd s) k \<le> column_of (snd r) k else column_of (snd r) k \<le> column_of (snd s) k)"
  by (simp add: precedes_def fun_eq_iff)

lemma order_rows_mset [simp]: "mset (order_rows k desc rows) = mset rows"
  by (simp add: order_rows_def Let_def)

lemma sort_key_wrt: "sorted_wrt (\<lambda>r s. f r \<le> (f s :: 'k :: linorder)) (sort_key f xs)"
  using sorted_sort_key [of f xs] by (simp add: sorted_wrt_map)

lemma order_rows_sorted:
  "sorted_wrt (\<lambda>r s. if desc then column_of (snd s) k \<le> column_of (snd r) k else column_of (snd r) k \<le> column_of (snd s) k)
     (order_rows k desc rows)"
  by (auto simp: order_rows_def Let_def sorted_wrt_rev less_eq_cell_def sort_key_wrt)

lemma limited_split:
  assumes "limited n xs = Inr ys"
  obtains rest where "xs = ys @ rest" "rest = [] \<or> (\<exists>k. n = Some (int k) \<and> length ys = k)"
    "\<forall>k. n = Some k \<and> 0 \<le> k \<longrightarrow> int (length ys) \<le> k"
proof (cases "\<exists>k. n = Some k \<and> 0 \<le> k")
  case True
  then obtain k where "n = Some (int k)" by (metis nonneg_int_cases)
  then show ?thesis using assms by (intro that [of "drop k xs"]) (auto simp: limited_def split: if_splits)
next
  case False
  then show ?thesis using assms by (intro that [of "[]"]) (auto simp: limited_def split: option.splits if_splits)
qed

lemma select_rows_split:
  assumes "select_rows E q tb = Inr rows"
  obtains conds rest where "bind_all E (qs_where q) = Inr conds"
    "mset (rows @ rest) = mset (filter (row_matches E tb conds) (tb_rows tb))"
    "sorted_wrt (precedes tb (qs_order q)) (rows @ rest)"
    "rest = [] \<or> (\<exists>k. qs_limit q = Some (int k) \<and> length rows = k)"
    "\<forall>k. qs_limit q = Some k \<and> 0 \<le> k \<longrightarrow> int (length rows) \<le> k"
proof -
  obtain conds where c: "bind_all E (qs_where q) = Inr conds"
    using assms by (cases "bind_all E (qs_where q)") (auto simp: select_rows_def)
  let ?found = "filter (row_matches E tb conds) (tb_rows tb)"
  obtain full where f: "limited (qs_limit q) full = Inr rows" "mset full = mset ?found" "sorted_wrt (precedes tb (qs_order q)) full"
  proof (cases "qs_order q")
    case None
    then have "sorted_wrt (precedes tb (qs_order q)) ?found" by (auto simp: precedes_def sorted_wrt_iff_nth_less)
    then show ?thesis using assms c None that [of ?found] by (auto simp: select_rows_def Let_def split: if_splits)
  next
    case (Some fd)
    then obtain f desc k where o: "qs_order q = Some (f, desc)" "order_column tb f = Some k"
      "limited (qs_limit q) (order_rows k desc ?found) = Inr rows"
      using assms c by (cases fd) (auto simp: select_rows_def Let_def split: if_splits option.splits)
    then show ?thesis
      using that [of "order_rows k desc ?found"] order_rows_sorted [of desc k] by (simp add: precedes_column)
  qed
  then show ?thesis using limited_split [OF f(1)] f(2,3) that [OF c] by metis
qed

subsection \<open>The instances\<close>

text \<open>\<open>row_object\<close>: the instance that a row is read as.\<close>

definition row_object :: "orm_env \<Rightarrow> model \<Rightarrow> field list \<Rightarrow> int \<times> (ustr, cell) dict \<Rightarrow> pyval \<Rightarrow> bool" where
  "row_object E m fs r x = (rbind (decode_row E fs (snd r)) (call_model E (o_class m)) = Inr x)"

lemma load_rows_objects: "load_rows E m fs rs = Inr xs \<Longrightarrow> list_all2 (row_object E m fs) rs xs"
  by (induction rs arbitrary: xs) (auto simp: rbind_Inr_iff row_object_def)

text \<open>
  \<open>answers_query E m q db xs\<close>: the instances are those of rows of the table that meet every condition, in
  the order asked for; the rows left out meet the conditions too and come after all of them, and there
  are such rows only when the limit is reached.
\<close>

definition answers_query :: "orm_env \<Rightarrow> model \<Rightarrow> query_state \<Rightarrow> database \<Rightarrow> pyval list \<Rightarrow> bool" where
  "answers_query E m q db xs =
     (\<exists>i tb conds rows rest.
        d_get (dataclasses (py E)) (o_class m) = Some i \<and> d_get db (o_table m) = Some tb \<and>
        bind_all E (qs_where q) = Inr conds \<and> list_all2 (row_object E m (c_fields i)) rows xs \<and>
        mset (rows @ rest) = mset (filter (row_matches E tb conds) (tb_rows tb)) \<and>
        sorted_wrt (precedes tb (qs_order q)) (rows @ rest) \<and>
        (rest = [] \<or> (\<exists>k. qs_limit q = Some (int k) \<and> length xs = k)))"

lemma query_all_answers:
  assumes "query_all E m q db = Inr xs"
  shows "answers_query E m q db xs \<and> (\<forall>k. qs_limit q = Some k \<and> 0 \<le> k \<longrightarrow> int (length xs) \<le> k)"
proof -
  obtain i tb rows where q: "d_get (dataclasses (py E)) (o_class m) = Some i" "d_get db (o_table m) = Some tb"
    "select_rows E q tb = Inr rows" "load_rows E m (c_fields i) rows = Inr xs"
    using assms by (auto simp: query_all_def rbind_Inr_iff split: option.splits)
  obtain conds rest where s: "bind_all E (qs_where q) = Inr conds"
    "mset (rows @ rest) = mset (filter (row_matches E tb conds) (tb_rows tb))"
    "sorted_wrt (precedes tb (qs_order q)) (rows @ rest)"
    "rest = [] \<or> (\<exists>k. qs_limit q = Some (int k) \<and> length rows = k)"
    "\<forall>k. qs_limit q = Some k \<and> 0 \<le> k \<longrightarrow> int (length rows) \<le> k"
    by (rule select_rows_split [OF q(3)])
  have l: "list_all2 (row_object E m (c_fields i)) rows xs" by (rule load_rows_objects [OF q(4)])
  then have "length xs = length rows" by (simp add: list_all2_lengthD)
  with s(4,5) have "rest = [] \<or> (\<exists>k. qs_limit q = Some (int k) \<and> length xs = k)"
    "\<forall>k. qs_limit q = Some k \<and> 0 \<le> k \<longrightarrow> int (length xs) \<le> k" by simp_all
  then show ?thesis unfolding answers_query_def using q s l by blast
qed

text \<open>
  C28. A query keeps its promises: \<^verbatim>\<open>all\<close> returns the instances of matching rows in the order of the column
  that \<^verbatim>\<open>order_by\<close> accepted, at most \<^verbatim>\<open>limit\<close> of them and every row that is left out sorts after them;
  \<^verbatim>\<open>first\<close> is the instance of a row no other matching row comes before, and None only when no row matches.
\<close>

theorem query_sound:
  assumes "order_by E f desc (where_q kw Query) = Inr q" and "0 \<le> n"
    and "query_all E m (limit_q n q) db = Inr xs" and "query_first E m q db = Inr x"
  shows "answers_query E m \<lparr>qs_where = d_update [] kw, qs_limit = Some n, qs_order = Some (f, desc)\<rparr> db xs \<and>
    int (length xs) \<le> n \<and>
    (\<exists>i tb conds. d_get (dataclasses (py E)) (o_class m) = Some i \<and> d_get db (o_table m) = Some tb \<and>
       bind_all E (d_update [] kw) = Inr conds \<and>
       (let found = set (filter (row_matches E tb conds) (tb_rows tb)) in
        case x of
          None \<Rightarrow> found = {}
        | Some o1 \<Rightarrow> \<exists>r\<in>found. row_object E m (c_fields i) r o1 \<and> (\<forall>s\<in>found - {r}. precedes tb (Some (f, desc)) r s)))"
proof -
  have q: "q = \<lparr>qs_where = d_update [] kw, qs_limit = None, qs_order = Some (f, desc)\<rparr>"
    using assms(1) by (auto simp: order_by_def where_q_def Query_def Let_def split: if_splits)
  obtain ys where ys: "query_all E m (first_q q) db = Inr ys" "x = (case ys of [] \<Rightarrow> None | y # ys \<Rightarrow> Some y)"
    using assms(4) by (auto simp: query_first_def rbind_Inr_iff)
  from query_all_answers [OF ys(1)] obtain i tb conds rows rest where
    a: "d_get (dataclasses (py E)) (o_class m) = Some i" "d_get db (o_table m) = Some tb" "bind_all E (d_update [] kw) = Inr conds"
    and l: "list_all2 (row_object E m (c_fields i)) rows ys"
    and s: "mset (rows @ rest) = mset (filter (row_matches E tb conds) (tb_rows tb))"
    "sorted_wrt (precedes tb (Some (f, desc))) (rows @ rest)" "rest = [] \<or> length ys = 1" "length ys \<le> 1"
    unfolding answers_query_def q first_q_def by auto
  let ?found = "set (filter (row_matches E tb conds) (tb_rows tb))"
  have f: "?found = set (rows @ rest)" using s(1) by (metis set_mset_mset)
  have "case x of None \<Rightarrow> ?found = {}
      | Some o1 \<Rightarrow> \<exists>r\<in>?found. row_object E m (c_fields i) r o1 \<and> (\<forall>s\<in>?found - {r}. precedes tb (Some (f, desc)) r s)"
  proof (cases ys)
    case Nil
    then show ?thesis using l s(3) f ys(2) by simp
  next
    case (Cons y zs)
    then obtain r where "rows = [r]" "row_object E m (c_fields i) r y" "x = Some y"
      using l s(4) ys(2) by (auto simp: list_all2_Cons2)
    then show ?thesis using s(2) f by auto
  qed
  moreover have "answers_query E m (limit_q n q) db xs" "int (length xs) \<le> n"
    using query_all_answers [OF assms(3)] assms(2) by (simp_all add: limit_q_def)
  ultimately show ?thesis using a unfolding q Let_def by (auto simp: limit_q_def)
qed

definition roster :: table where
  "roster = user_table\<lparr>tb_rows := map (\<lambda>(i, n, a). (i, [(uni ''id'', Integer i), (uni ''name'', Text (uni n)), (uni ''active'', Integer a)]))
     [(1, ''Bob'', 1), (2, ''Dan'', 0), (3, ''Cy'', 1), (4, ''Ada'', 1)], tb_seq := 4\<rparr>"

definition person :: "int \<Rightarrow> str \<Rightarrow> pyval" where
  "person i n = VModel ''User'' [(uni ''id'', VInt i), (uni ''name'', VStr (uni n)), (uni ''active'', VBool True)]"

definition active_first :: query_state where
  "active_first = \<lparr>qs_where = [(uni ''active'', VBool True)], qs_limit = None, qs_order = Some (uni ''name'', True)\<rparr>"

theorem query_sound_witness:
  "order_by user_env (uni ''name'') True (where_q [(uni ''active'', VBool True)] Query) = Inr active_first \<and>
   query_all user_env user_model (limit_q 2 active_first) [(''user'', roster)] = Inr [person 3 ''Cy'', person 1 ''Bob''] \<and>
   query_first user_env user_model active_first [(''user'', roster)] = Inr (Some (person 3 ''Cy'')) \<and>
   answers_query user_env user_model \<lparr>qs_where = d_update [] [(uni ''active'', VBool True)], qs_limit = Some 2,
     qs_order = Some (uni ''name'', True)\<rparr> [(''user'', roster)] [person 3 ''Cy'', person 1 ''Bob'']"
proof -
  have o: "order_by user_env (uni ''name'') True (where_q [(uni ''active'', VBool True)] Query) = Inr active_first"
    by code_simp
  note e = query_all_def select_rows_def user_env_def user_model_def active_first_def limit_q_def roster_def user_table_def
    encode_def bind_def row_matches_def cell_eq_def cell_num_def stored_def column_of_def uni_def code_def order_column_def order_rows_def
    sort_rank_def limited_def decode_def unwrap_def some_arg_def cell_int_def call_model_def construct_def person_def
    Let_def less_eq_prod_def
  have a: "query_all user_env user_model (limit_q 2 active_first) [(''user'', roster)] = Inr [person 3 ''Cy'', person 1 ''Bob'']"
    by (simp add: e)
  have f: "query_first user_env user_model active_first [(''user'', roster)] = Inr (Some (person 3 ''Cy''))"
    by (simp add: query_first_def first_q_def e)
  show ?thesis using o a f query_sound [OF o _ a f] by simp
qed

end
