(* ===== verification/Cleanup.thy ===== *)
theory Cleanup
  imports Sessions Tasks Json_Props
begin

section \<open>Cleaning the blocklist from the task queue (\<^verbatim>\<open>sessions.py\<close>, \<^verbatim>\<open>tasks.py\<close>)\<close>

text \<open>
  \<^verbatim>\<open>enqueue_cleanup\<close> puts a task into the persistent queue whose worker, perhaps in another process,
  finds \<^verbatim>\<open>cleanup_jwt_blocklist\<close> again by its name and calls it with the decoded arguments. The worker's
  world is its clock and the database files, each with the rows of its blocklist.
\<close>

type_synonym bl_rows = "(ustr, int \<times> int \<times> str) dict"

type_synonym bl_world = "rat \<times> (ustr, bl_rows) dict"

text \<open>\<^verbatim>\<open>CREATE TABLE IF NOT EXISTS\<close>: a file without the table gets an empty one.\<close>

definition rows_of :: "ustr \<Rightarrow> bl_world \<Rightarrow> bl_rows" where
  "rows_of p w = (case d_get (snd w) p of None \<Rightarrow> [] | Some tbl \<Rightarrow> tbl)"

definition cleanup_jwt_blocklist :: "ustr \<Rightarrow> bl_world \<Rightarrow> int \<times> bl_world" where
  "cleanup_jwt_blocklist p w =
     (let (n, b) = cleanup_expired (fst w) (Blocklist 5 (rows_of p w)) in (n, fst w, d_set p (bl_table b) (snd w)))"

definition json_args :: "json \<Rightarrow> str" where
  "json_args j = map char_of (dumps True (uni '', '') (uni '': '') j)"

definition enqueue_cleanup :: "ustr \<Rightarrow> rat \<Rightarrow> queue \<Rightarrow> nat result \<times> queue" where
  "enqueue_cleanup p t q =
     enqueue ''sovereign.sessions'' ''cleanup_jwt_blocklist'' (Inr (json_args (JArr [JStr p]))) (Inr (json_args (JObj []))) t q"

subsection \<open>Calling a task\<close>

text \<open>
  The call of \<^verbatim>\<open>run_once\<close> over the functions that can be imported, each taking its decoded positional and
  keyword arguments; \<open>why\<close> is the text of the exception when the import or the decoding fails.
\<close>

type_synonym 'w callable = "json list \<Rightarrow> (ustr \<times> json) list \<Rightarrow> 'w \<Rightarrow> outcome \<times> 'w"

definition importing :: "(str \<Rightarrow> str list \<Rightarrow> 'w callable option) \<Rightarrow> (str \<Rightarrow> str list \<Rightarrow> str \<Rightarrow> str \<Rightarrow> str) \<Rightarrow> 'w runner" where
  "importing loaded why =
     \<lparr>call_task = (\<lambda>m attrs a k w.
        case loaded m attrs of
          None \<Rightarrow> (Tasks.Raised (why m attrs a k), w)
        | Some f \<Rightarrow>
            (case (loads (uni a), loads (uni k)) of
               (Some (JArr js), Some (JObj kw)) \<Rightarrow> f js kw w
             | _ \<Rightarrow> (Tasks.Raised (why m attrs a k), w)))\<rparr>"

definition cleanup_callable :: "str \<Rightarrow> bl_world callable" where
  "cleanup_callable why js kw w =
     (case (js, kw) of
        ([JStr p], []) \<Rightarrow> (Returned, snd (cleanup_jwt_blocklist p w))
      | _ \<Rightarrow> (Tasks.Raised why, w))"

subsection \<open>What is enqueued is what is called\<close>

lemma u_escape_ascii: "list_all (\<lambda>x. x < 128) (u_escape n)"
proof -
  have "hex_low (d mod 16) < 128" for d
    using mod_less_divisor [of 16 d] unfolding hex_low_def by (simp, linarith?)
  then show ?thesis by (simp add: u_escape_def)
qed

lemma escape_code_ascii: "list_all (\<lambda>x. x < 128) (escape_code True c)"
  unfolding escape_code_def by (simp add: u_escape_ascii)

lemma json_args_uni: "list_all (\<lambda>c. c < 128) (dumps True (uni '', '') (uni '': '') j) \<Longrightarrow> uni (json_args j) = dumps True (uni '', '') (uni '': '') j"
  unfolding json_args_def uni_def map_map by (rule map_idI) (auto simp: list_all_iff)

lemma json_args_loads:
  assumes "list_all is_scalar p"
  shows "loads (uni (json_args (JArr [JStr p]))) = Some (JArr [JStr p])" "loads (uni (json_args (JObj []))) = Some (JObj [])"
proof -
  have sep: "uni '', '' = 44 # [32]" "uni '': '' = 58 # [32]" by (simp_all add: uni_def code_def)
  have "list_all (\<lambda>c. c < 128) (concat (map (escape_code True) p))"
    using escape_code_ascii by (auto simp: list_all_iff)
  then have a: "list_all (\<lambda>c. c < 128) (dumps True (uni '', '') (uni '': '') (JArr [JStr p]))"
    "list_all (\<lambda>c. c < 128) (dumps True (uni '', '') (uni '': '') (JObj []))"
    by (simp_all add: json_string_def)
  show "loads (uni (json_args (JArr [JStr p]))) = Some (JArr [JStr p])"
    unfolding json_args_uni [OF a(1)] sep by (rule loads_dumps) (use assms in \<open>simp_all add: spaces_def jspace_def\<close>)
  show "loads (uni (json_args (JObj []))) = Some (JObj [])"
    unfolding json_args_uni [OF a(2)] sep by (rule loads_dumps) (simp_all add: spaces_def jspace_def d_ok_def)
qed

lemma cleanup_rows:
  assumes "d_ok tbl"
  shows "row_active j n (snd (cleanup_expired w (Blocklist ttl tbl))) \<longleftrightarrow> row_active j n (Blocklist ttl tbl) \<and>
      \<not> (\<exists>e r why. d_get tbl j = Some (e, r, why) \<and> e < trunc w)"
    "d_get (bl_table (snd (cleanup_expired w (Blocklist ttl tbl)))) j =
      (case d_get tbl j of Some (e, r, why) \<Rightarrow> if e < trunc w then None else Some (e, r, why) | None \<Rightarrow> None)"
  using d_get_filter [OF assms, of "\<lambda>(e, r, why). \<not> e < trunc w" j]
  by (auto simp: row_active_def cleanup_expired_def Blocklist_def Let_def split: option.splits)

text \<open>What the worker's call of the enqueued task does.\<close>

lemma perform_cleanup:
  assumes "list_all is_scalar p" and "loaded ''sovereign.sessions'' [''cleanup_jwt_blocklist''] = Some (cleanup_callable msg)"
    and "t_func x = ''sovereign.sessions:cleanup_jwt_blocklist''"
    and "t_args x = json_args (JArr [JStr p])" and "t_kwargs x = json_args (JObj [])"
  shows "perform (importing loaded why) x w = (Returned, snd (cleanup_jwt_blocklist p w))"
proof -
  have "split1 '':'' (t_func x) = Some (''sovereign.sessions'', ''cleanup_jwt_blocklist'')"
    "split_on ''.'' ''cleanup_jwt_blocklist'' = [''cleanup_jwt_blocklist'']"
    unfolding assms(3) by code_simp+
  then show ?thesis
    using assms(1,2,4,5) by (simp add: perform_def importing_def json_args_loads cleanup_callable_def)
qed

text \<open>
  C30. A queued cleanup is carried out and nobody can tell: when the worker reaches the task, however often the
  queue changed since, the call finds the function and the file again, succeeds and is done after one
  attempt; the file keeps exactly the rows of tokens that have not expired, so every later check of a
  fresh process answers as it would have without the cleanup, and the other files stay as they are.
\<close>

theorem cleanup_task_cleans:
  assumes "enqueue_cleanup p t0 q0 = (Inr i, q1)" and "d_ok (rows q0)" and "i \<notin> fst ` set (rows q0)"
    and "d_ok (rows q)" and "d_get (rows q) i = d_get (rows q1) i" and "t0 \<le> t1"
    and "\<forall>(j, x)\<in>set (rows q). due t1 (j, x) \<longrightarrow> i \<le> j"
    and "list_all is_scalar p" and "loaded ''sovereign.sessions'' [''cleanup_jwt_blocklist''] = Some (cleanup_callable msg)"
    and "d_ok (rows_of p w)" and "trunc (fst w) \<le> trunc t"
  shows "\<exists>q' w'. run_once (importing loaded why) t1 t2 (q, w) = (Some (i, Returned), q', w') \<and>
    map_option t_status (d_get (rows q') i) = Some Done \<and>
    (\<forall>j. d_get (rows_of p w') j = (case d_get (rows_of p w) j of
        Some (e, r, m) \<Rightarrow> if e < trunc (fst w) then None else Some (e, r, m) | None \<Rightarrow> None)) \<and>
    (\<forall>jti mono. fst (is_revoked jti mono t (Blocklist 5 (rows_of p w'))) = fst (is_revoked jti mono t (Blocklist 5 (rows_of p w)))) \<and>
    (\<forall>f. f \<noteq> p \<longrightarrow> rows_of f w' = rows_of f w)"
proof -
  let ?E = "importing loaded why"
  obtain x where x: "d_get (rows q1) i = Some x" "t_func x = ''sovereign.sessions:cleanup_jwt_blocklist''"
    "t_args x = json_args (JArr [JStr p])" "t_kwargs x = json_args (JObj [])" "t_status x = Pending" "next_run x = t0"
  proof -
    have q1: "rows q1 = rows q0 @ [(i, \<lparr>t_func = ''sovereign.sessions'' @ '':'' @ ''cleanup_jwt_blocklist'',
        t_args = json_args (JArr [JStr p]), t_kwargs = json_args (JObj []), t_status = Pending, t_attempts = 0, next_run = t0, last_error = None\<rparr>)]"
      using assms(1) by (auto simp: enqueue_cleanup_def enqueue_def)
    moreover have "d_get (rows q0) i = None" using assms(3) by (force simp: d_get_def map_of_eq_None_iff)
    ultimately show thesis by (intro that) (auto simp: d_get_def map_add_Some_iff)
  qed
  have gx: "d_get (rows q) i = Some x" using assms(5) x(1) by simp
  then have due: "due t1 (i, x)" using x(5,6) assms(6) by (simp add: due_def)
  obtain r q' w' where r: "run_once ?E t1 t2 (q, w) = (r, q', w')" by (metis surj_pair)
  note spec = run_once_spec [OF assms(4) r]
  obtain k out where k: "r = Some (k, out)"
    using spec gx due by (cases r) auto
  from spec [unfolded k option.case prod.case] obtain y where y: "d_get (rows q) k = Some y" "due t1 (k, y)"
    "perform ?E y w = (out, w')" "\<forall>j y. d_get (rows q) j = Some y \<longrightarrow> due t1 (j, y) \<longrightarrow> k \<le> j"
    and st: "out = Returned \<Longrightarrow> map_option t_status (d_get (rows q') k) = Some Done"
    by fastforce
  have "k = i" using assms(7) d_get_SomeD [OF y(1)] y(2,4) gx due by (auto intro: le_antisym)
  with y(1) gx have "y = x" by simp
  with y(3) perform_cleanup [where loaded = loaded and x = x, OF assms(8,9) x(2-4)] have w': "out = Returned" "w' = snd (cleanup_jwt_blocklist p w)" by auto
  let ?new = "bl_table (snd (cleanup_expired (fst w) (Blocklist 5 (rows_of p w))))"
  have rows: "rows_of p w' = ?new" "f \<noteq> p \<Longrightarrow> rows_of f w' = rows_of f w" for f
    by (simp_all add: w' cleanup_jwt_blocklist_def rows_of_def case_prod_unfold Let_def)
  note new = cleanup_rows [OF assms(10), where w = "fst w" and ttl = 5]
  have get: "d_get (rows_of p w') j = (case d_get (rows_of p w) j of
      Some (e, r, m) \<Rightarrow> if e < trunc (fst w) then None else Some (e, r, m) | None \<Rightarrow> None)" for j
    unfolding rows(1) by (rule new(2))
  have "row_active jti (trunc t) (Blocklist 5 (rows_of p w')) = row_active jti (trunc t) (Blocklist 5 (rows_of p w))" for jti
    using assms(11) by (auto simp: row_active_def Blocklist_def get split: option.splits)
  then have "fst (is_revoked jti mono t (Blocklist 5 (rows_of p w'))) = fst (is_revoked jti mono t (Blocklist 5 (rows_of p w)))" for jti mono
    by (simp add: is_revoked_def Blocklist_def row_active_def Let_def)
  with r k \<open>k = i\<close> w'(1) st get rows(2) show ?thesis by auto
qed

definition cleanup_loaded :: "str \<Rightarrow> str list \<Rightarrow> bl_world callable option" where
  "cleanup_loaded m attrs =
     (if m = ''sovereign.sessions'' \<and> attrs = [''cleanup_jwt_blocklist''] then Some (cleanup_callable ''TypeError'') else None)"

definition nightly :: queue where
  "nightly = snd (enqueue_cleanup (uni ''jwt.db'') 10 (SQLiteTaskQueue 1 3))"

definition bl_files :: bl_world where
  "bl_files = (100, [(uni ''jwt.db'', [(uni ''old'', 50, 1, []), (uni ''new'', 500, 1, [])]), (uni ''x'', [(uni ''old'', 50, 1, [])])])"

theorem cleanup_task_cleans_witness:
  "\<exists>q' w'. run_once (importing cleanup_loaded (\<lambda>m a k w. [])) 11 12 (nightly, bl_files) = (Some (1, Returned), q', w') \<and>
     d_get (rows_of (uni ''jwt.db'') w') (uni ''old'') = None \<and> d_get (rows_of (uni ''jwt.db'') w') (uni ''new'') = Some (500, 1, []) \<and>
     rows_of (uni ''x'') w' = [(uni ''old'', 50, 1, [])]"
proof -
  let ?q0 = "SQLiteTaskQueue 1 3" and ?p = "uni ''jwt.db''"
  have e: "enqueue_cleanup ?p 10 ?q0 = (Inr 1, nightly)" "d_ok (rows nightly)" "map fst (rows nightly) = [1]"
    by (simp_all add: nightly_def enqueue_cleanup_def enqueue_def SQLiteTaskQueue_def d_ok_def)
  have least: "\<forall>(j, x)\<in>set (rows nightly). due 11 (j, x) \<longrightarrow> 1 \<le> j"
    using e(3) by (cases "rows nightly") auto
  have sc: "list_all is_scalar ?p" by (simp add: uni_def code_def is_scalar_def)
  have r: "rows_of ?p bl_files = [(uni ''old'', 50, 1, []), (uni ''new'', 500, 1, [])]" "rows_of (uni ''x'') bl_files = [(uni ''old'', 50, 1, [])]"
    "fst bl_files = 100" "trunc 100 = 100" "uni ''x'' \<noteq> ?p"
    by (simp_all add: rows_of_def bl_files_def uni_def code_def trunc_def)
  have ok: "d_ok (rows_of ?p bl_files)" unfolding r by (simp add: d_ok_def uni_def code_def)
  have f: "cleanup_loaded ''sovereign.sessions'' [''cleanup_jwt_blocklist''] = Some (cleanup_callable ''TypeError'')"
    by (simp add: cleanup_loaded_def)
  have o: "(1 :: nat) \<notin> fst ` set (rows ?q0)" "d_ok (rows ?q0)" "(10 :: rat) \<le> 11" "trunc (fst bl_files) \<le> trunc 100"
    by (simp_all add: SQLiteTaskQueue_def d_ok_def r)
  from cleanup_task_cleans [where loaded = cleanup_loaded and q = nightly and ?t1.0 = 11, OF e(1) o(2,1) e(2) refl o(3) least sc f ok o(4)] obtain q' w' where
    w: "run_once (importing cleanup_loaded (\<lambda>m a k w. [])) 11 12 (nightly, bl_files) = (Some (1, Returned), q', w')"
    "\<And>j. d_get (rows_of ?p w') j = (case d_get (rows_of ?p bl_files) j of
        Some (e, r, m) \<Rightarrow> if e < trunc (fst bl_files) then None else Some (e, r, m) | None \<Rightarrow> None)"
    "\<And>f. f \<noteq> ?p \<Longrightarrow> rows_of f w' = rows_of f bl_files" by blast
  have "d_get (rows_of ?p w') (uni ''old'') = None" "d_get (rows_of ?p w') (uni ''new'') = Some (500, 1, [])"
    unfolding w(2) r by (simp_all add: uni_def code_def)
  then show ?thesis by (intro exI [of _ q'] exI [of _ w']) (simp only: w(1) w(3) [OF r(5)] r(2) simp_thms)
qed

end
