(* ===== verification/App.thy ===== *)
theory App
  imports Guarded Assets Validation Lifecycle
begin

section \<open>The demo application (\<^verbatim>\<open>examples/app.py\<close>)\<close>

text \<open>
  The routes, handlers, hooks and middlewares the example registers, over the models of the library:
  the router, \<^verbatim>\<open>require_auth\<close>, \<^verbatim>\<open>validate_body\<close>, CORS and the HTML5 mount. The environment gives the
  process's facts (environment variables, interpreter, platform) and the random identifiers; the claims
  of a request are the dictionary of scalars of theory Http, and a 400 whose text holds code points
  beyond Latin-1 keeps what \<open>narrow\<close> makes of it.
\<close>

record demo_env =
  files :: env
  types :: py_env
  tokens :: auth_env
  claims_of :: "claims \<Rightarrow> (str, scalar) dict"
  packers :: compressors
  entries :: "fpath \<Rightarrow> fpath list"
  web_dir :: fpath
  sandbox_mode :: ustr
  python_version :: ustr
  platform_name :: ustr
  random_id :: "nat \<Rightarrow> ustr"
  narrow :: "ustr \<Rightarrow> str"

record demo_state =
  started :: bool
  started_at :: "rat option"
  stopped :: bool
  ids_used :: nat

type_synonym demo_world = "demo_state auth_world"

subsection \<open>Data\<close>

definition demo_jwt :: "jwt result" where
  "demo_jwt = JWTAuth (SecretMap [(uni ''v1'', uni ''dev-secret-old''), (uni ''v2'', uni ''dev-secret-current'')])
     (Some (uni ''v2'')) (Some (uni ''sovereign-demo'')) None (uni ''HS256'') 8192"

definition ContactMessage :: class_info where
  "ContactMessage = \<lparr>
     c_fields = [\<lparr>f_name = uni ''name'', f_type = TStr, f_default = None\<rparr>, \<lparr>f_name = uni ''message'', f_type = TStr, f_default = None\<rparr>],
     c_hashable = False, c_bases = []\<rparr>"

definition demo_types :: "demo_env \<Rightarrow> py_env" where
  "demo_types D = (types D)\<lparr>dataclasses := d_set ''ContactMessage'' ContactMessage (dataclasses (types D))\<rparr>"

definition get_db :: "(str, ustr list) dict" where
  "get_db = [(''users'', [uni ''Ada'', uni ''Grace''])]"

subsection \<open>Hooks\<close>

definition startup :: "demo_world hook" where
  "startup w = (Inr (), w\<lparr>auth_list := (auth_list w)\<lparr>started := True, started_at := Some (auth_clock w)\<rparr>\<rparr>)"

definition shutdown_hook :: "demo_world hook" where
  "shutdown_hook w = (Inr (), w\<lparr>auth_list := (auth_list w)\<lparr>stopped := True\<rparr>\<rparr>)"

definition uptime_seconds :: "demo_world \<Rightarrow> int" where
  "uptime_seconds w =
     (let since = (case started_at (auth_list w) of Some t \<Rightarrow> t | None \<Rightarrow> auth_clock w)
      in max 0 (trunc (auth_clock w - since)))"

subsection \<open>Handlers\<close>

definition api_status :: "demo_env \<Rightarrow> demo_world handler" where
  "api_status D r =
     (JSONResponse (JObj
        [(uni ''ok'', JBool True), (uni ''service'', JStr (uni ''sovereign-server'')), (uni ''version'', JStr (uni ''10.5-html5'')),
         (uni ''html5'', JObj
           [(uni ''enabled'', JBool True), (uni ''spa_fallback'', JBool True),
            (uni ''asset_manifest'', JStr (uni ''/__assets.json'')), (uni ''assets'', JStr (uni ''/assets/''))]),
         (uni ''sandbox'', JStr (sandbox_mode D)), (uni ''python'', JStr (python_version D)),
         (uni ''platform'', JStr (platform_name D)), (uni ''uptime_seconds'', JInt (uptime_seconds (snd r))),
         (uni ''request_id'', JStr (uni (request_id (fst r)))), (uni ''remote_addr'', JStr (uni (remote_addr (fst r))))])
        200 [], r)"

text \<open>\<^verbatim>\<open>data.name\<close>, \<^verbatim>\<open>data.message\<close> and \<^verbatim>\<open>len(data.message)\<close>; validation lets only texts through.\<close>

definition contact_answer :: "request \<Rightarrow> pyval \<Rightarrow> response result" where
  "contact_answer req data =
     (case data of
        VModel c [(_, VStr name), (_, VStr message)] \<Rightarrow>
          JSONResponse (JObj
            [(uni ''ok'', JBool True),
             (uni ''received'', JObj
               [(uni ''name'', JStr name), (uni ''message'', JStr message), (uni ''length'', JInt (int (length message)))]),
             (uni ''request_id'', JStr (uni (request_id req)))]) 201 []
      | _ \<Rightarrow> Inl (PyError ''TypeError''))"

definition refusal_exn :: "(ustr \<Rightarrow> str) \<Rightarrow> refusal \<Rightarrow> exn" where
  "refusal_exn short e =
     (case e of
        BadRequest t \<Rightarrow> err 400 (if list_all (\<lambda>c. c < 256) t then map char_of t else short t)
      | Through x \<Rightarrow> x)"

definition contact :: "demo_env \<Rightarrow> demo_world handler" where
  "contact D r =
     (map_sum (refusal_exn (narrow D)) id (validate_body (demo_types D) ''ContactMessage'' contact_answer (fst r)), r)"

definition healthz :: "demo_world handler" where
  "healthz r = (JSONResponse (JObj [(uni ''ok'', JBool True)]) 200 [], r)"

definition token_handler :: "demo_env \<Rightarrow> jwt \<Rightarrow> demo_world handler" where
  "token_handler D a r =
     (let w = snd r; st = auth_list w in
      (rbind (create_token (tokens D) a [(uni ''sub'', JStr (uni ''demo''))] 3600 None (auth_clock w) (random_id D (ids_used st)))
         (\<lambda>tok. JSONResponse (JObj [(uni ''token'', JStr (uni tok))]) 200 []),
       (fst r, w\<lparr>auth_list := st\<lparr>ids_used := Suc (ids_used st)\<rparr>\<rparr>)))"

definition scalar_json :: "scalar \<Rightarrow> json" where
  "scalar_json v = (case v of SNone \<Rightarrow> JNull | SBool b \<Rightarrow> JBool b | SInt i \<Rightarrow> JInt i | SStr s \<Rightarrow> JStr (uni s))"

definition user_json :: "(str, scalar) dict option \<Rightarrow> json" where
  "user_json u = (case u of None \<Rightarrow> JNull | Some d \<Rightarrow> JObj (map (\<lambda>(k, v). (uni k, scalar_json v)) d))"

definition users_handler :: "demo_world handler" where
  "users_handler r =
     (case d_get get_db ''users'' of
        None \<Rightarrow> Inl (PyError ''KeyError'')
      | Some us \<Rightarrow> JSONResponse (JObj [(uni ''user'', user_json (user (fst r))), (uni ''users'', JArr (map JStr us))]) 200 [], r)"

definition async_route :: "demo_world handler" where
  "async_route r = (JSONResponse (JObj [(uni ''async'', JBool True)]) 200 [], r)"

definition audit_task :: "str \<Rightarrow> bool \<Rightarrow> bg_task" where
  "audit_task message persistent =
     \<lparr>bg_func = ''examples.app:audit_log'', bg_args = [CHR ''['', CHR 0x22] @ message @ [CHR 0x22, CHR '']''], bg_kwargs = ''{}'', bg_persistent = persistent\<rparr>"

definition task_handler :: "demo_world handler" where
  "task_handler r =
     (JSONResponse (JObj [(uni ''queued'', JBool True)]) 200 [],
      (add_background_task (audit_task ''persistent task'' True)
         (add_background_task (audit_task ''non-persistent task'' False) (fst r)), snd r))"

subsection \<open>The route table\<close>

type_synonym entry = "str list \<times> str \<times> demo_world handler \<times> demo_world middleware list"

definition api_routes :: "demo_env \<Rightarrow> jwt \<Rightarrow> entry list" where
  "api_routes D a =
     [([''GET''], ''/api/status'', api_status D, []),
      ([''POST''], ''/api/contact'', contact D, []),
      ([''GET''], ''/healthz'', healthz, []),
      ([''GET''], ''/token'', token_handler D a, []),
      ([''GET''], ''/users'', users_handler, [require_auth (tokens D) (claims_of D) a None]),
      ([''GET''], ''/async'', async_route, []),
      ([''GET''], ''/task'', task_handler, [])]"

fun register_all :: "entry list \<Rightarrow> (demo_world handler, demo_world middleware) router \<Rightarrow>
    (demo_world handler, demo_world middleware) router option" where
  "register_all [] r = Some r"
| "register_all ((ms, pattern, h, mws) # es) r =
     (case add_methods ms pattern h mws r of None \<Rightarrow> None | Some r' \<Rightarrow> register_all es r')"

definition demo_cors :: cors where
  "demo_cors = CORSMiddleware [''*''] [''GET'', ''POST'', ''PUT'', ''PATCH'', ''DELETE'', ''OPTIONS'']
     [''Content-Type'', ''Authorization'', ''X-Request-Id'', ''X-CSRF-Token''] False 86400"

definition demo_html5 :: "demo_env \<Rightarrow> html5_app" where
  "demo_html5 D = \<lparr>app_root = web_dir D, app_prefix = ''/'', app_index = uni ''index.html'', app_assets = ''/assets'',
     app_fallback = True, app_hardened = True, app_manifest = True\<rparr>"

text \<open>The module's \<^verbatim>\<open>router\<close> once it is imported; no pattern fails to compile.\<close>

definition demo_router :: "demo_env \<Rightarrow> jwt \<Rightarrow> (demo_world handler, demo_world middleware) router option" where
  "demo_router D a =
     (case register_all (api_routes D a) (add_middleware (cors_middleware demo_cors) Router) of
        None \<Rightarrow> None
      | Some r \<Rightarrow> mount (files D) (packers D) (assets_manifest (files D) (entries D) (web_dir D)) (demo_html5 D) r)"

subsection \<open>The command line (\<^verbatim>\<open>cli.py\<close>)\<close>

text \<open>
  \<open>cli_args\<close> is the namespace that \<^verbatim>\<open>argparse\<close> makes of the arguments, \<open>cli_defaults\<close> the one it makes of
  none; a path is kept as its text. \<^verbatim>\<open>main\<close> serves the router it is given, else that of the example.
\<close>

record cli_args =
  arg_host :: str
  arg_port :: int
  arg_workers :: int
  arg_static_dir :: str
  arg_upload_dir :: str
  arg_task_db :: str
  arg_json_logs :: bool

definition cli_defaults :: cli_args where
  "cli_defaults = \<lparr>arg_host = host DEFAULT_CONFIG, arg_port = port DEFAULT_CONFIG, arg_workers = workers DEFAULT_CONFIG,
     arg_static_dir = static_dir DEFAULT_CONFIG, arg_upload_dir = upload_dir DEFAULT_CONFIG, arg_task_db = task_db DEFAULT_CONFIG,
     arg_json_logs = False\<rparr>"

definition cli_config :: "cli_args \<Rightarrow> server_config" where
  "cli_config a = DEFAULT_CONFIG\<lparr>host := arg_host a, port := arg_port a, workers := arg_workers a, static_dir := arg_static_dir a,
     upload_dir := arg_upload_dir a, task_db := arg_task_db a, json_logs := arg_json_logs a\<rparr>"

definition cli_main :: "demo_env \<Rightarrow> jwt \<Rightarrow> (demo_world handler, demo_world middleware) router option \<Rightarrow> cli_args \<Rightarrow>
    ((demo_world handler, demo_world middleware) router \<times> server_config) option" where
  "cli_main D a router args =
     (case (case router of None \<Rightarrow> demo_router D a | Some r \<Rightarrow> Some r) of
        None \<Rightarrow> None
      | Some r \<Rightarrow> Some (r, cli_config args))"

end
