(* ===== verification/App_Props.thy ===== *)
theory App_Props
  imports App Json_Props
begin

section \<open>What the demo application answers\<close>

text \<open>
  The route table of the example read off as a function of method and path, and what its middlewares do
  around a handler: the login of the demo user and the guard of \<^verbatim>\<open>/users\<close>.
\<close>

subsection \<open>The routes that are registered\<close>

definition literal_route :: "str \<Rightarrow> 'h \<Rightarrow> 'm list \<Rightarrow> str \<Rightarrow> ('h, 'm) route" where
  "literal_route w h mws meth = \<lparr>rt_method = upper meth, rt_pattern = w, rt_regex = map Lit w, rt_handler = h, rt_mws = mws\<rparr>"

definition literal :: "str \<Rightarrow> bool" where
  "literal w = (norm_pattern w = w \<and> compile_pattern w = Some (map Lit w))"

lemma add_methods_literal:
  "literal w \<Longrightarrow> add_methods ms w h mws r = Some (r\<lparr>routes := routes r @ map (literal_route w h mws) ms\<rparr>)"
  by (induction ms arbitrary: r) (simp_all add: literal_def add_def literal_route_def Let_def)

definition table_routes :: "entry list \<Rightarrow> (demo_world handler, demo_world middleware) route list" where
  "table_routes es = concat (map (\<lambda>(ms, w, h, mws). map (literal_route w h mws) ms) es)"

lemma register_literal:
  "list_all (\<lambda>(ms, w, h, mws). literal w) es \<Longrightarrow> register_all es r = Some (r\<lparr>routes := routes r @ table_routes es\<rparr>)"
  by (induction es r rule: register_all.induct) (simp_all add: add_methods_literal table_routes_def)

lemma api_literal: "list_all (\<lambda>(ms, w, h, mws). literal w) (api_routes D a)"
proof -
  have "list_all literal [''/api/status'', ''/api/contact'', ''/healthz'', ''/token'', ''/users'', ''/async'', ''/task'']"
    by code_simp
  then show ?thesis by (simp add: api_routes_def)
qed

definition manifest_regex :: "ritem list" where
  "manifest_regex = map Lit ''/__assets'' @ [AnyChar] @ map Lit ''json''"

definition asset_regex :: "ritem list" where
  "asset_regex = map Lit ''/assets/'' @ [Rest ''asset_path'']"

definition page_regex :: "ritem list" where
  "page_regex = map Lit ''/'' @ [Rest ''page_path'']"

definition web_routes :: "demo_env \<Rightarrow> (demo_world handler, demo_world middleware) route list" where
  "web_routes D =
     [\<lparr>rt_method = ''GET'', rt_pattern = ''/__assets.json'', rt_regex = manifest_regex,
        rt_handler = assets_manifest (files D) (entries D) (web_dir D), rt_mws = []\<rparr>] @
     map (\<lambda>m. \<lparr>rt_method = m, rt_pattern = ''/assets/{asset_path:path}'', rt_regex = asset_regex,
        rt_handler = asset_handler (files D) (packers D) (demo_html5 D), rt_mws = []\<rparr>) [''GET'', ''HEAD''] @
     map (\<lambda>m. \<lparr>rt_method = m, rt_pattern = ''/{page_path:path}'', rt_regex = page_regex,
        rt_handler = page_handler (files D) (packers D) (demo_html5 D), rt_mws = []\<rparr>) [''GET'', ''HEAD'']"

definition the_router :: "demo_env \<Rightarrow> jwt \<Rightarrow> (demo_world handler, demo_world middleware) router" where
  "the_router D a = \<lparr>routes = table_routes (api_routes D a) @ web_routes D,
     middlewares = [cors_middleware demo_cors, hardening_middleware HTML5SecurityHeaders], startup_handlers = [], shutdown_handlers = []\<rparr>"

lemma demo_router_eq: "demo_router D a = Some (the_router D a)"
proof -
  have n: "norm_pattern ''/__assets.json'' = ''/__assets.json''" "compile_pattern ''/__assets.json'' = Some manifest_regex"
    "norm_pattern ''/assets/{asset_path:path}'' = ''/assets/{asset_path:path}''"
    "compile_pattern ''/assets/{asset_path:path}'' = Some asset_regex"
    "norm_pattern ''/{page_path:path}'' = ''/{page_path:path}''"
    "compile_pattern ''/{page_path:path}'' = Some page_regex"
    "upper ''GET'' = ''GET''" "upper ''HEAD'' = ''HEAD''" "strip_slash ''/'' = []" "strip_slash ''/assets'' = ''assets''"
    by code_simp+
  show ?thesis
    unfolding demo_router_def register_literal [OF api_literal] option.case mount_def
    by (simp add: demo_html5_def mount_prefix_def n add_def Let_def the_router_def web_routes_def add_middleware_def Router_def
        del: upper_def)
qed

subsection \<open>Where a request goes\<close>

lemma rmatch_literal: "rmatch (map Lit w @ is) s = (if prefix w s then rmatch is (drop (length w) s) else None)"
proof (induction w arbitrary: s)
  case (Cons c w)
  then show ?case by (cases s) auto
qed simp

definition hits :: "str \<Rightarrow> str \<Rightarrow> bool" where
  "hits w p = (p = w \<or> p = w @ ''/'')"

lemma tail_ok_iff: "LF \<notin> set s \<Longrightarrow> tail_ok s \<longleftrightarrow> s = [] \<or> s = ''/''"
  by (cases s) (auto simp: tail_ok_def at_end_def)

lemma rmatch_hits: "LF \<notin> set p \<Longrightarrow> rmatch (map Lit w) p = (if hits w p then Some [] else None)"
proof (cases "prefix w p")
  case True
  assume n: "LF \<notin> set p"
  from True obtain t where t: "p = w @ t" by (auto simp: prefix_def)
  then show ?thesis using n rmatch_literal [of w "[]" p] tail_ok_iff [of t] by (simp add: hits_def)
next
  case False
  then show ?thesis using rmatch_literal [of w "[]" p] by (auto simp: hits_def)
qed

lemma rmatch_rest: "LF \<notin> set p \<Longrightarrow> rmatch (map Lit w @ [Rest n]) p = (if prefix w p then Some [(n, drop (length w) p)] else None)"
proof -
  assume "LF \<notin> set p"
  then have "LF \<notin> set (drop (length w) p)" using in_set_dropD by metis
  then have t: "takeWhile (\<lambda>c. c \<noteq> LF) (drop (length w) p) = drop (length w) p"
    unfolding takeWhile_eq_all_conv by metis
  show ?thesis
    unfolding rmatch_literal rmatch.simps ritem.case t upt_Suc_append [OF le0] rev_append
    by (auto simp: tail_ok_def at_end_def dest: prefix_length_le)
qed

definition manifest_path :: "str \<Rightarrow> bool" where
  "manifest_path p = (prefix ''/__assets'' p \<and> drop 10 p \<in> {''json'', ''json/''})"

lemma rmatch_manifest: "LF \<notin> set p \<Longrightarrow> rmatch manifest_regex p = (if manifest_path p then Some [] else None)"
proof -
  assume n: "LF \<notin> set p"
  let ?q = "drop 9 p"
  have q0: "LF \<notin> set ?q" using n in_set_dropD [of LF 9 p] by blast
  then have q: "LF \<notin> set ?q" "LF \<notin> set (tl ?q)" by (cases ?q; simp)+
  have "rmatch manifest_regex p = (if prefix ''/__assets'' p then rmatch (AnyChar # map Lit ''json'') (drop (length ''/__assets'') p) else None)"
    unfolding manifest_regex_def append_Cons append_Nil by (rule rmatch_literal)
  also have "drop (length ''/__assets'') p = ?q" by (simp add: eval_nat_numeral)
  also have "rmatch (AnyChar # map Lit ''json'') ?q = (if ?q \<noteq> [] \<and> hits ''json'' (tl ?q) then Some [] else None)"
    using q rmatch_hits [OF q(2), of "''json''"] by (cases ?q) (auto simp del: list.map)
  moreover have "tl ?q = drop 10 p" by (simp add: tl_drop flip: drop_Suc)
  ultimately show ?thesis by (auto simp: manifest_path_def hits_def simp del: prefix_Cons)
qed

text \<open>The route table as a function; \<open>Docs\<close> is what the router answers itself.\<close>

definition demo_target :: "demo_env \<Rightarrow> jwt \<Rightarrow> str \<Rightarrow> str \<Rightarrow> (demo_world handler target \<times> demo_world middleware list) result" where
  "demo_target D a meth p =
     (case List.find (\<lambda>(ms, w, h, mws). meth \<in> set ms \<and> hits w p) (api_routes D a) of
        Some (ms, w, h, mws) \<Rightarrow> Inr (Bound h [], mws)
      | None \<Rightarrow>
          if meth = ''GET'' \<and> manifest_path p then Inr (Bound (assets_manifest (files D) (entries D) (web_dir D)) [], [])
          else if meth \<in> {''GET'', ''HEAD''} then
            Inr (if prefix ''/assets/'' p
                 then Bound (asset_handler (files D) (packers D) (demo_html5 D)) [(''asset_path'', unquote (uni (drop 8 p)))]
                 else Bound (page_handler (files D) (packers D) (demo_html5 D)) [(''page_path'', unquote (uni (drop 1 p)))], [])
          else if meth = ''OPTIONS'' then Inr (Noop, [])
          else Inl (err 405 ''Method Not Allowed''))"

lemma resolve_literal:
  assumes "LF \<notin> set p" and "\<forall>(ms, w, h, mws)\<in>set es. \<forall>m\<in>set ms. upper m = m"
  shows "\<exists>seen'. resolve_loop meth p (table_routes es @ rts) seen =
    (case List.find (\<lambda>(ms, w, h, mws). upper meth \<in> set ms \<and> hits w p) es of
       Some (ms, w, h, mws) \<Rightarrow> Inr (Bound h [], mws) | None \<Rightarrow> resolve_loop meth p rts seen')"
  using assms(2)
proof (induction es arbitrary: seen)
  case (Cons e es)
  obtain ms w h mws where e: "e = (ms, w, h, mws)" by (metis surj_pair)
  have up: "\<forall>m\<in>set ms. upper m = m" using Cons.prems e by simp
  have "\<exists>seen'. resolve_loop meth p (map (literal_route w h mws) ns @ rs) seen =
      (if upper meth \<in> set ns \<and> hits w p then Inr (Bound h [], mws) else resolve_loop meth p rs seen')"
    if "\<forall>m\<in>set ns. upper m = m" for ns rs seen
    using that
  proof (induction ns arbitrary: seen)
    case (Cons n ns)
    then show ?case
      using rmatch_hits [OF assms(1), of w] by (auto simp: literal_route_def decode_params_def simp del: upper_def)
  qed auto
  from this [OF up, of "table_routes es @ rts" seen] Cons.IH Cons.prems show ?case
    unfolding e by (auto simp: table_routes_def simp del: upper_def split: if_splits)
qed (auto simp: table_routes_def)

theorem demo_resolves:
  assumes "LF \<notin> set p" and "prefix ''/'' p"
  shows "\<exists>r. demo_router D a = Some r \<and>
    resolve r meth p = (if docs_path meth p then Inr (Docs, []) else demo_target D a (upper meth) p)"
proof -
  have up: "\<forall>(ms, w, h, mws)\<in>set (api_routes D a). \<forall>m\<in>set ms. upper m = m"
    by (simp add: api_routes_def) code_simp
  have web: "resolve_loop meth p (web_routes D) seen =
      (if upper meth = ''GET'' \<and> manifest_path p then Inr (Bound (assets_manifest (files D) (entries D) (web_dir D)) [], [])
       else if upper meth \<in> {''GET'', ''HEAD''} then
         Inr (if prefix ''/assets/'' p
              then Bound (asset_handler (files D) (packers D) (demo_html5 D)) [(''asset_path'', unquote (uni (drop 8 p)))]
              else Bound (page_handler (files D) (packers D) (demo_html5 D)) [(''page_path'', unquote (uni (drop 1 p)))], [])
       else if upper meth = ''OPTIONS'' then Inr (Noop, []) else Inl (err 405 ''Method Not Allowed''))" for seen
  proof -
    have m: "rmatch asset_regex p = (if prefix ''/assets/'' p then Some [(''asset_path'', drop 8 p)] else None)"
      "rmatch page_regex p = Some [(''page_path'', drop 1 p)]"
      unfolding asset_regex_def page_regex_def rmatch_rest [OF assms(1)] by (simp_all add: assms(2) eval_nat_numeral del: prefix_Cons)
    show ?thesis
      unfolding web_routes_def
      by (simp add: m rmatch_manifest [OF assms(1)] decode_params_def del: upper_def rmatch.simps prefix_Cons)
  qed
  obtain seen' where "resolve_loop meth p (table_routes (api_routes D a) @ web_routes D) [] =
      (case List.find (\<lambda>(ms, w, h, mws). upper meth \<in> set ms \<and> hits w p) (api_routes D a) of
         Some (ms, w, h, mws) \<Rightarrow> Inr (Bound h [], mws) | None \<Rightarrow> resolve_loop meth p (web_routes D) seen')"
    using resolve_literal [OF assms(1) up] by blast
  then show ?thesis
    unfolding demo_router_eq web by (simp add: resolve_def the_router_def demo_target_def)
qed

text \<open>
  The catch-all route takes what the API routes leave: \<^verbatim>\<open>HEAD\<close> of an API path and \<^verbatim>\<open>GET\<close> of the path that
  only takes \<^verbatim>\<open>POST\<close> are answered by the frontend, and no path is \<^verbatim>\<open>404 Not Found\<close> for the router.
\<close>

lemma catch_all_answers:
  "demo_target D a ''HEAD'' ''/healthz'' =
     Inr (Bound (page_handler (files D) (packers D) (demo_html5 D)) [(''page_path'', unquote (uni ''healthz''))], [])"
  "demo_target D a ''GET'' ''/api/contact'' =
     Inr (Bound (page_handler (files D) (packers D) (demo_html5 D)) [(''page_path'', unquote (uni ''api/contact''))], [])"
  by (simp_all add: demo_target_def api_routes_def hits_def manifest_path_def)

lemma demo_never_404: "demo_target D a meth p \<noteq> Inl (err 404 msg)"
  by (auto simp: demo_target_def http_error_def split: option.split)

subsection \<open>The middlewares around a handler\<close>

definition decorated :: "request \<Rightarrow> response \<Rightarrow> response" where
  "decorated req resp = add_cors demo_cors (cors_origin demo_cors req) (apply_hardening HTML5SecurityHeaders resp)"

lemma header_keeps:
  "r_status (set_header k v resp) = r_status resp" "r_body (set_header k v resp) = r_body resp"
  "r_status (setdefault_header k v resp) = r_status resp" "r_body (setdefault_header k v resp) = r_body resp"
  by (simp_all add: setdefault_header_def set_header_def)

lemma hardening_keeps:
  "r_status (apply_hardening h resp) = r_status resp" "r_body (apply_hardening h resp) = r_body resp"
  unfolding apply_hardening_def Let_def
  by (simp_all only: if_distrib [of r_status] if_distrib [of r_body] header_keeps if_cancel)

lemma cors_keeps:
  "r_status (add_cors c origin resp) = r_status resp" "r_body (add_cors c origin resp) = r_body resp"
  unfolding add_cors_def Let_def
  by (simp_all only: if_distrib [of r_status] if_distrib [of r_body] header_keeps if_cancel)

lemma decorated_simps [simp]: "r_status (decorated req resp) = r_status resp" "r_body (decorated req resp) = r_body resp"
  by (simp_all add: decorated_def hardening_keeps cors_keeps)

lemma demo_chain:
  assumes "q_method req \<noteq> ''OPTIONS''"
  shows "execute (middlewares (the_router D a)) (req, w) h [] = sbind (h (req, w)) (\<lambda>resp r. (Inr (decorated req resp), r))"
    "execute (middlewares (the_router D a)) (req, w) h [m] = sbind (m (req, w) h) (\<lambda>resp r. (Inr (decorated req resp), r))"
  using assms
  by (simp_all add: execute_def the_router_def build.simps cors_middleware_def hardening_middleware_def decorated_def Let_def sbind_def
      split: prod.splits sum.splits)

lemma demo_dispatch:
  assumes "ep_router ep = the_router D a" and "prefix ''/'' (path req)" and "LF \<notin> set (path req)"
    and "\<not> prefix ''/static/'' (path req)" and "\<not> docs_path (q_method req) (path req)"
  shows "dispatch E ep (req, w) =
    (case demo_target D a (upper (q_method req)) (path req) of
       Inl e \<Rightarrow> (Inl e, req, w)
     | Inr (t, mws) \<Rightarrow> execute (middlewares (the_router D a)) (req, w) (target_handler ep t) mws)"
  using demo_resolves [OF assms(3,2), of D a "q_method req"] assms(1,4,5)
  by (simp add: dispatch_def demo_router_eq Let_def split: sum.split)

subsection \<open>Tokens as they are sent\<close>

text \<open>The characters of a token stand for themselves in JSON and are not stripped from a header.\<close>

definition token_char :: "char \<Rightarrow> bool" where
  "token_char c = (let n = code c in 33 < n \<and> n < 127 \<and> n \<noteq> 34 \<and> n \<noteq> 92)"

lemma sextet_token_char: "v < 64 \<Longrightarrow> token_char (sextet_char URL v)"
  by (auto simp: sextet_char_def token_char_def URL_def code_alphabet Let_def)

lemma b64e_token: "list_all token_char (b64e b)"
  using to_sextets_lt [of _ b] sextet_token_char by (auto simp: b64e_eq list_all_iff)

lemma created_token_chars: "create_token E a payload secs kid w rnd = Inr tok \<Longrightarrow> list_all token_char tok"
proof -
  assume c: "create_token E a payload secs kid w rnd = Inr tok"
  have "token_char (CHR ''.'')" by (simp add: token_char_def code_def)
  with c b64e_token show ?thesis
    by (auto simp: create_token_def encode_part_def sign_def Let_def split: option.splits)
qed

lemma strip_by_none: "list_all (\<lambda>c. \<not> P c) s \<Longrightarrow> strip_by P s = s"
proof -
  assume "list_all (\<lambda>c. \<not> P c) s"
  then have "dropWhile P t = t" if "set t \<subseteq> set s" for t
    using that by (cases t) (auto simp: list_all_iff)
  from this [of s] this [of "rev s"] show ?thesis by (simp add: strip_by_def)
qed

lemma token_strip: "list_all token_char tok \<Longrightarrow> strip tok = tok"
  unfolding strip_def by (rule strip_by_none) (auto simp: list_all_iff token_char_def is_space_def Let_def)

lemma token_json:
  assumes "list_all token_char tok"
  shows "\<exists>d. JSONResponse (JObj [(uni ''token'', JStr (uni tok))]) 200 [] = Inr (Response d 200 [] ''application/json; charset=utf-8'') \<and>
    json_of d = Inr (JObj [(uni ''token'', JStr (uni tok))])"
proof -
  let ?j = "JObj [(uni ''token'', JStr (uni tok))]"
  have n: "escape_code False (code c) = [code c]" if "c \<in> set tok" for c
    using assms that by (auto simp: list_all_iff token_char_def escape_code_def Let_def)
  have "concat (map (escape_code False) (uni tok)) = uni tok"
    using n by (induction tok) (auto simp: uni_def)
  then have "dumps_compact ?j = uni [CHR ''{'', CHR 0x22] @ uni ''token'' @ uni [CHR 0x22, CHR '':'', CHR 0x22] @ uni tok @ uni [CHR 0x22, CHR ''}'']"
    by (simp add: dumps_compact_def json_string_def escape_code_def uni_def code_def)
  then have t: "list_all (\<lambda>c. c < 128) (dumps_compact ?j)"
    using assms by (auto simp: uni_def code_def list_all_iff token_char_def Let_def)
  then have e: "u8_encode (dumps_compact ?j) = Some (dumps_compact ?j)" by (rule u8_encode_ascii)
  have b: "map code (map char_of (dumps_compact ?j)) = dumps_compact ?j"
    unfolding map_map
  proof (rule map_idI)
    fix x assume "x \<in> set (dumps_compact ?j)"
    with t have "x < 256" unfolding list_all_iff by force
    then show "(code \<circ> char_of) x = x" by simp
  qed
  have "json_ok ?j"
    using assms by (auto simp: d_ok_def uni_def code_def list_all_iff token_char_def is_scalar_def Let_def)
  from loads_dumps [OF this, of "[]" "[]" False] have "loads (dumps_compact ?j) = Some ?j"
    by (simp add: dumps_compact_def spaces_def)
  then have "json_of (map char_of (dumps_compact ?j)) = Inr ?j"
    unfolding json_of_def b u8_strict_encode [OF e] by simp
  then show ?thesis by (intro exI [of _ "map char_of (dumps_compact ?j)"]) (simp add: JSONResponse_def e)
qed

subsection \<open>Logging in\<close>

lemma demo_jwt_fields:
  assumes "demo_jwt = Inr a"
  shows "jw_secrets a = [(uni ''v1'', uni ''dev-secret-old''), (uni ''v2'', uni ''dev-secret-current'')]" "current_kid a = uni ''v2''"
    "issuer a = Some (uni ''sovereign-demo'')" "audience a = None" "expected_alg a = uni ''HS256''" "max_token_len a = 8192"
  using assms by (auto simp: demo_jwt_def JWTAuth_def given_def uni_def code_def d_set_def)

lemma demo_targets:
  "demo_target D a ''GET'' ''/token'' = Inr (Bound (token_handler D a) [], [])"
  "demo_target D a ''GET'' ''/users'' = Inr (Bound users_handler [], [require_auth (tokens D) (claims_of D) a None])"
  by (simp_all add: demo_target_def api_routes_def hits_def)

lemma demo_paths:
  "LF \<notin> set ''/token''" "LF \<notin> set ''/users''" "\<not> prefix ''/static/'' ''/token''" "\<not> prefix ''/static/'' ''/users''"
  "\<not> docs_path ''GET'' ''/token''" "\<not> docs_path ''GET'' ''/users''" "upper ''GET'' = ''GET''"
  by code_simp+

abbreviation demo_claims :: claims where
  "demo_claims \<equiv> [(uni ''sub'', JStr (uni ''demo''))]"

lemma demo_claims_ok:
  assumes "demo_jwt = Inr a" and "list_all is_scalar rnd" and "\<bar>trunc t\<bar> < 10 ^ max_str_digits" and "\<bar>trunc t + 3600\<bar> < 10 ^ max_str_digits"
  shows "json_ok (JObj (token_claims a demo_claims 3600 t rnd))"
    "d_get (token_claims a demo_claims 3600 t rnd) (uni ''sub'') = Some (JStr (uni ''demo''))"
  using assms(2-4)
  by (simp_all add: token_claims_def demo_jwt_fields [OF assms(1)] given_def uni_def code_def d_setdefault_def is_scalar_def d_ok_def d_set_def Let_def)

lemma login_token:
  assumes a: "demo_jwt = Inr a" and ep: "ep_router ep = the_router D a"
    and req: "q_method req = ''GET''" "path req = ''/token''"
  obtains tok resp where
    "create_token (tokens D) a demo_claims 3600 None (auth_clock w) (random_id D (ids_used (auth_list w))) = Inr tok"
    "dispatch E ep (req, w) =
       (Inr resp, req\<lparr>route_params := []\<rparr>, w\<lparr>auth_list := (auth_list w)\<lparr>ids_used := Suc (ids_used (auth_list w))\<rparr>\<rparr>)"
    "r_status resp = 200" "\<exists>d. r_body resp = Full d \<and> json_of d = Inr (JObj [(uni ''token'', JStr (uni tok))])"
proof -
  have "u8_encode (uni ''dev-secret-current'') = Some (uni ''dev-secret-current'')"
    by (rule u8_encode_ascii) (simp add: uni_def code_def)
  moreover have "d_get (jw_secrets a) (current_kid a) = Some (uni ''dev-secret-current'')"
    by (simp add: demo_jwt_fields [OF a] uni_def code_def)
  ultimately obtain tok where tok:
    "create_token (tokens D) a demo_claims 3600 None (auth_clock w) (random_id D (ids_used (auth_list w))) = Inr tok"
    using create_token_Inr by metis
  obtain d where d: "JSONResponse (JObj [(uni ''token'', JStr (uni tok))]) 200 [] = Inr (Response d 200 [] ''application/json; charset=utf-8'')"
    "json_of d = Inr (JObj [(uni ''token'', JStr (uni tok))])"
    using token_json [OF created_token_chars [OF tok]] by blast
  have "dispatch E ep (req, w) = execute (middlewares (the_router D a)) (req, w) (target_handler ep (Bound (token_handler D a) [])) []"
    using demo_dispatch [OF ep, of req E w] demo_paths req by (simp add: demo_targets del: upper_def)
  also have "\<dots> = (Inr (decorated req (Response d 200 [] ''application/json; charset=utf-8'')), req\<lparr>route_params := []\<rparr>,
      w\<lparr>auth_list := (auth_list w)\<lparr>ids_used := Suc (ids_used (auth_list w))\<rparr>\<rparr>)"
    using req(1) by (simp add: demo_chain token_handler_def Let_def tok d(1))
  finally show thesis by (rule that [OF tok]) (simp_all add: Response_def d(2))
qed

lemma users_dispatch:
  assumes "ep_router ep = the_router D a" and "q_method req = ''GET''" and "path req = ''/users''"
  shows "dispatch E ep (req, w) =
    sbind (require_auth (tokens D) (claims_of D) a None (req, w) (target_handler ep (Bound users_handler [])))
      (\<lambda>resp r. (Inr (decorated req resp), r))"
  using demo_dispatch [OF assms(1), of req E w] demo_paths assms(2,3) by (simp add: demo_targets demo_chain del: upper_def)

text \<open>
  What a token is good for: presented as bearer until \<open>limit\<close>, it opens \<^verbatim>\<open>GET /users\<close>, which answers with
  the claims of the demo user and the names of the database. And what happens without one: nothing but
  the refusal of \<^verbatim>\<open>require_auth\<close>.
\<close>

definition users_json :: "demo_env \<Rightarrow> claims \<Rightarrow> json" where
  "users_json D p = JObj [(uni ''user'', user_json (Some (claims_of D p))), (uni ''users'', JArr [JStr (uni ''Ada''), JStr (uni ''Grace'')])]"

definition opens_users :: "demo_env \<Rightarrow> env \<Rightarrow> demo_world endpoint \<Rightarrow> str \<Rightarrow> int \<Rightarrow> bool" where
  "opens_users D E ep tok limit =
     (\<forall>req w. q_method req = ''GET'' \<and> path req = ''/users'' \<and> header req ''authorization'' = ''Bearer '' @ tok \<and> trunc (auth_clock w) \<le> limit \<longrightarrow>
        (\<exists>p. d_get p (uni ''sub'') = Some (JStr (uni ''demo'')) \<and>
           dispatch E ep (req, w) =
             (map_sum id (decorated req) (JSONResponse (users_json D p) 200 []),
              req\<lparr>user := Some (claims_of D p), route_params := []\<rparr>, w)))"

definition users_closed :: "demo_env \<Rightarrow> jwt \<Rightarrow> env \<Rightarrow> demo_world endpoint \<Rightarrow> bool" where
  "users_closed D a E ep =
     (\<forall>req w e w'. q_method req = ''GET'' \<and> path req = ''/users'' \<and> auth_refusal (tokens D) a None (headers req) w = Some (e, w') \<longrightarrow>
        dispatch E ep (req, w) = (Inl e, req, w'))"

lemma token_opens_users:
  assumes a: "demo_jwt = Inr a" and ep: "ep_router ep = the_router D a" and rnd: "list_all is_scalar rnd"
    and big: "\<bar>trunc t\<bar> < 10 ^ max_str_digits" "\<bar>trunc t + 3600\<bar> < 10 ^ max_str_digits"
    and tok: "create_token (tokens D) a demo_claims 3600 None t rnd = Inr tok" and len: "length tok \<le> 8192"
  shows "opens_users D E ep tok (trunc t + 3600)"
  unfolding opens_users_def
proof (intro allI impI; elim conjE)
  fix req and w :: demo_world
  assume r: "q_method req = ''GET''" "path req = ''/users''" "header req ''authorization'' = ''Bearer '' @ tok"
    "trunc (auth_clock w) \<le> trunc t + 3600"
  note f = demo_jwt_fields [OF a] and ok = demo_claims_ok [OF a rnd big]
  have "\<exists>p. verify_text (tokens D) a (auth_clock w) tok = Inr p \<and>
      (\<forall>c. d_get p c = map_option sort_json (d_get (token_claims a demo_claims 3600 t rnd) c))"
    by (rule verify_created [OF tok _ refl _ _ _ _ ok(1) r(4)])
      (use len in \<open>simp_all add: f given_def uni_def code_def is_scalar_def d_ok_def\<close>)
  then obtain p where p: "verify_text (tokens D) a (auth_clock w) tok = Inr p" "d_get p (uni ''sub'') = Some (JStr (uni ''demo''))"
    using ok(2) by auto
  have "bearer req = Inr tok" using r(3) token_strip [OF created_token_chars [OF tok]] by (simp add: bearer_def)
  then have "require_auth (tokens D) (claims_of D) a None (req, w) h = h (req\<lparr>user := Some (claims_of D p)\<rparr>, w)" for h
    using p(1) by (simp add: require_auth_def verify_token_def Let_def)
  then show "\<exists>p. d_get p (uni ''sub'') = Some (JStr (uni ''demo'')) \<and> dispatch E ep (req, w) =
      (map_sum id (decorated req) (JSONResponse (users_json D p) 200 []), req\<lparr>user := Some (claims_of D p), route_params := []\<rparr>, w)"
    using users_dispatch [OF ep r(1,2)] p(2)
    by (intro exI [of _ p]) (simp add: users_handler_def get_db_def users_json_def uni_def sbind_def map_sum_def split: sum.split)
qed

lemma users_refuse: "ep_router ep = the_router D a \<Longrightarrow> users_closed D a E ep"
  unfolding users_closed_def by (simp add: users_dispatch require_auth_refuses)

text \<open>
  C3. The demo login works and is needed: \<^verbatim>\<open>GET /token\<close> answers 200 with a token as JSON, which opens
  \<^verbatim>\<open>GET /users\<close> for an hour; every request to \<^verbatim>\<open>/users\<close> whose token does not verify is refused.
\<close>

theorem demo_token_opens_users:
  assumes "demo_jwt = Inr a" and "demo_router D a = Some (ep_router ep)"
    and "q_method req = ''GET''" and "path req = ''/token''" and "list_all is_scalar (random_id D (ids_used (auth_list w)))"
    and "\<bar>trunc (auth_clock w)\<bar> < 10 ^ max_str_digits" and "\<bar>trunc (auth_clock w) + 3600\<bar> < 10 ^ max_str_digits"
  shows "users_closed D a E ep \<and>
    (\<exists>tok resp d r. dispatch E ep (req, w) = (Inr resp, r) \<and> r_status resp = 200 \<and> r_body resp = Full d \<and>
       json_of d = Inr (JObj [(uni ''token'', JStr (uni tok))]) \<and>
       (length tok \<le> 8192 \<longrightarrow> opens_users D E ep tok (trunc (auth_clock w) + 3600)))"
proof -
  have ep: "ep_router ep = the_router D a" using assms(2) by (simp add: demo_router_eq)
  obtain tok resp where t: "create_token (tokens D) a demo_claims 3600 None (auth_clock w) (random_id D (ids_used (auth_list w))) = Inr tok"
    "dispatch E ep (req, w) =
       (Inr resp, req\<lparr>route_params := []\<rparr>, w\<lparr>auth_list := (auth_list w)\<lparr>ids_used := Suc (ids_used (auth_list w))\<rparr>\<rparr>)"
    "r_status resp = 200" "\<exists>d. r_body resp = Full d \<and> json_of d = Inr (JObj [(uni ''token'', JStr (uni tok))])"
    by (rule login_token [OF assms(1) ep assms(3,4)])
  with users_refuse [OF ep] token_opens_users [OF assms(1) ep assms(5-7) t(1)] show ?thesis by blast
qed

definition demo_sample :: demo_env where
  "demo_sample = \<lparr>files = sample_env,
     types = \<lparr>dataclasses = [], float_of_text = \<lambda>s. None, float_of_bytes = \<lambda>b. None, float_of_int = \<lambda>i. Some (Finite (of_int i)),
       int_of_text = \<lambda>s. None, text_of = \<lambda>v. [], text_of_exn = \<lambda>e. []\<rparr>,
     tokens = sample_auth, claims_of = \<lambda>p. [(''sub'', SStr ''demo'')], packers = tag_compressors, entries = \<lambda>p. [],
     web_dir = [uni ''web''], sandbox_mode = uni ''unknown'', python_version = uni ''3.12'', platform_name = uni ''linux'',
     random_id = \<lambda>n. uni ''r'', narrow = \<lambda>t. []\<rparr>"

definition demo_ep :: "jwt \<Rightarrow> demo_world endpoint" where
  "demo_ep a = \<lparr>ep_router = the_router demo_sample a, ep_docs = (\<lambda>r. (Inr (Response [] 200 [] HTML), r)), ep_ws = None\<rparr>"

definition demo_start :: demo_world where
  "demo_start = \<lparr>auth_clock = 1000, auth_list = \<lparr>started = False, started_at = None, stopped = False, ids_used = 0\<rparr>\<rparr>"

definition service_jwt :: jwt where
  "service_jwt = \<lparr>jw_secrets = [(uni ''v1'', uni ''dev-secret-old''), (uni ''v2'', uni ''dev-secret-current'')], current_kid = uni ''v2'',
     issuer = Some (uni ''sovereign-demo''), audience = None, expected_alg = uni ''HS256'', max_token_len = 8192\<rparr>"

lemma service_jwt: "demo_jwt = Inr service_jwt"
  by (simp add: demo_jwt_def service_jwt_def JWTAuth_def given_def uni_def code_def d_set_def)

lemma length_b64e: "length (b64e b) \<le> 2 * length b"
proof -
  have "length (to_sextets b) \<le> 2 * length b" by (induction b rule: to_sextets.induct) simp_all
  then show ?thesis by (simp add: b64e_eq)
qed

lemma demo_token_short:
  assumes "create_token sample_auth service_jwt demo_claims 3600 None 1000 (uni ''r'') = Inr tok"
  shows "length tok \<le> 8192"
proof -
  have n: "length (show_int 1000) = 4" "length (show_int 4600) = 4"
    by (simp_all add: show_int_def show_nat_def show_base.simps)
  have t: "trunc 1000 = 1000" by (simp add: trunc_def)
  have h: "length (dumps True [44] [58] (sort_json (token_header service_jwt (uni ''v2'')))) \<le> 100"
    by (simp add: token_header_def service_jwt_def json_string_def escape_code_def uni_def code_def)
  have c: "length (dumps True [44] [58] (sort_json (JObj (token_claims service_jwt demo_claims 3600 1000 (uni ''r''))))) \<le> 200"
    by (simp add: token_claims_def service_jwt_def given_def t n json_string_def escape_code_def uni_def code_def d_setdefault_def d_set_def Let_def)
  have s: "length (sign sample_auth k x y) \<le> 12" for k x y
  proof -
    have "length (hmac_sha256 sample_auth k (x @ ''.'' @ y)) \<le> 6" by (simp add: sample_auth_def)
    then show ?thesis
      using length_b64e [of "hmac_sha256 sample_auth k (x @ ''.'' @ y)"] unfolding sign_def by linarith
  qed
  have "u8_encode (uni ''dev-secret-current'') = Some (uni ''dev-secret-current'')"
    by (rule u8_encode_ascii) (simp add: uni_def code_def)
  moreover have "d_get (jw_secrets service_jwt) (current_kid service_jwt) = Some (uni ''dev-secret-current'')"
    by (simp add: service_jwt_def uni_def code_def)
  ultimately obtain x y where tok: "tok = encode_part (token_header service_jwt (uni ''v2'')) @ ''.'' @
      encode_part (JObj (token_claims service_jwt demo_claims 3600 1000 (uni ''r''))) @ ''.'' @ sign sample_auth x (encode_part y) (encode_part (JObj (token_claims service_jwt demo_claims 3600 1000 (uni ''r''))))"
    using assms create_token_Inr [of service_jwt] by (fastforce simp: Let_def service_jwt_def)
  have e: "length (encode_part j) \<le> 2 * length (dumps True [44] [58] (sort_json j))" for j
    using length_b64e [of "map char_of (dumps True [44] [58] (sort_json j))"] by (simp add: encode_part_def)
  let ?b = "encode_part (JObj (token_claims service_jwt demo_claims 3600 1000 (uni ''r'')))"
  have "length (encode_part (token_header service_jwt (uni ''v2''))) \<le> 200" "length ?b \<le> 400"
    using e [of "token_header service_jwt (uni ''v2'')"] e [of "JObj (token_claims service_jwt demo_claims 3600 1000 (uni ''r''))"] h c
    by linarith+
  with s [of x "encode_part y" ?b] show ?thesis
    unfolding tok length_append by (simp only: list.size)
qed

theorem demo_token_opens_users_witness:
  "\<exists>tok resp0 r0 resp r1. dispatch sample_env (demo_ep service_jwt) (sample_request ''GET'' ''/token'' [], demo_start) = (Inr resp0, r0) \<and>
     (\<exists>d. r_body resp0 = Full d \<and> json_of d = Inr (JObj [(uni ''token'', JStr (uni tok))])) \<and>
     dispatch sample_env (demo_ep service_jwt) (sample_request ''GET'' ''/users'' [(''authorization'', ''Bearer '' @ tok)], demo_start) =
       (Inr resp, r1) \<and> r_status resp = 200 \<and>
     dispatch sample_env (demo_ep service_jwt) (sample_request ''GET'' ''/users'' [], demo_start) =
       (Inl (HTTPError 401 ''Missing bearer token'' []), sample_request ''GET'' ''/users'' [], demo_start)"
proof -
  let ?q = "sample_request ''GET'' ''/token'' []" and ?D = demo_sample
  let ?u = "\<lambda>tok. sample_request ''GET'' ''/users'' [(''authorization'', ''Bearer '' @ tok)]"
  have ep: "ep_router (demo_ep service_jwt) = the_router ?D service_jwt" by (simp add: demo_ep_def)
  have lower_name: "lower ''authorization'' = ''authorization''" by code_simp
  have q: "q_method ?q = ''GET''" "path ?q = ''/token''" "q_method (?u t) = ''GET''" "path (?u t) = ''/users''"
    "header (?u t) ''authorization'' = ''Bearer '' @ t" for t
    by (simp_all add: sample_request_def header_def header_of_def lower_name)
  have d: "auth_clock demo_start = 1000" "tokens ?D = sample_auth" "random_id ?D n = uni ''r''" "trunc 1000 = 1000" for n
    by (simp_all add: demo_start_def demo_sample_def trunc_def)
  have "(10 :: int) ^ 4 \<le> 10 ^ max_str_digits" by (rule power_increasing) (simp_all add: max_str_digits_def)
  then have big: "\<bar>trunc (auth_clock demo_start)\<bar> < 10 ^ max_str_digits" "\<bar>trunc (auth_clock demo_start) + 3600\<bar> < 10 ^ max_str_digits"
    by (simp_all add: d)
  have sc: "list_all is_scalar (random_id ?D (ids_used (auth_list demo_start)))"
    by (simp add: d uni_def code_def is_scalar_def)
  obtain tok resp0 d0 r0 where t: "dispatch sample_env (demo_ep service_jwt) (?q, demo_start) = (Inr resp0, r0)" "r_body resp0 = Full d0"
    "json_of d0 = Inr (JObj [(uni ''token'', JStr (uni tok))])" "users_closed ?D service_jwt sample_env (demo_ep service_jwt)"
    "length tok \<le> 8192 \<longrightarrow> opens_users ?D sample_env (demo_ep service_jwt) tok (trunc (auth_clock demo_start) + 3600)"
    using demo_token_opens_users [OF service_jwt _ q(1,2) sc big, where ep = "demo_ep service_jwt" and E = sample_env] ep
    unfolding demo_router_eq by auto
  obtain tok' resp' where t': "create_token sample_auth service_jwt demo_claims 3600 None 1000 (uni ''r'') = Inr tok'"
    "dispatch sample_env (demo_ep service_jwt) (?q, demo_start) = (Inr resp', ?q\<lparr>route_params := []\<rparr>,
       demo_start\<lparr>auth_list := (auth_list demo_start)\<lparr>ids_used := Suc (ids_used (auth_list demo_start))\<rparr>\<rparr>)"
    "\<exists>d. r_body resp' = Full d \<and> json_of d = Inr (JObj [(uni ''token'', JStr (uni tok'))])"
    by (rule login_token [OF service_jwt ep q(1,2), where E = sample_env and w = demo_start]) (simp add: d)
  have "uni tok = uni tok'" using t(1-3) t'(2,3) by auto
  then have "tok = tok'" by (simp add: uni_def inj_map_eq_map inj_def char_eq_code)
  then have "length tok \<le> 8192" using demo_token_short [OF t'(1)] by simp
  then obtain p where p: "dispatch sample_env (demo_ep service_jwt) (?u tok, demo_start) =
      (map_sum id (decorated (?u tok)) (JSONResponse (users_json ?D p) 200 []),
       (?u tok)\<lparr>user := Some (claims_of ?D p), route_params := []\<rparr>, demo_start)"
    using t(5) [unfolded opens_users_def, rule_format, of "?u tok" demo_start] q(3-5) [of tok] by (auto simp: d(4) d(1))
  have "claims_of ?D p = [(''sub'', SStr ''demo'')]" by (simp add: demo_sample_def)
  then obtain b where j: "JSONResponse (users_json ?D p) 200 [] = Inr (Response b 200 [] ''application/json; charset=utf-8'')"
    by (simp add: users_json_def JSONResponse_def user_json_def scalar_json_def dumps_compact_def json_string_def escape_code_def uni_def code_def
        u8_encode_ascii)
  have "auth_refusal (tokens ?D) service_jwt None (headers (sample_request ''GET'' ''/users'' [])) demo_start =
      Some (HTTPError 401 ''Missing bearer token'' [], demo_start)"
    by (simp add: auth_refusal_def sample_request_def header_of_def unauthorized_def)
  then have "dispatch sample_env (demo_ep service_jwt) (sample_request ''GET'' ''/users'' [], demo_start) =
      (Inl (HTTPError 401 ''Missing bearer token'' []), sample_request ''GET'' ''/users'' [], demo_start)"
    using t(4) unfolding users_closed_def by (simp add: sample_request_def)
  moreover have "\<exists>resp r1. dispatch sample_env (demo_ep service_jwt) (?u tok, demo_start) = (Inr resp, r1) \<and> r_status resp = 200"
    unfolding p j by (simp add: Response_def)
  ultimately show ?thesis using t(1-3) by blast
qed

subsection \<open>Starting it\<close>

text \<open>
  Without arguments \<^verbatim>\<open>main\<close> serves the demo router with the default configuration, and no option changes a
  limit or a timeout of the parser.
\<close>

lemma cli_main_default: "cli_main D a None cli_defaults = Some (the_router D a, DEFAULT_CONFIG)"
  by (simp add: cli_main_def demo_router_eq cli_config_def cli_defaults_def DEFAULT_CONFIG_def)

lemma cli_config_limits:
  "max_body_bytes (cli_config a) = max_body_bytes DEFAULT_CONFIG" "max_headers (cli_config a) = max_headers DEFAULT_CONFIG"
  "header_idle_timeout (cli_config a) = header_idle_timeout DEFAULT_CONFIG"
  "absolute_request_timeout (cli_config a) = absolute_request_timeout DEFAULT_CONFIG"
  by (simp_all add: cli_config_def)

text \<open>The uptime that \<^verbatim>\<open>/api/status\<close> shows is counted from the startup hook on and never negative.\<close>

lemma uptime_since_startup:
  assumes "startup w = (Inr (), w1)" and "auth_list w2 = auth_list w1" and "auth_clock w1 \<le> auth_clock w2"
  shows "uptime_seconds w2 = trunc (auth_clock w2 - auth_clock w)"
  using assms by (auto simp: uptime_seconds_def startup_def trunc_def)

end
