(* ===== verification/Login.thy ===== *)
theory Login
  imports Security_Props Auth
begin

section \<open>The login guard and the user it counts for (\<^verbatim>\<open>security.py\<close>)\<close>

text \<open>
  The default key of \<^verbatim>\<open>BruteForceProtector\<close>: the user that the JSON body names, whatever address the
  request comes from. A key is the UTF-8 text that SQLite stores; a name with lone surrogates, which SQLite
  refuses to store, has no key here. The text and the truth value of a decoded value are those of theory Auth.
\<close>

definition login_names :: "ustr list" where
  "login_names = [uni ''username'', uni ''email'', uni ''user_id'']"

definition login_user :: "auth_env \<Rightarrow> request \<Rightarrow> ustr option" where
  "login_user A req =
     (case (if body_size req \<noteq> 0 then request_json req else Inr (JObj [])) of
        Inr (JObj data) \<Rightarrow>
          (case List.find (json_true A) (List.map_filter (d_get data) login_names) of
             Some v \<Rightarrow> given (Some (str_of_json A v))
           | None \<Rightarrow> None)
      | _ \<Rightarrow> None)"

definition login_key :: "auth_env \<Rightarrow> request \<Rightarrow> str" where
  "login_key A req =
     ''login:'' @ (case login_user A req of Some u \<Rightarrow> map char_of (concat (map u8_char u)) | None \<Rightarrow> remote_addr req)"

text \<open>Login attempts one after the other, each a request of its own.\<close>

primrec attempts_from :: "(request \<Rightarrow> str) \<Rightarrow> 'w sec_world handler \<Rightarrow> request list \<Rightarrow> 'w sec_world \<Rightarrow> 'w sec_world" where
  "attempts_from key_func h [] w = w"
| "attempts_from key_func h (req # reqs) w = attempts_from key_func h reqs (snd (snd (bruteforce_protect key_func (req, w) h)))"

lemma attempts_lock:
  assumes "0 \<le> d"
  shows "\<lbrakk>guard_ready st w; failed_times key w a; \<forall>r\<in>set reqs. key_func r = key;
      a + int (length reqs) = max_attempts (guard w); reqs \<noteq> []\<rbrakk> \<Longrightarrow>
    \<exists>t n. t \<le> wall_clock (attempts_from key_func (fails st d) reqs w) \<and>
      d_get (attempts_of (guard (attempts_from key_func (fails st d) reqs w))) key = Some (n, t + of_int (block_seconds (guard w)), t)"
proof (induction reqs arbitrary: a w)
  case (Cons req reqs)
  obtain w1 t where w1: "snd (bruteforce_protect key_func (req, w) (fails st d)) = (req, w1)"
    "guard_ready st w1" "t \<le> wall_clock w1" "max_attempts (guard w1) = max_attempts (guard w)"
    "block_seconds (guard w1) = block_seconds (guard w)"
    "d_get (attempts_of (guard w1)) key =
      Some (a + 1, if max_attempts (guard w) \<le> a + 1 then t + of_int (block_seconds (guard w)) else 0, t)"
    using failing_call [where key_func = key_func and req = req, OF Cons.prems(1) _ assms, of a] Cons.prems(2,3)
    by (metis list.set_intros(1) snd_conv)
  show ?case
  proof (cases "reqs = []")
    case True
    then show ?thesis using w1 Cons.prems(4) by auto
  next
    case False
    then have "failed_times key w1 (a + 1)"
      using w1(6) Cons.prems(4) by (cases reqs) (auto simp: failed_times_def)
    from Cons.IH [OF w1(2) this] Cons.prems(3,4) False w1(1,4,5) show ?thesis by simp
  qed
qed simp

lemma locked_refuses:
  "\<lbrakk>d_get (attempts_of (guard w)) (key_func req) = Some (n, until, t); wall_clock w < until\<rbrakk> \<Longrightarrow>
   bruteforce_protect key_func (req, w) next =
     (Inl (HTTPError 403 ''Temporarily blocked'' [(''Retry-After'', show_int (max 1 (trunc (until - wall_clock w))))]), req, w)"
  by (auto simp: bruteforce_protect_def with_guard_def guard_status_def Let_def)


text \<open>The sample logins name one user from three addresses; a fourth login is made without a body.\<close>

definition login_of :: "str \<Rightarrow> str \<Rightarrow> request" where
  "login_of body addr =
     (sample_request ''POST'' ''/login'' [])\<lparr>q_body := InMemory body, body_size := int (length body), remote_addr := addr\<rparr>"

definition login_env :: auth_env where
  "login_env = \<lparr>hmac_sha256 = \<lambda>k m. k @ m, float_int = \<lambda>t. Inr 0, float_true = \<lambda>t. t \<noteq> uni ''0.0'',
     wide_int = \<lambda>s. Inl (PyError ''ValueError''), other_str = \<lambda>j. uni ''{}''\<rparr>"

definition json_body :: "json \<Rightarrow> str" where
  "json_body j = map char_of (dumps True [44] [58] j)"

lemma json_of_body:
  assumes "json_ok j"
  shows "json_of (json_body j) = Inr j"
proof -
  let ?t = "dumps True [44] [58] j"
  have a: "list_all (\<lambda>c. c < 128) ?t"
    using dumps_ascii [OF assms] by (auto simp: list_all_iff)
  then have "map code (map char_of ?t) = ?t"
    unfolding map_map by (intro map_idI) (use a in \<open>auto simp: list_all_iff\<close>)
  moreover have "loads ?t = Some j"
    using loads_dumps [OF assms, of "[]" "[]" True] by (simp add: spaces_def)
  ultimately show ?thesis
    using u8_strict_encode [OF u8_encode_ascii [OF a]] by (simp only: json_of_def json_body_def option.case)
qed

definition ada_body :: str where
  "ada_body = json_body (JObj [(uni ''username'', JStr (uni ''ada''))])"

definition address_body :: str where
  "address_body = json_body (JObj [(uni ''email'', JStr (uni ''10.0.0.9''))])"

lemma sample_json:
  "json_of ada_body = Inr (JObj [(uni ''username'', JStr (uni ''ada''))])"
  "json_of address_body = Inr (JObj [(uni ''email'', JStr (uni ''10.0.0.9''))])"
  by (simp_all add: ada_body_def address_body_def json_of_body d_ok_def uni_def code_def is_scalar_def)

lemma login_user_one:
  assumes "json_of body = Inr (JObj [(k, JStr s)])" and "body \<noteq> []" and "s \<noteq> []" and "k \<in> set login_names"
  shows "login_user A (login_of body addr) = Some s"
  using assms
  by (cases s)
    (auto simp: login_user_def login_of_def request_json_def login_names_def List.map_filter_def
      json_true_def str_of_json_def given_def uni_def code_def)

lemma sample_users:
  "login_user A (login_of ada_body addr) = Some (uni ''ada'')"
  "login_user A (login_of address_body addr) = Some (uni ''10.0.0.9'')"
  by (rule login_user_one [OF sample_json(1)] login_user_one [OF sample_json(2)];
      simp add: ada_body_def address_body_def json_body_def login_names_def uni_def)+


text \<open>
  The key does not say which of the two it was made of: whoever names an address as the user counts
  failures for, and in the end locks out, the logins from that address that name no user.
\<close>

theorem named_address_shares_key:
  "login_key A (login_of address_body ''192.0.2.7'') = login_key A (login_of [] ''10.0.0.9'')"
proof -
  have "login_user A (login_of [] a) = None" for a
    by (simp add: login_user_def login_of_def List.map_filter_def login_names_def)
  moreover have "map char_of (concat (map u8_char (uni ''10.0.0.9''))) = ''10.0.0.9''" by code_simp
  ultimately show ?thesis by (simp add: login_key_def sample_users) (simp add: login_of_def)
qed

end
