(* ===== verification/Spec2Isabelle.thy ===== *)
theory Spec2Isabelle
  imports Parser_Time Router_Props WebSocket_Props Server_Props Security_Props
    Injection Sessions Html5 EventHub_Props Tasks Multipart Auth_Props Schema Template
    Lifecycle Async_Injection Async_Server_Props Orm_Props Crypto
    OpenApi Testing Acme Served Assets Sandbox Logging Guarded
    Orm_Query Cleanup App_Props Login
begin

section \<open>Sovereign Server\<close>

text \<open>
  A model of the Python package \<^verbatim>\<open>src/sovereign\<close>, an HTTP/1.1 server and framework on the standard
  library alone, with the theorems that make its parts correct. This theory imports the others.

  \<^bold>\<open>How the parts interact.\<close> A listener accepts connections and hands them to a pool of threads, or an
  event loop runs one task for each. A connection reads a request through the parser, gives it an
  identifier, resolves it against the router, runs the middlewares and the handler with its injected
  dependencies, writes the answer, hands over background tasks and goes on with the next request. The
  other modules are what handlers and middlewares use: tokens and revocation, rate limits, validation,
  forms, templates, assets, the object mapper, the event hub and WebSocket sessions, the task queue,
  password hashes, certificates.

  \<^bold>\<open>Conventions.\<close> Bytes and Latin-1 text are lists of \<open>char\<close>, other text a list of code points. A
  dictionary is an association list in insertion order. An exception is a value of type \<open>exn\<close>, a
  computation that may raise one has a sum type; state is passed explicitly. Floating-point seconds
  and tokens are exact rationals, Python integers are \<open>int\<close>, bytes of a WebSocket frame that are
  masked are 8-bit words. What is not under \<^verbatim>\<open>src\<close> and not language is a parameter: the file
  system, digests and compressors, the clock, random identifiers, \<^verbatim>\<open>scrypt\<close>, \<^verbatim>\<open>openssl\<close>, the column
  affinity of SQLite, the callables of an application.
\<close>

text \<open>
  \<^bold>\<open>Theories and sources.\<close>

  \<^item> Prelude, PyStr, PyInt, Utf8, Base64, Json, PyValue: the dictionary, the exceptions and the parts of
    Python and its library that the source uses. Json_Props: the reader inverts the printer.
  \<^item> Http: \<^verbatim>\<open>errors.py\<close>, \<^verbatim>\<open>config.py\<close>, \<^verbatim>\<open>request.py\<close>, \<^verbatim>\<open>responses.py\<close>. Utils, Static: \<^verbatim>\<open>utils.py\<close>, \<^verbatim>\<open>static.py\<close>.
  \<^item> Parser: \<^verbatim>\<open>parser.py\<close>, \<^verbatim>\<open>SocketReader\<close> over a socket given as timed arrivals. Parser_Net: the network's
    cuts and delays do not matter. Parser_Head: the head block is sound and complete. Parser_Time: deadlines.
  \<^item> Router, Injection, OpenApi: \<^verbatim>\<open>router.py\<close>, patterns as lists of items, resolution, the middleware chain,
    dependencies and their scopes, the document. Router_Props: the matcher and the resolution.
    Async_Router, Async_Injection: the asynchronous twins, with coroutines as resumptions.
  \<^item> Server, Listener, Lifecycle: \<^verbatim>\<open>server.py\<close>, one connection as the state \<open>link\<close>; the accept loop with its
    slots and its thread pool as a step relation; start and shutdown. Server_Props: the writer and
    the error answers. Served, Guarded: a whole request, also to a protected route, from its bytes to
    those of its answer.
  \<^item> Async_Reader, Async_Server and their Props: \<^verbatim>\<open>async_server.py\<close>, the stream reader and parser, the writer, a client.
  \<^item> WebSocket, EventHub and their Props: \<^verbatim>\<open>websocket.py\<close>, \<^verbatim>\<open>eventhub.py\<close>, threads and clients interleaved as step
    relations with their invariants.
  \<^item> Middleware, Security, Sessions, Auth and their Props, Crypto: \<^verbatim>\<open>middleware.py\<close>, \<^verbatim>\<open>security.py\<close>, \<^verbatim>\<open>sessions.py\<close>,
    \<^verbatim>\<open>auth.py\<close>, \<^verbatim>\<open>crypto.py\<close>. Login: the login guard with its default key, the user that is named.
  \<^item> Validation, Schema, Multipart, Template, Tasks, Html5, Assets: \<^verbatim>\<open>validation.py\<close>, \<^verbatim>\<open>multipart.py\<close>, \<^verbatim>\<open>template.py\<close>,
    \<^verbatim>\<open>tasks.py\<close>, \<^verbatim>\<open>html5.py\<close>. Orm, Orm_Props: \<^verbatim>\<open>orm.py\<close> over tables with rows, affinities and key counters.
    Orm_Query: what a query returns, with SQLite's order of values as an instance of the library's class.
  \<^item> Cleanup: the blocklist and the task queue together, \<^verbatim>\<open>enqueue_cleanup\<close> of \<^verbatim>\<open>sessions.py\<close>.
  \<^item> App, App_Props: \<^verbatim>\<open>examples/app.py\<close> and \<^verbatim>\<open>cli.py\<close>, the demo application over all of these: its route table
    as a function of method and path, its middlewares, its login.
  \<^item> Acme, Sandbox, Logging, Testing: \<^verbatim>\<open>acme.py\<close>, \<^verbatim>\<open>sandbox.py\<close>, \<^verbatim>\<open>logging_utils.py\<close>, \<^verbatim>\<open>testing.py\<close>.
\<close>

text \<open>
  \<^bold>\<open>What the lemmas show.\<close> The parser accepts exactly guarded heads, parses what was sent whatever the
  network does, and ends in time; both servers' parsers agree on the same bytes. The writer cannot be
  made to inject a header, and what it streams is decoded to what was yielded. Slots of connections are
  neither lost nor duplicated under any interleaving, and the pool drains; the asyncio server serves
  pipelined requests in order. The two executions of a handler agree where they should, and the
  theorem on singletons shows where they race. Rate limits hold for both stores (the locale
  \<open>token_bucket\<close>), accepted tokens are signed, and a revocation is seen (\<open>revocation_list\<close>). Parser
  operations respect their time (\<open>timed_op\<close>); both kinds of hub connection deliver in order
  (\<open>client_connection\<close>). The remaining groups are round trips (tokens, forms, JSON, rows, frames, password
  hashes), safety of paths and pages, the typing of validated data, and compositions: a route behind
  \<^verbatim>\<open>require_auth\<close> from bytes to bytes, a cleanup through the queue, the login of the demo application. Where the code does
  something else than it means to, a theorem or an evaluated example states what it does.

  \<^bold>\<open>Interfaces.\<close> Each locale is interpreted on the model's own operations in the theory that provides
  them, and the properties rest on its facts.
\<close>

text \<open>
  \<^bold>\<open>Bounds and recursion.\<close> Loops over a buffer recurse on what is left of it or on the arrivals, with a
  measure; no fuel is involved. The loop of a connection counts its requests up to
  \<^verbatim>\<open>max_keepalive_requests\<close>. The JSON reader takes a bound on its depth, twice the length of the text and two,
  which is proved never to be reached. Dependencies and schemas recurse over the
  application's own callables and classes, which may be cyclic: their bound stands for Python's
  recursion limit and running out of it is the \<^verbatim>\<open>RecursionError\<close>. Integers read from text have at most
  4300 digits, as in Python; an asyncio stream holds at most 64 KiB of a line.

  \<^bold>\<open>Not modelled.\<close> Opening sockets and TLS contexts, creating directories and tables, and the text of log
  messages of the servers. The arguments of the command line are taken as \<^verbatim>\<open>argparse\<close> reads them;
  \<^verbatim>\<open>__init__.py\<close> re-exports and \<^verbatim>\<open>pubsub.py\<close> renames the hub. Route patterns with regular expression syntax other
  than a full stop, and dataclasses with a \<^verbatim>\<open>__post_init__\<close>, are outside the modelled fragment.
\<close>

end
